(* ===== verification/Kernel_Prelude.thy ===== *)
theory Kernel_Prelude
  imports Main "HOL-Library.Word" "HOL-Library.Multiset"
begin

text \<open>
  What every component of the development shares: the widths of the C integers the modules
  use, the kernel's error numbers, and the memory the drivers copy to and from. Memory is a
  list of bytes; every access is checked, and an access outside the list is \<^term>\<open>None\<close>,
  since in C it is undefined. The lemmas are collected in \<open>mem_simps\<close> (how reads and writes
  compose) so that the drivers' proofs are rewriting with them.
\<close>

unbundle bit_operations_syntax

named_theorems mem_simps "reads and writes of checked memory"

section \<open>C integers, pointers and error numbers\<close>

type_synonym u8 = "8 word"
type_synonym u16 = "16 word"
type_synonym u32 = "32 word"
type_synonym u64 = "64 word"
type_synonym ptr = nat
type_synonym bytes = "u8 list"

text \<open>
  Pointers are addresses; the null pointer is 0. The last 4095 addresses are error pointers:
  \<^verbatim>\<open>IS_ERR\<close> is true of them, and not of the null pointer.
\<close>

abbreviation (input) NULL :: ptr where "NULL \<equiv> 0"

abbreviation (input) EIO :: int where "EIO \<equiv> 5"
abbreviation (input) EAGAIN :: int where "EAGAIN \<equiv> 11"
abbreviation (input) ENOMEM :: int where "ENOMEM \<equiv> 12"
abbreviation (input) EFAULT :: int where "EFAULT \<equiv> 14"
abbreviation (input) EPERM :: int where "EPERM \<equiv> 1"
abbreviation (input) ESRCH :: int where "ESRCH \<equiv> 3"
abbreviation (input) EBUSY :: int where "EBUSY \<equiv> 16"
abbreviation (input) EINVAL :: int where "EINVAL \<equiv> 22"
abbreviation (input) ENOTTY :: int where "ENOTTY \<equiv> 25"
abbreviation (input) ERESTARTSYS :: int where "ERESTARTSYS \<equiv> 512"

text \<open>x86-64: a page is 4096 bytes.\<close>

definition PAGE_SIZE :: nat where
  "PAGE_SIZE = 4096"

text \<open>
  The implicit conversions of C: an \<^verbatim>\<open>unsigned long\<close> assigned to an \<^verbatim>\<open>int\<close> keeps its low
  32 bits, and an \<^verbatim>\<open>int\<close> compared with an \<^verbatim>\<open>unsigned long\<close> is sign-extended first.
\<close>

definition int_of_ulong :: "u64 \<Rightarrow> u32" where
  "int_of_ulong x = ucast x"

definition ulong_of_int :: "u32 \<Rightarrow> u64" where
  "ulong_of_int x = scast x"

definition IS_ERR :: "ptr \<Rightarrow> bool" where
  "IS_ERR p \<longleftrightarrow> 2 ^ 64 - 4095 \<le> p"

definition PTR_ERR :: "ptr \<Rightarrow> int" where
  "PTR_ERR p = (if p < 2 ^ 63 then int p else int p - 2 ^ 64)"

text \<open>How a program ends that may run into a fault.\<close>

datatype 'a outcome = Fault | Returns 'a

section \<open>Checked memory\<close>

definition mem_read :: "bytes \<Rightarrow> nat \<Rightarrow> nat \<Rightarrow> bytes option" where
  "mem_read m off n = (if off + n \<le> length m then Some (take n (drop off m)) else None)"

definition mem_splice :: "bytes \<Rightarrow> nat \<Rightarrow> bytes \<Rightarrow> bytes" where
  "mem_splice m off bs = take off m @ bs @ drop (off + length bs) m"

definition mem_write :: "bytes \<Rightarrow> nat \<Rightarrow> bytes \<Rightarrow> bytes option" where
  "mem_write m off bs = (if off + length bs \<le> length m then Some (mem_splice m off bs) else None)"

text \<open>\<^verbatim>\<open>memcpy(dst + doff, src + soff, n)\<close>, the new contents of the destination.\<close>

definition memcpy :: "bytes \<Rightarrow> nat \<Rightarrow> bytes \<Rightarrow> nat \<Rightarrow> nat \<Rightarrow> bytes option" where
  "memcpy dst doff src soff n =
     (case mem_read src soff n of None \<Rightarrow> None | Some bs \<Rightarrow> mem_write dst doff bs)"

section \<open>Numbers in memory\<close>

text \<open>32-bit and 64-bit numbers, least significant byte first.\<close>

definition le64 :: "u64 \<Rightarrow> bytes" where
  "le64 v = [ucast v, ucast (drop_bit 8 v), ucast (drop_bit 16 v), ucast (drop_bit 24 v),
             ucast (drop_bit 32 v), ucast (drop_bit 40 v), ucast (drop_bit 48 v), ucast (drop_bit 56 v)]"

definition le32 :: "u32 \<Rightarrow> bytes" where
  "le32 v = [ucast v, ucast (drop_bit 8 v), ucast (drop_bit 16 v), ucast (drop_bit 24 v)]"

lemma le64_length [simp]: "length (le64 v) = 8" "length (le32 x) = 4"
  by (simp_all add: le64_def le32_def)

section \<open>C strings\<close>

definition byte_of_char :: "char \<Rightarrow> u8" where
  "byte_of_char c = word_of_nat (of_char c)"

definition bytes_of_string :: "string \<Rightarrow> bytes" where
  "bytes_of_string s = map byte_of_char s"

text \<open>\<^verbatim>\<open>%d\<close> and \<^verbatim>\<open>%lu\<close> of \<^verbatim>\<open>printf\<close> on a number that is not negative.\<close>

definition digit_char :: "nat \<Rightarrow> char" where
  "digit_char d = ''0123456789'' ! (d mod 10)"

fun dec_string :: "nat \<Rightarrow> string" where
  "dec_string n = (if n < 10 then [digit_char n] else dec_string (n div 10) @ [digit_char (n mod 10)])"

declare dec_string.simps [simp del]

section \<open>Lemmas on checked memory\<close>

lemma mem_read_Some_iff [mem_simps]:
  "mem_read m off n = Some bs \<longleftrightarrow> off + n \<le> length m \<and> bs = take n (drop off m)"
  by (auto simp: mem_read_def)

lemma mem_write_Some_iff [mem_simps]:
  "mem_write m off bs = Some m' \<longleftrightarrow> off + length bs \<le> length m \<and> m' = mem_splice m off bs"
  by (auto simp: mem_write_def)

lemma length_mem_splice [simp]: "off + length bs \<le> length m \<Longrightarrow> length (mem_splice m off bs) = length m"
  by (simp add: mem_splice_def)

lemma mem_splice_Nil [simp]: "mem_splice m off [] = m"
  by (simp add: mem_splice_def)

lemma mem_splice_append:
  assumes "off + length xs + length ys \<le> length m"
  shows "mem_splice (mem_splice m off xs) (off + length xs) ys = mem_splice m off (xs @ ys)"
  using assms by (simp add: mem_splice_def ac_simps)

lemma take_drop_splice_same:
  "off + length bs \<le> length m \<Longrightarrow> take (length bs) (drop off (mem_splice m off bs)) = bs"
  by (simp add: mem_splice_def)

lemma take_drop_splice_before:
  "off + length bs \<le> length m \<Longrightarrow> p + n \<le> off \<Longrightarrow>
   take n (drop p (mem_splice m off bs)) = take n (drop p m)"
  by (auto simp: mem_splice_def drop_take min_def)

lemma take_drop_splice_after:
  "off + length bs \<le> length m \<Longrightarrow> off + length bs \<le> p \<Longrightarrow>
   take n (drop p (mem_splice m off bs)) = take n (drop p m)"
  by (simp add: mem_splice_def)

lemma take_drop_splice_other:
  "off + length bs \<le> length m \<Longrightarrow> p + n \<le> off \<or> off + length bs \<le> p \<Longrightarrow>
   take n (drop p (mem_splice m off bs)) = take n (drop p m)"
  by (auto simp: take_drop_splice_before take_drop_splice_after)

lemma nth_mem_splice:
  "off + length bs \<le> length m \<Longrightarrow> i < length m \<Longrightarrow>
   mem_splice m off bs ! i = (if off \<le> i \<and> i < off + length bs then bs ! (i - off) else m ! i)"
  by (auto simp: mem_splice_def nth_append min_def)

lemma memcpy_eq [mem_simps]:
  "memcpy dst doff src soff n =
     (if soff + n \<le> length src \<and> doff + n \<le> length dst
      then Some (mem_splice dst doff (take n (drop soff src))) else None)"
  by (auto simp: memcpy_def mem_read_def mem_write_def)

lemma length_bytes_of_string [simp]: "length (bytes_of_string s) = length s"
  by (simp add: bytes_of_string_def)

lemma bytes_of_string_inj: "bytes_of_string s = bytes_of_string t \<longleftrightarrow> s = t"
proof -
  have "inj byte_of_char"
  proof
    fix c d :: char
    assume "byte_of_char c = byte_of_char d"
    then have "unat (byte_of_char c) = unat (byte_of_char d)" by simp
    moreover have "of_char e < (256 :: nat)" for e :: char by (metis nat_of_char_less_256)
    ultimately have "(of_char c :: nat) = of_char d" by (simp add: byte_of_char_def unat_of_nat)
    then show "c = d" by simp
  qed
  then show ?thesis by (simp add: bytes_of_string_def inj_map_eq_map)
qed

section \<open>Lemmas on the C conversions\<close>

lemma IS_ERR_NULL [simp]: "\<not> IS_ERR 0"
  by (simp add: IS_ERR_def)

lemma IS_ERR_numeral [simp]: "IS_ERR (numeral n) \<longleftrightarrow> 18446744073709547521 \<le> (numeral n :: nat)"
  by (simp add: IS_ERR_def)

lemma unat_less_pow_64: "unat (x :: u64) < 18446744073709551616"
  using unsigned_less [of x] by simp

lemma unat_less_pow_32: "unat (x :: u32) < 4294967296"
  using unsigned_less [of x] by simp

lemma unat_mult_512:
  assumes "unat (s :: u64) < 2 ^ 55"
  shows "unat (s * 512) = unat s * 512"
  using assms by (simp add: unat_word_ariths)

lemma unat_of_nat_u64 [simp]: "n < 18446744073709551616 \<Longrightarrow> unat (of_nat n :: u64) = n"
  by (simp add: unat_of_nat)

lemma unat_ucast_u32_u64 [simp]: "unat (ucast (x :: u32) :: u64) = unat x"
proof -
  have "unat x < 2 ^ 64" using unsigned_less [of x] by (rule less_trans) simp
  then show ?thesis by (simp add: unsigned_ucast_eq take_bit_nat_eq_self)
qed

lemma sint_small:
  assumes "unat (x :: u32) < 2 ^ 31"
  shows "sint x = int (unat x)"
proof -
  from assms have "int (unat x) < int (2 ^ 31)" by (simp only: of_nat_less_iff)
  then have "uint x < 2 ^ 31" by simp
  moreover have "- (2 ^ 31) \<le> uint x" by (rule order_trans [OF _ uint_nonnegative]) simp
  ultimately have "signed_take_bit 31 (uint x) = uint x"
    by (intro signed_take_bit_int_eq_self) simp_all
  then show ?thesis by (simp add: sint_uint)
qed

lemma ulong_of_int_nonneg:
  assumes "unat (x :: u32) < 2 ^ 31"
  shows "unat (ulong_of_int x) = unat x"
proof -
  have "ulong_of_int x = word_of_int (sint x)" by (simp add: ulong_of_int_def)
  also have "\<dots> = ucast x" using sint_small [OF assms] by simp
  finally show ?thesis using assms by (simp add: unsigned_ucast_eq take_bit_nat_eq_self)
qed

lemma sint_large:
  assumes "2 ^ 31 \<le> unat (x :: u32)"
  shows "sint x = int (unat x) - 2 ^ 32"
proof -
  have lt: "uint x < 2 ^ 32" using uint_bounded [of x] by simp
  from assms have "int (2 ^ 31) \<le> int (unat x)" by (simp only: of_nat_le_iff)
  then have ge: "2 ^ 31 \<le> uint x" by simp
  have "uint x div 2 ^ 31 = 1" using lt ge by (intro div_pos_geq [THEN trans]) simp_all
  then have "bit (uint x) 31" by (simp add: bit_iff_odd)
  then show ?thesis using lt
    by (simp add: sint_uint signed_take_bit_eq_take_bit_minus take_bit_int_eq_self)
qed
lemma ulong_of_int_neg:
  assumes "2 ^ 31 \<le> unat (x :: u32)"
  shows "unat (ulong_of_int x) = unat x + (2 ^ 64 - 2 ^ 32)"
proof -
  have "ulong_of_int x = word_of_int (int (unat x) - 2 ^ 32)"
    using sint_large [OF assms] by (simp add: ulong_of_int_def scast_eq)
  then have "uint (ulong_of_int x) = (int (unat x) - 2 ^ 32) mod 2 ^ 64"
    by (simp only: uint_word_of_int) simp
  also have "\<dots> = (int (unat x) - 2 ^ 32 + 2 ^ 64) mod 2 ^ 64"
    by (rule mod_add_self2 [symmetric])
  also have "\<dots> = int (unat x) - 2 ^ 32 + 2 ^ 64"
    using uint_bounded [of x] by (intro mod_pos_pos_trivial) simp_all
  finally have "int (unat (ulong_of_int x)) = int (unat x + (2 ^ 64 - 2 ^ 32))" by simp
  then show ?thesis by (simp only: of_nat_eq_iff)
qed

lemma int_of_ulong_small:
  assumes "unat (x :: u64) < 2 ^ 32"
  shows "unat (int_of_ulong x) = unat x"
  using assms by (simp add: int_of_ulong_def unsigned_ucast_eq take_bit_eq_mod)

end
