(* ===== verification/Module_Lifecycle.thy ===== *)
theory Module_Lifecycle
  imports Kernel_Prelude
begin

text \<open>
  The kernel calls a module makes when it is loaded and unloaded, and the contract both have
  to keep. A module's init function is modelled as a function of the kernel's answers (the
  pointers and error codes its calls return) to its return value, the globals it leaves
  behind and the sequence of kernel calls it made; its exit function maps the globals to
  calls. \<open>kexec\<close> runs a sequence of calls over the multiset of resources the module holds:
  acquiring calls add to it, releasing calls take from it, and a call on something the
  module does not hold (a second free, a use after free, a null pointer) is \<^term>\<open>None\<close>.

  The locales \<open>unloadable\<close> and \<open>loadable\<close> are the contract: a loaded module gives back
  everything when it is unloaded, and a module whose init fails has given back everything
  already. Every module of the repository that keeps one of them is an interpretation.
\<close>

section \<open>Resources and kernel calls\<close>

datatype (plugins only: ) kres =
    RMem ptr            \<comment> \<open>\<^verbatim>\<open>kmalloc\<close>, \<^verbatim>\<open>kzalloc\<close>\<close>
  | RVmem ptr           \<comment> \<open>\<^verbatim>\<open>vmalloc\<close>\<close>
  | RPage ptr           \<comment> \<open>\<^verbatim>\<open>alloc_pages\<close>\<close>
  | RKmap ptr           \<comment> \<open>\<^verbatim>\<open>kmap\<close>\<close>
  | RReserved ptr       \<comment> \<open>\<^verbatim>\<open>SetPageReserved\<close>\<close>
  | RRegion nat         \<comment> \<open>\<^verbatim>\<open>alloc_chrdev_region\<close>\<close>
  | RCdev ptr           \<comment> \<open>\<^verbatim>\<open>cdev_alloc\<close>\<close>
  | RClass ptr          \<comment> \<open>\<^verbatim>\<open>class_create\<close>\<close>
  | RDevice ptr nat     \<comment> \<open>\<^verbatim>\<open>device_create\<close>\<close>
  | RMisc               \<comment> \<open>\<^verbatim>\<open>misc_register\<close>\<close>
  | RBlkdev int         \<comment> \<open>\<^verbatim>\<open>register_blkdev\<close>\<close>
  | RQueue ptr          \<comment> \<open>\<^verbatim>\<open>blk_init_queue\<close>, \<^verbatim>\<open>blk_alloc_queue\<close>\<close>
  | RDisk ptr           \<comment> \<open>\<^verbatim>\<open>alloc_disk\<close>\<close>
  | RLive ptr           \<comment> \<open>\<^verbatim>\<open>add_disk\<close>\<close>
  | RIrq int            \<comment> \<open>\<^verbatim>\<open>request_irq\<close>\<close>
  | RThread ptr         \<comment> \<open>\<^verbatim>\<open>kthread_run\<close>\<close>
  | RTimer ptr          \<comment> \<open>a timer or hrtimer that is armed\<close>
  | RNotifier ptr       \<comment> \<open>\<^verbatim>\<open>register_module_notifier\<close>\<close>
  | RCache ptr          \<comment> \<open>\<^verbatim>\<open>kmem_cache_create\<close>\<close>
  | RObj ptr ptr        \<comment> \<open>\<^verbatim>\<open>kmem_cache_alloc\<close>\<close>
  | RProbe              \<comment> \<open>\<^verbatim>\<open>register_kprobe\<close>\<close>
  | RIomap ptr          \<comment> \<open>\<^verbatim>\<open>ioremap\<close>\<close>
  | RMemRegion nat nat  \<comment> \<open>\<^verbatim>\<open>request_mem_region\<close>\<close>
  | RKobj ptr           \<comment> \<open>a kobject that is linked into sysfs\<close>
  | RKref ptr           \<comment> \<open>a reference to a kobject that the kernel allocated\<close>
  | RKset ptr           \<comment> \<open>\<^verbatim>\<open>kset_create_and_add\<close>\<close>
  | RSysfs ptr          \<comment> \<open>\<^verbatim>\<open>sysfs_create_file\<close>\<close>

datatype (plugins only: ) kcall =
    Kmalloc ptr | Kzalloc ptr | Kfree ptr
  | Vmalloc ptr | Vfree ptr
  | Alloc_pages ptr | Free_pages ptr
  | Kmap ptr | Kunmap ptr
  | SetPageReserved ptr | ClearPageReserved ptr
  | Alloc_chrdev_region int nat | Unregister_chrdev_region nat
  | Cdev_alloc ptr | Cdev_init ptr | Cdev_add ptr nat int | Cdev_del ptr
  | Class_create ptr | Class_destroy ptr
  | Device_create ptr nat | Device_destroy ptr nat
  | Misc_register int | Misc_deregister
  | Register_blkdev int | Unregister_blkdev int
  | Blk_init_queue ptr | Blk_alloc_queue ptr | Blk_queue_make_request ptr | Blk_cleanup_queue ptr
  | Alloc_disk ptr | Add_disk ptr | Del_gendisk ptr | Put_disk ptr
  | Request_irq int int | Synchronize_irq int | Free_irq int
  | Kthread_run ptr | Kthread_stop ptr
  | Do_exit ptr         \<comment> \<open>a thread of the module ends itself; its task is gone then\<close>
  | Add_timer ptr | Del_timer ptr | Del_timer_sync ptr
  | Tasklet_init ptr | Tasklet_kill ptr
  | Register_module_notifier ptr | Unregister_module_notifier ptr
  | Kmem_cache_create ptr | Kmem_cache_destroy ptr
  | Kmem_cache_alloc ptr ptr | Kmem_cache_free ptr ptr
  | Register_kprobe int | Unregister_kprobe
  | Ioremap ptr | Iounmap ptr | Release_mem_region nat nat
  | Kobject_create_and_add ptr | Kobject_init_and_add ptr int | Kobject_del ptr
  | Kset_create_and_add ptr | Kset_unregister ptr
  | Sysfs_create_file ptr int | Sysfs_remove_file ptr
  | Deref ptr           \<comment> \<open>the module reads or writes through a pointer to slab memory\<close>

text \<open>
  What a call acquires: nothing when the kernel answered with a null pointer or an error.
  \<^verbatim>\<open>class_create\<close> and \<^verbatim>\<open>kthread_run\<close> answer with an error pointer.
\<close>

definition kacq :: "kcall \<Rightarrow> kres multiset" where
  "kacq c = (case c of
      Kmalloc p \<Rightarrow> (if p = NULL then {#} else {#RMem p#})
    | Kzalloc p \<Rightarrow> (if p = NULL then {#} else {#RMem p#})
    | Vmalloc p \<Rightarrow> (if p = NULL then {#} else {#RVmem p#})
    | Alloc_pages p \<Rightarrow> (if p = NULL then {#} else {#RPage p#})
    | Kmap p \<Rightarrow> {#RKmap p#}
    | SetPageReserved p \<Rightarrow> {#RReserved p#}
    | Alloc_chrdev_region r d \<Rightarrow> (if r < 0 then {#} else {#RRegion d#})
    | Cdev_alloc p \<Rightarrow> (if p = NULL then {#} else {#RCdev p#})
    | Class_create p \<Rightarrow> (if p = NULL \<or> IS_ERR p then {#} else {#RClass p#})
    | Device_create c d \<Rightarrow> {#RDevice c d#}
    | Misc_register r \<Rightarrow> (if r = 0 then {#RMisc#} else {#})
    | Register_blkdev r \<Rightarrow> (if r < 0 then {#} else {#RBlkdev r#})
    | Blk_init_queue p \<Rightarrow> (if p = NULL then {#} else {#RQueue p#})
    | Blk_alloc_queue p \<Rightarrow> (if p = NULL then {#} else {#RQueue p#})
    | Alloc_disk p \<Rightarrow> (if p = NULL then {#} else {#RDisk p#})
    | Add_disk p \<Rightarrow> {#RLive p#}
    | Request_irq i r \<Rightarrow> (if r = 0 then {#RIrq i#} else {#})
    | Kthread_run p \<Rightarrow> (if p = NULL \<or> IS_ERR p then {#} else {#RThread p#})
    | Add_timer p \<Rightarrow> {#RTimer p#}
    | Register_module_notifier p \<Rightarrow> {#RNotifier p#}
    | Kmem_cache_create p \<Rightarrow> (if p = NULL then {#} else {#RCache p#})
    | Kmem_cache_alloc c p \<Rightarrow> (if p = NULL then {#} else {#RObj c p#})
    | Register_kprobe r \<Rightarrow> (if r < 0 then {#} else {#RProbe#})
    | Ioremap p \<Rightarrow> (if p = NULL then {#} else {#RIomap p#})
    | Kobject_create_and_add p \<Rightarrow> (if p = NULL then {#} else {#RKobj p, RKref p#})
    | Kobject_init_and_add p r \<Rightarrow> (if r = 0 then {#RKobj p#} else {#})
    | Kset_create_and_add p \<Rightarrow> (if p = NULL then {#} else {#RKset p#})
    | Sysfs_create_file p r \<Rightarrow> (if r = 0 then {#RSysfs p#} else {#})
    | _ \<Rightarrow> {#})"

text \<open>
  What a call gives back. \<^verbatim>\<open>kfree\<close>, \<^verbatim>\<open>vfree\<close>, \<^verbatim>\<open>kmem_cache_destroy\<close>, \<^verbatim>\<open>iounmap\<close>, \<^verbatim>\<open>kobject_del\<close>
  and \<^verbatim>\<open>kset_unregister\<close> of a null pointer do nothing; every other releasing call needs the thing it
  releases. Deleting a timer that is not armed does nothing, so \<^verbatim>\<open>del_timer\<close> is treated apart in
  \<open>kstep\<close>.
\<close>

definition krel :: "kcall \<Rightarrow> kres multiset" where
  "krel c = (case c of
      Kfree p \<Rightarrow> (if p = NULL then {#} else {#RMem p#})
    | Vfree p \<Rightarrow> (if p = NULL then {#} else {#RVmem p#})
    | Free_pages p \<Rightarrow> {#RPage p#}
    | Kunmap p \<Rightarrow> {#RKmap p#}
    | ClearPageReserved p \<Rightarrow> {#RReserved p#}
    | Unregister_chrdev_region d \<Rightarrow> {#RRegion d#}
    | Cdev_del p \<Rightarrow> {#RCdev p#}
    | Class_destroy p \<Rightarrow> {#RClass p#}
    | Device_destroy c d \<Rightarrow> {#RDevice c d#}
    | Misc_deregister \<Rightarrow> {#RMisc#}
    | Unregister_blkdev m \<Rightarrow> {#RBlkdev m#}
    | Blk_cleanup_queue p \<Rightarrow> {#RQueue p#}
    | Del_gendisk p \<Rightarrow> {#RLive p#}
    | Put_disk p \<Rightarrow> {#RDisk p#}
    | Free_irq i \<Rightarrow> {#RIrq i#}
    | Kthread_stop p \<Rightarrow> {#RThread p#}
    | Do_exit p \<Rightarrow> {#RThread p#}
    | Unregister_module_notifier p \<Rightarrow> {#RNotifier p#}
    | Kmem_cache_destroy p \<Rightarrow> (if p = NULL then {#} else {#RCache p#})
    | Kmem_cache_free c p \<Rightarrow> {#RObj c p#}
    | Unregister_kprobe \<Rightarrow> {#RProbe#}
    | Iounmap p \<Rightarrow> (if p = NULL then {#} else {#RIomap p#})
    | Release_mem_region a n \<Rightarrow> {#RMemRegion a n#}
    | Kobject_del p \<Rightarrow> (if p = NULL then {#} else {#RKobj p#})
    | Kset_unregister p \<Rightarrow> (if p = NULL then {#} else {#RKset p#})
    | Sysfs_remove_file p \<Rightarrow> {#RSysfs p#}
    | _ \<Rightarrow> {#})"

text \<open>What a call needs to be held without giving it back.\<close>

definition kuse :: "kcall \<Rightarrow> kres multiset" where
  "kuse c = (case c of
      Kmap p \<Rightarrow> {#RPage p#}
    | SetPageReserved p \<Rightarrow> {#RPage p#}
    | Cdev_init p \<Rightarrow> {#RCdev p#}
    | Cdev_add p d r \<Rightarrow> {#RCdev p, RRegion d#}
    | Device_create c d \<Rightarrow> {#RClass c#}
    | Blk_queue_make_request p \<Rightarrow> {#RQueue p#}
    | Add_disk p \<Rightarrow> {#RDisk p#}
    | Register_module_notifier p \<Rightarrow> {#RMem p#}
    | Kmem_cache_alloc c p \<Rightarrow> {#RCache c#}
    | Kmem_cache_free c p \<Rightarrow> {#RCache c#}
    | Deref p \<Rightarrow> {#RMem p#}
    | Kobject_init_and_add p r \<Rightarrow> {#RMem p#}
    | Sysfs_create_file p r \<Rightarrow> {#RKobj p#}
    | _ \<Rightarrow> {#})"

definition kstep :: "kcall \<Rightarrow> kres multiset \<Rightarrow> kres multiset option" where
  "kstep c H = (case c of
      Del_timer p \<Rightarrow> Some (H - {#RTimer p#})
    | Del_timer_sync p \<Rightarrow> Some (H - {#RTimer p#})
    | _ \<Rightarrow> (if kuse c \<subseteq># H \<and> krel c \<subseteq># H then Some (H - krel c + kacq c) else None))"

fun kexec :: "kres multiset \<Rightarrow> kcall list \<Rightarrow> kres multiset option" where
  "kexec H [] = Some H"
| "kexec H (c # cs) = (case kstep c H of None \<Rightarrow> None | Some H' \<Rightarrow> kexec H' cs)"

text \<open>What a module does: its return value, its globals, and the calls it made.\<close>

type_synonym 's loaded = "int \<times> 's \<times> kcall list"

text \<open>
  \<^verbatim>\<open>insmod\<close> and \<^verbatim>\<open>rmmod\<close> in turn: a module whose init returns a negative number is not loaded,
  so its exit function is not called.
\<close>

definition load_unload :: "('env \<Rightarrow> 's loaded) \<Rightarrow> ('s \<Rightarrow> kcall list) \<Rightarrow> 'env \<Rightarrow> kcall list" where
  "load_unload init exit e =
     (case init e of (r, s, tr) \<Rightarrow> if r < 0 then tr else tr @ exit s)"

section \<open>Running sequences of calls\<close>

named_theorems kcall_simps "evaluation of kernel calls over the resources held"

lemmas [kcall_simps] = kacq_def krel_def kuse_def kstep_def

lemma kexec_append [simp]:
  "kexec H (cs @ ds) = (case kexec H cs of None \<Rightarrow> None | Some H' \<Rightarrow> kexec H' ds)"
  by (induction cs arbitrary: H) (auto split: option.splits)

section \<open>The contract of a module\<close>

locale unloadable =
  fixes init :: "'env \<Rightarrow> 's loaded"
    and exit :: "'s \<Rightarrow> kcall list"
    and ok :: "'env \<Rightarrow> bool"
  assumes unload_releases:
    "ok e \<Longrightarrow> init e = (r, s, tr) \<Longrightarrow> 0 \<le> r \<Longrightarrow> kexec {#} (tr @ exit s) = Some {#}"
begin

text \<open>Loading and unloading any number of times, each load successful, leaves nothing behind.\<close>

lemma unload_cycles:
  assumes "\<And>e. e \<in> set es \<Longrightarrow> ok e \<and> 0 \<le> fst (init e)"
  shows "kexec {#} (concat (map (load_unload init exit) es)) = Some {#}"
  using assms
proof (induction es)
  case Nil
  then show ?case by simp
next
  case (Cons e es)
  obtain r s tr where i: "init e = (r, s, tr)" by (cases "init e") auto
  with Cons.prems [of e] have "ok e" "0 \<le> r" by auto
  with i have "kexec {#} (load_unload init exit e) = Some {#}"
    using unload_releases [of e r s tr] by (simp add: load_unload_def)
  moreover have "kexec {#} (concat (map (load_unload init exit) es)) = Some {#}"
    using Cons by simp
  ultimately show ?case by simp
qed

end

locale loadable = unloadable +
  assumes failed_load_releases:
    "ok e \<Longrightarrow> init e = (r, s, tr) \<Longrightarrow> r < 0 \<Longrightarrow> kexec {#} tr = Some {#}"
begin

text \<open>
  With the failure paths clean too, no sequence of load attempts, whatever the kernel
  answers, leaves anything behind.
\<close>

lemma load_attempts:
  assumes "\<And>e. e \<in> set es \<Longrightarrow> ok e"
  shows "kexec {#} (concat (map (load_unload init exit) es)) = Some {#}"
  using assms
proof (induction es)
  case Nil
  then show ?case by simp
next
  case (Cons e es)
  obtain r s tr where i: "init e = (r, s, tr)" by (cases "init e") auto
  have "kexec {#} (load_unload init exit e) = Some {#}"
    using unload_releases [of e r s tr] failed_load_releases [of e r s tr] i Cons.prems [of e]
    by (cases "r < 0") (simp_all add: load_unload_def)
  moreover have "kexec {#} (concat (map (load_unload init exit) es)) = Some {#}"
    using Cons by simp
  ultimately show ?case by simp
qed

end

end
