(* ===== verification/Block_Layer.thy ===== *)
theory Block_Layer
  imports Module_Lifecycle
begin

text \<open>
  What the three RAM disks share: the segments of a request (\<^verbatim>\<open>struct bio_vec\<close>), the pages
  they point into, and the transfer of a request's segments to or from the disk's memory.
  The page contents are an explicit store from page addresses to bytes, since two segments
  of one request may share a page.

  The locale \<open>segment_io\<close> is the interface between a driver's per-segment copy and the
  request as a whole. Its two laws say what one copy does; its lemmas show, once for all
  drivers, that copying segment after segment is one contiguous transfer: a write puts the
  concatenation of the segments (\<open>gather\<close>) on the disk, a read distributes one contiguous
  piece of the disk over the segments (\<open>scatter\<close>), and a read after a write of the same
  range returns what was written.
\<close>

record bio_vec =
  bv_page :: ptr
  bv_len :: u32
  bv_offset :: u32

type_synonym pages = "ptr \<Rightarrow> bytes"

datatype fault = OutOfBounds | BugOn

abbreviation (input) READ :: int where "READ \<equiv> 0"
abbreviation (input) WRITE :: int where "WRITE \<equiv> 1"

text \<open>
  \<^verbatim>\<open>struct hd_geometry\<close> and the table of a disk's operations; an operation gets the start sector
  of the block device and, for the \<^verbatim>\<open>ioctl\<close>, the command and its argument, and returns what it
  copied to the user. An absent \<^verbatim>\<open>ioctl\<close> is answered by the kernel.
\<close>

record hd_geometry =
  geo_heads :: u8
  geo_sectors :: u8
  geo_cylinders :: u16
  geo_start :: u64

record block_device_operations =
  bd_open :: "(u64 \<Rightarrow> u32 \<Rightarrow> int) option"
  bd_release :: "(u64 \<Rightarrow> u32 \<Rightarrow> int) option"
  bd_ioctl :: "(u64 \<Rightarrow> u32 \<Rightarrow> u64 \<Rightarrow> int \<times> hd_geometry option) option"

definition blkdev_ioctl :: "block_device_operations \<Rightarrow> u64 \<Rightarrow> u32 \<Rightarrow> u64 \<Rightarrow> int \<times> hd_geometry option" where
  "blkdev_ioctl ops start cmd arg =
     (case bd_ioctl ops of None \<Rightarrow> (- ENOTTY, None) | Some f \<Rightarrow> f start cmd arg)"

text \<open>The bytes of a segment, of all segments, and the pages after filling them.\<close>

definition seg_bytes :: "pages \<Rightarrow> bio_vec \<Rightarrow> bytes" where
  "seg_bytes pg b = take (unat (bv_len b)) (drop (unat (bv_offset b)) (pg (bv_page b)))"

definition gather :: "pages \<Rightarrow> bio_vec list \<Rightarrow> bytes" where
  "gather pg segs = concat (map (seg_bytes pg) segs)"

definition fill_seg :: "pages \<Rightarrow> bio_vec \<Rightarrow> bytes \<Rightarrow> pages" where
  "fill_seg pg b xs = pg(bv_page b := mem_splice (pg (bv_page b)) (unat (bv_offset b)) xs)"

fun scatter :: "pages \<Rightarrow> bio_vec list \<Rightarrow> bytes \<Rightarrow> pages" where
  "scatter pg [] xs = pg"
| "scatter pg (b # bs) xs =
     scatter (fill_seg pg b (take (unat (bv_len b)) xs)) bs (drop (unat (bv_len b)) xs)"

definition segs_len :: "bio_vec list \<Rightarrow> nat" where
  "segs_len segs = sum_list (map (unat \<circ> bv_len) segs)"

text \<open>Every segment lies inside its page.\<close>

definition seg_ok :: "pages \<Rightarrow> bio_vec \<Rightarrow> bool" where
  "seg_ok pg b \<longleftrightarrow> unat (bv_offset b) + unat (bv_len b) \<le> length (pg (bv_page b))"

definition segs_ok :: "pages \<Rightarrow> bio_vec list \<Rightarrow> bool" where
  "segs_ok pg segs \<longleftrightarrow> list_all (seg_ok pg) segs"

text \<open>Two segments do not share a byte; no two segments of a request do.\<close>

definition seg_disjoint :: "bio_vec \<Rightarrow> bio_vec \<Rightarrow> bool" where
  "seg_disjoint a b \<longleftrightarrow> bv_page a \<noteq> bv_page b \<or>
     unat (bv_offset a) + unat (bv_len a) \<le> unat (bv_offset b) \<or>
     unat (bv_offset b) + unat (bv_len b) \<le> unat (bv_offset a)"

fun segs_disjoint :: "bio_vec list \<Rightarrow> bool" where
  "segs_disjoint [] = True"
| "segs_disjoint (b # bs) = (list_all (seg_disjoint b) bs \<and> segs_disjoint bs)"

text \<open>A transfer segment by segment, for a driver's way of copying one segment.\<close>

fun xfer_all ::
  "(bool \<Rightarrow> 'd \<Rightarrow> nat \<Rightarrow> bytes \<Rightarrow> nat \<Rightarrow> nat \<Rightarrow> ('d \<times> bytes) option) \<Rightarrow>
   bool \<Rightarrow> 'd \<Rightarrow> pages \<Rightarrow> nat \<Rightarrow> bio_vec list \<Rightarrow> ('d \<times> pages) option" where
  "xfer_all xfer w d pg p [] = Some (d, pg)"
| "xfer_all xfer w d pg p (b # bs) =
     (case xfer w d p (pg (bv_page b)) (unat (bv_offset b)) (unat (bv_len b)) of
        None \<Rightarrow> None
      | Some (d', page') \<Rightarrow>
          xfer_all xfer w d' (pg(bv_page b := page')) (p + unat (bv_len b)) bs)"

section \<open>Segments and pages\<close>

lemma segs_len_simps [simp]:
  "segs_len [] = 0"
  "segs_len (b # bs) = unat (bv_len b) + segs_len bs"
  by (simp_all add: segs_len_def)

lemma segs_ok_simps [simp]:
  "segs_ok pg []"
  "segs_ok pg (b # bs) \<longleftrightarrow> seg_ok pg b \<and> segs_ok pg bs"
  by (simp_all add: segs_ok_def)

lemma gather_simps [simp]:
  "gather pg [] = []"
  "gather pg (b # bs) = seg_bytes pg b @ gather pg bs"
  by (simp_all add: gather_def)

lemma length_seg_bytes [simp]: "seg_ok pg b \<Longrightarrow> length (seg_bytes pg b) = unat (bv_len b)"
  by (simp add: seg_bytes_def seg_ok_def)

lemma length_gather [simp]: "segs_ok pg segs \<Longrightarrow> length (gather pg segs) = segs_len segs"
  by (induction segs) simp_all

lemma seg_ok_fill_seg [simp]:
  assumes "seg_ok pg b" and "length xs = unat (bv_len b)"
  shows "seg_ok (fill_seg pg b xs) c = seg_ok pg c"
  using assms by (simp add: seg_ok_def fill_seg_def)

lemma segs_ok_fill_seg [simp]:
  assumes "seg_ok pg b" and "length xs = unat (bv_len b)"
  shows "segs_ok (fill_seg pg b xs) segs = segs_ok pg segs"
  using assms by (simp add: segs_ok_def list_all_iff)

lemma seg_bytes_fill_same:
  assumes "seg_ok pg b" and "length xs = unat (bv_len b)"
  shows "seg_bytes (fill_seg pg b xs) b = xs"
  using assms take_drop_splice_same [of "unat (bv_offset b)" xs "pg (bv_page b)"]
  by (simp add: seg_bytes_def fill_seg_def seg_ok_def)

lemma seg_bytes_fill_other:
  assumes "seg_ok pg b" and "length xs = unat (bv_len b)" and "seg_disjoint b c"
  shows "seg_bytes (fill_seg pg b xs) c = seg_bytes pg c"
proof (cases "bv_page c = bv_page b")
  case True
  with assms show ?thesis
    by (auto simp: seg_bytes_def fill_seg_def seg_ok_def seg_disjoint_def
        intro!: take_drop_splice_other)
next
  case False
  then show ?thesis by (simp add: seg_bytes_def fill_seg_def)
qed

text \<open>Filling later segments does not disturb a segment that is disjoint from all of them.\<close>

lemma seg_bytes_scatter_other:
  assumes "segs_ok pg segs" and "length xs = segs_len segs" and "list_all (seg_disjoint c) segs"
  shows "seg_bytes (scatter pg segs xs) c = seg_bytes pg c"
  using assms
proof (induction segs arbitrary: pg xs)
  case Nil
  then show ?case by simp
next
  case (Cons b segs)
  have "seg_disjoint b c"
    using Cons.prems(3) by (auto simp: seg_disjoint_def)
  with Cons show ?case by (simp add: seg_bytes_fill_other)
qed

lemma gather_scatter:
  assumes "segs_ok pg segs" and "length xs = segs_len segs" and "segs_disjoint segs"
  shows "gather (scatter pg segs xs) segs = xs"
  using assms
proof (induction segs arbitrary: pg xs)
  case Nil
  then show ?case by simp
next
  case (Cons b segs)
  let ?x = "take (unat (bv_len b)) xs" and ?pg = "fill_seg pg b (take (unat (bv_len b)) xs)"
  have "seg_bytes (scatter ?pg segs (drop (unat (bv_len b)) xs)) b = ?x"
    using Cons.prems by (simp add: seg_bytes_scatter_other seg_bytes_fill_same)
  then show ?case
    using Cons by simp
qed

lemma segs_ok_scatter [simp]:
  assumes "segs_ok pg segs" and "length xs = segs_len segs"
  shows "segs_ok (scatter pg segs xs) bs = segs_ok pg bs"
  using assms by (induction segs arbitrary: pg xs) simp_all

section \<open>From one segment to the whole request\<close>

locale segment_io =
  fixes xfer :: "bool \<Rightarrow> 'd \<Rightarrow> nat \<Rightarrow> bytes \<Rightarrow> nat \<Rightarrow> nat \<Rightarrow> ('d \<times> bytes) option"
    and content :: "'d \<Rightarrow> bytes"
    and set_content :: "'d \<Rightarrow> bytes \<Rightarrow> 'd"
    and inv :: "'d \<Rightarrow> bool"
  assumes xfer_write:
    "inv d \<Longrightarrow> off + n \<le> length page \<Longrightarrow> p + n \<le> length (content d) \<Longrightarrow>
     xfer True d p page off n =
       Some (set_content d (mem_splice (content d) p (take n (drop off page))), page)"
    and xfer_read:
    "inv d \<Longrightarrow> off + n \<le> length page \<Longrightarrow> p + n \<le> length (content d) \<Longrightarrow>
     xfer False d p page off n = Some (d, mem_splice page off (take n (drop p (content d))))"
    and content_set: "content (set_content d m) = m"
    and set_set: "set_content (set_content d m) m' = set_content d m'"
    and set_same: "set_content d (content d) = d"
    and inv_set: "inv d \<Longrightarrow> length m = length (content d) \<Longrightarrow> inv (set_content d m)"
begin

lemma write_all:
  assumes "inv d" and "segs_ok pg segs" and "p + segs_len segs \<le> length (content d)"
  shows "xfer_all xfer True d pg p segs =
           Some (set_content d (mem_splice (content d) p (gather pg segs)), pg)"
  using assms
proof (induction segs arbitrary: d p)
  case Nil
  then show ?case by (simp add: set_same)
next
  case (Cons b segs)
  let ?d = "set_content d (mem_splice (content d) p (seg_bytes pg b))"
  have "xfer True d p (pg (bv_page b)) (unat (bv_offset b)) (unat (bv_len b)) =
          Some (?d, pg (bv_page b))"
    using Cons.prems by (simp add: xfer_write seg_ok_def seg_bytes_def)
  moreover have "mem_splice (mem_splice (content d) p (seg_bytes pg b)) (p + unat (bv_len b))
      (gather pg segs) = mem_splice (content d) p (seg_bytes pg b @ gather pg segs)"
    using Cons.prems mem_splice_append [of p "seg_bytes pg b" "gather pg segs" "content d"] by simp
  ultimately show ?case
    using Cons by (simp add: content_set set_set inv_set)
qed

lemma read_all:
  assumes "inv d" and "segs_ok pg segs" and "p + segs_len segs \<le> length (content d)"
  shows "xfer_all xfer False d pg p segs =
           Some (d, scatter pg segs (take (segs_len segs) (drop p (content d))))"
  using assms
proof (induction segs arbitrary: pg p)
  case Nil
  then show ?case by simp
next
  case (Cons b segs)
  let ?n = "unat (bv_len b)"
  have "xfer False d p (pg (bv_page b)) (unat (bv_offset b)) ?n =
          Some (d, mem_splice (pg (bv_page b)) (unat (bv_offset b)) (take ?n (drop p (content d))))"
    using Cons.prems by (simp add: xfer_read seg_ok_def)
  moreover have "drop ?n (take (?n + segs_len segs) (drop p (content d))) =
                 take (segs_len segs) (drop (p + ?n) (content d))"
    by (simp add: drop_take add.commute)
  ultimately show ?case
    using Cons by (simp add: fill_seg_def [symmetric])
qed

text \<open>A read of a range that was just written fills its segments with what was written.\<close>

lemma read_after_write:
  assumes "inv d" and "segs_ok pg ws" and "p + segs_len ws \<le> length (content d)"
    and "segs_ok pg rs" and "segs_disjoint rs" and "segs_len rs = segs_len ws"
  obtains d' pg' where "xfer_all xfer True d pg p ws = Some (d', pg)"
    and "xfer_all xfer False d' pg p rs = Some (d', pg')"
    and "gather pg' rs = gather pg ws"
proof
  let ?d = "set_content d (mem_splice (content d) p (gather pg ws))"
  let ?xs = "take (segs_len rs) (drop p (content ?d))"
  show "xfer_all xfer True d pg p ws = Some (?d, pg)"
    using assms by (simp add: write_all)
  show "xfer_all xfer False ?d pg p rs = Some (?d, scatter pg rs ?xs)"
    using assms by (simp add: read_all content_set inv_set)
  have "?xs = gather pg ws"
    using assms take_drop_splice_same [of p "gather pg ws" "content d"] by (simp add: content_set)
  then show "gather (scatter pg rs ?xs) rs = gather pg ws"
    using assms by (simp add: gather_scatter)
qed

end

end
