(* ===== verification/Sample_Blk.thy ===== *)
theory Sample_Blk
  imports Block_Layer
begin

text \<open>
  The sample block driver, \<^verbatim>\<open>ramdisk-lab/sample_blk.c\<close>: the device structure and its
  construction with the error labels of \<open>sampleblk_alloc\<close>, the removal, and the request
  function that drains the queue. The block layer's queue is a parameter: \<open>fetch\<close> stands for
  \<^verbatim>\<open>blk_fetch_request\<close>, and a request is the data the driver reads from \<^verbatim>\<open>struct request\<close>.
\<close>

section \<open>The driver\<close>

definition SAMPLEBLK_MINOR :: nat where "SAMPLEBLK_MINOR = 1"
definition sampleblk_sect_size :: u32 where "sampleblk_sect_size = 512"
definition sampleblk_nsects :: u32 where "sampleblk_nsects = 100 * 1024"

record sampleblk_dev =
  minor :: nat
  queue :: ptr
  disk :: ptr
  size :: u64
  data :: ptr

text \<open>What the driver stores into the \<^verbatim>\<open>struct gendisk\<close> the kernel gave it.\<close>

record gendisk =
  gd_major :: int
  gd_first_minor :: nat
  gd_private_data :: ptr
  gd_queue :: ptr
  gd_disk_name :: string
  gd_capacity :: u64

text \<open>The module's globals, with the structure behind the pointer \<^verbatim>\<open>sampleblk_dev\<close>.\<close>

record sampleblk_globals =
  sampleblk_major :: int
  sampleblk_dev_ptr :: ptr
  sampleblk_dev_obj :: sampleblk_dev
  sampleblk_disk :: "gendisk option"

text \<open>The kernel's answers to the calls of \<open>sampleblk_init\<close>.\<close>

record sampleblk_answers =
  an_major :: int       \<comment> \<open>\<^verbatim>\<open>register_blkdev\<close>\<close>
  an_kzalloc :: ptr
  an_vmalloc :: ptr
  an_queue :: ptr       \<comment> \<open>\<^verbatim>\<open>blk_init_queue\<close>\<close>
  an_disk :: ptr        \<comment> \<open>\<^verbatim>\<open>alloc_disk\<close>\<close>

definition zero_dev :: sampleblk_dev where
  "zero_dev = \<lparr>minor = 0, queue = NULL, disk = NULL, size = 0, data = NULL\<rparr>"

definition sampleblk_alloc ::
  "sampleblk_answers \<Rightarrow> nat \<Rightarrow> sampleblk_globals \<Rightarrow> sampleblk_globals loaded" where
  "sampleblk_alloc a mn g =
     (let p = an_kzalloc a; g = g\<lparr>sampleblk_dev_ptr := p\<rparr>; tr = [Kzalloc p] in
      if p = NULL then (- ENOMEM, g, tr)
      else
        let v = an_vmalloc a;
            dev = zero_dev\<lparr>size := ulong_of_int (sampleblk_sect_size * sampleblk_nsects),
                           data := v\<rparr>;
            tr = tr @ [Deref p, Vmalloc v] in
        if v = NULL then (- ENOMEM, g\<lparr>sampleblk_dev_obj := dev\<rparr>, tr @ [Kfree p])
        else
          let q = an_queue a;
              dev = dev\<lparr>minor := mn, queue := q\<rparr>;
              tr = tr @ [Blk_init_queue q] in
          if q = NULL then (- ENOMEM, g\<lparr>sampleblk_dev_obj := dev\<rparr>, tr @ [Vfree v, Kfree p])
          else
            let dk = an_disk a; tr = tr @ [Alloc_disk dk] in
            if dk = NULL
            then (- ENOMEM, g\<lparr>sampleblk_dev_obj := dev\<rparr>,
                  tr @ [Blk_cleanup_queue q, Vfree v, Kfree p])
            else
              let dev = dev\<lparr>disk := dk\<rparr>;
                  gd = \<lparr>gd_major = sampleblk_major g, gd_first_minor = mn,
                        gd_private_data = p, gd_queue = q,
                        gd_disk_name = ''sampleblk'' @ dec_string mn,
                        gd_capacity = ulong_of_int sampleblk_nsects\<rparr> in
              (0, g\<lparr>sampleblk_dev_obj := dev, sampleblk_disk := Some gd\<rparr>, tr @ [Add_disk dk]))"

definition sampleblk_free :: "ptr \<Rightarrow> sampleblk_dev \<Rightarrow> kcall list" where
  "sampleblk_free p dev =
     [Deref p, Del_gendisk (disk dev), Blk_cleanup_queue (queue dev), Put_disk (disk dev),
      Vfree (data dev), Kfree p]"

definition sampleblk_init :: "sampleblk_answers \<Rightarrow> sampleblk_globals loaded" where
  "sampleblk_init a =
     (let g = \<lparr>sampleblk_major = an_major a, sampleblk_dev_ptr = NULL,
               sampleblk_dev_obj = zero_dev, sampleblk_disk = None\<rparr>;
          tr = [Register_blkdev (an_major a)] in
      if an_major a < 0 then (an_major a, g, tr)
      else case sampleblk_alloc a SAMPLEBLK_MINOR g of (rv, g', tr') \<Rightarrow> (0, g', tr @ tr'))"

definition sampleblk_exit :: "sampleblk_globals \<Rightarrow> kcall list" where
  "sampleblk_exit g =
     sampleblk_free (sampleblk_dev_ptr g) (sampleblk_dev_obj g) @
     [Unregister_blkdev (sampleblk_major g)]"

section \<open>The request function\<close>

record request =
  rq_id :: nat
  rq_private_data :: ptr        \<comment> \<open>\<^verbatim>\<open>rq->rq_disk->private_data\<close>\<close>
  blk_rq_pos :: u64
  blk_rq_bytes :: u32
  rq_data_dir :: int
  rq_segments :: "bio_vec list"

record sampleblk_state =
  st_ptr :: ptr                 \<comment> \<open>the global \<^verbatim>\<open>sampleblk_dev\<close>\<close>
  st_dev :: sampleblk_dev
  st_data :: bytes              \<comment> \<open>the memory at \<^verbatim>\<open>sampleblk_dev->data\<close>\<close>
  st_pages :: pages
  st_kmapped :: "ptr multiset"
  st_locked :: bool             \<comment> \<open>\<^verbatim>\<open>q->queue_lock\<close>\<close>
  st_completed :: "(nat \<times> int) list" \<comment> \<open>\<^verbatim>\<open>blk_end_request_all\<close> calls\<close>

definition sampleblk_handle_io ::
  "bytes \<Rightarrow> u64 \<Rightarrow> u64 \<Rightarrow> bytes \<Rightarrow> nat \<Rightarrow> int \<Rightarrow> fault + (int \<times> bytes \<times> bytes)" where
  "sampleblk_handle_io dat pos sz buffer off write =
     (if write \<noteq> 0
      then case memcpy dat (unat pos) buffer off (unat sz) of
             None \<Rightarrow> Inl OutOfBounds | Some dat' \<Rightarrow> Inr (0, dat', buffer)
      else case memcpy buffer off dat (unat pos) (unat sz) of
             None \<Rightarrow> Inl OutOfBounds | Some buffer' \<Rightarrow> Inr (0, dat, buffer'))"

text \<open>
  The loop \<^verbatim>\<open>rq_for_each_segment\<close>. A negative \<^verbatim>\<open>rv\<close> leaves it at once, without the \<^verbatim>\<open>kunmap\<close>.
\<close>

fun sampleblk_segments ::
  "int \<Rightarrow> bio_vec list \<Rightarrow> int \<Rightarrow> u64 \<Rightarrow> sampleblk_state \<Rightarrow> fault + (int \<times> sampleblk_state)" where
  "sampleblk_segments dir [] rv pos s = Inr (rv, s)"
| "sampleblk_segments dir (b # bs) rv pos s =
     (let s = s\<lparr>st_kmapped := add_mset (bv_page b) (st_kmapped s)\<rparr> in
      case sampleblk_handle_io (st_data s) pos (ucast (bv_len b))
             (st_pages s (bv_page b)) (unat (bv_offset b)) dir of
        Inl f \<Rightarrow> Inl f
      | Inr (rv', dat', page') \<Rightarrow>
          let s = s\<lparr>st_data := dat', st_pages := (st_pages s)(bv_page b := page')\<rparr> in
          if rv' < 0 then Inr (rv', s)
          else sampleblk_segments dir bs rv' (pos + ucast (bv_len b))
                 (s\<lparr>st_kmapped := st_kmapped s - {#bv_page b#}\<rparr>))"

text \<open>The body of the \<^verbatim>\<open>while\<close> loop, for one request; \<open>rv\<close> is the value left by the one before.\<close>

definition sampleblk_one ::
  "request \<Rightarrow> int \<Rightarrow> sampleblk_state \<Rightarrow> fault + (int \<times> sampleblk_state)" where
  "sampleblk_one rq rv s =
     (let s = s\<lparr>st_locked := False\<rparr> in
      if st_ptr s \<noteq> rq_private_data rq then Inl BugOn
      else
        let pos = blk_rq_pos rq * ulong_of_int sampleblk_sect_size;
            sz = ucast (blk_rq_bytes rq) :: u64 in
        case (if pos + sz > size (st_dev s) then Inr (- EIO, s)
              else sampleblk_segments (rq_data_dir rq) (rq_segments rq) rv pos s) of
          Inl f \<Rightarrow> Inl f
        | Inr (rv', s') \<Rightarrow>
            Inr (rv', s'\<lparr>st_completed := st_completed s' @ [(rq_id rq, rv')],
                         st_locked := True\<rparr>))"

partial_function (option) sampleblk_loop ::
  "('q \<Rightarrow> (request \<times> 'q) option) \<Rightarrow> int \<Rightarrow> 'q \<Rightarrow> sampleblk_state \<Rightarrow>
   (fault + 'q \<times> sampleblk_state) option" where
  "sampleblk_loop fetch rv q s =
     (case fetch q of
        None \<Rightarrow> Some (Inr (q, s))
      | Some (rq, q') \<Rightarrow>
          (case sampleblk_one rq rv s of
             Inl f \<Rightarrow> Some (Inl f)
           | Inr (rv', s') \<Rightarrow> sampleblk_loop fetch rv' q' s'))"

definition sampleblk_request ::
  "('q \<Rightarrow> (request \<times> 'q) option) \<Rightarrow> 'q \<Rightarrow> sampleblk_state \<Rightarrow>
   (fault + 'q \<times> sampleblk_state) option" where
  "sampleblk_request fetch q s = sampleblk_loop fetch 0 q s"

text \<open>The other operations of the disk do nothing; the \<^verbatim>\<open>ioctl\<close> reports success for every command.\<close>

definition sampleblk_ioctl :: "u64 \<Rightarrow> u32 \<Rightarrow> u64 \<Rightarrow> int \<times> hd_geometry option" where
  "sampleblk_ioctl bdev command argument = (0, None)"

definition sampleblk_open :: "u64 \<Rightarrow> u32 \<Rightarrow> int" where
  "sampleblk_open bdev mode = 0"

definition sampleblk_release :: "u64 \<Rightarrow> u32 \<Rightarrow> int" where
  "sampleblk_release gd mode = 0"

definition sampleblk_fops :: block_device_operations where
  "sampleblk_fops = \<lparr>bd_open = Some sampleblk_open, bd_release = Some sampleblk_release,
     bd_ioctl = Some sampleblk_ioctl\<rparr>"

section \<open>One segment, one request\<close>

definition sampleblk_xfer ::
  "bool \<Rightarrow> bytes \<Rightarrow> nat \<Rightarrow> bytes \<Rightarrow> nat \<Rightarrow> nat \<Rightarrow> (bytes \<times> bytes) option" where
  "sampleblk_xfer w d p page off n =
     (case sampleblk_handle_io d (of_nat p) (of_nat n) page off (if w then WRITE else READ) of
        Inl f \<Rightarrow> None | Inr (rv, d', page') \<Rightarrow> Some (d', page'))"

interpretation sampleblk: segment_io sampleblk_xfer "\<lambda>d. d" "\<lambda>d m. m" "\<lambda>d. length d < 2 ^ 64"
proof
  fix d page :: bytes and off n p :: nat
  assume "length d < 2 ^ 64" "off + n \<le> length page" "p + n \<le> length d"
  moreover from this have "p < 2 ^ 64" "n < 2 ^ 64" by linarith+
  ultimately show "sampleblk_xfer True d p page off n =
      Some (mem_splice d p (take n (drop off page)), page)"
    by (simp add: sampleblk_xfer_def sampleblk_handle_io_def memcpy_eq)
next
  fix d page :: bytes and off n p :: nat
  assume "length d < 2 ^ 64" "off + n \<le> length page" "p + n \<le> length d"
  moreover from this have "p < 2 ^ 64" "n < 2 ^ 64" by linarith+
  ultimately show "sampleblk_xfer False d p page off n =
      Some (d, mem_splice page off (take n (drop p d)))"
    by (simp add: sampleblk_xfer_def sampleblk_handle_io_def memcpy_eq)
qed simp_all

lemma sampleblk_xfer_Some:
  "sampleblk_xfer (dir \<noteq> 0) d (unat pos) page off (unat len) = Some (d', page') \<Longrightarrow>
   sampleblk_handle_io d pos (ucast (len :: u32)) page off dir = Inr (0, d', page')"
  by (auto simp: sampleblk_xfer_def sampleblk_handle_io_def split: option.splits if_splits)

lemma sampleblk_segments_xfer:
  assumes "xfer_all sampleblk_xfer (dir \<noteq> 0) (st_data s) (st_pages s) (unat pos) segs = Some (d', pg')"
    and "unat pos + segs_len segs < 2 ^ 64"
  shows "sampleblk_segments dir segs rv pos s =
           Inr (if segs = [] then rv else 0, s\<lparr>st_data := d', st_pages := pg'\<rparr>)"
  using assms
proof (induction segs arbitrary: rv pos s)
  case Nil
  then show ?case by simp
next
  case (Cons b segs)
  have pos': "unat (pos + ucast (bv_len b)) = unat pos + unat (bv_len b)"
    using Cons.prems(2) by (simp add: unat_word_ariths)
  from Cons.prems(1) obtain d1 page1 where
    x: "sampleblk_handle_io (st_data s) pos (ucast (bv_len b)) (st_pages s (bv_page b))
           (unat (bv_offset b)) dir = Inr (0, d1, page1)" and
    rest: "xfer_all sampleblk_xfer (dir \<noteq> 0) d1 ((st_pages s)(bv_page b := page1))
             (unat pos + unat (bv_len b)) segs = Some (d', pg')"
    by (auto split: option.splits dest: sampleblk_xfer_Some)
  let ?s = "s\<lparr>st_data := d1, st_pages := (st_pages s)(bv_page b := page1)\<rparr>"
  have "sampleblk_segments dir segs 0 (pos + ucast (bv_len b)) ?s =
          Inr (0, ?s\<lparr>st_data := d', st_pages := pg'\<rparr>)"
    using Cons.IH [of ?s "pos + ucast (bv_len b)" 0] rest pos' Cons.prems(2)
    by (simp add: fun_upd_def)
  with x show ?case by simp
qed

text \<open>
  What a request promises. A request the block layer hands over is well formed: it belongs
  to this disk, its segments lie in their pages and add up to its size, and its sector is
  one whose byte position a 64-bit integer holds.
\<close>

definition rq_ok :: "sampleblk_state \<Rightarrow> request \<Rightarrow> bool" where
  "rq_ok s rq \<longleftrightarrow> rq_private_data rq = st_ptr s \<and> segs_ok (st_pages s) (rq_segments rq) \<and>
     segs_len (rq_segments rq) = unat (blk_rq_bytes rq) \<and> unat (blk_rq_pos rq) < 2 ^ 54"

definition dev_ok :: "sampleblk_state \<Rightarrow> bool" where
  "dev_ok s \<longleftrightarrow> unat (size (st_dev s)) = length (st_data s) \<and> length (st_data s) < 2 ^ 63"

definition rq_start :: "request \<Rightarrow> nat" where
  "rq_start rq = unat (blk_rq_pos rq) * 512"

definition in_range :: "sampleblk_state \<Rightarrow> request \<Rightarrow> bool" where
  "in_range s rq \<longleftrightarrow> rq_start rq + unat (blk_rq_bytes rq) \<le> length (st_data s)"

text \<open>
  The specification of one request on the disk's contents and the pages: nothing moves for
  a request beyond the end; a write puts the request's bytes at its position; a read
  distributes the bytes at its position over its segments.
\<close>

definition spec_data :: "sampleblk_state \<Rightarrow> request \<Rightarrow> bytes" where
  "spec_data s rq =
     (if in_range s rq \<and> rq_data_dir rq \<noteq> READ
      then mem_splice (st_data s) (rq_start rq) (gather (st_pages s) (rq_segments rq))
      else st_data s)"

definition spec_pages :: "sampleblk_state \<Rightarrow> request \<Rightarrow> pages" where
  "spec_pages s rq =
     (if in_range s rq \<and> rq_data_dir rq = READ
      then scatter (st_pages s) (rq_segments rq)
             (take (unat (blk_rq_bytes rq)) (drop (rq_start rq) (st_data s)))
      else st_pages s)"

definition spec_rv :: "sampleblk_state \<Rightarrow> request \<Rightarrow> int \<Rightarrow> int" where
  "spec_rv s rq rv =
     (if \<not> in_range s rq then - EIO else if rq_segments rq = [] then rv else 0)"

definition spec_step :: "request \<Rightarrow> int \<times> sampleblk_state \<Rightarrow> int \<times> sampleblk_state" where
  "spec_step rq = (\<lambda>(rv, s). (spec_rv s rq rv,
     s\<lparr>st_data := spec_data s rq, st_pages := spec_pages s rq, st_locked := True,
       st_completed := st_completed s @ [(rq_id rq, spec_rv s rq rv)]\<rparr>))"

lemma sect_size_u64: "ulong_of_int sampleblk_sect_size = 512"
  by (simp add: ulong_of_int_def sampleblk_sect_size_def)

lemma rq_guard:
  assumes "rq_ok s rq" and "dev_ok s"
  shows "blk_rq_pos rq * ulong_of_int sampleblk_sect_size + ucast (blk_rq_bytes rq)
            > size (st_dev s) \<longleftrightarrow> \<not> in_range s rq"
    and "unat (blk_rq_pos rq * ulong_of_int sampleblk_sect_size) = rq_start rq"
proof -
  have p: "unat (blk_rq_pos rq * 512) = rq_start rq"
    using assms unat_mult_512 [of "blk_rq_pos rq"] by (simp add: rq_ok_def rq_start_def)
  then show "unat (blk_rq_pos rq * ulong_of_int sampleblk_sect_size) = rq_start rq"
    by (simp add: sect_size_u64)
  have "rq_start rq + unat (blk_rq_bytes rq) < 2 ^ 64"
    using assms(1) unat_less_pow_32 [of "blk_rq_bytes rq"] by (simp add: rq_ok_def rq_start_def)
  with p have "unat (blk_rq_pos rq * 512 + ucast (blk_rq_bytes rq)) =
                 rq_start rq + unat (blk_rq_bytes rq)"
    by (simp add: unat_word_ariths)
  with assms show "blk_rq_pos rq * ulong_of_int sampleblk_sect_size + ucast (blk_rq_bytes rq)
            > size (st_dev s) \<longleftrightarrow> \<not> in_range s rq"
    by (simp add: word_less_nat_alt in_range_def dev_ok_def sect_size_u64 not_le)
qed

lemma sampleblk_one_spec:
  assumes "rq_ok s rq" and "dev_ok s"
  shows "sampleblk_one rq rv s = Inr (spec_step rq (rv, s))"
proof (cases "in_range s rq")
  case False
  with assms show ?thesis
    by (simp add: sampleblk_one_def rq_guard(1) [OF assms] spec_step_def spec_rv_def spec_data_def
        spec_pages_def Let_def rq_ok_def)
next
  case True
  let ?pos = "blk_rq_pos rq * ulong_of_int sampleblk_sect_size"
  let ?s = "s\<lparr>st_locked := False\<rparr>"
  have xf: "xfer_all sampleblk_xfer (rq_data_dir rq \<noteq> 0) (st_data ?s) (st_pages ?s) (unat ?pos)
              (rq_segments rq) = Some (spec_data s rq, spec_pages s rq)"
    using True assms
    by (simp add: rq_guard(2) [OF assms] in_range_def spec_data_def spec_pages_def rq_ok_def
        dev_ok_def sampleblk.write_all sampleblk.read_all)
  have "unat ?pos + segs_len (rq_segments rq) < 2 ^ 64"
    using True assms by (simp add: rq_guard(2) [OF assms] in_range_def rq_ok_def dev_ok_def)
  from sampleblk_segments_xfer [OF xf this, of rv] True assms show ?thesis
    by (simp add: sampleblk_one_def rq_guard(1) [OF assms] spec_step_def spec_rv_def Let_def
        rq_ok_def)
qed

section \<open>Draining the queue\<close>

text \<open>
  What \<^verbatim>\<open>blk_fetch_request\<close> promises: it takes the first pending request, and returns null
  exactly when none is pending.
\<close>

definition fifo :: "('q \<Rightarrow> (request \<times> 'q) option) \<Rightarrow> ('q \<Rightarrow> request list) \<Rightarrow> bool" where
  "fifo fetch pending \<longleftrightarrow> (\<forall>q. case fetch q of
       None \<Rightarrow> pending q = []
     | Some (rq, q') \<Rightarrow> pending q = rq # pending q')"

lemma fifo_fetch:
  assumes "fifo fetch pending"
  shows "pending q = [] \<Longrightarrow> fetch q = None"
    and "pending q = rq # rqs \<Longrightarrow> \<exists>q'. fetch q = Some (rq, q') \<and> pending q' = rqs"
proof -
  from assms have "case fetch q of None \<Rightarrow> pending q = [] | Some (rq, q') \<Rightarrow> pending q = rq # pending q'"
    by (simp add: fifo_def)
  then show "pending q = [] \<Longrightarrow> fetch q = None"
    and "pending q = rq # rqs \<Longrightarrow> \<exists>q'. fetch q = Some (rq, q') \<and> pending q' = rqs"
    by (auto split: option.splits)
qed

lemma spec_step_frame [simp]:
  "st_ptr (snd (spec_step rq (rv, s))) = st_ptr s"
  "st_dev (snd (spec_step rq (rv, s))) = st_dev s"
  "st_kmapped (snd (spec_step rq (rv, s))) = st_kmapped s"
  "st_locked (snd (spec_step rq (rv, s)))"
  by (simp_all add: spec_step_def)

lemma length_spec_data:
  "rq_ok s rq \<Longrightarrow> length (spec_data s rq) = length (st_data s)"
  by (simp add: spec_data_def in_range_def rq_ok_def)

lemma segs_ok_spec_pages:
  assumes "rq_ok s rq"
  shows "segs_ok (spec_pages s rq) segs = segs_ok (st_pages s) segs"
  using assms by (auto simp: spec_pages_def in_range_def rq_ok_def)

lemma spec_step_dev_ok: "rq_ok s rq \<Longrightarrow> dev_ok s \<Longrightarrow> dev_ok (snd (spec_step rq (rv, s)))"
  by (simp add: dev_ok_def spec_step_def length_spec_data)

lemma spec_step_rq_ok: "rq_ok s rq \<Longrightarrow> rq_ok (snd (spec_step rq (rv, s))) rq' = rq_ok s rq'"
  by (simp add: rq_ok_def spec_step_def segs_ok_spec_pages [unfolded rq_ok_def])

lemma sampleblk_loop_spec:
  assumes "fifo fetch pending" and "pending q = rqs" and "dev_ok s" and "list_all (rq_ok s) rqs"
  shows "\<exists>q'. sampleblk_loop fetch rv q s = Some (Inr (q', snd (fold spec_step rqs (rv, s)))) \<and>
              pending q' = []"
  using assms(2-)
proof (induction rqs arbitrary: q rv s)
  case Nil
  with assms(1) show ?case by (simp add: sampleblk_loop.simps fifo_fetch(1))
next
  case (Cons rq rqs)
  with assms(1) obtain q' where q': "fetch q = Some (rq, q')" "pending q' = rqs"
    by (auto dest: fifo_fetch(2))
  obtain rv' s' where s': "spec_step rq (rv, s) = (rv', s')" by (cases "spec_step rq (rv, s)")
  then have "dev_ok s'" "list_all (rq_ok s') rqs"
    using Cons.prems spec_step_dev_ok [of s rq rv] spec_step_rq_ok [of s rq rv]
    by (auto simp: list_all_iff)
  with Cons.IH [OF q'(2)] s' q' Cons.prems show ?case
    by (simp add: sampleblk_loop.simps [of fetch rv q] sampleblk_one_spec)
qed

lemma spec_step_completed:
  "map fst (st_completed (snd (spec_step rq x))) = map fst (st_completed (snd x)) @ [rq_id rq]"
  by (cases x) (simp add: spec_step_def)

lemma fold_spec_step_frame:
  shows "map fst (st_completed (snd (fold spec_step rqs x))) =
           map fst (st_completed (snd x)) @ map rq_id rqs"
    and "st_kmapped (snd (fold spec_step rqs x)) = st_kmapped (snd x)"
    and "st_locked (snd x) \<Longrightarrow> st_locked (snd (fold spec_step rqs x))"
proof (induction rqs arbitrary: x)
  case (Cons rq rqs)
  case 1 show ?case by (simp add: Cons spec_step_completed)
  case 2 show ?case by (cases x) (simp add: Cons)
  case 3 show ?case by (cases x) (simp add: Cons)
qed simp_all

lemma sampleblk_alloc_cases:
  assumes "sampleblk_alloc a mn g = (rv, g', tr)"
  shows "rv < 0 \<and> kexec {#} tr = Some {#} \<or>
         rv = 0 \<and> an_kzalloc a \<noteq> NULL \<and> an_vmalloc a \<noteq> NULL \<and> an_queue a \<noteq> NULL \<and>
         an_disk a \<noteq> NULL \<and>
         tr = [Kzalloc (an_kzalloc a), Deref (an_kzalloc a), Vmalloc (an_vmalloc a),
               Blk_init_queue (an_queue a), Alloc_disk (an_disk a), Add_disk (an_disk a)] \<and>
         g' = g\<lparr>sampleblk_dev_ptr := an_kzalloc a,
                sampleblk_dev_obj := \<lparr>minor = mn, queue = an_queue a, disk = an_disk a,
                   size = ulong_of_int (sampleblk_sect_size * sampleblk_nsects),
                   data = an_vmalloc a\<rparr>,
                sampleblk_disk := Some \<lparr>gd_major = sampleblk_major g, gd_first_minor = mn,
                   gd_private_data = an_kzalloc a, gd_queue = an_queue a,
                   gd_disk_name = ''sampleblk'' @ dec_string mn,
                   gd_capacity = ulong_of_int sampleblk_nsects\<rparr>\<rparr>"
  using assms by (auto simp: sampleblk_alloc_def Let_def zero_dev_def kcall_simps split: if_splits)

definition all_granted :: "sampleblk_answers \<Rightarrow> bool" where
  "all_granted a \<longleftrightarrow> an_kzalloc a \<noteq> NULL \<and> an_vmalloc a \<noteq> NULL \<and>
     an_queue a \<noteq> NULL \<and> an_disk a \<noteq> NULL"

interpretation sampleblk_mod: loadable sampleblk_init sampleblk_exit
  "\<lambda>a. an_major a < 0 \<or> all_granted a"
proof
  fix a r s tr
  assume "an_major a < 0 \<or> all_granted a" and "sampleblk_init a = (r, s, tr)"
  then show "0 \<le> r \<Longrightarrow> kexec {#} (tr @ sampleblk_exit s) = Some {#}"
    and "r < 0 \<Longrightarrow> kexec {#} tr = Some {#}"
    by (auto simp: sampleblk_init_def sampleblk_alloc_def all_granted_def Let_def zero_dev_def
        sampleblk_exit_def sampleblk_free_def kcall_simps split: if_splits)
qed

section \<open>A small disk\<close>

text \<open>A two-sector disk and one-sector requests, to evaluate the driver on.\<close>

definition demo_fetch :: "request list \<Rightarrow> (request \<times> request list) option" where
  "demo_fetch q = (case q of [] \<Rightarrow> None | rq # rqs \<Rightarrow> Some (rq, rqs))"

definition demo_state :: sampleblk_state where
  "demo_state = \<lparr>st_ptr = 7, st_dev = zero_dev\<lparr>size := 1024\<rparr>, st_data = replicate 1024 0,
     st_pages = (\<lambda>p. replicate 4096 (of_nat p)), st_kmapped = {#}, st_locked = True,
     st_completed = []\<rparr>"

definition demo_rq :: "int \<Rightarrow> ptr \<Rightarrow> u64 \<Rightarrow> request" where
  "demo_rq dir page sector = \<lparr>rq_id = page, rq_private_data = 7, blk_rq_pos = sector,
     blk_rq_bytes = 512, rq_data_dir = dir,
     rq_segments = [\<lparr>bv_page = page, bv_len = 512, bv_offset = 0\<rparr>]\<rparr>"

definition demo_flush :: request where
  "demo_flush = \<lparr>rq_id = 9, rq_private_data = 7, blk_rq_pos = 0, blk_rq_bytes = 0,
     rq_data_dir = WRITE, rq_segments = []\<rparr>"

definition demo_answers :: sampleblk_answers where
  "demo_answers = \<lparr>an_major = 252, an_kzalloc = 7, an_vmalloc = 100, an_queue = 200, an_disk = 300\<rparr>"

lemma demo_fifo: "fifo demo_fetch (\<lambda>q. q)"
  by (simp add: fifo_def demo_fetch_def split: list.splits)

lemma demo_dev_ok: "dev_ok demo_state"
  by (simp add: dev_ok_def demo_state_def zero_dev_def)

lemma demo_rq_ok: "unat sector < 2 ^ 54 \<Longrightarrow> rq_ok demo_state (demo_rq dir page sector)"
  by (simp add: rq_ok_def demo_state_def demo_rq_def seg_ok_def)

lemma demo_flush_ok: "rq_ok demo_state demo_flush"
  by (simp add: rq_ok_def demo_state_def demo_flush_def)

section \<open>Properties\<close>

text \<open>
  C1. The request function drains the queue and implements the disk. Whenever the queue
  hands out its requests in order and they are well formed, the loop ends with an empty
  queue, no copy leaves the disk's memory or a page (the result is not a fault), and the
  disk's contents, the pages and the completions are what the specification says, request
  after request: nothing moves for a request beyond the end, a write is one contiguous
  update of the disk at the request's byte position, and a read distributes one contiguous
  piece of the disk over the request's segments.
\<close>

theorem sampleblk_request_refines:
  assumes "fifo fetch pending" and "dev_ok s" and "list_all (rq_ok s) (pending q)"
  shows "\<exists>q'. sampleblk_request fetch q s =
                Some (Inr (q', snd (fold spec_step (pending q) (0, s)))) \<and> pending q' = []"
  using sampleblk_loop_spec [OF assms(1) refl assms(2,3)] by (simp add: sampleblk_request_def)

theorem sampleblk_request_refines_witness:
  "\<exists>q'. sampleblk_request demo_fetch [demo_rq WRITE 3 1, demo_rq READ 4 1] demo_state =
     Some (Inr (q', snd (fold spec_step [demo_rq WRITE 3 1, demo_rq READ 4 1] (0, demo_state)))) \<and>
     q' = []"
  using sampleblk_request_refines [OF demo_fifo demo_dev_ok, of "[demo_rq WRITE 3 1, demo_rq READ 4 1]"]
  by (simp add: demo_rq_ok)

text \<open>
  C18. Every request that was pending is completed exactly once and in the order of the queue,
  every page that was mapped is unmapped again, and the queue's lock, dropped while a
  request is served, is held again when the function returns.
\<close>

theorem sampleblk_completes_all:
  assumes "fifo fetch pending" and "dev_ok s" and "list_all (rq_ok s) (pending q)"
    and "st_locked s" and "st_completed s = []"
  shows "\<exists>q' s'. sampleblk_request fetch q s = Some (Inr (q', s')) \<and>
           map fst (st_completed s') = map rq_id (pending q) \<and>
           st_kmapped s' = st_kmapped s \<and> st_locked s'"
proof -
  from sampleblk_loop_spec [OF assms(1) refl assms(2,3), of 0] obtain q' where
    "sampleblk_request fetch q s = Some (Inr (q', snd (fold spec_step (pending q) (0, s))))"
    by (auto simp: sampleblk_request_def)
  with fold_spec_step_frame [where rqs = "pending q" and x = "(0, s)"] assms(4,5) show ?thesis by simp
qed

theorem sampleblk_completes_all_witness:
  "\<exists>q' s'. sampleblk_request demo_fetch [demo_rq WRITE 3 9, demo_rq READ 4 1] demo_state =
       Some (Inr (q', s')) \<and>
     map fst (st_completed s') = [3, 4] \<and> st_kmapped s' = {#} \<and> st_locked s'"
proof -
  have "list_all (rq_ok demo_state) [demo_rq WRITE 3 9, demo_rq READ 4 1]"
    by (simp add: demo_rq_ok)
  moreover have "st_locked demo_state" "st_completed demo_state = []" "st_kmapped demo_state = {#}"
    by (simp_all add: demo_state_def)
  ultimately show ?thesis
    using sampleblk_completes_all [OF demo_fifo demo_dev_ok, of "[demo_rq WRITE 3 9, demo_rq READ 4 1]"]
    by (simp add: demo_rq_def)
qed

text \<open>
  A write followed by a read of the same sectors returns the bytes that were written,
  however the two requests cut the range into segments.
\<close>

lemma sampleblk_read_after_write:
  assumes "fifo fetch pending" and "dev_ok s" and "pending q = [w, r]"
    and "rq_ok s w" and "rq_ok s r" and "in_range s w"
    and "rq_data_dir w = WRITE" and "rq_data_dir r = READ"
    and "blk_rq_pos r = blk_rq_pos w" and "blk_rq_bytes r = blk_rq_bytes w"
    and "segs_disjoint (rq_segments r)"
  shows "\<exists>q' s'. sampleblk_request fetch q s = Some (Inr (q', s')) \<and>
           gather (st_pages s') (rq_segments r) = gather (st_pages s) (rq_segments w) \<and>
           st_completed s' = st_completed s @ [(rq_id w, 0), (rq_id r, 0)]"
proof -
  let ?bs = "gather (st_pages s) (rq_segments w)" and ?p = "rq_start w"
  let ?m = "mem_splice (st_data s) ?p ?bs"
  have len: "length ?bs = unat (blk_rq_bytes w)" "?p + length ?bs \<le> length (st_data s)"
    using assms by (simp_all add: rq_ok_def in_range_def)
  then have "take (unat (blk_rq_bytes w)) (drop ?p ?m) = ?bs"
    using take_drop_splice_same by metis
  moreover have "segs_len (rq_segments r) = length ?bs"
    using assms by (simp add: rq_ok_def)
  ultimately have "gather (scatter (st_pages s) (rq_segments r)
      (take (unat (blk_rq_bytes w)) (drop ?p ?m))) (rq_segments r) = ?bs"
    using assms by (simp add: gather_scatter rq_ok_def)
  moreover obtain q' where "sampleblk_request fetch q s =
      Some (Inr (q', snd (fold spec_step (pending q) (0, s))))"
    using sampleblk_loop_spec [OF assms(1) refl assms(2), of q 0] assms(3-5)
    by (auto simp: sampleblk_request_def)
  ultimately show ?thesis
    using assms len
    by (simp add: spec_step_def spec_data_def spec_pages_def spec_rv_def in_range_def rq_start_def)
qed

lemma sampleblk_read_after_write_witness:
  "\<exists>q' s'. sampleblk_request demo_fetch [demo_rq WRITE 3 1, demo_rq READ 4 1] demo_state =
       Some (Inr (q', s')) \<and>
     gather (st_pages s') (rq_segments (demo_rq READ 4 1)) = replicate 512 3 \<and>
     st_completed s' = [(3, 0), (4, 0)]"
  using sampleblk_read_after_write [OF demo_fifo demo_dev_ok,
      of "[demo_rq WRITE 3 1, demo_rq READ 4 1]" "demo_rq WRITE 3 1" "demo_rq READ 4 1"]
  by (simp add: demo_rq_ok)
    (simp add: demo_rq_def demo_state_def in_range_def rq_start_def gather_def seg_bytes_def)

text \<open>
  The return value is not cleared between requests: a request that moves no data (a
  flush), served right after one that was rejected, is completed with the other request's
  error although nothing is wrong with it.
\<close>

lemma sampleblk_stale_error:
  assumes "fifo fetch pending" and "dev_ok s" and "pending q = [bad, flush]"
    and "rq_ok s bad" and "\<not> in_range s bad"
    and "rq_ok s flush" and "in_range s flush" and "rq_segments flush = []"
  shows "\<exists>q' s'. sampleblk_request fetch q s = Some (Inr (q', s')) \<and>
           st_completed s' = st_completed s @ [(rq_id bad, - EIO), (rq_id flush, - EIO)]"
  using sampleblk_loop_spec [OF assms(1) refl assms(2), of q 0] assms(3-)
  by (auto simp: sampleblk_request_def spec_step_def spec_rv_def spec_data_def spec_pages_def
      in_range_def)

lemma sampleblk_stale_error_witness:
  "\<exists>q' s'. sampleblk_request demo_fetch [demo_rq READ 3 2, demo_flush] demo_state =
       Some (Inr (q', s')) \<and> st_completed s' = [(3, - EIO), (9, - EIO)]"
  using sampleblk_stale_error [OF demo_fifo demo_dev_ok,
      of "[demo_rq READ 3 2, demo_flush]" "demo_rq READ 3 2" demo_flush]
  by (simp add: demo_rq_ok demo_flush_ok)
    (simp add: demo_rq_def demo_flush_def demo_state_def in_range_def rq_start_def)

text \<open>
  C10. Every failure inside \<open>sampleblk_alloc\<close> undoes what was done before it: whichever of the
  allocations the kernel refuses, each resource acquired is released exactly once. When
  none is refused, the disk that is added carries the device pointer the request function
  checks for and a capacity of as many 512-byte sectors as the memory behind it has.
\<close>

theorem sampleblk_alloc_cleanup:
  assumes "sampleblk_alloc a SAMPLEBLK_MINOR g = (rv, g', tr)"
  shows "if all_granted a
         then rv = 0 \<and> (\<exists>gd. sampleblk_disk g' = Some gd \<and>
                gd_private_data gd = sampleblk_dev_ptr g' \<and> gd_disk_name gd = ''sampleblk1'' \<and>
                unat (gd_capacity gd) * 512 = unat (size (sampleblk_dev_obj g')))
         else rv = - ENOMEM \<and> kexec {#} tr = Some {#}"
  using assms sampleblk_alloc_cases [OF assms]
  by (auto simp: all_granted_def sampleblk_alloc_def Let_def ulong_of_int_def dec_string.simps
      digit_char_def SAMPLEBLK_MINOR_def sampleblk_sect_size_def sampleblk_nsects_def
      split: if_splits)

theorem sampleblk_alloc_cleanup_witness:
  "\<exists>rv g' tr. sampleblk_alloc (demo_answers\<lparr>an_disk := NULL\<rparr>) SAMPLEBLK_MINOR
      (fst (snd (sampleblk_init demo_answers))) = (rv, g', tr) \<and>
     rv = - ENOMEM \<and> kexec {#} tr = Some {#}"
proof -
  obtain rv g' tr where e: "sampleblk_alloc (demo_answers\<lparr>an_disk := NULL\<rparr>) SAMPLEBLK_MINOR
      (fst (snd (sampleblk_init demo_answers))) = (rv, g', tr)"
    by (rule prod_cases3)
  have "\<not> all_granted (demo_answers\<lparr>an_disk := NULL\<rparr>)" by (simp add: all_granted_def)
  with sampleblk_alloc_cleanup [OF e] e show ?thesis by simp
qed

text \<open>
  A loaded driver gives everything back when it is unloaded, any number of times, as
  long as the kernel grants what \<open>sampleblk_alloc\<close> asks for.
\<close>

lemma sampleblk_load_unload:
  assumes "list_all (\<lambda>a. an_major a < 0 \<or> all_granted a) as"
  shows "kexec {#} (concat (map (load_unload sampleblk_init sampleblk_exit) as)) = Some {#}"
  using assms by (intro sampleblk_mod.load_attempts) (simp add: list_all_iff)

lemma sampleblk_load_unload_witness:
  "kexec {#} (concat (map (load_unload sampleblk_init sampleblk_exit)
     [demo_answers, demo_answers\<lparr>an_major := - EBUSY\<rparr>, demo_answers])) = Some {#}"
  by (rule sampleblk_load_unload) (simp add: all_granted_def demo_answers_def)

text \<open>
  But \<open>sampleblk_init\<close> ignores the result of \<open>sampleblk_alloc\<close>: when an allocation is
  refused it still reports success, so the module stays loaded, and unloading it then
  reaches through a pointer that is null or already freed.
\<close>

lemma sampleblk_init_ignores_failure:
  assumes "0 \<le> an_major a" and "\<not> all_granted a"
  shows "fst (sampleblk_init a) = 0 \<and> kexec {#} (load_unload sampleblk_init sampleblk_exit a) = None"
  using assms
  by (auto simp: sampleblk_init_def load_unload_def all_granted_def sampleblk_alloc_def Let_def
      sampleblk_exit_def sampleblk_free_def kcall_simps split: if_splits)

lemma sampleblk_init_ignores_failure_witness:
  "fst (sampleblk_init (demo_answers\<lparr>an_vmalloc := NULL\<rparr>)) = 0 \<and>
   kexec {#} (load_unload sampleblk_init sampleblk_exit (demo_answers\<lparr>an_vmalloc := NULL\<rparr>)) = None"
  by (rule sampleblk_init_ignores_failure) (simp_all add: all_granted_def demo_answers_def)

end
