(* ===== verification/Ramhd_Mkreq.thy ===== *)
theory Ramhd_Mkreq
  imports Block_Layer
begin

text \<open>
  The RAM disk that serves \<^verbatim>\<open>bio\<close>s directly, \<^verbatim>\<open>ramdisk-lab/ramhd_mkreq.c\<close>: two disks of
  8 MiB, their construction and removal, the geometry \<^verbatim>\<open>ioctl\<close> and \<open>ramhd_make_request\<close>.
\<close>

section \<open>The driver\<close>

definition RAMHD_NAME :: string where "RAMHD_NAME = ''ramhd''"
definition RAMHD_MAX_DEVICE :: nat where "RAMHD_MAX_DEVICE = 2"
definition RAMHD_MAX_PARTITIONS :: nat where "RAMHD_MAX_PARTITIONS = 4"
definition RAMHD_SECTOR_SIZE :: nat where "RAMHD_SECTOR_SIZE = 512"
definition RAMHD_SECTORS :: nat where "RAMHD_SECTORS = 16"
definition RAMHD_HEADS :: nat where "RAMHD_HEADS = 4"
definition RAMHD_CYLINDERS :: nat where "RAMHD_CYLINDERS = 256"

definition RAMHD_SECTOR_TOTAL :: nat where
  "RAMHD_SECTOR_TOTAL = RAMHD_SECTORS * RAMHD_HEADS * RAMHD_CYLINDERS"

definition RAMHD_SIZE :: nat where
  "RAMHD_SIZE = RAMHD_SECTOR_SIZE * RAMHD_SECTOR_TOTAL"

record ramhd_gendisk =
  rg_major :: int
  rg_first_minor :: nat
  rg_queue :: ptr
  rg_private_data :: ptr
  rg_disk_name :: string
  rg_capacity :: nat

text \<open>One \<^verbatim>\<open>RAMHD_DEV\<close>: where its memory, queue and disk are, and what the disk was set to.\<close>

record RAMHD_DEV =
  rh_data :: ptr
  rh_queue :: ptr
  rh_gd :: ptr
  rh_disk :: "ramhd_gendisk option"

text \<open>The module's globals: the arrays \<^verbatim>\<open>sdisk\<close> and \<^verbatim>\<open>rdev\<close> and what the latter points to.\<close>

record ramhd_globals =
  sdisk :: "nat \<Rightarrow> ptr"
  rdev :: "nat \<Rightarrow> ptr"
  rdev_obj :: "nat \<Rightarrow> RAMHD_DEV"
  ramhd_major :: int

record ramhd_answers =
  ra_vmalloc :: "nat \<Rightarrow> ptr"
  ra_kzalloc :: "nat \<Rightarrow> ptr"
  ra_major :: int
  ra_queue :: "nat \<Rightarrow> ptr"
  ra_disk :: "nat \<Rightarrow> ptr"

definition zero_ramhd_dev :: RAMHD_DEV where
  "zero_ramhd_dev = \<lparr>rh_data = NULL, rh_queue = NULL, rh_gd = NULL, rh_disk = None\<rparr>"

definition ramhd_globals0 :: ramhd_globals where
  "ramhd_globals0 = \<lparr>sdisk = (\<lambda>_. NULL), rdev = (\<lambda>_. NULL), rdev_obj = (\<lambda>_. zero_ramhd_dev),
                     ramhd_major = 0\<rparr>"

text \<open>The allocation loops, over the devices still to do.\<close>

fun ramhd_space_init :: "ramhd_answers \<Rightarrow> nat list \<Rightarrow> ramhd_globals \<Rightarrow> ramhd_globals loaded" where
  "ramhd_space_init a [] g = (0, g, [])"
| "ramhd_space_init a (i # is) g =
     (let p = ra_vmalloc a i; g = g\<lparr>sdisk := (sdisk g)(i := p)\<rparr> in
      if p = NULL then (- ENOMEM, g, [Vmalloc p])
      else case ramhd_space_init a is g of (err, g', tr) \<Rightarrow> (err, g', Vmalloc p # tr))"

definition ramhd_space_clean :: "ramhd_globals \<Rightarrow> kcall list" where
  "ramhd_space_clean g = map (\<lambda>i. Vfree (sdisk g i)) [0..<RAMHD_MAX_DEVICE]"

fun alloc_ramdev :: "ramhd_answers \<Rightarrow> nat list \<Rightarrow> ramhd_globals \<Rightarrow> ramhd_globals loaded" where
  "alloc_ramdev a [] g = (0, g, [])"
| "alloc_ramdev a (i # is) g =
     (let p = ra_kzalloc a i; g = g\<lparr>rdev := (rdev g)(i := p)\<rparr> in
      if p = NULL then (- ENOMEM, g, [Kzalloc p])
      else case alloc_ramdev a is (g\<lparr>rdev_obj := (rdev_obj g)(i := zero_ramhd_dev)\<rparr>) of
             (err, g', tr) \<Rightarrow> (err, g', Kzalloc p # tr))"

definition clean_ramdev :: "ramhd_globals \<Rightarrow> kcall list" where
  "clean_ramdev g =
     concat (map (\<lambda>i. if rdev g i \<noteq> NULL then [Kfree (rdev g i)] else []) [0..<RAMHD_MAX_DEVICE])"

text \<open>One turn of the loop in \<open>ramhd_init\<close>: everything a disk needs, for device \<open>i\<close>.\<close>

definition ramhd_setup :: "ramhd_answers \<Rightarrow> nat \<Rightarrow> ramhd_globals \<Rightarrow> ramhd_globals \<times> kcall list" where
  "ramhd_setup a i g =
     (let p = rdev g i; q = ra_queue a i; dk = ra_disk a i;
          gd = \<lparr>rg_major = ramhd_major g, rg_first_minor = i * RAMHD_MAX_PARTITIONS,
                rg_queue = q, rg_private_data = p,
                rg_disk_name = ''ramhd'' @ [''abcdefghijklmnopqrstuvwxyz'' ! i],
                rg_capacity = RAMHD_SECTOR_TOTAL\<rparr>;
          d = \<lparr>rh_data = sdisk g i, rh_queue = q, rh_gd = dk, rh_disk = Some gd\<rparr> in
      (g\<lparr>rdev_obj := (rdev_obj g)(i := d)\<rparr>,
       [Deref p, Blk_alloc_queue q, Blk_queue_make_request q, Alloc_disk dk, Add_disk dk]))"

fun ramhd_setup_all ::
  "ramhd_answers \<Rightarrow> nat list \<Rightarrow> ramhd_globals \<Rightarrow> ramhd_globals \<times> kcall list" where
  "ramhd_setup_all a [] g = (g, [])"
| "ramhd_setup_all a (i # is) g =
     (case ramhd_setup a i g of (g', tr) \<Rightarrow>
        case ramhd_setup_all a is g' of (g'', tr') \<Rightarrow> (g'', tr @ tr'))"

definition ramhd_init :: "ramhd_answers \<Rightarrow> ramhd_globals loaded" where
  "ramhd_init a =
     (case ramhd_space_init a [0..<RAMHD_MAX_DEVICE] ramhd_globals0 of (err, g, tr) \<Rightarrow>
        if err \<noteq> 0 then (err, g, tr)
        else
          case alloc_ramdev a [0..<RAMHD_MAX_DEVICE] g of (_, g, tr1) \<Rightarrow>
            let g = g\<lparr>ramhd_major := ra_major a\<rparr> in
            case ramhd_setup_all a [0..<RAMHD_MAX_DEVICE] g of (g, tr2) \<Rightarrow>
              (0, g, tr @ tr1 @ [Register_blkdev (ra_major a)] @ tr2))"

definition ramhd_exit :: "ramhd_globals \<Rightarrow> kcall list" where
  "ramhd_exit g =
     concat (map (\<lambda>i. [Deref (rdev g i), Del_gendisk (rh_gd (rdev_obj g i)),
                       Put_disk (rh_gd (rdev_obj g i)),
                       Blk_cleanup_queue (rh_queue (rdev_obj g i))]) [0..<RAMHD_MAX_DEVICE]) @
     clean_ramdev g @ ramhd_space_clean g @ [Unregister_blkdev (ramhd_major g)]"

text \<open>
  The geometry \<^verbatim>\<open>ioctl\<close>. \<^verbatim>\<open>access_ok\<close> and \<^verbatim>\<open>copy_to_user\<close> are the kernel's: whether the user
  buffer may be written, and how many bytes could not be.
\<close>

definition HDIO_GETGEO :: u32 where "HDIO_GETGEO = 0x301"

definition ramhd_ioctl ::
  "(u64 \<Rightarrow> bool) \<Rightarrow> (u64 \<Rightarrow> hd_geometry \<Rightarrow> nat) \<Rightarrow> u64 \<Rightarrow> u32 \<Rightarrow> u64 \<Rightarrow> int \<times> hd_geometry option" where
  "ramhd_ioctl access_ok copy_to_user start cmd arg =
     (if cmd = HDIO_GETGEO
      then if \<not> access_ok arg then (- EFAULT, None)
           else
             let geo = \<lparr>geo_heads = of_nat RAMHD_HEADS, geo_sectors = of_nat RAMHD_SECTORS,
                        geo_cylinders = of_nat RAMHD_CYLINDERS, geo_start = start\<rparr> in
             if copy_to_user arg geo \<noteq> 0 then (- EFAULT, None) else (0, Some geo)
      else (- ENOTTY, None))"

definition ramhd_open :: "u64 \<Rightarrow> u32 \<Rightarrow> int" where
  "ramhd_open bdev mode = 0"

definition ramhd_release :: "u64 \<Rightarrow> u32 \<Rightarrow> int" where
  "ramhd_release gd mode = 0"

definition ramhd_fops ::
  "(u64 \<Rightarrow> bool) \<Rightarrow> (u64 \<Rightarrow> hd_geometry \<Rightarrow> nat) \<Rightarrow> block_device_operations" where
  "ramhd_fops access_ok copy_to_user =
     \<lparr>bd_open = Some ramhd_open, bd_release = Some ramhd_release,
      bd_ioctl = Some (ramhd_ioctl access_ok copy_to_user)\<rparr>"

section \<open>Serving a bio\<close>

record bio =
  bi_id :: nat
  bi_dev :: nat                 \<comment> \<open>which of the disks \<^verbatim>\<open>bi_bdev->bd_disk->private_data\<close> is\<close>
  bi_sector :: u64
  bi_size :: u32
  bi_dir :: int                 \<comment> \<open>\<^verbatim>\<open>bio_data_dir\<close>\<close>
  bi_segs :: "bio_vec list"

record ramhd_state =
  rd_data :: "nat \<Rightarrow> bytes"
  rd_pages :: pages
  rd_kmapped :: "ptr multiset"
  rd_ended :: "(nat \<times> int) list"       \<comment> \<open>\<^verbatim>\<open>bio_endio\<close> calls\<close>

text \<open>
  One segment: the copy between the disk at offset \<open>off\<close> and the segment's page. A direction
  that is neither \<^verbatim>\<open>READ\<close> nor \<^verbatim>\<open>WRITE\<close> copies nothing and ends the loop (\<^verbatim>\<open>goto out\<close>).
\<close>

definition ramhd_copy ::
  "bool \<Rightarrow> bytes \<Rightarrow> nat \<Rightarrow> bytes \<Rightarrow> nat \<Rightarrow> nat \<Rightarrow> (bytes \<times> bytes) option" where
  "ramhd_copy w dat off page poff n =
     (if w then case memcpy dat off page poff n of None \<Rightarrow> None | Some dat' \<Rightarrow> Some (dat', page)
      else case memcpy page poff dat off n of None \<Rightarrow> None | Some page' \<Rightarrow> Some (dat, page'))"

fun ramhd_segments ::
  "int \<Rightarrow> nat \<Rightarrow> bio_vec list \<Rightarrow> u64 \<Rightarrow> ramhd_state \<Rightarrow> fault + ramhd_state" where
  "ramhd_segments dir dev [] off s = Inr s"
| "ramhd_segments dir dev (b # bs) off s =
     (let s = s\<lparr>rd_kmapped := add_mset (bv_page b) (rd_kmapped s)\<rparr> in
      if dir = READ \<or> dir = WRITE then
        case ramhd_copy (dir = WRITE) (rd_data s dev) (unat off) (rd_pages s (bv_page b))
               (unat (bv_offset b)) (unat (bv_len b)) of
          None \<Rightarrow> Inl OutOfBounds
        | Some (dat', page') \<Rightarrow>
            ramhd_segments dir dev bs (off + ucast (bv_len b))
              (s\<lparr>rd_data := (rd_data s)(dev := dat'),
                 rd_pages := (rd_pages s)(bv_page b := page'),
                 rd_kmapped := rd_kmapped s - {#bv_page b#}\<rparr>)
      else Inr (s\<lparr>rd_kmapped := rd_kmapped s - {#bv_page b#}\<rparr>))"

definition ramhd_make_request :: "bio \<Rightarrow> ramhd_state \<Rightarrow> fault + (int \<times> ramhd_state)" where
  "ramhd_make_request bio s =
     (let start = bi_sector bio * of_nat RAMHD_SECTOR_SIZE in
      if start + ucast (bi_size bio) > of_nat RAMHD_SIZE
      then Inr (0, s\<lparr>rd_ended := rd_ended s @ [(bi_id bio, - EIO)]\<rparr>)
      else case ramhd_segments (bi_dir bio) (bi_dev bio) (bi_segs bio) start s of
             Inl f \<Rightarrow> Inl f
           | Inr s' \<Rightarrow> Inr (0, s'\<lparr>rd_ended := rd_ended s' @ [(bi_id bio, 0)]\<rparr>))"

section \<open>One bio\<close>

interpretation ramhd: segment_io ramhd_copy "\<lambda>d. d" "\<lambda>d m. m" "\<lambda>d. True"
  by unfold_locales (simp_all add: ramhd_copy_def memcpy_eq)

text \<open>What the block layer promises of a bio, and the disks' state.\<close>

definition bio_ok :: "ramhd_state \<Rightarrow> bio \<Rightarrow> bool" where
  "bio_ok s bio \<longleftrightarrow> bi_dev bio < RAMHD_MAX_DEVICE \<and> segs_ok (rd_pages s) (bi_segs bio) \<and>
     segs_len (bi_segs bio) = unat (bi_size bio) \<and> unat (bi_sector bio) < 2 ^ 54 \<and>
     (bi_dir bio = READ \<or> bi_dir bio = WRITE)"

definition disks_ok :: "ramhd_state \<Rightarrow> bool" where
  "disks_ok s \<longleftrightarrow> (\<forall>i < RAMHD_MAX_DEVICE. length (rd_data s i) = RAMHD_SIZE)"

definition bio_start :: "bio \<Rightarrow> nat" where
  "bio_start bio = unat (bi_sector bio) * RAMHD_SECTOR_SIZE"

definition bio_in_range :: "bio \<Rightarrow> bool" where
  "bio_in_range bio \<longleftrightarrow> bio_start bio + unat (bi_size bio) \<le> RAMHD_SIZE"

text \<open>The specification: the error reported, the disks' contents and the pages afterwards.\<close>

definition bio_spec :: "bio \<Rightarrow> ramhd_state \<Rightarrow> ramhd_state" where
  "bio_spec bio s =
     (if \<not> bio_in_range bio then s\<lparr>rd_ended := rd_ended s @ [(bi_id bio, - EIO)]\<rparr>
      else if bi_dir bio = WRITE
      then s\<lparr>rd_data := (rd_data s)(bi_dev bio :=
               mem_splice (rd_data s (bi_dev bio)) (bio_start bio)
                 (gather (rd_pages s) (bi_segs bio))),
             rd_ended := rd_ended s @ [(bi_id bio, 0)]\<rparr>
      else s\<lparr>rd_pages := scatter (rd_pages s) (bi_segs bio)
               (take (unat (bi_size bio)) (drop (bio_start bio) (rd_data s (bi_dev bio)))),
             rd_ended := rd_ended s @ [(bi_id bio, 0)]\<rparr>)"

lemma ramhd_segments_xfer:
  assumes "xfer_all ramhd_copy (dir = WRITE) (rd_data s dev) (rd_pages s) (unat off) segs =
             Some (d', pg')"
    and "unat off + segs_len segs < 2 ^ 64" and "dir = READ \<or> dir = WRITE"
  shows "ramhd_segments dir dev segs off s =
           Inr (s\<lparr>rd_data := (rd_data s)(dev := d'), rd_pages := pg'\<rparr>)"
  using assms(1,2)
proof (induction segs arbitrary: off s)
  case Nil
  then show ?case by (cases s) (auto simp: fun_eq_iff)
next
  case (Cons b segs)
  have off': "unat (off + ucast (bv_len b)) = unat off + unat (bv_len b)"
    using Cons.prems(2) by (simp add: unat_word_ariths)
  from Cons.prems(1) obtain d1 page1 where
    x: "ramhd_copy (dir = WRITE) (rd_data s dev) (unat off) (rd_pages s (bv_page b))
          (unat (bv_offset b)) (unat (bv_len b)) = Some (d1, page1)" and
    rest: "xfer_all ramhd_copy (dir = WRITE) d1 ((rd_pages s)(bv_page b := page1))
             (unat off + unat (bv_len b)) segs = Some (d', pg')"
    by (auto split: option.splits)
  let ?s = "s\<lparr>rd_data := (rd_data s)(dev := d1), rd_pages := (rd_pages s)(bv_page b := page1)\<rparr>"
  have "ramhd_segments dir dev segs (off + ucast (bv_len b)) ?s =
          Inr (?s\<lparr>rd_data := (rd_data ?s)(dev := d'), rd_pages := pg'\<rparr>)"
    using Cons.IH [of ?s "off + ucast (bv_len b)"] rest off' Cons.prems(2)
    by (simp add: fun_upd_def)
  with x assms(3) show ?case by (simp add: fun_upd_def cong: if_cong)
qed

lemma ramhd_sizes: "RAMHD_SIZE = 8388608" "RAMHD_SECTOR_SIZE = 512" "RAMHD_MAX_DEVICE = 2"
  by (simp_all add: RAMHD_SIZE_def RAMHD_SECTOR_SIZE_def RAMHD_SECTOR_TOTAL_def RAMHD_SECTORS_def
      RAMHD_HEADS_def RAMHD_CYLINDERS_def RAMHD_MAX_DEVICE_def)

lemma bio_guard:
  assumes "unat (bi_sector bio) < 2 ^ 54"
  shows "bi_sector bio * of_nat RAMHD_SECTOR_SIZE + ucast (bi_size bio) > of_nat RAMHD_SIZE \<longleftrightarrow>
           \<not> bio_in_range bio"
    and "unat (bi_sector bio * of_nat RAMHD_SECTOR_SIZE) = bio_start bio"
proof -
  have p: "unat (bi_sector bio * 512) = bio_start bio"
    using assms unat_mult_512 [of "bi_sector bio"] by (simp add: bio_start_def ramhd_sizes)
  then show "unat (bi_sector bio * of_nat RAMHD_SECTOR_SIZE) = bio_start bio"
    by (simp add: ramhd_sizes)
  have "bio_start bio + unat (bi_size bio) < 2 ^ 64"
    using assms unat_less_pow_32 [of "bi_size bio"] by (simp add: bio_start_def ramhd_sizes)
  with p have "unat (bi_sector bio * 512 + ucast (bi_size bio)) = bio_start bio + unat (bi_size bio)"
    by (simp add: unat_word_ariths)
  then show "bi_sector bio * of_nat RAMHD_SECTOR_SIZE + ucast (bi_size bio) > of_nat RAMHD_SIZE \<longleftrightarrow>
           \<not> bio_in_range bio"
    by (simp add: word_less_nat_alt bio_in_range_def ramhd_sizes not_le)
qed

lemma ramhd_make_request_spec:
  assumes "bio_ok s bio" and "disks_ok s"
  shows "ramhd_make_request bio s = Inr (0, bio_spec bio s)"
proof -
  have sec: "unat (bi_sector bio) < 2 ^ 54" using assms by (simp add: bio_ok_def)
  show ?thesis
  proof (cases "bio_in_range bio")
    case False
    with bio_guard [OF sec] show ?thesis
      by (simp add: ramhd_make_request_def bio_spec_def Let_def)
  next
    case True
    let ?off = "bi_sector bio * of_nat RAMHD_SECTOR_SIZE" and ?dev = "bi_dev bio"
    let ?s = "bio_spec bio s"
    have len: "length (rd_data s ?dev) = RAMHD_SIZE"
      using assms by (simp add: bio_ok_def disks_ok_def)
    have xf: "xfer_all ramhd_copy (bi_dir bio = WRITE) (rd_data s ?dev) (rd_pages s) (unat ?off)
            (bi_segs bio) = Some (rd_data ?s ?dev, rd_pages ?s)"
      using True assms len bio_guard(2) [OF sec]
      by (auto simp: bio_spec_def bio_ok_def bio_in_range_def ramhd.write_all ramhd.read_all)
    have "unat ?off + segs_len (bi_segs bio) < 2 ^ 64"
      using True assms bio_guard(2) [OF sec] by (simp add: bio_in_range_def bio_ok_def ramhd_sizes)
    from ramhd_segments_xfer [OF xf this] assms True bio_guard(1) [OF sec] show ?thesis
      by (auto simp: ramhd_make_request_def bio_ok_def bio_spec_def Let_def)
  qed
qed

section \<open>Loading and unloading\<close>

definition ramhd_granted :: "ramhd_answers \<Rightarrow> bool" where
  "ramhd_granted a \<longleftrightarrow> 0 \<le> ra_major a \<and>
     (\<forall>i < RAMHD_MAX_DEVICE. ra_vmalloc a i \<noteq> NULL \<and> ra_kzalloc a i \<noteq> NULL \<and>
        ra_queue a i \<noteq> NULL \<and> ra_disk a i \<noteq> NULL)"

lemma upt_devices: "[0..<RAMHD_MAX_DEVICE] = [0, 1]"
  by (simp add: RAMHD_MAX_DEVICE_def upt_rec)

lemma ramhd_granted_alt:
  "ramhd_granted a \<longleftrightarrow> 0 \<le> ra_major a \<and>
     (\<forall>i \<in> {0, 1}. ra_vmalloc a i \<noteq> NULL \<and> ra_kzalloc a i \<noteq> NULL \<and>
        ra_queue a i \<noteq> NULL \<and> ra_disk a i \<noteq> NULL)"
  by (auto simp: ramhd_granted_def RAMHD_MAX_DEVICE_def less_2_cases_iff)

interpretation ramhd_mod: unloadable ramhd_init ramhd_exit ramhd_granted
proof
  fix a r s tr
  assume "ramhd_granted a" and "ramhd_init a = (r, s, tr)"
  then show "kexec {#} (tr @ ramhd_exit s) = Some {#}"
    by (auto simp: ramhd_init_def upt_devices ramhd_granted_alt Let_def ramhd_setup_def
        ramhd_globals0_def ramhd_exit_def clean_ramdev_def ramhd_space_clean_def kcall_simps)
qed

section \<open>Small instances\<close>

definition demo_disks :: ramhd_state where
  "demo_disks = \<lparr>rd_data = (\<lambda>i. replicate RAMHD_SIZE 0), rd_pages = (\<lambda>p. replicate 4096 (of_nat p)),
     rd_kmapped = {#}, rd_ended = []\<rparr>"

definition demo_bio :: "int \<Rightarrow> ptr \<Rightarrow> u64 \<Rightarrow> bio" where
  "demo_bio dir page sector = \<lparr>bi_id = page, bi_dev = 1, bi_sector = sector, bi_size = 1024,
     bi_dir = dir, bi_segs = [\<lparr>bv_page = page, bv_len = 512, bv_offset = 512\<rparr>,
                             \<lparr>bv_page = page, bv_len = 512, bv_offset = 0\<rparr>]\<rparr>"

definition demo_ramhd_answers :: ramhd_answers where
  "demo_ramhd_answers = \<lparr>ra_vmalloc = (\<lambda>i. 10 + i), ra_kzalloc = (\<lambda>i. 20 + i), ra_major = 252,
     ra_queue = (\<lambda>i. 30 + i), ra_disk = (\<lambda>i. 40 + i)\<rparr>"

lemma demo_disks_ok: "disks_ok demo_disks"
  by (simp add: disks_ok_def demo_disks_def)

lemma demo_bio_ok:
  "dir = READ \<or> dir = WRITE \<Longrightarrow> unat sector < 2 ^ 54 \<Longrightarrow> bio_ok demo_disks (demo_bio dir page sector)"
  by (auto simp: bio_ok_def demo_disks_def demo_bio_def seg_ok_def ramhd_sizes)

section \<open>Properties\<close>

text \<open>
  C2. \<open>ramhd_make_request\<close> serves every well-formed bio without leaving the disk's memory or a
  page: a bio that reaches beyond the end is ended with an I/O error and moves nothing; a
  write is one contiguous update of the disk it addresses, a read fills its segments with
  one contiguous piece of it. The other disk and all other pages keep their contents, every
  page mapped is unmapped, and the bio is ended exactly once.
\<close>

theorem ramhd_make_request_refines:
  assumes "bio_ok s bio" and "disks_ok s"
  shows "ramhd_make_request bio s = Inr (0, bio_spec bio s) \<and> disks_ok (bio_spec bio s) \<and>
         rd_kmapped (bio_spec bio s) = rd_kmapped s \<and>
         map fst (rd_ended (bio_spec bio s)) = map fst (rd_ended s) @ [bi_id bio] \<and>
         (\<forall>i. i \<noteq> bi_dev bio \<longrightarrow> rd_data (bio_spec bio s) i = rd_data s i)"
  using assms ramhd_make_request_spec [OF assms]
  by (auto simp: bio_spec_def disks_ok_def bio_ok_def bio_in_range_def)

theorem ramhd_make_request_refines_witness:
  "ramhd_make_request (demo_bio WRITE 3 16382) demo_disks =
     Inr (0, bio_spec (demo_bio WRITE 3 16382) demo_disks) \<and>
   rd_ended (bio_spec (demo_bio WRITE 3 16382) demo_disks) = [(3, 0)]"
  using ramhd_make_request_refines [OF demo_bio_ok demo_disks_ok, of WRITE 16382 3]
  by (simp add: bio_spec_def bio_in_range_def bio_start_def ramhd_sizes)
    (simp add: demo_bio_def demo_disks_def)

text \<open>
  A bio that reads the sectors another bio just wrote, on the same disk, gets the bytes
  that were written.
\<close>

lemma ramhd_read_after_write:
  assumes "bio_ok s w" and "bio_ok s r" and "disks_ok s" and "bio_in_range w"
    and "bi_dir w = WRITE" and "bi_dir r = READ" and "bi_dev r = bi_dev w"
    and "bi_sector r = bi_sector w" and "bi_size r = bi_size w" and "segs_disjoint (bi_segs r)"
  shows "\<exists>s' s''. ramhd_make_request w s = Inr (0, s') \<and> ramhd_make_request r s' = Inr (0, s'') \<and>
           gather (rd_pages s'') (bi_segs r) = gather (rd_pages s) (bi_segs w)"
proof -
  let ?s = "bio_spec w s" and ?bs = "gather (rd_pages s) (bi_segs w)"
  have len: "length ?bs = unat (bi_size w)" "length (rd_data s (bi_dev w)) = RAMHD_SIZE"
    "segs_len (bi_segs r) = length ?bs"
    using assms by (simp_all add: bio_ok_def disks_ok_def)
  then have "bio_start w + length ?bs \<le> length (rd_data s (bi_dev w))"
    using assms(4) by (simp add: bio_in_range_def)
  then have rd: "take (unat (bi_size r)) (drop (bio_start r) (rd_data ?s (bi_dev r))) = ?bs"
    using assms len take_drop_splice_same [of "bio_start w" ?bs "rd_data s (bi_dev w)"]
    by (simp add: bio_spec_def bio_start_def)
  have ok: "bio_ok ?s r" "disks_ok ?s" "rd_pages ?s = rd_pages s" "bio_in_range r"
    using assms by (auto simp: bio_spec_def bio_ok_def disks_ok_def bio_in_range_def bio_start_def)
  have "gather (rd_pages (bio_spec r ?s)) (bi_segs r) = ?bs"
    using assms ok rd len gather_scatter [of "rd_pages s" "bi_segs r" ?bs]
    by (simp add: bio_spec_def [of r] bio_ok_def)
  with ramhd_make_request_spec [OF assms(1,3)] ramhd_make_request_spec [OF ok(1,2)]
  show ?thesis by blast
qed

lemma ramhd_read_after_write_witness:
  "\<exists>s' s''. ramhd_make_request (demo_bio WRITE 3 7) demo_disks = Inr (0, s') \<and>
     ramhd_make_request (demo_bio READ 4 7) s' = Inr (0, s'') \<and>
     gather (rd_pages s'') (bi_segs (demo_bio READ 4 7)) = replicate 1024 3"
  using ramhd_read_after_write [of demo_disks "demo_bio WRITE 3 7" "demo_bio READ 4 7"]
  by (simp add: demo_bio_ok demo_disks_ok)
    (simp add: demo_bio_def demo_disks_def bio_in_range_def bio_start_def ramhd_sizes seg_disjoint_def
      gather_def seg_bytes_def replicate_add [symmetric])

text \<open>
  The range check computes in 64 bits and wraps: a sector number and the one \<open>2 ^ 55\<close> above
  it are the same to \<open>ramhd_make_request\<close>, so the check alone does not keep a huge sector
  number out. (It is the block layer that does.)
\<close>

lemma ramhd_sector_wraps:
  "ramhd_make_request (bio\<lparr>bi_sector := sec + 2 ^ 55\<rparr>) s =
   ramhd_make_request (bio\<lparr>bi_sector := sec\<rparr>) s"
proof -
  have z: "(18446744073709551616 :: u64) = 0" by (rule word_uint_eqI) simp
  show ?thesis
    by (simp add: ramhd_make_request_def ramhd_sizes distrib_right Let_def z split: sum.splits)
qed

text \<open>
  The geometry \<^verbatim>\<open>ioctl\<close> answers only its own command and only when the user's buffer can
  be written; the geometry it reports multiplies out to the disk's size in bytes.
\<close>

lemma ramhd_ioctl_geometry:
  "blkdev_ioctl (ramhd_fops access_ok copy_to_user) start cmd arg =
     (if cmd \<noteq> HDIO_GETGEO then (- ENOTTY, None)
      else if access_ok arg \<and> copy_to_user arg \<lparr>geo_heads = 4, geo_sectors = 16,
             geo_cylinders = 256, geo_start = start\<rparr> = 0
      then (0, Some \<lparr>geo_heads = 4, geo_sectors = 16, geo_cylinders = 256, geo_start = start\<rparr>)
      else (- EFAULT, None)) \<and>
   unat (4 :: u8) * unat (16 :: u8) * unat (256 :: u16) * RAMHD_SECTOR_SIZE = RAMHD_SIZE"
  by (simp add: blkdev_ioctl_def ramhd_fops_def ramhd_ioctl_def Let_def RAMHD_HEADS_def RAMHD_SECTORS_def RAMHD_CYLINDERS_def
      ramhd_sizes)

text \<open>
  When the kernel grants what the driver asks for, loading and unloading it any number
  of times gives everything back: both disks, their queues, memory and device structures,
  and the major number.
\<close>

lemma ramhd_load_unload:
  assumes "list_all ramhd_granted as"
  shows "kexec {#} (concat (map (load_unload ramhd_init ramhd_exit) as)) = Some {#}"
proof (rule ramhd_mod.unload_cycles)
  fix a
  assume "a \<in> set as"
  with assms show "ramhd_granted a \<and> 0 \<le> fst (ramhd_init a)"
    by (auto simp: list_all_iff ramhd_init_def upt_devices ramhd_granted_alt Let_def ramhd_setup_def)
qed

lemma ramhd_load_unload_witness:
  "kexec {#} (concat (map (load_unload ramhd_init ramhd_exit)
     [demo_ramhd_answers, demo_ramhd_answers])) = Some {#}"
  by (rule ramhd_load_unload) (simp add: ramhd_granted_def demo_ramhd_answers_def)

text \<open>
  When the second \<^verbatim>\<open>vmalloc\<close> is refused, \<open>ramhd_init\<close> fails and leaves the first disk's
  memory allocated: the failure path frees nothing.
\<close>

lemma ramhd_init_leaks:
  assumes "ra_vmalloc a 0 = p" and "p \<noteq> NULL" and "ra_vmalloc a 1 = NULL"
  shows "fst (ramhd_init a) = - ENOMEM \<and>
         kexec {#} (load_unload ramhd_init ramhd_exit a) = Some {#RVmem p#}"
  using assms by (simp add: ramhd_init_def upt_devices load_unload_def Let_def kcall_simps)

lemma ramhd_init_leaks_witness:
  "fst (ramhd_init (demo_ramhd_answers\<lparr>ra_vmalloc := (\<lambda>i. if i = 0 then 10 else NULL)\<rparr>)) = - ENOMEM \<and>
   kexec {#} (load_unload ramhd_init ramhd_exit
     (demo_ramhd_answers\<lparr>ra_vmalloc := (\<lambda>i. if i = 0 then 10 else NULL)\<rparr>)) = Some {#RVmem 10#}"
  by (rule ramhd_init_leaks) simp_all

end
