(* ===== verification/Ramhd_Req.thy ===== *)
theory Ramhd_Req
  imports Ramhd_Mkreq
begin

text \<open>
  The RAM disk with a request queue, \<^verbatim>\<open>ramdisk-lab/ramhd_req.c\<close>. The file has its own copy of
  the constants, the space and device allocation and the \<^verbatim>\<open>ioctl\<close> of \<^verbatim>\<open>ramhd_mkreq.c\<close>; a
  device also has the lock of its queue. They are modelled here with the suffix \<open>_q\<close> and
  shown to agree with those of the other driver once the locks are forgotten
  (\<open>ramhd_forget\<close>). What really differs is \<open>ramhd_init\<close>, which ignores errors, and
  \<open>ramhd_req_func\<close>, which takes a request one chunk at a time. The block layer is a
  parameter: \<open>fetch\<close> stands for \<^verbatim>\<open>blk_fetch_request\<close>, \<open>end_cur\<close> for
  \<^verbatim>\<open>__blk_end_request_cur\<close> (the request's next chunk, or nothing when it was the last one).
\<close>

section \<open>The driver\<close>

definition RAMHD_NAME_q :: string where "RAMHD_NAME_q = ''ramsd''"
definition RAMHD_MAX_DEVICE_q :: nat where "RAMHD_MAX_DEVICE_q = 2"
definition RAMHD_MAX_PARTITIONS_q :: nat where "RAMHD_MAX_PARTITIONS_q = 4"
definition RAMHD_SECTOR_SIZE_q :: nat where "RAMHD_SECTOR_SIZE_q = 512"
definition RAMHD_SECTORS_q :: nat where "RAMHD_SECTORS_q = 16"
definition RAMHD_HEADS_q :: nat where "RAMHD_HEADS_q = 4"
definition RAMHD_CYLINDERS_q :: nat where "RAMHD_CYLINDERS_q = 256"

definition RAMHD_SECTOR_TOTAL_q :: nat where
  "RAMHD_SECTOR_TOTAL_q = RAMHD_SECTORS_q * RAMHD_HEADS_q * RAMHD_CYLINDERS_q"

definition RAMHD_SIZE_q :: nat where
  "RAMHD_SIZE_q = RAMHD_SECTOR_SIZE_q * RAMHD_SECTOR_TOTAL_q"

text \<open>
  A device with its queue's lock: nothing before \<^verbatim>\<open>spin_lock_init\<close>, then whether it is held.
\<close>

record RAMHD_DEV_q =
  rhq_data :: ptr
  rhq_queue :: ptr
  rhq_lock :: "bool option"
  rhq_gd :: ptr
  rhq_disk :: "ramhd_gendisk option"

record ramhd_globals_q =
  sdisk_q :: "nat \<Rightarrow> ptr"
  rdev_q :: "nat \<Rightarrow> ptr"
  rdev_obj_q :: "nat \<Rightarrow> RAMHD_DEV_q"
  ramhd_major_q :: int

definition zero_ramhd_dev_q :: RAMHD_DEV_q where
  "zero_ramhd_dev_q = \<lparr>rhq_data = NULL, rhq_queue = NULL, rhq_lock = None, rhq_gd = NULL, rhq_disk = None\<rparr>"

definition ramhd_globals0_q :: ramhd_globals_q where
  "ramhd_globals0_q = \<lparr>sdisk_q = (\<lambda>_. NULL), rdev_q = (\<lambda>_. NULL), rdev_obj_q = (\<lambda>_. zero_ramhd_dev_q),
                       ramhd_major_q = 0\<rparr>"

fun ramhd_space_init_q :: "ramhd_answers \<Rightarrow> nat list \<Rightarrow> ramhd_globals_q \<Rightarrow> ramhd_globals_q loaded" where
  "ramhd_space_init_q a [] g = (0, g, [])"
| "ramhd_space_init_q a (i # is) g =
     (let p = ra_vmalloc a i; g = g\<lparr>sdisk_q := (sdisk_q g)(i := p)\<rparr> in
      if p = NULL then (- ENOMEM, g, [Vmalloc p])
      else case ramhd_space_init_q a is g of (err, g', tr) \<Rightarrow> (err, g', Vmalloc p # tr))"

definition ramhd_space_clean_q :: "ramhd_globals_q \<Rightarrow> kcall list" where
  "ramhd_space_clean_q g = map (\<lambda>i. Vfree (sdisk_q g i)) [0..<RAMHD_MAX_DEVICE_q]"

fun alloc_ramdev_q :: "ramhd_answers \<Rightarrow> nat list \<Rightarrow> ramhd_globals_q \<Rightarrow> ramhd_globals_q loaded" where
  "alloc_ramdev_q a [] g = (0, g, [])"
| "alloc_ramdev_q a (i # is) g =
     (let p = ra_kzalloc a i; g = g\<lparr>rdev_q := (rdev_q g)(i := p)\<rparr> in
      if p = NULL then (- ENOMEM, g, [Kzalloc p])
      else case alloc_ramdev_q a is (g\<lparr>rdev_obj_q := (rdev_obj_q g)(i := zero_ramhd_dev_q)\<rparr>) of
             (err, g', tr) \<Rightarrow> (err, g', Kzalloc p # tr))"

definition clean_ramdev_q :: "ramhd_globals_q \<Rightarrow> kcall list" where
  "clean_ramdev_q g =
     concat (map (\<lambda>i. if rdev_q g i \<noteq> NULL then [Kfree (rdev_q g i)] else []) [0..<RAMHD_MAX_DEVICE_q])"

definition ramhd_open_q :: "u64 \<Rightarrow> u32 \<Rightarrow> int" where
  "ramhd_open_q bdev mode = 0"

definition ramhd_release_q :: "u64 \<Rightarrow> u32 \<Rightarrow> int" where
  "ramhd_release_q gd mode = 0"

definition ramhd_ioctl_q ::
  "(u64 \<Rightarrow> bool) \<Rightarrow> (u64 \<Rightarrow> hd_geometry \<Rightarrow> nat) \<Rightarrow> u64 \<Rightarrow> u32 \<Rightarrow> u64 \<Rightarrow> int \<times> hd_geometry option" where
  "ramhd_ioctl_q access_ok copy_to_user start cmd arg =
     (if cmd = HDIO_GETGEO
      then if \<not> access_ok arg then (- EFAULT, None)
           else
             let geo = \<lparr>geo_heads = of_nat RAMHD_HEADS_q, geo_sectors = of_nat RAMHD_SECTORS_q,
                        geo_cylinders = of_nat RAMHD_CYLINDERS_q, geo_start = start\<rparr> in
             if copy_to_user arg geo \<noteq> 0 then (- EFAULT, None) else (0, Some geo)
      else (- ENOTTY, None))"

definition ramhd_fops_q ::
  "(u64 \<Rightarrow> bool) \<Rightarrow> (u64 \<Rightarrow> hd_geometry \<Rightarrow> nat) \<Rightarrow> block_device_operations" where
  "ramhd_fops_q access_ok copy_to_user =
     \<lparr>bd_open = Some ramhd_open_q, bd_release = Some ramhd_release_q,
      bd_ioctl = Some (ramhd_ioctl_q access_ok copy_to_user)\<rparr>"

definition ramhd_setup_q :: "ramhd_answers \<Rightarrow> nat \<Rightarrow> ramhd_globals_q \<Rightarrow> ramhd_globals_q \<times> kcall list" where
  "ramhd_setup_q a i g =
     (let p = rdev_q g i; q = ra_queue a i; dk = ra_disk a i;
          gd = \<lparr>rg_major = ramhd_major_q g, rg_first_minor = i * RAMHD_MAX_PARTITIONS_q,
                rg_queue = q, rg_private_data = p,
                rg_disk_name = ''ramsd'' @ [''abcdefghijklmnopqrstuvwxyz'' ! i],
                rg_capacity = RAMHD_SECTOR_TOTAL_q\<rparr>;
          d = \<lparr>rhq_data = sdisk_q g i, rhq_queue = q, rhq_lock = Some False, rhq_gd = dk, rhq_disk = Some gd\<rparr> in
      (g\<lparr>rdev_obj_q := (rdev_obj_q g)(i := d)\<rparr>,
       [Deref p, Alloc_disk dk, Blk_init_queue q, Add_disk dk]))"

fun ramhd_setup_all_q ::
  "ramhd_answers \<Rightarrow> nat list \<Rightarrow> ramhd_globals_q \<Rightarrow> ramhd_globals_q \<times> kcall list" where
  "ramhd_setup_all_q a [] g = (g, [])"
| "ramhd_setup_all_q a (i # is) g =
     (case ramhd_setup_q a i g of (g', tr) \<Rightarrow>
        case ramhd_setup_all_q a is g' of (g'', tr') \<Rightarrow> (g'', tr @ tr'))"

definition ramhd_init_q :: "ramhd_answers \<Rightarrow> ramhd_globals_q loaded" where
  "ramhd_init_q a =
     (case ramhd_space_init_q a [0..<RAMHD_MAX_DEVICE_q] ramhd_globals0_q of (_, g, tr) \<Rightarrow>
        case alloc_ramdev_q a [0..<RAMHD_MAX_DEVICE_q] g of (_, g, tr1) \<Rightarrow>
          let g = g\<lparr>ramhd_major_q := ra_major a\<rparr> in
          case ramhd_setup_all_q a [0..<RAMHD_MAX_DEVICE_q] g of (g, tr2) \<Rightarrow>
            (0, g, tr @ tr1 @ [Register_blkdev (ra_major a)] @ tr2))"

definition ramhd_exit_q :: "ramhd_globals_q \<Rightarrow> kcall list" where
  "ramhd_exit_q g =
     concat (map (\<lambda>i. [Deref (rdev_q g i), Del_gendisk (rhq_gd (rdev_obj_q g i)),
                       Put_disk (rhq_gd (rdev_obj_q g i)),
                       Blk_cleanup_queue (rhq_queue (rdev_obj_q g i))]) [0..<RAMHD_MAX_DEVICE_q]) @
     [Unregister_blkdev (ramhd_major_q g)] @ clean_ramdev_q g @ ramhd_space_clean_q g"

text \<open>
  A request as the driver reads it: the disk, the sector cursor (\<^verbatim>\<open>blk_rq_pos\<close>), the
  direction, and the chunk \<^verbatim>\<open>req->buffer\<close> points to (\<^verbatim>\<open>blk_rq_cur_bytes\<close> long), with the
  chunks that follow it.
\<close>

record hd_request =
  hr_dev :: nat
  hr_sector :: u64
  hr_dir :: int
  hr_cur :: bio_vec
  hr_rest :: "bio_vec list"

record hd_state =
  hd_data :: "nat \<Rightarrow> bytes"
  hd_pages :: pages

text \<open>One turn of the \<^verbatim>\<open>while\<close> loop up to the completion of the chunk.\<close>

definition ramhd_chunk :: "hd_request \<Rightarrow> hd_state \<Rightarrow> fault + hd_state" where
  "ramhd_chunk r s =
     (let off = hr_sector r * of_nat RAMHD_SECTOR_SIZE_q; b = hr_cur r;
          dat = hd_data s (hr_dev r); page = hd_pages s (bv_page b) in
      if hr_dir r = READ
      then case memcpy page (unat (bv_offset b)) dat (unat off) (unat (bv_len b)) of
             None \<Rightarrow> Inl OutOfBounds
           | Some page' \<Rightarrow> Inr (s\<lparr>hd_pages := (hd_pages s)(bv_page b := page')\<rparr>)
      else case memcpy dat (unat off) page (unat (bv_offset b)) (unat (bv_len b)) of
             None \<Rightarrow> Inl OutOfBounds
           | Some dat' \<Rightarrow> Inr (s\<lparr>hd_data := (hd_data s)(hr_dev r := dat')\<rparr>))"

partial_function (option) ramhd_req_loop ::
  "('q \<Rightarrow> (hd_request \<times> 'q) option) \<Rightarrow> (hd_request \<Rightarrow> hd_request option) \<Rightarrow>
   (hd_request \<times> 'q) option \<Rightarrow> 'q \<Rightarrow> hd_state \<Rightarrow> (fault + 'q \<times> hd_state) option" where
  "ramhd_req_loop fetch end_cur req q s =
     (case req of
        None \<Rightarrow> Some (Inr (q, s))
      | Some (r, q') \<Rightarrow>
          (case ramhd_chunk r s of
             Inl f \<Rightarrow> Some (Inl f)
           | Inr s' \<Rightarrow>
               (case end_cur r of
                  Some r' \<Rightarrow> ramhd_req_loop fetch end_cur (Some (r', q')) q' s'
                | None \<Rightarrow> ramhd_req_loop fetch end_cur (fetch q') q' s')))"

definition ramhd_req_func ::
  "('q \<Rightarrow> (hd_request \<times> 'q) option) \<Rightarrow> (hd_request \<Rightarrow> hd_request option) \<Rightarrow>
   'q \<Rightarrow> hd_state \<Rightarrow> (fault + 'q \<times> hd_state) option" where
  "ramhd_req_func fetch end_cur q s = ramhd_req_loop fetch end_cur (fetch q) q s"

section \<open>The two drivers' allocation code\<close>

lemma ramhd_q_consts [simp]:
  "RAMHD_MAX_DEVICE_q = RAMHD_MAX_DEVICE" "RAMHD_MAX_PARTITIONS_q = RAMHD_MAX_PARTITIONS"
  "RAMHD_SECTOR_SIZE_q = RAMHD_SECTOR_SIZE" "RAMHD_SECTORS_q = RAMHD_SECTORS" "RAMHD_HEADS_q = RAMHD_HEADS"
  "RAMHD_CYLINDERS_q = RAMHD_CYLINDERS" "RAMHD_SECTOR_TOTAL_q = RAMHD_SECTOR_TOTAL" "RAMHD_SIZE_q = RAMHD_SIZE"
  by (simp_all add: RAMHD_MAX_DEVICE_q_def RAMHD_MAX_DEVICE_def RAMHD_MAX_PARTITIONS_q_def
      RAMHD_MAX_PARTITIONS_def RAMHD_SECTOR_SIZE_q_def RAMHD_SECTOR_SIZE_def RAMHD_SECTORS_q_def
      RAMHD_SECTORS_def RAMHD_HEADS_q_def RAMHD_HEADS_def RAMHD_CYLINDERS_q_def RAMHD_CYLINDERS_def
      RAMHD_SECTOR_TOTAL_q_def RAMHD_SECTOR_TOTAL_def RAMHD_SIZE_q_def RAMHD_SIZE_def)

text \<open>The state of the other driver that a state of this one stands for.\<close>

definition ramhd_forget_dev :: "RAMHD_DEV_q \<Rightarrow> RAMHD_DEV" where
  "ramhd_forget_dev d = \<lparr>rh_data = rhq_data d, rh_queue = rhq_queue d, rh_gd = rhq_gd d, rh_disk = rhq_disk d\<rparr>"

definition ramhd_forget :: "ramhd_globals_q \<Rightarrow> ramhd_globals" where
  "ramhd_forget g = \<lparr>sdisk = sdisk_q g, rdev = rdev_q g, rdev_obj = ramhd_forget_dev \<circ> rdev_obj_q g,
                     ramhd_major = ramhd_major_q g\<rparr>"

lemma ramhd_forget_sel [simp]:
  "sdisk (ramhd_forget g) = sdisk_q g" "rdev (ramhd_forget g) = rdev_q g"
  "ramhd_major (ramhd_forget g) = ramhd_major_q g"
  "rdev_obj (ramhd_forget g) i = ramhd_forget_dev (rdev_obj_q g i)"
  by (simp_all add: ramhd_forget_def)

lemma ramhd_forget_upd:
  "ramhd_forget (g\<lparr>sdisk_q := x\<rparr>) = (ramhd_forget g)\<lparr>sdisk := x\<rparr>"
  "ramhd_forget (g\<lparr>rdev_q := y\<rparr>) = (ramhd_forget g)\<lparr>rdev := y\<rparr>"
  "ramhd_forget (g\<lparr>rdev_obj_q := (rdev_obj_q g)(i := d)\<rparr>) =
     (ramhd_forget g)\<lparr>rdev_obj := (rdev_obj (ramhd_forget g))(i := ramhd_forget_dev d)\<rparr>"
  by (auto simp: ramhd_forget_def fun_eq_iff)

lemma ramhd_forget_zero [simp]: "ramhd_forget_dev zero_ramhd_dev_q = zero_ramhd_dev"
  by (simp add: ramhd_forget_dev_def zero_ramhd_dev_q_def zero_ramhd_dev_def)

lemma ramhd_space_init_agrees:
  "ramhd_space_init a is (ramhd_forget g) =
     (case ramhd_space_init_q a is g of (err, g', tr) \<Rightarrow> (err, ramhd_forget g', tr))"
  by (induction "is" arbitrary: g) (auto simp: Let_def ramhd_forget_upd [symmetric] split: prod.splits)

lemma alloc_ramdev_agrees:
  "alloc_ramdev a is (ramhd_forget g) =
     (case alloc_ramdev_q a is g of (err, g', tr) \<Rightarrow> (err, ramhd_forget g', tr))"
proof (induction "is" arbitrary: g)
  case (Cons i "is")
  let ?g = "g\<lparr>rdev_q := (rdev_q g)(i := ra_kzalloc a i)\<rparr>"
  have "(ramhd_forget ?g)\<lparr>rdev_obj := (rdev_obj (ramhd_forget ?g))(i := zero_ramhd_dev)\<rparr> =
      ramhd_forget (?g\<lparr>rdev_obj_q := (rdev_obj_q ?g)(i := zero_ramhd_dev_q)\<rparr>)"
    by (simp only: ramhd_forget_upd(3) ramhd_forget_zero)
  with Cons show ?case by (simp add: Let_def ramhd_forget_upd(2) [symmetric] split: prod.splits)
qed simp

lemma ramhd_clean_agrees:
  "clean_ramdev_q g = clean_ramdev (ramhd_forget g)" "ramhd_space_clean_q g = ramhd_space_clean (ramhd_forget g)"
  by (simp_all add: clean_ramdev_q_def clean_ramdev_def ramhd_space_clean_q_def ramhd_space_clean_def cong: if_cong)

lemma ramhd_fops_agrees: "ramhd_fops_q = ramhd_fops"
  by (simp add: ramhd_fops_q_def ramhd_fops_def ramhd_open_q_def ramhd_open_def ramhd_release_q_def
      ramhd_release_def ramhd_ioctl_q_def ramhd_ioctl_def fun_eq_iff)

section \<open>Requests\<close>

text \<open>
  What the block layer promises: requests come in order; ending a chunk moves the request to
  its next chunk and its cursor on by the sectors of the chunk; chunks other than the last
  are whole sectors and lie in their pages.
\<close>

definition hd_fifo :: "('q \<Rightarrow> (hd_request \<times> 'q) option) \<Rightarrow> ('q \<Rightarrow> hd_request list) \<Rightarrow> bool" where
  "hd_fifo fetch pending \<longleftrightarrow> (\<forall>q. case fetch q of
       None \<Rightarrow> pending q = []
     | Some (r, q') \<Rightarrow> pending q = r # pending q')"

definition ends_chunks :: "(hd_request \<Rightarrow> hd_request option) \<Rightarrow> bool" where
  "ends_chunks end_cur \<longleftrightarrow> (\<forall>r. end_cur r = (case hr_rest r of
       [] \<Rightarrow> None
     | b # bs \<Rightarrow> Some (r\<lparr>hr_sector := hr_sector r + ucast (bv_len (hr_cur r)) div 512,
                        hr_cur := b, hr_rest := bs\<rparr>)))"

definition hr_segs :: "hd_request \<Rightarrow> bio_vec list" where
  "hr_segs r = hr_cur r # hr_rest r"

definition hr_start :: "hd_request \<Rightarrow> nat" where
  "hr_start r = unat (hr_sector r) * 512"

definition hr_ok :: "hd_state \<Rightarrow> hd_request \<Rightarrow> bool" where
  "hr_ok s r \<longleftrightarrow> segs_ok (hd_pages s) (hr_segs r) \<and>
     (\<forall>b \<in> set (hr_segs r). 512 dvd unat (bv_len b)) \<and>
     unat (hr_sector r) < 2 ^ 54 \<and>
     hr_start r + segs_len (hr_segs r) \<le> length (hd_data s (hr_dev r)) \<and>
     length (hd_data s (hr_dev r)) < 2 ^ 63"

definition hr_spec :: "hd_request \<Rightarrow> hd_state \<Rightarrow> hd_state" where
  "hr_spec r s =
     (if hr_dir r = READ
      then s\<lparr>hd_pages := scatter (hd_pages s) (hr_segs r)
               (take (segs_len (hr_segs r)) (drop (hr_start r) (hd_data s (hr_dev r))))\<rparr>
      else s\<lparr>hd_data := (hd_data s)(hr_dev r :=
               mem_splice (hd_data s (hr_dev r)) (hr_start r) (gather (hd_pages s) (hr_segs r)))\<rparr>)"

lemma hd_fifo_fetch:
  assumes "hd_fifo fetch pending"
  shows "pending q = [] \<Longrightarrow> fetch q = None"
    and "pending q = r # rs \<Longrightarrow> \<exists>q'. fetch q = Some (r, q') \<and> pending q' = rs"
proof -
  from assms have "case fetch q of None \<Rightarrow> pending q = [] | Some (r, q') \<Rightarrow> pending q = r # pending q'"
    by (simp add: hd_fifo_def)
  then show "pending q = [] \<Longrightarrow> fetch q = None"
    and "pending q = r # rs \<Longrightarrow> \<exists>q'. fetch q = Some (r, q') \<and> pending q' = rs"
    by (auto split: option.splits)
qed

text \<open>A chunk is one segment of the shared transfer, with the same copy as the other driver.\<close>

lemma ramhd_chunk_xfer:
  assumes "ramhd_copy (hr_dir r \<noteq> READ) (hd_data s (hr_dev r)) (hr_start r)
             (hd_pages s (bv_page (hr_cur r))) (unat (bv_offset (hr_cur r)))
             (unat (bv_len (hr_cur r))) = Some (d', page')"
    and "unat (hr_sector r) < 2 ^ 54"
  shows "ramhd_chunk r s = Inr (s\<lparr>hd_data := (hd_data s)(hr_dev r := d'),
           hd_pages := (hd_pages s)(bv_page (hr_cur r) := page')\<rparr>)"
proof -
  have "unat (hr_sector r * 512) = hr_start r"
    using assms(2) unat_mult_512 [of "hr_sector r"] by (simp add: hr_start_def)
  with assms(1) show ?thesis
    by (auto simp: ramhd_chunk_def ramhd_copy_def ramhd_sizes Let_def split: if_splits option.splits)
qed

text \<open>The next chunk starts where the current one ends.\<close>

definition next_chunk :: "hd_request \<Rightarrow> bio_vec \<Rightarrow> bio_vec list \<Rightarrow> hd_request" where
  "next_chunk r b bs = r\<lparr>hr_sector := hr_sector r + ucast (bv_len (hr_cur r)) div 512,
                          hr_cur := b, hr_rest := bs\<rparr>"

lemma next_chunk_start:
  assumes "512 dvd unat (bv_len (hr_cur r))"
    and "hr_start r + unat (bv_len (hr_cur r)) < 2 ^ 63"
  shows "hr_start (next_chunk r b bs) = hr_start r + unat (bv_len (hr_cur r))"
    and "unat (hr_sector (next_chunk r b bs)) < 2 ^ 54"
proof -
  let ?n = "unat (bv_len (hr_cur r))"
  from assms(1) obtain k where k: "?n = 512 * k" by blast
  have d: "unat (ucast (bv_len (hr_cur r)) div 512 :: u64) = k"
    using k by (simp add: unat_div_distrib)
  have "unat (hr_sector r) + k < 2 ^ 54"
    using assms(2) k by (simp add: hr_start_def)
  then have "unat (hr_sector r + ucast (bv_len (hr_cur r)) div 512) = unat (hr_sector r) + k"
    using d by (simp add: unat_word_ariths)
  with \<open>unat (hr_sector r) + k < 2 ^ 54\<close> k
  show "hr_start (next_chunk r b bs) = hr_start r + ?n"
    and "unat (hr_sector (next_chunk r b bs)) < 2 ^ 54"
    by (simp_all add: hr_start_def next_chunk_def algebra_simps)
qed

lemma ramhd_req_loop_xfer:
  assumes "ends_chunks end_cur" and "hr_rest r = bs"
    and "xfer_all ramhd_copy (hr_dir r \<noteq> READ) (hd_data s (hr_dev r)) (hd_pages s) (hr_start r)
           (hr_segs r) = Some (d', pg')"
    and "unat (hr_sector r) < 2 ^ 54" and "\<forall>b \<in> set (hr_segs r). 512 dvd unat (bv_len b)"
    and "hr_start r + segs_len (hr_segs r) < 2 ^ 63"
  shows "ramhd_req_loop fetch end_cur (Some (r, q')) q s =
           ramhd_req_loop fetch end_cur (fetch q') q'
             (s\<lparr>hd_data := (hd_data s)(hr_dev r := d'), hd_pages := pg'\<rparr>)"
  using assms(2-)
proof (induction bs arbitrary: r s q)
  case Nil
  then have "ramhd_chunk r s = Inr (s\<lparr>hd_data := (hd_data s)(hr_dev r := d'), hd_pages := pg'\<rparr>)"
    by (auto simp: hr_segs_def split: option.splits intro!: ramhd_chunk_xfer)
  moreover have "end_cur r = None"
    using assms(1) Nil.prems(1) by (simp add: ends_chunks_def)
  ultimately show ?case
    by (simp add: ramhd_req_loop.simps [of fetch end_cur "Some (r, q')"] fun_upd_def)
next
  case (Cons b bs)
  let ?c = "hr_cur r" and ?r = "next_chunk r b bs"
  from Cons.prems(1,2) obtain d1 page1 where
    x: "ramhd_copy (hr_dir r \<noteq> READ) (hd_data s (hr_dev r)) (hr_start r) (hd_pages s (bv_page ?c))
          (unat (bv_offset ?c)) (unat (bv_len ?c)) = Some (d1, page1)" and
    rest: "xfer_all ramhd_copy (hr_dir r \<noteq> READ) d1 ((hd_pages s)(bv_page ?c := page1))
             (hr_start r + unat (bv_len ?c)) (b # bs) = Some (d', pg')"
    by (auto simp: hr_segs_def split: option.splits)
  let ?s = "s\<lparr>hd_data := (hd_data s)(hr_dev r := d1), hd_pages := (hd_pages s)(bv_page ?c := page1)\<rparr>"
  have st: "hr_start ?r = hr_start r + unat (bv_len ?c)" "unat (hr_sector ?r) < 2 ^ 54"
    using next_chunk_start [of r b bs] Cons.prems by (auto simp: hr_segs_def)
  have segs: "hr_segs ?r = b # bs" "hr_rest ?r = bs" "hr_dir ?r = hr_dir r" "hr_dev ?r = hr_dev r"
    by (simp_all add: next_chunk_def hr_segs_def)
  have "ramhd_req_loop fetch end_cur (Some (?r, q')) q' ?s =
          ramhd_req_loop fetch end_cur (fetch q') q'
            (?s\<lparr>hd_data := (hd_data ?s)(hr_dev ?r := d'), hd_pages := pg'\<rparr>)"
    using Cons.prems rest st segs
    by (intro Cons.IH) (auto simp: hr_segs_def fun_upd_def simp del: xfer_all.simps)
  moreover have "end_cur r = Some ?r"
    using assms(1) Cons.prems(1) by (simp add: ends_chunks_def next_chunk_def)
  ultimately show ?case
    using ramhd_chunk_xfer [OF x Cons.prems(3)] segs
    by (simp add: ramhd_req_loop.simps [of fetch end_cur "Some (r, q')"] fun_upd_def cong: if_cong)
qed

lemma ramhd_req_loop_request:
  assumes "ends_chunks end_cur" and "hr_ok s r"
  shows "ramhd_req_loop fetch end_cur (Some (r, q')) q s =
           ramhd_req_loop fetch end_cur (fetch q') q' (hr_spec r s)"
proof -
  let ?s = "hr_spec r s"
  have xf: "xfer_all ramhd_copy (hr_dir r \<noteq> READ) (hd_data s (hr_dev r)) (hd_pages s) (hr_start r)
          (hr_segs r) = Some (hd_data ?s (hr_dev r), hd_pages ?s)"
    using assms(2) by (auto simp: hr_ok_def hr_spec_def ramhd.write_all ramhd.read_all)
  have "s\<lparr>hd_data := (hd_data s)(hr_dev r := hd_data ?s (hr_dev r)), hd_pages := hd_pages ?s\<rparr> = ?s"
    by (simp add: hr_spec_def)
  with ramhd_req_loop_xfer [OF assms(1) refl xf] assms(2) show ?thesis
    by (simp add: hr_ok_def)
qed

lemma hr_spec_ok: "hr_ok s r \<Longrightarrow> hr_ok (hr_spec r s) r' = hr_ok s r'"
  by (auto simp: hr_ok_def hr_spec_def)

lemma ramhd_req_loop_spec:
  assumes "hd_fifo fetch pending" and "ends_chunks end_cur"
    and "pending q = rs" and "list_all (hr_ok s) rs"
  shows "\<exists>q'. ramhd_req_loop fetch end_cur (fetch q) q s = Some (Inr (q', fold hr_spec rs s)) \<and>
              pending q' = []"
  using assms(3,4)
proof (induction rs arbitrary: q s)
  case Nil
  with assms(1) show ?case by (simp add: hd_fifo_fetch(1) ramhd_req_loop.simps)
next
  case (Cons r rs)
  with assms(1) obtain q' where q': "fetch q = Some (r, q')" "pending q' = rs"
    by (auto dest: hd_fifo_fetch(2))
  have "list_all (hr_ok (hr_spec r s)) rs"
    using Cons.prems by (simp add: list_all_iff hr_spec_ok)
  with Cons.IH [OF q'(2)] q' Cons.prems show ?case
    by (simp add: ramhd_req_loop_request [OF assms(2)])
qed

interpretation ramhd_mod_q: unloadable ramhd_init_q ramhd_exit_q ramhd_granted
proof
  fix a r s tr
  assume "ramhd_granted a" and "ramhd_init_q a = (r, s, tr)"
  then show "kexec {#} (tr @ ramhd_exit_q s) = Some {#}"
    by (auto simp: ramhd_init_q_def upt_devices ramhd_granted_alt Let_def ramhd_setup_q_def
        ramhd_globals0_q_def ramhd_exit_q_def clean_ramdev_q_def ramhd_space_clean_q_def kcall_simps)
qed

text \<open>The same devices, up to the names of the disks and the initialised, free locks.\<close>

definition ramhd_same_device :: "ramhd_globals \<Rightarrow> ramhd_globals_q \<Rightarrow> nat \<Rightarrow> bool" where
  "ramhd_same_device g k i \<longleftrightarrow>
     sdisk g i = sdisk_q k i \<and> rdev g i = rdev_q k i \<and> rhq_lock (rdev_obj_q k i) = Some False \<and>
     rdev_obj g i = (ramhd_forget_dev (rdev_obj_q k i))\<lparr>rh_disk := map_option
       (rg_disk_name_update (\<lambda>n. RAMHD_NAME @ drop 5 n)) (rhq_disk (rdev_obj_q k i))\<rparr>"

lemma ramhd_init_same:
  assumes "ramhd_granted a" "ramhd_init a = (0, g, tr)" "ramhd_init_q a = (0, k, trq)" "i < RAMHD_MAX_DEVICE"
  shows "ramhd_same_device g k i"
proof -
  have "ramhd_same_device g k 0 \<and> ramhd_same_device g k 1" using assms(1-3)
    by (auto simp: ramhd_same_device_def ramhd_init_def ramhd_init_q_def upt_devices ramhd_granted_alt Let_def
        ramhd_setup_def ramhd_setup_q_def ramhd_globals0_def ramhd_globals0_q_def ramhd_forget_dev_def RAMHD_NAME_def)
  moreover have "i = 0 \<or> i = 1" using assms(4) by (auto simp: RAMHD_MAX_DEVICE_def)
  ultimately show ?thesis by blast
qed

section \<open>Small instances\<close>

definition demo_hd_fetch :: "hd_request list \<Rightarrow> (hd_request \<times> hd_request list) option" where
  "demo_hd_fetch q = (case q of [] \<Rightarrow> None | r # rs \<Rightarrow> Some (r, rs))"

definition demo_end_cur :: "hd_request \<Rightarrow> hd_request option" where
  "demo_end_cur r = (case hr_rest r of [] \<Rightarrow> None | b # bs \<Rightarrow> Some (next_chunk r b bs))"

definition demo_hd_state :: hd_state where
  "demo_hd_state = \<lparr>hd_data = (\<lambda>i. replicate RAMHD_SIZE 0), hd_pages = (\<lambda>p. replicate 4096 (of_nat p))\<rparr>"

definition demo_hd_rq :: "int \<Rightarrow> ptr \<Rightarrow> u64 \<Rightarrow> hd_request" where
  "demo_hd_rq dir page sector = \<lparr>hr_dev = 0, hr_sector = sector, hr_dir = dir,
     hr_cur = \<lparr>bv_page = page, bv_len = 1024, bv_offset = 0\<rparr>,
     hr_rest = [\<lparr>bv_page = page, bv_len = 512, bv_offset = 1024\<rparr>]\<rparr>"

lemma demo_hd_contract: "hd_fifo demo_hd_fetch (\<lambda>q. q)" "ends_chunks demo_end_cur"
  by (simp_all add: hd_fifo_def demo_hd_fetch_def ends_chunks_def demo_end_cur_def next_chunk_def
      split: list.splits)

section \<open>Properties\<close>

text \<open>
  C3. \<open>ramhd_req_func\<close> serves a queue of requests that fit the disk chunk by chunk, ends with
  the queue empty, never copies outside the disk's memory or a page, and leaves the disks
  and pages as the specification says: each request is one contiguous transfer at its
  start sector, whatever its chunks.
\<close>

theorem ramhd_req_func_refines:
  assumes "hd_fifo fetch pending" and "ends_chunks end_cur" and "list_all (hr_ok s) (pending q)"
  shows "\<exists>q'. ramhd_req_func fetch end_cur q s = Some (Inr (q', fold hr_spec (pending q) s)) \<and>
              pending q' = []"
  using ramhd_req_loop_spec [OF assms(1,2) refl assms(3)] by (simp add: ramhd_req_func_def)

theorem ramhd_req_func_refines_witness:
  "\<exists>q'. ramhd_req_func demo_hd_fetch demo_end_cur [demo_hd_rq WRITE 3 5, demo_hd_rq READ 4 5]
          demo_hd_state =
        Some (Inr (q', fold hr_spec [demo_hd_rq WRITE 3 5, demo_hd_rq READ 4 5] demo_hd_state)) \<and>
        q' = []"
  using ramhd_req_func_refines [OF demo_hd_contract, of demo_hd_state
      "[demo_hd_rq WRITE 3 5, demo_hd_rq READ 4 5]"]
  by (simp add: hr_ok_def demo_hd_rq_def demo_hd_state_def hr_segs_def hr_start_def seg_ok_def
      ramhd_sizes)

text \<open>
  Unlike its sibling, this driver checks no range: a request whose current chunk reaches
  beyond the disk is copied all the same, outside the disk's memory.
\<close>

lemma ramhd_req_func_unchecked:
  assumes "hd_fifo fetch pending" and "pending q = r # rs" and "unat (hr_sector r) < 2 ^ 54"
    and "hr_start r + unat (bv_len (hr_cur r)) > length (hd_data s (hr_dev r))"
  shows "ramhd_req_func fetch end_cur q s = Some (Inl OutOfBounds)"
proof -
  have "unat (hr_sector r * 512) = hr_start r"
    using assms(3) unat_mult_512 [of "hr_sector r"] by (simp add: hr_start_def)
  with assms(4) have "ramhd_chunk r s = Inl OutOfBounds"
    by (simp add: ramhd_chunk_def ramhd_sizes Let_def memcpy_eq)
  moreover obtain q' where "fetch q = Some (r, q')"
    using hd_fifo_fetch(2) [OF assms(1,2)] by blast
  ultimately show ?thesis
    by (simp add: ramhd_req_func_def ramhd_req_loop.simps)
qed

lemma ramhd_req_func_unchecked_witness:
  "ramhd_req_func demo_hd_fetch demo_end_cur [demo_hd_rq WRITE 3 16383] demo_hd_state =
     Some (Inl OutOfBounds)"
  by (rule ramhd_req_func_unchecked [OF demo_hd_contract(1), of _ "demo_hd_rq WRITE 3 16383" "[]"])
    (simp_all add: demo_hd_rq_def demo_hd_state_def hr_start_def ramhd_sizes)

text \<open>
  Loading and unloading this driver gives everything back when the kernel grants what it
  asks for; when a \<^verbatim>\<open>vmalloc\<close> is refused it is loaded all the same, with a disk that has no
  memory behind it.
\<close>

lemma ramhd_q_load_unload:
  "(ramhd_granted a \<longrightarrow> kexec {#} (load_unload ramhd_init_q ramhd_exit_q a) = Some {#}) \<and>
   (ra_vmalloc a 0 = NULL \<longrightarrow> ra_kzalloc a 0 \<noteq> NULL \<longrightarrow>
      (case ramhd_init_q a of (r, g, tr) \<Rightarrow>
         r = 0 \<and> rhq_data (rdev_obj_q g 0) = NULL \<and> Add_disk (ra_disk a 0) \<in> set tr))"
proof (intro conjI impI)
  assume g: "ramhd_granted a"
  obtain r s tr where i: "ramhd_init_q a = (r, s, tr)" by (rule prod_cases3)
  then have "r = 0" by (auto simp: ramhd_init_q_def Let_def split: prod.splits)
  with i ramhd_mod_q.unload_releases [OF g i]
  show "kexec {#} (load_unload ramhd_init_q ramhd_exit_q a) = Some {#}"
    by (simp add: load_unload_def)
next
  assume "ra_vmalloc a 0 = NULL" "ra_kzalloc a 0 \<noteq> NULL"
  then show "case ramhd_init_q a of (r, g, tr) \<Rightarrow>
      r = 0 \<and> rhq_data (rdev_obj_q g 0) = NULL \<and> Add_disk (ra_disk a 0) \<in> set tr"
    by (auto simp: ramhd_init_q_def upt_devices Let_def ramhd_setup_q_def split: prod.splits)
qed

lemma ramhd_q_load_unload_witness:
  "kexec {#} (load_unload ramhd_init_q ramhd_exit_q demo_ramhd_answers) = Some {#} \<and>
   fst (ramhd_init_q (demo_ramhd_answers\<lparr>ra_vmalloc := (\<lambda>i. NULL)\<rparr>)) = 0"
  using ramhd_q_load_unload [of demo_ramhd_answers]
    ramhd_q_load_unload [of "demo_ramhd_answers\<lparr>ra_vmalloc := (\<lambda>i. NULL)\<rparr>"]
  by (auto simp: ramhd_granted_def demo_ramhd_answers_def split: prod.splits)



end
