(* ===== verification/C_Strings.thy ===== *)
theory C_Strings
  imports Kernel_Prelude "HOL-Library.List_Lexorder"
begin

text \<open>
  C strings as the modules and test programs use them: their length, the kernel's
  comparison functions, and that on names without a zero byte \<^verbatim>\<open>strcmp\<close> is the lexicographic
  order and \<^verbatim>\<open>strncmp\<close> compares prefixes.
\<close>

section \<open>C string comparison\<close>

text \<open>
  A C string is the memory its pointer points to: the bytes up to the first zero, or to the
  end of what is given. \<^verbatim>\<open>strcmp\<close> and \<^verbatim>\<open>strncmp\<close> are the kernel's: bytes are unsigned, and the
  result is -1, 0 or 1.
\<close>

definition c_string :: "bytes \<Rightarrow> bytes" where
  "c_string bs = takeWhile (\<lambda>b. b \<noteq> 0) bs"

definition strnlen :: "bytes \<Rightarrow> nat \<Rightarrow> nat" where
  "strnlen s n = length (c_string (take n s))"

text \<open>The byte the pointer points to; the string's end reads as zero.\<close>

definition hd0 :: "bytes \<Rightarrow> u8" where
  "hd0 s = (case s of [] \<Rightarrow> 0 | c # cs \<Rightarrow> c)"

fun strncmp :: "bytes \<Rightarrow> bytes \<Rightarrow> nat \<Rightarrow> int" where
  "strncmp s t 0 = 0"
| "strncmp s t (Suc n) =
     (if hd0 s \<noteq> hd0 t then (if hd0 s < hd0 t then - 1 else 1)
      else if hd0 s = 0 then 0
      else strncmp (tl s) (tl t) n)"

fun strcmp :: "bytes \<Rightarrow> bytes \<Rightarrow> int" where
  "strcmp [] t = (if hd0 t = 0 then 0 else - 1)"
| "strcmp (c # s) t =
     (if c \<noteq> hd0 t then (if c < hd0 t then - 1 else 1)
      else if c = 0 then 0
      else strcmp s (tl t))"

text \<open>A name as the callers use it: no zero byte before its end.\<close>

definition plain :: "bytes \<Rightarrow> bool" where
  "plain s \<longleftrightarrow> 0 \<notin> set s"

lemma c_string_plain [simp]: "plain s \<Longrightarrow> c_string s = s"
  by (induction s) (auto simp: plain_def c_string_def)

lemma plain_simps [simp]: "plain []" "plain (c # s) \<longleftrightarrow> c \<noteq> 0 \<and> plain s"
  by (auto simp: plain_def)

lemma plain_take: "plain s \<Longrightarrow> plain (take n s)"
  by (auto simp: plain_def dest: in_set_takeD)

lemma plain_c_string: "plain (c_string s)"
  by (auto simp: plain_def c_string_def dest: set_takeWhileD)

lemma c_string_terminated: "plain s \<Longrightarrow> c_string (s @ 0 # rest) = s"
  by (induction s) (auto simp: c_string_def)

lemma takeWhile_take_short:
  "length (takeWhile P (take n xs)) < n \<Longrightarrow> takeWhile P xs = takeWhile P (take n xs)"
proof (induction n arbitrary: xs)
  case (Suc n)
  show ?case
  proof (cases xs)
    case (Cons x ys)
    then show ?thesis using Suc.prems Suc.IH [of ys] by (cases "P x") simp_all
  qed simp
qed simp

lemma strncmp_zero_iff: "strncmp s t n = 0 \<longleftrightarrow> c_string (take n s) = c_string (take n t)"
proof (induction n arbitrary: s t)
  case (Suc n)
  then show ?case
    by (cases s; cases t) (auto simp: c_string_def hd0_def)
qed (simp add: c_string_def)

lemma strcmp_lexicographic:
  "plain s \<Longrightarrow> plain t \<Longrightarrow> (strcmp s t < 0 \<longleftrightarrow> s < t) \<and> (strcmp s t > 0 \<longleftrightarrow> t < s)"
proof (induction s t rule: strcmp.induct)
  case (1 t)
  then show ?case by (cases t) (auto simp: hd0_def)
next
  case (2 c s t)
  then show ?case by (cases t) (auto simp: hd0_def)
qed

lemma strcmp_cases:
  assumes "plain s" and "plain t"
  shows "strcmp s t < 0 \<longleftrightarrow> s < t" and "strcmp s t > 0 \<longleftrightarrow> t < s"
  using strcmp_lexicographic [OF assms] by auto

end
