(* ===== verification/Char_Device.thy ===== *)
theory Char_Device
  imports Module_Lifecycle C_Strings
begin

text \<open>
  The character devices over a RAM buffer: \<^verbatim>\<open>char-device-labs/lab-misc.c\<close> (open, read, write
  and the misc device's registration), \<^verbatim>\<open>char-device-labs/lab-char.c\<close> (registration of a
  \<^verbatim>\<open>cdev\<close>) and the test programs \<^verbatim>\<open>lab_read.c\<close> and \<^verbatim>\<open>lab_write.c\<close>. The integer types are the
  C ones: the handlers compute in \<^verbatim>\<open>int\<close> with implicit conversions from and to 64-bit
  types, and the model keeps each of them. \<^verbatim>\<open>copy_to_user\<close> and \<^verbatim>\<open>copy_from_user\<close> are
  parameters, as the number of bytes they could not copy.

  The locale \<open>ram_file\<close> is the contract of such a device as a file: what one read and one
  write do in range. Its lemmas (a read after a write, reading a file piece by piece) hold
  for every device with that contract.
\<close>

section \<open>lab-misc.c: the handlers\<close>

definition ramdisk_size :: u64 where
  "ramdisk_size = 16 * of_nat PAGE_SIZE"

text \<open>Opening counts the calls in a static \<^verbatim>\<open>int\<close> that nothing else reads.\<close>

definition mycdev_generic_open :: "u32 \<Rightarrow> int \<times> u32" where
  "mycdev_generic_open counter = (0, counter + 1)"

definition mycdev_generic_release :: int where
  "mycdev_generic_release = 0"

text \<open>
  \<^verbatim>\<open>maxbytes = ramdisk_size - *ppos; bytes_to_do = maxbytes > lbuf ? lbuf : maxbytes;\<close>
  where \<^verbatim>\<open>maxbytes\<close> and \<^verbatim>\<open>bytes_to_do\<close> are \<^verbatim>\<open>int\<close>.
\<close>

definition bytes_to_do :: "u64 \<Rightarrow> u64 \<Rightarrow> u32" where
  "bytes_to_do lbuf ppos =
     (let maxbytes = int_of_ulong (ramdisk_size - ppos) in
      int_of_ulong (if ulong_of_int maxbytes > lbuf then lbuf else ulong_of_int maxbytes))"

text \<open>A handler touches \<open>n\<close> bytes of the buffer at \<open>p\<close>; touching none is always allowed.\<close>

definition touches :: "bytes \<Rightarrow> nat \<Rightarrow> nat \<Rightarrow> bool" where
  "touches m p n \<longleftrightarrow> n = 0 \<or> p + n \<le> length m"

datatype cdev_fault = BufferOverrun | BadIndex

record file_result =
  fr_ret :: int          \<comment> \<open>the handler's return value\<close>
  fr_pos :: u64          \<comment> \<open>\<^verbatim>\<open>*ppos\<close> afterwards\<close>

definition mycdev_generic_read ::
  "(nat \<Rightarrow> nat) \<Rightarrow> bytes \<Rightarrow> u64 \<Rightarrow> u64 \<Rightarrow> cdev_fault + (file_result \<times> bytes)" where
  "mycdev_generic_read uncopied ramdisk lbuf ppos =
     (let n = ulong_of_int (bytes_to_do lbuf ppos) in
      if \<not> touches ramdisk (unat ppos) (unat n) then Inl BufferOverrun
      else
        let left = uncopied (unat n);
            nbytes = int_of_ulong (n - of_nat left) in
        Inr (\<lparr>fr_ret = sint nbytes, fr_pos = ppos + ulong_of_int nbytes\<rparr>,
             take (unat n - left) (drop (unat ppos) ramdisk)))"

text \<open>\<^verbatim>\<open>copy_from_user\<close> fills what it could not copy with zero bytes.\<close>

definition mycdev_generic_write ::
  "(nat \<Rightarrow> nat) \<Rightarrow> bytes \<Rightarrow> bytes \<Rightarrow> u64 \<Rightarrow> u64 \<Rightarrow> cdev_fault + (file_result \<times> bytes)" where
  "mycdev_generic_write uncopied ramdisk buf lbuf ppos =
     (let n = ulong_of_int (bytes_to_do lbuf ppos) in
      if \<not> touches ramdisk (unat ppos) (unat n) then Inl BufferOverrun
      else
        let left = uncopied (unat n);
            nbytes = int_of_ulong (n - of_nat left) in
        Inr (\<lparr>fr_ret = sint nbytes, fr_pos = ppos + ulong_of_int nbytes\<rparr>,
             if n = 0 then ramdisk
             else mem_splice ramdisk (unat ppos) (take (unat n - left) buf @ replicate left 0)))"

section \<open>Registration\<close>

record misc_answers =
  ma_kmalloc :: ptr
  ma_misc_register :: int

definition my_generic_init_misc :: "misc_answers \<Rightarrow> ptr loaded" where
  "my_generic_init_misc a =
     (let p = ma_kmalloc a in
      if p = NULL then (- ENOMEM, p, [Kmalloc p])
      else if ma_misc_register a \<noteq> 0
      then (- EBUSY, p, [Kmalloc p, Misc_register (ma_misc_register a)])
      else (0, p, [Kmalloc p, Misc_register (ma_misc_register a)]))"

definition my_generic_exit_misc :: "ptr \<Rightarrow> kcall list" where
  "my_generic_exit_misc ramdisk = [Misc_deregister, Kfree ramdisk]"

text \<open>\<^verbatim>\<open>lab-char.c\<close>: a \<^verbatim>\<open>cdev\<close> with its region, class and device node.\<close>

record char_answers =
  ca_region :: int       \<comment> \<open>\<^verbatim>\<open>alloc_chrdev_region\<close>\<close>
  ca_first :: nat        \<comment> \<open>the number it chose\<close>
  ca_cdev :: ptr         \<comment> \<open>\<^verbatim>\<open>cdev_alloc\<close>\<close>
  ca_kmalloc :: ptr
  ca_cdev_add :: int
  ca_class :: ptr        \<comment> \<open>\<^verbatim>\<open>class_create\<close>\<close>

record char_globals =
  cg_first :: nat
  cg_ramdisk :: ptr
  cg_cdev :: ptr
  cg_class :: ptr

definition my_generic_init_char :: "char_answers \<Rightarrow> char_globals loaded" where
  "my_generic_init_char a =
     (let d = ca_first a; c = ca_cdev a; p = ca_kmalloc a;
          g = \<lparr>cg_first = d, cg_ramdisk = NULL, cg_cdev = NULL, cg_class = NULL\<rparr>;
          tr = [Alloc_chrdev_region (ca_region a) d] in
      if ca_region a < 0 then (- 1, g, tr)
      else
        let g = g\<lparr>cg_cdev := c\<rparr>; tr = tr @ [Cdev_alloc c] in
        if c = NULL then (- 1, g, tr @ [Unregister_chrdev_region d])
        else
          let g = g\<lparr>cg_ramdisk := p\<rparr>; tr = tr @ [Cdev_init c, Kmalloc p] in
          if p = NULL then (- ENOMEM, g, tr)
          else
            let tr = tr @ [Cdev_add c d (ca_cdev_add a)] in
            if ca_cdev_add a < 0
            then (- 1, g, tr @ [Cdev_del c, Unregister_chrdev_region d, Kfree p])
            else (0, g\<lparr>cg_class := ca_class a\<rparr>,
                  tr @ [Class_create (ca_class a), Device_create (ca_class a) d]))"

definition my_generic_exit_char :: "char_globals \<Rightarrow> kcall list" where
  "my_generic_exit_char g =
     [Device_destroy (cg_class g) (cg_first g), Class_destroy (cg_class g)] @
     (if cg_cdev g \<noteq> NULL then [Cdev_del (cg_cdev g)] else []) @
     [Unregister_chrdev_region (cg_first g), Kfree (cg_ramdisk g)]"

section \<open>The test programs\<close>

text \<open>
  The programs run over the system calls \<^verbatim>\<open>open\<close>, \<^verbatim>\<open>read\<close> and \<^verbatim>\<open>write\<close>, which are parameters:
  \<open>openf\<close> gives a file descriptor for a name, \<open>readf fd n\<close> the return value and the bytes
  stored, \<open>writef fd bytes\<close> the return value and the system's new state. The result is the
  exit status, and what was printed of the data.
\<close>

definition test_text :: string where
  "test_text = ''TESTING CHAR DRIVER WITH A WRITE''"

definition dev_filename :: "string list \<Rightarrow> string" where
  "dev_filename argv = (if length argv > 1 then argv ! 1 else ''/dev/mycdev'')"

definition lab_write_main ::
  "(string \<Rightarrow> int) \<Rightarrow> (int \<Rightarrow> bytes \<Rightarrow> 's \<Rightarrow> int \<times> 's) \<Rightarrow> string list \<Rightarrow> 's \<Rightarrow> int \<times> 's" where
  "lab_write_main openf writef argv s =
     (let fd = openf (dev_filename argv) in
      if fd < 0 then (- 1, s)
      else case writef fd (bytes_of_string test_text) s of (rc, s') \<Rightarrow> (0, s'))"

text \<open>
  \<^verbatim>\<open>lab_read\<close> terminates its 100-byte buffer at index \<^verbatim>\<open>rc\<close>; the bytes before it are printed up
  to the first zero byte. An \<^verbatim>\<open>rc\<close> that is no index of the buffer is a write outside it.
\<close>

definition lab_read_main ::
  "(string \<Rightarrow> int) \<Rightarrow> (int \<Rightarrow> nat \<Rightarrow> 's \<Rightarrow> int \<times> bytes \<times> 's) \<Rightarrow> string list \<Rightarrow> 's \<Rightarrow>
   cdev_fault + (int \<times> bytes \<times> 's)" where
  "lab_read_main openf readf argv s =
     (let fd = openf (dev_filename argv) in
      if fd < 0 then Inr (- 1, [], s)
      else case readf fd (length test_text) s of (rc, bufread, s') \<Rightarrow>
        if rc < 0 \<or> 100 \<le> rc then Inl BadIndex
        else Inr (0, c_string (take (nat rc) bufread), s'))"

section \<open>A device as a file\<close>

text \<open>Reading in pieces: the data of successive reads, each from where the last one stopped.\<close>

fun read_pieces :: "(bytes \<Rightarrow> nat \<Rightarrow> nat \<Rightarrow> (bytes \<times> nat) option) \<Rightarrow> bytes \<Rightarrow> nat \<Rightarrow> nat list \<Rightarrow>
                    (bytes \<times> nat) option" where
  "read_pieces rd m p [] = Some ([], p)"
| "read_pieces rd m p (n # ns) =
     (case rd m p n of None \<Rightarrow> None
      | Some (bs, p') \<Rightarrow> (case read_pieces rd m p' ns of None \<Rightarrow> None
                         | Some (cs, p'') \<Rightarrow> Some (bs @ cs, p'')))"

locale ram_file =
  fixes rd :: "bytes \<Rightarrow> nat \<Rightarrow> nat \<Rightarrow> (bytes \<times> nat) option"
    and wr :: "bytes \<Rightarrow> nat \<Rightarrow> bytes \<Rightarrow> (bytes \<times> nat) option"
    and cap :: nat
    and maxlen :: nat
  assumes rd_law: "length m = cap \<Longrightarrow> p \<le> cap \<Longrightarrow> n \<le> maxlen \<Longrightarrow>
      rd m p n = Some (take n (drop p m), min (p + n) cap)"
    and wr_law: "length m = cap \<Longrightarrow> p \<le> cap \<Longrightarrow> length bs \<le> maxlen \<Longrightarrow>
      wr m p bs = Some (mem_splice m p (take (cap - p) bs), min (p + length bs) cap)"
begin

lemma write_then_read:
  assumes "length m = cap" and "p + length bs \<le> cap" and "length bs \<le> maxlen"
  obtains m' where "wr m p bs = Some (m', p + length bs)" and "length m' = cap"
    and "rd m' p (length bs) = Some (bs, p + length bs)"
proof
  show "wr m p bs = Some (mem_splice m p bs, p + length bs)"
    using assms by (simp add: wr_law)
  show "length (mem_splice m p bs) = cap"
    using assms by simp
  then show "rd (mem_splice m p bs) p (length bs) = Some (bs, p + length bs)"
    using assms take_drop_splice_same [of p bs m] by (simp add: rd_law)
qed

text \<open>However a reader cuts its reads, it sees the file's bytes in order and stops at the end.\<close>

lemma read_in_pieces:
  assumes "length m = cap" and "p \<le> cap" and "\<forall>n \<in> set ns. n \<le> maxlen"
  shows "read_pieces rd m p ns =
           Some (take (sum_list ns) (drop p m), min (p + sum_list ns) cap)"
  using assms
proof (induction ns arbitrary: p)
  case Nil
  then show ?case by simp
next
  case (Cons n ns)
  have "take n (drop p m) @ take (sum_list ns) (drop (min (p + n) cap) m) =
        take (n + sum_list ns) (drop p m)"
    using Cons.prems by (cases "p + n \<le> cap") (simp_all add: take_add add.commute min_def)
  moreover have "min (min (p + n) cap + sum_list ns) cap = min (p + (n + sum_list ns)) cap"
    by (simp add: min_def)
  ultimately show ?case
    using Cons by (simp add: rd_law)
qed

end

section \<open>How many bytes a handler moves\<close>

lemma ramdisk_size_simp: "ramdisk_size = 65536"
  by (simp add: ramdisk_size_def PAGE_SIZE_def)

lemma bytes_to_do_in_range:
  assumes "unat ppos \<le> 65536" and "unat lbuf < 2 ^ 31"
  shows "unat (ulong_of_int (bytes_to_do lbuf ppos)) = min (unat lbuf) (65536 - unat ppos)"
proof -
  have "unat (ramdisk_size - ppos) = 65536 - unat ppos"
    using assms(1) by (simp add: ramdisk_size_simp unat_sub word_le_nat_alt)
  then have m: "unat (int_of_ulong (ramdisk_size - ppos)) = 65536 - unat ppos"
    by (simp add: int_of_ulong_small)
  then have m': "unat (ulong_of_int (int_of_ulong (ramdisk_size - ppos))) = 65536 - unat ppos"
    by (simp add: ulong_of_int_nonneg)
  have "unat (bytes_to_do lbuf ppos) = min (unat lbuf) (65536 - unat ppos)"
    using assms m' by (auto simp: bytes_to_do_def Let_def word_less_nat_alt int_of_ulong_small)
  then show ?thesis
    using assms(2) by (simp add: ulong_of_int_nonneg)
qed

text \<open>
  Past the end the difference is negative, is sign-extended to a huge unsigned number, and
  the comparison picks the caller's length.
\<close>

lemma bytes_to_do_past_end:
  assumes "65536 < unat ppos" and "unat ppos < 2 ^ 31" and "unat lbuf < 2 ^ 31"
  shows "unat (ulong_of_int (bytes_to_do lbuf ppos)) = unat lbuf"
proof -
  let ?m = "int_of_ulong (ramdisk_size - ppos)"
  have "unat (ramdisk_size - ppos) = 2 ^ 64 + 65536 - unat ppos"
    using assms by (simp add: ramdisk_size_simp unat_sub_if' word_le_nat_alt)
  then have "unat ?m = (2 ^ 64 + 65536 - unat ppos) mod 2 ^ 32"
    by (simp add: int_of_ulong_def unsigned_ucast_eq take_bit_eq_mod)
  also have "2 ^ 64 + 65536 - unat ppos = (2 ^ 32 + 65536 - unat ppos) + (2 ^ 32 - 1) * 2 ^ 32"
    using assms(2) by simp
  also have "\<dots> mod 2 ^ 32 = (2 ^ 32 + 65536 - unat ppos) mod 2 ^ 32"
    by (rule mod_mult_self1)
  also have "\<dots> = 2 ^ 32 + 65536 - unat ppos"
    by (rule mod_less) (use assms in simp)
  finally have "2 ^ 31 \<le> unat ?m" using assms by simp
  then have "ulong_of_int ?m > lbuf"
    using assms(3) ulong_of_int_neg [of ?m] by (simp add: word_less_nat_alt)
  then have "bytes_to_do lbuf ppos = int_of_ulong lbuf"
    by (simp add: bytes_to_do_def Let_def)
  then show ?thesis
    using assms(3) by (simp add: int_of_ulong_small ulong_of_int_nonneg)
qed

text \<open>The number of bytes moved when the user copy leaves some out.\<close>

lemma nbytes_moved:
  assumes "unat (n :: u64) < 2 ^ 31" and "left \<le> unat n"
  shows "unat (int_of_ulong (n - of_nat left)) = unat n - left"
    and "sint (int_of_ulong (n - of_nat left)) = int (unat n - left)"
    and "unat (ulong_of_int (int_of_ulong (n - of_nat left))) = unat n - left"
proof -
  have "unat (of_nat left :: u64) = left"
    using assms by simp
  then have "unat (n - of_nat left) = unat n - left"
    using assms by (simp add: unat_sub word_le_nat_alt)
  then show u: "unat (int_of_ulong (n - of_nat left)) = unat n - left"
    using assms by (simp add: int_of_ulong_small)
  have "sint (int_of_ulong (n - of_nat left)) = int (unat (int_of_ulong (n - of_nat left)))"
    by (rule sint_small) (use assms u in simp)
  then show "sint (int_of_ulong (n - of_nat left)) = int (unat n - left)"
    by (simp only: u)
  show "unat (ulong_of_int (int_of_ulong (n - of_nat left))) = unat n - left"
    using assms u ulong_of_int_nonneg by simp
qed

lemma handler_moves:
  assumes "unat ppos \<le> 65536" and "unat lbuf < 2 ^ 31" and "k = min (unat lbuf) (65536 - unat ppos)"
    and "n = ulong_of_int (bytes_to_do lbuf ppos)" and "left \<le> k"
  shows "unat n = k" and "n = 0 \<longleftrightarrow> k = 0"
    and "sint (int_of_ulong (n - of_nat left)) = int (k - left)"
    and "unat (ppos + ulong_of_int (int_of_ulong (n - of_nat left))) = unat ppos + (k - left)"
proof -
  show n: "unat n = k" using bytes_to_do_in_range [OF assms(1,2)] assms(3,4) by simp
  then show "n = 0 \<longleftrightarrow> k = 0" by (metis unat_0 unat_eq_zero)
  have k: "unat n < 2 ^ 31" "left \<le> unat n" using n assms(2,3,5) by simp_all
  from nbytes_moved [OF this] n
  show "sint (int_of_ulong (n - of_nat left)) = int (k - left)" by simp
  have "unat ppos + (k - left) < 2 ^ 64" using k n assms(1) by simp
  then show "unat (ppos + ulong_of_int (int_of_ulong (n - of_nat left))) = unat ppos + (k - left)"
    using nbytes_moved(3) [OF k] n by (simp add: unat_word_ariths)
qed

lemma read_in_range:
  assumes "length m = 65536" and "unat ppos \<le> 65536" and "unat lbuf < 2 ^ 31"
    and "k = min (unat lbuf) (65536 - unat ppos)" and "uncopied k \<le> k"
  shows "\<exists>r. mycdev_generic_read uncopied m lbuf ppos =
           Inr (r, take (k - uncopied k) (drop (unat ppos) m)) \<and>
         fr_ret r = int (k - uncopied k) \<and> unat (fr_pos r) = unat ppos + (k - uncopied k)"
proof -
  note h = handler_moves [OF assms(2,3,4) refl assms(5)]
  have "touches m (unat ppos) k" using assms(1,2,4) by (auto simp: touches_def min_def)
  then show ?thesis
    using h by (simp add: mycdev_generic_read_def Let_def)
qed

lemma write_in_range:
  assumes "length m = 65536" and "unat ppos \<le> 65536" and "unat lbuf < 2 ^ 31"
    and "k = min (unat lbuf) (65536 - unat ppos)" and "uncopied k \<le> k"
  shows "\<exists>r. mycdev_generic_write uncopied m buf lbuf ppos =
           Inr (r, if k = 0 then m
                   else mem_splice m (unat ppos)
                          (take (k - uncopied k) buf @ replicate (uncopied k) 0)) \<and>
         fr_ret r = int (k - uncopied k) \<and> unat (fr_pos r) = unat ppos + (k - uncopied k)"
proof -
  note h = handler_moves [OF assms(2,3,4) refl assms(5)]
  have "touches m (unat ppos) k" using assms(1,2,4) by (auto simp: touches_def min_def)
  then show ?thesis
    using h by (simp add: mycdev_generic_write_def Let_def)
qed

text \<open>The misc device as a file, when every byte can be copied.\<close>

definition misc_rd :: "bytes \<Rightarrow> nat \<Rightarrow> nat \<Rightarrow> (bytes \<times> nat) option" where
  "misc_rd m p n =
     (case mycdev_generic_read (\<lambda>_. 0) m (of_nat n) (of_nat p) of
        Inl f \<Rightarrow> None | Inr (r, bs) \<Rightarrow> Some (bs, unat (fr_pos r)))"

definition misc_wr :: "bytes \<Rightarrow> nat \<Rightarrow> bytes \<Rightarrow> (bytes \<times> nat) option" where
  "misc_wr m p bs =
     (case mycdev_generic_write (\<lambda>_. 0) m bs (of_nat (length bs)) (of_nat p) of
        Inl f \<Rightarrow> None | Inr (r, m') \<Rightarrow> Some (m', unat (fr_pos r)))"

interpretation misc: ram_file misc_rd misc_wr 65536 "2 ^ 31 - 1"
proof
  fix m :: bytes and p n :: nat
  assume "length m = 65536" "p \<le> 65536" "n \<le> 2 ^ 31 - 1"
  then show "misc_rd m p n = Some (take n (drop p m), min (p + n) 65536)"
    using read_in_range [of m "of_nat p" "of_nat n" "min n (65536 - p)" "\<lambda>_. 0"]
    by (auto simp: misc_rd_def min_def)
next
  fix m bs :: bytes and p :: nat
  assume "length m = 65536" "p \<le> 65536" "length bs \<le> 2 ^ 31 - 1"
  then show "misc_wr m p bs = Some (mem_splice m p (take (65536 - p) bs), min (p + length bs) 65536)"
    using write_in_range [of m "of_nat p" "of_nat (length bs)" "min (length bs) (65536 - p)" "\<lambda>_. 0" bs]
    by (auto simp: misc_wr_def min_def)
qed

section \<open>Loading and unloading\<close>

interpretation misc_mod: unloadable my_generic_init_misc my_generic_exit_misc "\<lambda>a. True"
  by unfold_locales
    (auto simp: my_generic_init_misc_def my_generic_exit_misc_def Let_def kcall_simps split: if_splits)

text \<open>What the kernel promises of its answers: \<^verbatim>\<open>class_create\<close> never returns a null pointer.\<close>

definition char_granted :: "char_answers \<Rightarrow> bool" where
  "char_granted a \<longleftrightarrow> ca_class a \<noteq> NULL \<and> \<not> IS_ERR (ca_class a) \<and> ca_kmalloc a \<noteq> NULL"

interpretation char_mod: loadable my_generic_init_char my_generic_exit_char char_granted
proof
  fix a r s tr
  assume "char_granted a" and "my_generic_init_char a = (r, s, tr)"
  then show "0 \<le> r \<Longrightarrow> kexec {#} (tr @ my_generic_exit_char s) = Some {#}"
    and "r < 0 \<Longrightarrow> kexec {#} tr = Some {#}"
    by (auto simp: my_generic_init_char_def my_generic_exit_char_def char_granted_def Let_def
        kcall_simps split: if_splits)
qed

section \<open>Small instances\<close>

definition demo_buffer :: bytes where
  "demo_buffer = replicate 65536 7"

definition demo_char_answers :: char_answers where
  "demo_char_answers = \<lparr>ca_region = 0, ca_first = 250, ca_cdev = 10, ca_kmalloc = 20,
     ca_cdev_add = 0, ca_class = 30\<rparr>"

section \<open>Properties\<close>

text \<open>
  Reading and writing in range: with the position inside the 64 KiB buffer, a handler moves
  as many bytes as asked for or as are left, less those the user copy could not move; it
  returns that number, advances the position by it, and touches no byte outside the buffer.
  At the end of the buffer it moves nothing and returns 0.
\<close>

lemma mycdev_read_write_in_range:
  assumes "length m = 65536" and "unat ppos \<le> 65536" and "unat lbuf < 2 ^ 31"
    and "k = min (unat lbuf) (65536 - unat ppos)" and "uncopied k \<le> k"
  shows "\<exists>r w. mycdev_generic_read uncopied m lbuf ppos =
             Inr (r, take (k - uncopied k) (drop (unat ppos) m)) \<and>
           mycdev_generic_write uncopied m buf lbuf ppos =
             Inr (w, if k = 0 then m
                     else mem_splice m (unat ppos)
                            (take (k - uncopied k) buf @ replicate (uncopied k) 0)) \<and>
           fr_ret r = int (k - uncopied k) \<and> unat (fr_pos r) = unat ppos + (k - uncopied k) \<and>
           fr_ret w = fr_ret r \<and> fr_pos w = fr_pos r"
proof -
  from read_in_range [where uncopied = uncopied, OF assms]
    write_in_range [where uncopied = uncopied and buf = buf, OF assms] obtain r w where
    "mycdev_generic_read uncopied m lbuf ppos =
       Inr (r, take (k - uncopied k) (drop (unat ppos) m))"
    "mycdev_generic_write uncopied m buf lbuf ppos =
       Inr (w, if k = 0 then m
               else mem_splice m (unat ppos)
                      (take (k - uncopied k) buf @ replicate (uncopied k) 0))"
    "fr_ret r = int (k - uncopied k)" "unat (fr_pos r) = unat ppos + (k - uncopied k)"
    "fr_ret w = int (k - uncopied k)" "unat (fr_pos w) = unat ppos + (k - uncopied k)"
    by blast
  moreover from this have "fr_pos w = fr_pos r" by (simp add: word_unat_eq_iff)
  ultimately show ?thesis by auto
qed

lemma mycdev_read_write_in_range_witness:
  "\<exists>r w. mycdev_generic_read (\<lambda>k. 2) demo_buffer 10 65530 = Inr (r, replicate 4 7) \<and>
     mycdev_generic_write (\<lambda>k. 2) demo_buffer [1, 2, 3, 4, 5, 6, 7, 8, 9, 10] 10 65530 =
       Inr (w, mem_splice demo_buffer 65530 [1, 2, 3, 4, 0, 0]) \<and>
     fr_ret r = 4 \<and> unat (fr_pos r) = 65534 \<and> fr_ret w = fr_ret r \<and> fr_pos w = fr_pos r"
proof -
  have "replicate 2 (0 :: u8) = [0, 0]" by (simp add: numeral_2_eq_2)
  then show ?thesis
    using mycdev_read_write_in_range [of demo_buffer 65530 10 6 "\<lambda>k. 2" "[1, 2, 3, 4, 5, 6, 7, 8, 9, 10]"]
    by (simp add: demo_buffer_def)
qed

text \<open>
  C8. The device is a file: what is written at a position is read back from it, and a reader
  sees the buffer's bytes in order however it cuts its reads, up to the end.
\<close>

theorem misc_device_is_a_file:
  assumes "length m = 65536" and "p + length bs \<le> 65536" and "q \<le> 65536"
    and "\<forall>n \<in> set ns. n < 2 ^ 31"
  shows "\<exists>m'. misc_wr m p bs = Some (m', p + length bs) \<and> length m' = 65536 \<and>
           misc_rd m' p (length bs) = Some (bs, p + length bs) \<and>
           read_pieces misc_rd m' q ns =
             Some (take (sum_list ns) (drop q m'), min (q + sum_list ns) 65536)"
proof -
  have "length bs \<le> 2 ^ 31 - 1" using assms(2) by simp
  from misc.write_then_read [OF assms(1,2) this] obtain m' where
    "misc_wr m p bs = Some (m', p + length bs)" "length m' = 65536"
    "misc_rd m' p (length bs) = Some (bs, p + length bs)"
    by blast
  moreover from this(2) have "read_pieces misc_rd m' q ns =
      Some (take (sum_list ns) (drop q m'), min (q + sum_list ns) 65536)"
    using assms(3,4) by (intro misc.read_in_pieces) auto
  ultimately show ?thesis by blast
qed

theorem misc_device_is_a_file_witness:
  "\<exists>m'. misc_wr demo_buffer 100 [1, 2, 3] = Some (m', 103) \<and> length m' = 65536 \<and>
     misc_rd m' 100 3 = Some ([1, 2, 3], 103) \<and>
     read_pieces misc_rd m' 65534 [1, 1, 5] = Some (take 7 (drop 65534 m'), 65536)"
proof -
  have "length [1, 2, 3 :: u8] = 3" by simp
  then show ?thesis
    using misc_device_is_a_file [of demo_buffer 100 "[1, 2, 3]" 65534 "[1, 1, 5]"]
    by (simp add: demo_buffer_def del: read_pieces.simps list.size)
qed

text \<open>
  Past the end the handlers leave the buffer: with a position beyond the buffer (a
  \<^verbatim>\<open>pread\<close> or \<^verbatim>\<open>pwrite\<close> can pass one) the number of bytes left is negative, the comparison with
  the unsigned length turns it into a huge number, and the whole length asked for is
  copied from or to memory behind the buffer.
\<close>

lemma mycdev_past_the_end:
  assumes "length m = 65536" and "65536 < unat ppos" and "unat ppos < 2 ^ 31"
    and "0 < unat lbuf" and "unat lbuf < 2 ^ 31"
  shows "mycdev_generic_read uncopied m lbuf ppos = Inl BufferOverrun \<and>
         mycdev_generic_write uncopied m buf lbuf ppos = Inl BufferOverrun"
  using assms bytes_to_do_past_end [OF assms(2,3,5)]
  by (simp add: mycdev_generic_read_def mycdev_generic_write_def Let_def touches_def)

lemma mycdev_past_the_end_witness:
  "mycdev_generic_read (\<lambda>k. 0) demo_buffer 16 70000 = Inl BufferOverrun \<and>
   mycdev_generic_write (\<lambda>k. 0) demo_buffer [1, 2] 2 70000 = Inl BufferOverrun"
  using mycdev_past_the_end [of demo_buffer 70000 16 "\<lambda>k. 0"]
    mycdev_past_the_end [of demo_buffer 70000 2 "\<lambda>k. 0" "[1, 2]"]
  by (simp add: demo_buffer_def)

text \<open>
  Registration of the \<^verbatim>\<open>cdev\<close>: as long as the buffer's \<^verbatim>\<open>kmalloc\<close> succeeds, every failure
  path and the unload give back everything. When that \<^verbatim>\<open>kmalloc\<close> is refused, the load fails
  and leaves the region and the \<^verbatim>\<open>cdev\<close> behind; the misc variant leaves its buffer behind
  when the registration is refused.
\<close>

lemma char_registration:
  "(list_all char_granted as \<longrightarrow>
      kexec {#} (concat (map (load_unload my_generic_init_char my_generic_exit_char) as)) = Some {#}) \<and>
   (0 \<le> ca_region a \<longrightarrow> ca_cdev a \<noteq> NULL \<longrightarrow> ca_kmalloc a = NULL \<longrightarrow>
      kexec {#} (load_unload my_generic_init_char my_generic_exit_char a) =
        Some {#RCdev (ca_cdev a), RRegion (ca_first a)#}) \<and>
   (ma_kmalloc b \<noteq> NULL \<longrightarrow>
      kexec {#} (load_unload my_generic_init_misc my_generic_exit_misc b) =
        Some (if ma_misc_register b = 0 then {#} else {#RMem (ma_kmalloc b)#}))"
proof (intro conjI impI)
  assume "list_all char_granted as"
  then show "kexec {#} (concat (map (load_unload my_generic_init_char my_generic_exit_char) as)) = Some {#}"
    by (intro char_mod.load_attempts) (simp add: list_all_iff)
next
  assume "0 \<le> ca_region a" "ca_cdev a \<noteq> NULL" "ca_kmalloc a = NULL"
  then show "kexec {#} (load_unload my_generic_init_char my_generic_exit_char a) =
      Some {#RCdev (ca_cdev a), RRegion (ca_first a)#}"
    by (simp add: load_unload_def my_generic_init_char_def Let_def kcall_simps)
next
  assume "ma_kmalloc b \<noteq> NULL"
  then show "kexec {#} (load_unload my_generic_init_misc my_generic_exit_misc b) =
      Some (if ma_misc_register b = 0 then {#} else {#RMem (ma_kmalloc b)#})"
    by (simp add: load_unload_def my_generic_init_misc_def my_generic_exit_misc_def Let_def kcall_simps)
qed

lemma char_registration_witness:
  "kexec {#} (load_unload my_generic_init_char my_generic_exit_char
       (demo_char_answers\<lparr>ca_kmalloc := NULL\<rparr>)) = Some {#RCdev 10, RRegion 250#} \<and>
   kexec {#} (concat (map (load_unload my_generic_init_char my_generic_exit_char)
       [demo_char_answers, demo_char_answers\<lparr>ca_cdev_add := - 1\<rparr>])) = Some {#} \<and>
   kexec {#} (load_unload my_generic_init_misc my_generic_exit_misc
       \<lparr>ma_kmalloc = 5, ma_misc_register = - 16\<rparr>) = Some {#RMem 5#}"
  using char_registration [of "[demo_char_answers, demo_char_answers\<lparr>ca_cdev_add := - 1\<rparr>]"
      "demo_char_answers\<lparr>ca_kmalloc := NULL\<rparr>" "\<lparr>ma_kmalloc = 5, ma_misc_register = - 16\<rparr>"]
  by (simp add: demo_char_answers_def char_granted_def)

end
