(* ===== verification/Wait_Event.thy ===== *)
theory Wait_Event
  imports Char_Device
begin

text \<open>
  The blocking device of \<^verbatim>\<open>wait-event-labs/wait_event.c\<close>: a read sleeps until a write has set
  \<^verbatim>\<open>data_ready\<close>, and clears it when it has copied. Any number of threads run the handlers at
  the same time, so a handler is a sequence of steps, one per access to shared state, and
  the device is a state machine whose events are system calls, signals and turns of a
  thread. The copying itself is the code of \<^verbatim>\<open>lab-misc.c\<close> (\<open>mycdev_generic_read\<close> and
  \<open>mycdev_generic_write\<close>), which this file repeats.

  \<^verbatim>\<open>wait_event_interruptible\<close> puts the thread on the wait queue before it looks at the
  condition, so looking and falling asleep are one step of the model, and it returns when
  the condition holds or a signal is pending; the handler ignores its result and looks at
  \<^verbatim>\<open>signal_pending\<close> itself. \<^verbatim>\<open>wake_up_interruptible\<close> wakes every sleeper of the queue.
\<close>

section \<open>Threads, shared state and events\<close>

type_synonym tid = nat

text \<open>Where a thread stands in the handler it runs.\<close>

datatype pc =
    Idle
  | RWait u64 u64                    \<comment> \<open>about to look at \<^verbatim>\<open>data_ready\<close>: length, position\<close>
  | RAsleep u64 u64                  \<comment> \<open>on the wait queue\<close>
  | RAwake u64 u64                   \<comment> \<open>behind \<^verbatim>\<open>wait_event_interruptible\<close>\<close>
  | RCopy u64 u64                    \<comment> \<open>no signal: about to copy\<close>
  | RClear file_result bytes         \<comment> \<open>copied: about to clear \<^verbatim>\<open>data_ready\<close>\<close>
  | WCopy bytes u64                  \<comment> \<open>a write about to copy: data, position\<close>
  | WSet file_result                 \<comment> \<open>about to set \<^verbatim>\<open>data_ready\<close>\<close>
  | WWake file_result                \<comment> \<open>about to wake the queue\<close>
  | RDone int bytes                  \<comment> \<open>a read has returned: value and bytes stored\<close>
  | WDone int                        \<comment> \<open>a write has returned\<close>
  | Crashed                          \<comment> \<open>the copy left the buffer\<close>

record we_state =
  we_ready :: bool                   \<comment> \<open>\<^verbatim>\<open>data_ready\<close>\<close>
  we_ramdisk :: bytes
  we_pc :: "tid \<Rightarrow> pc"
  we_signal :: "tid \<Rightarrow> bool"

datatype we_event =
    CallRead tid u64 u64
  | CallWrite tid bytes u64
  | Signal tid
  | Turn tid

definition between_calls :: "pc \<Rightarrow> bool" where
  "between_calls c = (case c of Idle \<Rightarrow> True | RDone r bs \<Rightarrow> True | WDone r \<Rightarrow> True | _ \<Rightarrow> False)"

definition wake_one :: "pc \<Rightarrow> pc" where
  "wake_one c = (case c of RAsleep n p \<Rightarrow> RWait n p | _ \<Rightarrow> c)"

definition set_pc :: "tid \<Rightarrow> pc \<Rightarrow> we_state \<Rightarrow> we_state" where
  "set_pc t c s = s\<lparr>we_pc := (we_pc s)(t := c)\<rparr>"

section \<open>The handlers, one step at a time\<close>

definition read_step :: "(nat \<Rightarrow> nat) \<Rightarrow> tid \<Rightarrow> we_state \<Rightarrow> we_state option" where
  "read_step uncopied t s =
     (case we_pc s t of
        RWait n p \<Rightarrow>
          Some (set_pc t (if we_ready s \<or> we_signal s t then RAwake n p else RAsleep n p) s)
      | RAwake n p \<Rightarrow>
          Some (set_pc t (if we_signal s t then RDone (- ERESTARTSYS) [] else RCopy n p) s)
      | RCopy n p \<Rightarrow>
          Some (set_pc t (case mycdev_generic_read uncopied (we_ramdisk s) n p of
                            Inl e \<Rightarrow> Crashed | Inr (r, bs) \<Rightarrow> RClear r bs) s)
      | RClear r bs \<Rightarrow> Some (set_pc t (RDone (fr_ret r) bs) (s\<lparr>we_ready := False\<rparr>))
      | _ \<Rightarrow> None)"

definition write_step :: "(nat \<Rightarrow> nat) \<Rightarrow> tid \<Rightarrow> we_state \<Rightarrow> we_state option" where
  "write_step uncopied t s =
     (case we_pc s t of
        WCopy buf p \<Rightarrow>
          Some (case mycdev_generic_write uncopied (we_ramdisk s) buf (of_nat (length buf)) p of
                  Inl e \<Rightarrow> set_pc t Crashed s
                | Inr (r, m) \<Rightarrow> set_pc t (WSet r) (s\<lparr>we_ramdisk := m\<rparr>))
      | WSet r \<Rightarrow> Some (set_pc t (WWake r) (s\<lparr>we_ready := True\<rparr>))
      | WWake r \<Rightarrow> Some (set_pc t (WDone (fr_ret r)) (s\<lparr>we_pc := wake_one \<circ> we_pc s\<rparr>))
      | _ \<Rightarrow> None)"

text \<open>
  An event that cannot happen is \<^term>\<open>None\<close>: a thread makes one call at a time, and a thread
  that sleeps takes no turn. A call starts with no signal pending (the last one was
  delivered on the way back to user space); a signal wakes a sleeper.
\<close>

fun we_exec :: "(nat \<Rightarrow> nat) \<Rightarrow> we_event \<Rightarrow> we_state \<Rightarrow> we_state option" where
  "we_exec uncopied (CallRead t n p) s =
     (if between_calls (we_pc s t)
      then Some (set_pc t (RWait n p) (s\<lparr>we_signal := (we_signal s)(t := False)\<rparr>)) else None)"
| "we_exec uncopied (CallWrite t buf p) s =
     (if between_calls (we_pc s t)
      then Some (set_pc t (WCopy buf p) (s\<lparr>we_signal := (we_signal s)(t := False)\<rparr>)) else None)"
| "we_exec uncopied (Signal t) s =
     Some (set_pc t (wake_one (we_pc s t)) (s\<lparr>we_signal := (we_signal s)(t := True)\<rparr>))"
| "we_exec uncopied (Turn t) s =
     (case read_step uncopied t s of Some s' \<Rightarrow> Some s' | None \<Rightarrow> write_step uncopied t s)"

fun we_run :: "(nat \<Rightarrow> nat) \<Rightarrow> we_event list \<Rightarrow> we_state \<Rightarrow> we_state option" where
  "we_run uncopied [] s = Some s"
| "we_run uncopied (e # es) s =
     (case we_exec uncopied e s of None \<Rightarrow> None | Some s' \<Rightarrow> we_run uncopied es s')"

text \<open>\<^verbatim>\<open>my_generic_init\<close>: no data yet; the device's buffer is what \<^verbatim>\<open>kmalloc\<close> gave.\<close>

definition we_init :: "misc_answers \<Rightarrow> (bool \<times> ptr) loaded" where
  "we_init a =
     (let data_ready = False; p = ma_kmalloc a in
      if p = NULL then (- ENOMEM, (data_ready, p), [Kmalloc p])
      else if ma_misc_register a \<noteq> 0
      then (- EBUSY, (data_ready, p), [Kmalloc p, Misc_register (ma_misc_register a)])
      else (0, (data_ready, p), [Kmalloc p, Misc_register (ma_misc_register a)]))"

definition we_exit :: "bool \<times> ptr \<Rightarrow> kcall list" where
  "we_exit g = [Misc_deregister, Kfree (snd g)]"

definition we_start :: "bool \<times> ptr \<Rightarrow> bytes \<Rightarrow> we_state" where
  "we_start g mem = \<lparr>we_ready = fst g, we_ramdisk = mem, we_pc = (\<lambda>t. Idle), we_signal = (\<lambda>t. False)\<rparr>"

text \<open>The calls a user can make with a position in the file and less than 2 GiB of data.\<close>

definition fair_event :: "we_event \<Rightarrow> bool" where
  "fair_event e = (case e of
      CallRead t n p \<Rightarrow> unat n < 2 ^ 31 \<and> unat p \<le> 65536
    | CallWrite t buf p \<Rightarrow> length buf < 2 ^ 31 \<and> unat p \<le> 65536
    | _ \<Rightarrow> True)"

inductive we_reachable :: "(nat \<Rightarrow> nat) \<Rightarrow> we_state \<Rightarrow> bool" for uncopied where
  start: "length mem = 65536 \<Longrightarrow> we_init a = (0, g, tr) \<Longrightarrow> we_reachable uncopied (we_start g mem)"
| event: "we_reachable uncopied s \<Longrightarrow> fair_event e \<Longrightarrow> we_exec uncopied e s = Some s' \<Longrightarrow>
    we_reachable uncopied s'"

section \<open>The test programs of this lab\<close>

text \<open>
  \<^verbatim>\<open>read.c\<close>: the number of bytes comes from the second argument, \<^verbatim>\<open>nbytes + 1\<close> bytes are
  allocated, and the descriptor \<^verbatim>\<open>open\<close> gave is used whatever it is. \<^verbatim>\<open>atoi\<close> is a parameter.
  The system calls are parameters as in \<open>lab_read_main\<close>.
\<close>

definition we_read_main ::
  "(string \<Rightarrow> int) \<Rightarrow> (string \<Rightarrow> int) \<Rightarrow> (int \<Rightarrow> nat \<Rightarrow> 's \<Rightarrow> int \<times> bytes \<times> 's) \<Rightarrow>
   string list \<Rightarrow> 's \<Rightarrow> cdev_fault + (int \<times> bytes \<times> 's)" where
  "we_read_main atoi openf readf argv s =
     (let nbytes = (if length argv > 2 then atoi (argv ! 2) else 32);
          fd = openf (dev_filename argv) in
      case readf fd (nat nbytes) s of (rc, buffer, s') \<Rightarrow>
        if rc < 0 \<or> nbytes < rc then Inl BadIndex
        else Inr (0, c_string (take (nat rc) buffer), s'))"

definition we_write_main ::
  "(string \<Rightarrow> int) \<Rightarrow> (int \<Rightarrow> bytes \<Rightarrow> 's \<Rightarrow> int \<times> 's) \<Rightarrow> string list \<Rightarrow> 's \<Rightarrow> int \<times> 's" where
  "we_write_main openf writef argv s =
     (let fd = openf (dev_filename argv) in
      case writef fd (bytes_of_string test_text) s of (rc, s') \<Rightarrow> (0, s'))"

lemmas we_simps = read_step_def write_step_def set_pc_def wake_one_def between_calls_def

section \<open>What a turn can change\<close>

fun_cases we_exec_CallReadE: "we_exec uncopied (CallRead t n p) s = Some s'"
fun_cases we_exec_CallWriteE: "we_exec uncopied (CallWrite t buf p) s = Some s'"

lemma replicate_turns: "replicate 3 x = [x, x, x]" "replicate 4 x = [x, x, x, x]"
  by (simp_all add: numeral_eq_Suc)

lemma we_run_append:
  "we_run u (es @ fs) s = (case we_run u es s of None \<Rightarrow> None | Some s' \<Rightarrow> we_run u fs s')"
  by (induction es arbitrary: s) (auto split: option.splits)

lemma we_reachable_run:
  "we_run u es s = Some s' \<Longrightarrow> we_reachable u s \<Longrightarrow> list_all fair_event es \<Longrightarrow> we_reachable u s'"
  by (induction es arbitrary: s) (auto split: option.splits intro: we_reachable.event)

text \<open>Only a thread's own events and a wake-up move it.\<close>

lemma we_exec_other:
  assumes "we_exec u e s = Some s'"
    and "\<forall>n p. e \<noteq> CallRead t n p" and "\<forall>b p. e \<noteq> CallWrite t b p" and "e \<noteq> Signal t" and "e \<noteq> Turn t"
  shows "we_pc s' t = we_pc s t \<or> we_pc s' t = wake_one (we_pc s t)"
    and "we_signal s' t = we_signal s t"
  using assms
  by (cases e; auto simp: we_simps split: if_splits option.splits pc.splits sum.splits)+


section \<open>The invariant\<close>

definition pc_ok :: "pc \<Rightarrow> bool" where
  "pc_ok c = (case c of
      RWait n p \<Rightarrow> unat n < 2 ^ 31 \<and> unat p \<le> 65536
    | RAsleep n p \<Rightarrow> unat n < 2 ^ 31 \<and> unat p \<le> 65536
    | RAwake n p \<Rightarrow> unat n < 2 ^ 31 \<and> unat p \<le> 65536
    | RCopy n p \<Rightarrow> unat n < 2 ^ 31 \<and> unat p \<le> 65536
    | WCopy b p \<Rightarrow> length b < 2 ^ 31 \<and> unat p \<le> 65536
    | RClear r bs \<Rightarrow> fr_ret r = int (length bs)
    | RDone r bs \<Rightarrow> r = int (length bs) \<or> r = - ERESTARTSYS \<and> bs = []
    | Crashed \<Rightarrow> False
    | _ \<Rightarrow> True)"

definition asleep :: "pc \<Rightarrow> bool" where
  "asleep c = (case c of RAsleep n p \<Rightarrow> True | _ \<Rightarrow> False)"

definition waking :: "pc \<Rightarrow> bool" where
  "waking c = (case c of WWake r \<Rightarrow> True | _ \<Rightarrow> False)"

text \<open>A sleeper has no signal pending, and if there is data somebody is about to wake it.\<close>

definition we_inv :: "we_state \<Rightarrow> bool" where
  "we_inv s \<longleftrightarrow> length (we_ramdisk s) = 65536 \<and> (\<forall>t. pc_ok (we_pc s t)) \<and>
     (\<forall>t. asleep (we_pc s t) \<longrightarrow> \<not> we_signal s t \<and> (we_ready s \<longrightarrow> (\<exists>w. waking (we_pc s w))))"

lemmas pc_simps = pc_ok_def asleep_def waking_def

lemma pc_kinds [simp]:
  "pc_ok (wake_one c) \<longleftrightarrow> pc_ok c" "\<not> asleep (wake_one c)" "waking (wake_one c) \<longleftrightarrow> waking c"
  by (cases c; simp add: pc_simps wake_one_def)+

lemma asleep_RAsleep [simp]: "asleep (RAsleep n p)"
  by (simp add: asleep_def)

lemma wake_one_simps [simp]:
  "wake_one (RClear r bs) = RClear r bs" "wake_one (RAsleep n p) = RWait n p"
  "wake_one (WWake r) = WWake r" "between_calls c \<Longrightarrow> wake_one c = c"
  by (simp_all add: wake_one_def between_calls_def split: pc.splits)

lemma between_calls_simps [simp]:
  "between_calls (WDone i)" "between_calls (RDone i bs)" "between_calls Idle"
  by (simp_all add: between_calls_def)

lemma between_calls_pc [dest]:
  "between_calls c \<Longrightarrow> \<not> asleep c \<and> \<not> waking c"
  by (cases c) (simp_all add: pc_simps between_calls_def)

text \<open>
  How one thread's step keeps the invariant: it may move to a state that is no sleep, or
  fall asleep with no data and no signal, and it stops waking only after everybody is awake.
\<close>

lemma we_inv_move:
  assumes "we_inv s" and "pc_ok c"
    and "waking (we_pc s t) \<longrightarrow> waking c"
    and "asleep c \<longrightarrow> \<not> we_ready s \<and> \<not> we_signal s t"
  shows "we_inv (set_pc t c s)"
  using assms by (auto simp: we_inv_def set_pc_def)

lemma we_inv_signal:
  assumes "we_inv s" and "\<not> asleep (we_pc s t)"
  shows "we_inv (s\<lparr>we_signal := (we_signal s)(t := b)\<rparr>)"
  using assms by (auto simp: we_inv_def)

lemma we_inv_call:
  assumes "we_inv s" and "between_calls (we_pc s t)" and "pc_ok c" and "\<not> asleep c"
  shows "we_inv (set_pc t c (s\<lparr>we_signal := (we_signal s)(t := False)\<rparr>))"
  using assms by (intro we_inv_move we_inv_signal) (auto dest: between_calls_pc)

lemma handlers_in_range:
  assumes "length m = 65536" and "unat p \<le> 65536" and "\<And>k. u k \<le> k"
  shows "unat n < 2 ^ 31 \<Longrightarrow> \<exists>r bs. mycdev_generic_read u m n p = Inr (r, bs) \<and> fr_ret r = int (length bs)"
    and "length b < 2 ^ 31 \<Longrightarrow>
      \<exists>r m'. mycdev_generic_write u m b (of_nat (length b)) p = Inr (r, m') \<and> length m' = 65536"
proof -
  assume n: "unat n < 2 ^ 31"
  define k where "k = min (unat n) (65536 - unat p)"
  have "k - u k \<le> 65536 - unat p" by (simp add: k_def)
  then show "\<exists>r bs. mycdev_generic_read u m n p = Inr (r, bs) \<and> fr_ret r = int (length bs)"
    using read_in_range [OF assms(1,2) n k_def, of u] assms(1,3) by auto
next
  assume b: "length b < 2 ^ 31"
  then have l: "unat (of_nat (length b) :: u64) = length b" by simp
  define k where "k = min (unat (of_nat (length b) :: u64)) (65536 - unat p)"
  have "unat (of_nat (length b) :: u64) < 2 ^ 31" using b l by simp
  note w = write_in_range [where uncopied = u and buf = b, OF assms(1,2) this k_def assms(3)]
  have "unat p + length (take (k - u k) b @ replicate (u k) 0) \<le> 65536"
    using l assms(2) assms(3) [of k] by (auto simp: k_def)
  then show "\<exists>r m'. mycdev_generic_write u m b (of_nat (length b)) p = Inr (r, m') \<and> length m' = 65536"
    using w assms(1) by (auto simp del: length_append)
qed


lemma we_inv_read_step:
  assumes "we_inv s" and "read_step u t s = Some s'" and "\<And>k. u k \<le> k"
  shows "we_inv s'"
proof (cases "we_pc s t")
  case (RCopy n p)
  have ok: "pc_ok (we_pc s t)" and l: "length (we_ramdisk s) = 65536"
    using assms(1) by (auto simp: we_inv_def)
  then obtain r bs where "mycdev_generic_read u (we_ramdisk s) n p = Inr (r, bs)" "fr_ret r = int (length bs)"
    using handlers_in_range(1) [of "we_ramdisk s" p u n] assms(3) RCopy by (auto simp: pc_ok_def)
  then have "s' = set_pc t (RClear r bs) s" using assms(2) RCopy by (simp add: read_step_def)
  then show ?thesis
    using assms(1) RCopy \<open>fr_ret r = _\<close> by (auto simp: pc_simps intro!: we_inv_move)
next
  case (RClear r bs)
  then have "s' = set_pc t (RDone (fr_ret r) bs) (s\<lparr>we_ready := False\<rparr>)"
    using assms(2) by (simp add: read_step_def)
  moreover have "we_inv (s\<lparr>we_ready := False\<rparr>)" "pc_ok (we_pc s t)"
    using assms(1) by (auto simp: we_inv_def)
  ultimately show ?thesis
    using RClear by (auto simp: pc_simps intro!: we_inv_move)
next
  case (RWait n p)
  moreover have "pc_ok (we_pc s t)" using assms(1) by (simp add: we_inv_def)
  ultimately show ?thesis
    using assms(1,2) by (auto simp: read_step_def pc_simps intro!: we_inv_move)
next
  case (RAwake n p)
  moreover have "pc_ok (we_pc s t)" using assms(1) by (simp add: we_inv_def)
  ultimately show ?thesis
    using assms(1,2) by (auto simp: read_step_def pc_simps split: if_splits intro!: we_inv_move)
qed (use assms(2) in \<open>simp_all add: read_step_def\<close>)

lemma we_inv_write_step:
  assumes "we_inv s" and "write_step u t s = Some s'" and "\<And>k. u k \<le> k"
  shows "we_inv s'"
proof (cases "we_pc s t")
  case (WCopy b p)
  have ok: "pc_ok (we_pc s t)" and l: "length (we_ramdisk s) = 65536"
    using assms(1) by (auto simp: we_inv_def)
  then obtain r m where w: "mycdev_generic_write u (we_ramdisk s) b (of_nat (length b)) p = Inr (r, m)"
    and "length m = 65536"
    using handlers_in_range(2) [of "we_ramdisk s" p u b] assms(3) WCopy by (auto simp: pc_ok_def)
  then have "we_inv (s\<lparr>we_ramdisk := m\<rparr>)" using assms(1) by (simp add: we_inv_def)
  then show ?thesis
    using assms(2) w WCopy by (auto simp: write_step_def pc_simps intro!: we_inv_move)
next
  case (WSet r)
  then have s': "s' = s\<lparr>we_ready := True, we_pc := (we_pc s)(t := WWake r)\<rparr>"
    using assms(2) by (simp add: write_step_def set_pc_def)
  then have "waking (we_pc s' t)" by (simp add: waking_def)
  then show ?thesis
    using assms(1) s' by (auto simp: we_inv_def pc_ok_def asleep_def)
next
  case (WWake r)
  then have s': "s' = s\<lparr>we_pc := (wake_one \<circ> we_pc s)(t := WDone (fr_ret r))\<rparr>"
    using assms(2) by (simp add: write_step_def set_pc_def)
  then have "\<not> asleep (we_pc s' w)" for w by (simp add: asleep_def [of "WDone _"])
  moreover have "pc_ok (we_pc s' w)" for w using assms(1) s' by (simp add: we_inv_def pc_ok_def [of "WDone _"])
  ultimately show ?thesis
    using assms(1) s' by (simp add: we_inv_def)
qed (use assms(2) in \<open>simp_all add: write_step_def\<close>)

lemma we_inv_exec:
  assumes "we_inv s" and "we_exec u e s = Some s'" and "fair_event e" and "\<And>k. u k \<le> k"
  shows "we_inv s'"
proof (cases e)
  case (Turn t)
  then show ?thesis
    using assms by (auto split: option.splits intro: we_inv_read_step we_inv_write_step)
next
  case (Signal t)
  then have "s' = set_pc t (wake_one (we_pc s t)) (s\<lparr>we_signal := (we_signal s)(t := True)\<rparr>)"
    using assms(2) by simp
  then show ?thesis using assms(1) by (auto simp: we_inv_def set_pc_def)
qed (use assms in \<open>auto simp: fair_event_def pc_simps split: if_splits intro!: we_inv_call\<close>)

lemma we_inv_reachable:
  assumes "we_reachable u s" and "\<And>k. u k \<le> k"
  shows "we_inv s"
  using assms(1)
proof induction
  case (start mem a g tr)
  then show ?case by (simp add: we_inv_def we_start_def pc_simps)
next
  case (event s e s')
  then show ?case using assms(2) by (blast intro: we_inv_exec)
qed


section \<open>A device nobody writes to\<close>

definition is_writing :: "pc \<Rightarrow> bool" where
  "is_writing c = (case c of WCopy b p \<Rightarrow> True | WSet r \<Rightarrow> True | WWake r \<Rightarrow> True | _ \<Rightarrow> False)"

definition is_write_call :: "we_event \<Rightarrow> bool" where
  "is_write_call e = (case e of CallWrite t b p \<Rightarrow> True | _ \<Rightarrow> False)"

text \<open>No data, and no write that could bring some.\<close>

definition we_quiet :: "we_state \<Rightarrow> bool" where
  "we_quiet s \<longleftrightarrow> \<not> we_ready s \<and> (\<forall>t. \<not> is_writing (we_pc s t))"

lemma is_writing_simps [simp]:
  "is_writing (WCopy b p)" "is_writing (WSet r)" "is_writing (WWake r)"
  "\<not> is_writing Idle" "\<not> is_writing (RWait n p)" "\<not> is_writing (RAsleep n p)"
  "\<not> is_writing (RAwake n p)" "\<not> is_writing (RCopy n p)" "\<not> is_writing (RClear r bs)"
  "\<not> is_writing (RDone i bs)" "\<not> is_writing (WDone i)" "\<not> is_writing Crashed"
  by (simp_all add: is_writing_def)

lemma is_writing_wake_one [simp]: "is_writing (wake_one c) \<longleftrightarrow> is_writing c"
  by (cases c) (simp_all add: wake_one_def)

lemma quiet_no_write_step: "we_quiet s \<Longrightarrow> write_step u t s = None"
  by (cases "we_pc s t") (auto simp: we_quiet_def write_step_def dest: spec [of _ t])

lemma quiet_exec:
  assumes "we_quiet s" and "we_exec u e s = Some s'" and "\<not> is_write_call e"
  shows "we_quiet s'"
proof (cases e)
  case (Turn t)
  then have "read_step u t s = Some s'"
    using assms quiet_no_write_step by (auto split: option.splits)
  then show ?thesis
    using assms(1)
    by (cases "we_pc s t") (auto simp: read_step_def set_pc_def we_quiet_def split: sum.splits if_splits)
qed (use assms in \<open>auto simp: we_quiet_def set_pc_def is_write_call_def split: if_splits\<close>)

text \<open>Then a sleeper sleeps on, whatever the others do, unless it gets a signal.\<close>

lemma quiet_sleeper:
  assumes "we_quiet s" and "we_pc s x = RAsleep n p" and "we_run u es s = Some s'"
    and "\<not> list_ex is_write_call es" and "Signal x \<notin> set es"
  shows "we_pc s' x = RAsleep n p"
  using assms
proof (induction es arbitrary: s)
  case (Cons e es)
  from Cons.prems(3) obtain s1 where s1: "we_exec u e s = Some s1" "we_run u es s1 = Some s'"
    by (auto split: option.splits)
  have e: "e \<noteq> Signal x" "\<not> is_write_call e" using Cons.prems(4,5) by auto
  have "we_pc s1 x = RAsleep n p"
  proof (cases e)
    case (Turn t)
    then have "read_step u t s = Some s1"
      using s1(1) Cons.prems(1) quiet_no_write_step by (auto split: option.splits)
    moreover from this have "t \<noteq> x" using Cons.prems(2) by (auto simp: read_step_def)
    ultimately show ?thesis
      using Cons.prems(2) by (auto simp: read_step_def set_pc_def split: pc.splits)
  qed (use s1(1) e Cons.prems(2) in \<open>auto simp: set_pc_def is_write_call_def between_calls_def split: if_splits\<close>)
  then show ?case
    using Cons.IH s1(2) quiet_exec [OF Cons.prems(1) s1(1)] e Cons.prems(4,5) by simp
qed simp

text \<open>And a reader that has not been let through returns nothing but an interruption.\<close>

definition held_back :: "bool \<Rightarrow> pc \<Rightarrow> bool" where
  "held_back signalled c = (case c of
      RAwake n p \<Rightarrow> signalled | RCopy n p \<Rightarrow> False | RClear r bs \<Rightarrow> False
    | RDone r bs \<Rightarrow> r = - ERESTARTSYS \<and> bs = [] | Crashed \<Rightarrow> False | _ \<Rightarrow> True)"

definition not_let_through :: "we_state \<Rightarrow> bool" where
  "not_let_through s \<longleftrightarrow> (\<forall>t. held_back (we_signal s t) (we_pc s t))"

lemma held_back_simps [simp]:
  "held_back b Idle" "held_back b (RWait n p)" "held_back b (RAsleep n p)"
  "held_back b (RAwake n p) \<longleftrightarrow> b" "\<not> held_back b (RCopy n p)" "\<not> held_back b (RClear r bs)"
  "held_back b (RDone i bs) \<longleftrightarrow> i = - ERESTARTSYS \<and> bs = []" "\<not> held_back b Crashed"
  by (simp_all add: held_back_def)

lemma held_back_wake_one: "held_back b c \<Longrightarrow> held_back True (wake_one c)"
  by (cases c) (simp_all add: wake_one_def held_back_def)

lemma not_let_through_exec:
  assumes "not_let_through s" and "we_quiet s" and "we_exec u e s = Some s'" and "\<not> is_write_call e"
  shows "not_let_through s'"
proof (cases e)
  case (Turn t)
  then have r: "read_step u t s = Some s'"
    using assms quiet_no_write_step by (auto split: option.splits)
  have "\<not> we_ready s" "held_back (we_signal s t) (we_pc s t)"
    using assms(1,2) by (simp_all add: we_quiet_def not_let_through_def)
  with r assms(1) show ?thesis
    by (cases "we_pc s t") (auto simp: read_step_def set_pc_def not_let_through_def)
next
  case (Signal t)
  have "held_back (we_signal s t) (we_pc s t)" using assms(1) by (simp add: not_let_through_def)
  from held_back_wake_one [OF this] Signal assms(1,3) show ?thesis
    by (auto simp: set_pc_def not_let_through_def)
qed (use assms in \<open>auto simp: not_let_through_def set_pc_def is_write_call_def split: if_splits\<close>)

lemma not_let_through_run:
  "we_run u es s = Some s' \<Longrightarrow> not_let_through s \<Longrightarrow> we_quiet s \<Longrightarrow> \<not> list_ex is_write_call es \<Longrightarrow>
   not_let_through s' \<and> we_quiet s'"
  by (induction es arbitrary: s)
    (auto split: option.splits dest: quiet_exec not_let_through_exec)


section \<open>What the device guarantees\<close>


text \<open>
  A read blocks until there is data: as long as nobody has called write since the module
  was loaded, no read returns anything but \<^verbatim>\<open>-ERESTARTSYS\<close>, and one that has no signal
  pending has not returned.
\<close>

lemma we_read_waits_for_write:
  assumes "we_init a = (0, g, tr)" and "we_run uncopied es (we_start g mem) = Some s"
    and "\<not> list_ex is_write_call es" and "we_pc s t = RDone r bs"
  shows "r = - ERESTARTSYS \<and> bs = []"
proof -
  have "not_let_through (we_start g mem)" "we_quiet (we_start g mem)"
    using assms(1)
    by (auto simp: not_let_through_def we_quiet_def we_start_def we_init_def Let_def split: if_splits)
  from not_let_through_run [OF assms(2) this assms(3)] have "not_let_through s" by blast
  then show ?thesis
    using assms(4) by (auto simp: not_let_through_def dest: spec [of _ t])
qed


text \<open>
  C25. A write can be forgotten: a reader that has copied but has not cleared \<^verbatim>\<open>data_ready\<close> yet
  wipes out the announcement of a write that completes meanwhile. The next reader falls
  asleep although nobody has read those bytes, and sleeps through every continuation
  without another write or a signal.
\<close>

theorem we_write_forgotten:
  assumes "we_reachable (\<lambda>k. 0) s" and "we_pc s r = RClear res old"
    and "between_calls (we_pc s w)" and "between_calls (we_pc s x)" and "w \<noteq> x"
    and "\<And>t. \<not> is_writing (we_pc s t)" and "unat p + length bs \<le> 65536"
  shows "\<exists>s'. we_run (\<lambda>k. 0) ([CallWrite w bs p] @ replicate 3 (Turn w) @ [Turn r, CallRead x n q, Turn x]) s = Some s' \<and>
     we_pc s' w = WDone (int (length bs)) \<and> take (length bs) (drop (unat p) (we_ramdisk s')) = bs \<and>
     we_pc s' x = RAsleep n q \<and>
     (\<forall>es s''. we_run (\<lambda>k. 0) es s' = Some s'' \<longrightarrow> \<not> list_ex is_write_call es \<longrightarrow> Signal x \<notin> set es \<longrightarrow>
        we_pc s'' x = RAsleep n q)"
proof -
  have "we_inv s" by (rule we_inv_reachable [OF assms(1)]) simp
  then have m: "length (we_ramdisk s) = 65536" by (simp add: we_inv_def)
  have neq: "r \<noteq> w" "r \<noteq> x" using assms(2,3,4) by (auto simp: between_calls_def)
  let ?m = "if length bs = 0 then we_ramdisk s else mem_splice (we_ramdisk s) (unat p) bs"
  have "unat (of_nat (length bs) :: u64) = length bs" using assms(7) by simp
  then obtain rw where
    wr: "mycdev_generic_write (\<lambda>k. 0) (we_ramdisk s) bs (of_nat (length bs)) p = Inr (rw, ?m)"
        "fr_ret rw = int (length bs)"
    using write_in_range [of "we_ramdisk s" p "of_nat (length bs)" "length bs" "\<lambda>k. 0" bs] m assms(7)
    by auto
  let ?s = "s\<lparr>we_ready := False, we_ramdisk := ?m,
      we_pc := (wake_one \<circ> we_pc s)(w := WDone (int (length bs)), r := RDone (fr_ret res) old, x := RAsleep n q),
      we_signal := (we_signal s)(w := False, x := False)\<rparr>"
  have "we_run (\<lambda>k. 0) ([CallWrite w bs p] @ replicate 3 (Turn w) @ [Turn r, CallRead x n q, Turn x]) s = Some ?s"
    using assms(2-5) neq wr
    by (simp add: replicate_turns read_step_def write_step_def set_pc_def)
      (simp add: fun_eq_iff)
  moreover have "we_quiet ?s" using assms(6) by (simp add: we_quiet_def)
  moreover have "take (length bs) (drop (unat p) ?m) = bs"
    using take_drop_splice_same [of "unat p" bs "we_ramdisk s"] m assms(7) by simp
  ultimately show ?thesis
    using neq assms(5) quiet_sleeper [of ?s x n q "\<lambda>k. 0"] by (intro exI [of _ ?s]) auto
qed


section \<open>Witnesses\<close>

definition demo_we :: we_state where
  "demo_we = we_start (False, 7) (replicate 65536 0)"

lemma demo_we_reachable: "we_reachable u demo_we"
  unfolding demo_we_def
  by (rule we_reachable.start [where a = "\<lparr>ma_kmalloc = 7, ma_misc_register = 0\<rparr>"])
    (simp_all add: we_init_def)

lemma demo_we_fields [simp]:
  "we_pc demo_we t = Idle" "we_ready demo_we = False" "we_signal demo_we t = False"
  "length (we_ramdisk demo_we) = 65536"
  by (simp_all add: demo_we_def we_start_def)

text \<open>Thread 1 has called read and sleeps.\<close>

definition demo_asleep :: we_state where
  "demo_asleep = set_pc 1 (RAsleep 3 100) demo_we"

lemma demo_asleep_run:
  "we_run u [CallRead 1 3 100, Turn 1] demo_we = Some demo_asleep"
  by (simp add: demo_asleep_def demo_we_def we_start_def read_step_def set_pc_def fun_upd_idem)

lemma demo_asleep_reachable: "we_reachable u demo_asleep"
  by (rule we_reachable_run [OF demo_asleep_run demo_we_reachable]) (simp add: fair_event_def)


lemma we_read_waits_for_write_witness:
  "\<exists>s. we_run (\<lambda>k. 0) [CallRead 1 3 100, Turn 1, Signal 1, Turn 1, Turn 1] demo_we = Some s \<and>
     we_pc s 1 = RDone (- ERESTARTSYS) []"
proof -
  obtain s r bs where s: "we_run (\<lambda>k. 0) [CallRead 1 3 100, Turn 1, Signal 1, Turn 1, Turn 1] demo_we = Some s"
      "we_pc s 1 = RDone r bs"
    by (simp add: demo_we_def we_start_def read_step_def set_pc_def)
  from we_read_waits_for_write [OF _ s(1) [unfolded demo_we_def] _ s(2),
      of "\<lparr>ma_kmalloc = 7, ma_misc_register = 0\<rparr>" "[Kmalloc 7, Misc_register 0]"]
  show ?thesis using s by (auto simp: we_init_def is_write_call_def)
qed


text \<open>Thread 2 has written, thread 1 has copied and is about to clear \<^verbatim>\<open>data_ready\<close>.\<close>

definition demo_clear :: we_state where
  "demo_clear = demo_we\<lparr>we_ready := True,
     we_pc := (we_pc demo_we)(1 := RClear \<lparr>fr_ret = 0, fr_pos = 0\<rparr> [], 2 := WDone 0)\<rparr>"

lemma no_bytes:
  "mycdev_generic_read (\<lambda>k. 0) m 0 0 = Inr (\<lparr>fr_ret = 0, fr_pos = 0\<rparr>, [])"
  "mycdev_generic_write (\<lambda>k. 0) m [] 0 0 = Inr (\<lparr>fr_ret = 0, fr_pos = 0\<rparr>, m)"
  by (simp_all add: mycdev_generic_read_def mycdev_generic_write_def bytes_to_do_def ramdisk_size_simp
      int_of_ulong_def ulong_of_int_def touches_def)

lemma demo_clear_run:
  "we_run (\<lambda>k. 0) ([CallWrite 2 [] 0] @ replicate 3 (Turn 2) @ [CallRead 1 0 0] @ replicate 3 (Turn 1)) demo_we
     = Some demo_clear"
  by (simp add: demo_clear_def read_step_def write_step_def set_pc_def replicate_turns no_bytes)
    (simp add: demo_we_def we_start_def wake_one_def fun_eq_iff)

lemma demo_clear_reachable: "we_reachable (\<lambda>k. 0) demo_clear"
  by (rule we_reachable_run [OF demo_clear_run demo_we_reachable])
    (simp add: fair_event_def replicate_turns)

theorem we_write_forgotten_witness:
  "\<exists>s'. we_run (\<lambda>k. 0) ([CallWrite 2 [1, 2] 0] @ replicate 3 (Turn 2) @ [Turn 1, CallRead 3 2 0, Turn 3]) demo_clear
      = Some s' \<and> we_pc s' 2 = WDone 2 \<and> we_pc s' 3 = RAsleep 2 0"
proof -
  have "\<not> is_writing (we_pc demo_clear t)" for t by (simp add: demo_clear_def is_writing_def)
  from we_write_forgotten [OF demo_clear_reachable _ _ _ _ this,
      of 1 "\<lparr>fr_ret = 0, fr_pos = 0\<rparr>" "[]" 2 3 0 "[1, 2]" 2 0]
  obtain s' where "we_run (\<lambda>k. 0) ([CallWrite 2 [1, 2] 0] @ replicate 3 (Turn 2) @
      [Turn 1, CallRead 3 2 0, Turn 3]) demo_clear = Some s'"
    "we_pc s' 2 = WDone (int (length [1, 2 :: u8]))" "we_pc s' 3 = RAsleep 2 0"
    by (auto simp: demo_clear_def simp del: we_run.simps append.simps)
  then show ?thesis by simp
qed

end
