(* ===== verification/Lookup_Table.thy ===== *)
theory Lookup_Table
  imports C_Strings
begin

text \<open>
  What the two lookup structures of \<^verbatim>\<open>data-struct-labs\<close> share: the contract of a table that
  is searched by name. The hash table of network devices
  (\<^verbatim>\<open>hlist.c\<close>) and the tree of products (\<^verbatim>\<open>rbtree.c\<close>) are both interpretations of
  \<open>lookup_table\<close>; the tree also of \<open>deletable_table\<close>.
\<close>

section \<open>The contract of a lookup table\<close>

text \<open>
  \<open>insert\<close> is \<^term>\<open>None\<close> when the operation does not return; \<open>fits t n\<close> says there is room for
  \<open>n\<close> more entries. Only keys with \<open>ok\<close> are used.
\<close>

locale lookup_table =
  fixes lookup :: "'t \<Rightarrow> 'k \<Rightarrow> 'v option"
    and insert :: "'k \<Rightarrow> 'v \<Rightarrow> 't \<Rightarrow> 't option"
    and inv :: "'t \<Rightarrow> bool"
    and fits :: "'t \<Rightarrow> nat \<Rightarrow> bool"
    and ok :: "'k \<Rightarrow> bool"
  assumes insert_law: "inv t \<Longrightarrow> fits t (Suc n) \<Longrightarrow> ok k \<Longrightarrow> lookup t k = None \<Longrightarrow>
      \<exists>t'. insert k v t = Some t' \<and> inv t' \<and> fits t' n \<and>
           (\<forall>k'. ok k' \<longrightarrow> lookup t' k' = (if k' = k then Some v else lookup t k'))"
begin

fun insert_all :: "('k \<times> 'v) list \<Rightarrow> 't \<Rightarrow> 't option" where
  "insert_all [] t = Some t"
| "insert_all ((k, v) # kvs) t = (case insert k v t of None \<Rightarrow> None | Some t' \<Rightarrow> insert_all kvs t')"

text \<open>A table filled with new names finds each of them and otherwise what it found before.\<close>

lemma lookup_insert_all:
  assumes "inv t" and "fits t (length kvs)" and "distinct (map fst kvs)"
    and "\<forall>k \<in> set (map fst kvs). ok k \<and> lookup t k = None"
  shows "\<exists>t'. insert_all kvs t = Some t' \<and> inv t' \<and>
     (\<forall>k. ok k \<longrightarrow> lookup t' k = (case map_of kvs k of Some v \<Rightarrow> Some v | None \<Rightarrow> lookup t k))"
  using assms
proof (induction kvs arbitrary: t)
  case Nil
  then show ?case by simp
next
  case (Cons kv kvs)
  obtain k v where kv: "kv = (k, v)" by fastforce
  with Cons.prems insert_law [of t "length kvs" k v] obtain t1 where
    t1: "insert k v t = Some t1" "inv t1" "fits t1 (length kvs)"
        "\<And>k'. ok k' \<Longrightarrow> lookup t1 k' = (if k' = k then Some v else lookup t k')"
    by auto
  have "\<forall>k' \<in> set (map fst kvs). ok k' \<and> lookup t1 k' = None"
    using Cons.prems(3,4) kv t1(4) by auto
  with Cons.IH [OF t1(2,3)] Cons.prems(3) obtain t' where
    t': "insert_all kvs t1 = Some t'" "inv t'"
        "\<And>k. ok k \<Longrightarrow> lookup t' k = (case map_of kvs k of Some v \<Rightarrow> Some v | None \<Rightarrow> lookup t1 k)"
    by auto
  have "map_of kvs k = None" using Cons.prems(3) kv by (simp add: map_of_eq_None_iff)
  then show ?case
    using t1(1,4) t' kv by (auto split: option.splits)
qed

lemma lookup_fill:
  assumes "inv t" and "fits t (length kvs)" and "distinct (map fst kvs)"
    and "\<forall>k \<in> set (map fst kvs). ok k" and "\<And>k. lookup t k = None"
  shows "\<exists>t'. insert_all kvs t = Some t' \<and> inv t' \<and> (\<forall>k. ok k \<longrightarrow> lookup t' k = map_of kvs k)"
proof -
  have "(case m of Some v \<Rightarrow> Some v | None \<Rightarrow> None) = m" for m :: "'v option"
    by (cases m) simp_all
  with lookup_insert_all [OF assms(1-3)] assms(4,5) show ?thesis by (simp cong: option.case_cong)
qed

end

locale deletable_table = lookup_table lookup insert inv fits ok
  for lookup :: "'t \<Rightarrow> 'k \<Rightarrow> 'v option"
    and insert :: "'k \<Rightarrow> 'v \<Rightarrow> 't \<Rightarrow> 't option"
    and inv :: "'t \<Rightarrow> bool"
    and fits :: "'t \<Rightarrow> nat \<Rightarrow> bool"
    and ok :: "'k \<Rightarrow> bool" +
  fixes delete :: "'k \<Rightarrow> 't \<Rightarrow> 't option"
  assumes delete_law: "inv t \<Longrightarrow> ok k \<Longrightarrow> lookup t k \<noteq> None \<Longrightarrow>
      \<exists>t'. delete k t = Some t' \<and> inv t' \<and>
           (\<forall>k'. ok k' \<longrightarrow> lookup t' k' = (if k' = k then None else lookup t k'))"
begin

text \<open>Deleting a name just inserted restores what every lookup finds.\<close>

lemma insert_delete:
  assumes "inv t" and "fits t 1" and "ok k" and "lookup t k = None"
  shows "\<exists>t1 t2. insert k v t = Some t1 \<and> lookup t1 k = Some v \<and> delete k t1 = Some t2 \<and> inv t2 \<and>
     (\<forall>k'. ok k' \<longrightarrow> lookup t2 k' = lookup t k')"
proof -
  from insert_law [of t 0 k v] assms obtain t1 where
    t1: "insert k v t = Some t1" "inv t1" "\<And>k'. ok k' \<Longrightarrow> lookup t1 k' = (if k' = k then Some v else lookup t k')"
    by auto
  with delete_law [of t1 k] assms(3) obtain t2 where "delete k t1 = Some t2" "inv t2"
      "\<And>k'. ok k' \<Longrightarrow> lookup t2 k' = (if k' = k then None else lookup t1 k')"
    by auto
  with t1 assms(3,4) show ?thesis by auto
qed

end

end
