(* ===== verification/Name_Hash.thy ===== *)
theory Name_Hash
  imports Lookup_Table Module_Lifecycle
begin

text \<open>
  The hash table of network devices, \<^verbatim>\<open>data-struct-labs/hlist.c\<close>: the name hash with its 64-bit
  arithmetic, the 256 buckets of \<^verbatim>\<open>hlist\<close> nodes, insertion at the head and lookup by name, and
  the module that fills the table with ten devices. A node is the index of its device in
  the array \<^verbatim>\<open>devices\<close>; a bucket is the list of nodes from its head.
\<close>

section \<open>The hash\<close>

definition IFNAMSIZ :: nat where "IFNAMSIZ = 16"
definition NETDEV_HASHBITS :: nat where "NETDEV_HASHBITS = 8"
definition NETDEV_HASHENTRIES :: nat where "NETDEV_HASHENTRIES = 2 ^ NETDEV_HASHBITS"

definition partial_name_hash :: "u64 \<Rightarrow> u64 \<Rightarrow> u64" where
  "partial_name_hash c prevhash = (prevhash + push_bit 4 c + drop_bit 4 c) * 11"

definition end_name_hash :: "u64 \<Rightarrow> u64" where
  "end_name_hash hash = ucast (ucast hash :: u32)"

text \<open>The loop \<^verbatim>\<open>while (len--)\<close> over the next \<open>len\<close> bytes.\<close>

fun name_hash_loop :: "bytes \<Rightarrow> nat \<Rightarrow> u64 \<Rightarrow> u64" where
  "name_hash_loop name 0 hash = hash"
| "name_hash_loop name (Suc len) hash =
     name_hash_loop (tl name) len (partial_name_hash (ucast (hd0 name)) hash)"

definition full_name_hash :: "bytes \<Rightarrow> nat \<Rightarrow> u32" where
  "full_name_hash name len = ucast (end_name_hash (name_hash_loop name len 0))"

text \<open>The index of the bucket \<^verbatim>\<open>dev_name_hash\<close> returns the address of.\<close>

definition dev_name_hash :: "bytes \<Rightarrow> nat" where
  "dev_name_hash name =
     unat (full_name_hash name (strnlen name IFNAMSIZ) AND (push_bit NETDEV_HASHBITS 1 - 1))"

section \<open>The table\<close>

record net_device =
  nd_name :: bytes          \<comment> \<open>\<^verbatim>\<open>char name[IFNAMSIZ]\<close>\<close>
  nd_num :: int             \<comment> \<open>\<^verbatim>\<open>net_num\<close>\<close>

record net =
  dev_name_head :: "nat list list"
  devices :: "net_device list"

definition netdev_create_hash :: "nat list list" where
  "netdev_create_hash = replicate NETDEV_HASHENTRIES []"

definition hlist_add_head :: "nat \<Rightarrow> nat \<Rightarrow> nat list list \<Rightarrow> nat list list" where
  "hlist_add_head node bucket heads = heads[bucket := node # heads ! bucket]"

text \<open>\<^verbatim>\<open>hlist_for_each\<close> over the name's bucket, to the first device whose name compares equal.\<close>

fun hlist_find :: "net_device list \<Rightarrow> nat list \<Rightarrow> bytes \<Rightarrow> nat option" where
  "hlist_find devs [] name = None"
| "hlist_find devs (p # ps) name =
     (if strncmp (nd_name (devs ! p)) name IFNAMSIZ = 0 then Some p else hlist_find devs ps name)"

definition dev_get_by_name :: "net \<Rightarrow> bytes \<Rightarrow> nat option" where
  "dev_get_by_name net name = hlist_find (devices net) (dev_name_head net ! dev_name_hash name) name"

text \<open>\<^verbatim>\<open>snprintf(name, IFNAMSIZ, ...)\<close>: at most 15 characters and a zero; the rest stays.\<close>

definition snprintf_name :: "bytes \<Rightarrow> string \<Rightarrow> bytes" where
  "snprintf_name old s =
     (let t = take (IFNAMSIZ - 1) (bytes_of_string s) @ [0] in t @ drop (length t) old)"

text \<open>One turn of the loop of \<^verbatim>\<open>hlist_module_init\<close> for a given name and number.\<close>

definition add_device :: "nat \<Rightarrow> string \<Rightarrow> int \<Rightarrow> net \<Rightarrow> net" where
  "add_device i s num net =
     (let dev = \<lparr>nd_name = snprintf_name (nd_name (devices net ! i)) s, nd_num = num\<rparr>;
          net = net\<lparr>devices := (devices net)[i := dev]\<rparr> in
      net\<lparr>dev_name_head := hlist_add_head i (dev_name_hash (nd_name dev)) (dev_name_head net)\<rparr>)"

definition eth_name :: "nat \<Rightarrow> string" where
  "eth_name i = ''eth'' @ dec_string i"

fun add_devices :: "nat \<Rightarrow> nat \<Rightarrow> net \<Rightarrow> net" where
  "add_devices i 0 net = net"
| "add_devices i (Suc k) net = add_devices (Suc i) k (add_device i (eth_name i) (int i) net)"

section \<open>The module\<close>

text \<open>
  The kernel's answers: the two allocations, and what the fresh memory of the devices
  contains. The globals keep what was printed of the device that was found.
\<close>

record hlist_answers =
  ha_heads :: ptr
  ha_devices :: ptr
  ha_garbage :: "net_device list"

record hlist_globals =
  hg_heads :: ptr
  hg_devices :: ptr
  hg_net :: net
  hg_printed :: "(bytes \<times> int) option"

definition hlist_module_init :: "hlist_answers \<Rightarrow> hlist_globals loaded" where
  "hlist_module_init a =
     (let dev_num = 10;
          net0 = \<lparr>dev_name_head = netdev_create_hash, devices = ha_garbage a\<rparr>;
          g0 = \<lparr>hg_heads = ha_heads a, hg_devices = NULL, hg_net = net0, hg_printed = None\<rparr>;
          tr = [Kmalloc (ha_heads a)] in
      if ha_heads a = NULL then (- ENOMEM, g0, tr)
      else
        let g = g0\<lparr>hg_devices := ha_devices a\<rparr>; tr = tr @ [Kmalloc (ha_devices a)] in
        if ha_devices a = NULL then (- ENOMEM, g, tr @ [Kfree (ha_heads a)])
        else
          let net = add_devices 0 dev_num net0;
              out = (case dev_get_by_name net (bytes_of_string ''eth1'') of
                       None \<Rightarrow> None
                     | Some i \<Rightarrow> Some (c_string (nd_name (devices net ! i)), nd_num (devices net ! i))) in
          (0, g\<lparr>hg_net := net, hg_printed := out\<rparr>, tr))"

definition hlist_module_exit :: "hlist_globals \<Rightarrow> kcall list" where
  "hlist_module_exit g = [Kfree (hg_devices g), Kfree (hg_heads g)]"

section \<open>Lemmas on the hash\<close>

text \<open>Only the string counts, not what follows its end in memory.\<close>

lemma name_hash_loop_take: "name_hash_loop (take n s) n h = name_hash_loop s n h"
proof (induction n arbitrary: s h)
  case (Suc n)
  then show ?case by (cases s) (simp_all add: hd0_def)
qed simp

lemma c_string_prefix: "take (length (c_string s)) s = c_string s"
  unfolding c_string_def by (metis takeWhile_eq_take)

lemma dev_name_hash_cong:
  assumes "c_string (take 16 s) = c_string (take 16 t)"
  shows "dev_name_hash s = dev_name_hash t"
proof -
  let ?n = "strnlen s 16"
  have n: "strnlen t 16 = ?n" using assms by (simp add: strnlen_def)
  have len: "?n \<le> 16" by (simp add: strnlen_def c_string_def) (metis length_take length_takeWhile_le min.cobounded2 order_trans)
  have pre: "take (strnlen u 16) u = c_string (take 16 u)" for u
    using c_string_prefix [of "take 16 u"] length_takeWhile_le [of _ "take 16 u"]
    by (simp add: strnlen_def min_def c_string_def split: if_splits)
  have "take ?n s = take ?n t" using pre [of s] pre [of t] n assms by simp
  then have "name_hash_loop s ?n 0 = name_hash_loop t ?n 0"
    by (metis name_hash_loop_take)
  then show ?thesis by (simp add: dev_name_hash_def full_name_hash_def IFNAMSIZ_def n)
qed

lemma dev_name_hash_bound: "dev_name_hash s < 256"
proof -
  have "unat (x AND 255 :: u32) < 2 ^ 8" for x
  proof -
    have "x AND 255 = take_bit 8 x" by (simp add: take_bit_eq_mask mask_eq_exp_minus_1)
    then show ?thesis by (simp add: unsigned_take_bit_eq del: power_numeral)
  qed
  then show ?thesis by (simp add: dev_name_hash_def NETDEV_HASHBITS_def push_bit_eq_mult)
qed

section \<open>The table's invariant\<close>

text \<open>
  Every node of a bucket is a device of the array whose name hashes to that bucket; \<open>n\<close> is
  the number of devices entered so far, each entered once.
\<close>

definition net_inv :: "nat \<Rightarrow> net \<Rightarrow> bool" where
  "net_inv n net \<longleftrightarrow> length (dev_name_head net) = 256 \<and> n \<le> length (devices net) \<and>
     (\<forall>b < 256. \<forall>p \<in> set (dev_name_head net ! b). p < n \<and> dev_name_hash (nd_name (devices net ! p)) = b)"

text \<open>The names a caller can enter and find again: at most 15 characters, no zero among them.\<close>

definition dev_name_ok :: "string \<Rightarrow> bool" where
  "dev_name_ok s \<longleftrightarrow> length s \<le> 15 \<and> plain (bytes_of_string s)"

lemma snprintf_name_string:
  assumes "dev_name_ok s"
  shows "c_string (take 16 (snprintf_name old s)) = bytes_of_string s"
  using assms by (simp add: snprintf_name_def dev_name_ok_def IFNAMSIZ_def Let_def take_Cons' c_string_terminated)

lemma strncmp_snprintf:
  assumes "dev_name_ok s" and "dev_name_ok t"
  shows "strncmp (snprintf_name old s) (bytes_of_string t) 16 = 0 \<longleftrightarrow> bytes_of_string s = bytes_of_string t"
  using assms snprintf_name_string [OF assms(1)] by (simp add: strncmp_zero_iff dev_name_ok_def)

lemma hlist_find_cong:
  "(\<forall>p \<in> set ps. devs ! p = devs' ! p) \<Longrightarrow> hlist_find devs ps name = hlist_find devs' ps name"
  by (induction ps) auto

lemma net_inv_add_device:
  assumes "net_inv n net" and "n < length (devices net)"
  shows "net_inv (Suc n) (add_device n s num net)"
proof -
  have "dev_name_hash x < length (dev_name_head net)" for x
    using assms(1) dev_name_hash_bound by (simp add: net_inv_def)
  then show ?thesis
    using assms
    by (auto simp: net_inv_def add_device_def Let_def hlist_add_head_def nth_list_update less_Suc_eq)
qed

lemma dev_get_by_name_add_device:
  assumes "net_inv n net" and "n < length (devices net)" and "dev_name_ok s" and "dev_name_ok t"
  shows "dev_get_by_name (add_device n s num net) (bytes_of_string t) =
           (if bytes_of_string t = bytes_of_string s then Some n else dev_get_by_name net (bytes_of_string t))"
proof -
  let ?d = "\<lparr>nd_name = snprintf_name (nd_name (devices net ! n)) s, nd_num = num\<rparr>"
  let ?b = "dev_name_hash (nd_name ?d)" and ?c = "dev_name_hash (bytes_of_string t)"
  have b: "?b < length (dev_name_head net)" "?c < length (dev_name_head net)"
    using assms(1) dev_name_hash_bound by (simp_all add: net_inv_def)
  have "c_string (take 16 (bytes_of_string t)) = bytes_of_string t"
    using assms(4) by (simp add: dev_name_ok_def)
  then have same: "?b = ?c" if "bytes_of_string t = bytes_of_string s"
    using snprintf_name_string [OF assms(3)] that by (intro dev_name_hash_cong) simp
  have old: "hlist_find ((devices net)[n := ?d]) (dev_name_head net ! ?c) (bytes_of_string t) =
      hlist_find (devices net) (dev_name_head net ! ?c) (bytes_of_string t)"
    by (rule hlist_find_cong) (use assms(1) dev_name_hash_bound in \<open>fastforce simp: net_inv_def\<close>)
  show ?thesis
    using b same old strncmp_snprintf [OF assms(3,4)] assms(2)
    by (auto simp: dev_get_by_name_def add_device_def Let_def hlist_add_head_def nth_list_update IFNAMSIZ_def)
qed


lemma dev_get_by_name_bound:
  assumes "net_inv n net" and "dev_get_by_name net name = Some i"
  shows "i < n"
proof -
  have "hlist_find devs ps name = Some i \<Longrightarrow> i \<in> set ps" for devs ps
    by (induction ps) (auto split: if_splits)
  then show ?thesis
    using assms dev_name_hash_bound [of name] by (auto simp: net_inv_def dev_get_by_name_def)
qed

section \<open>The table as a lookup table\<close>

text \<open>
  The state is the number of devices entered and the table; looking up a name gives the
  number of the device found.
\<close>

definition net_lookup :: "nat \<times> net \<Rightarrow> string \<Rightarrow> int option" where
  "net_lookup t s = map_option (\<lambda>i. nd_num (devices (snd t) ! i)) (dev_get_by_name (snd t) (bytes_of_string s))"

definition net_insert :: "string \<Rightarrow> int \<Rightarrow> nat \<times> net \<Rightarrow> (nat \<times> net) option" where
  "net_insert s num t = Some (Suc (fst t), add_device (fst t) s num (snd t))"

definition net_fits :: "nat \<times> net \<Rightarrow> nat \<Rightarrow> bool" where
  "net_fits t k \<longleftrightarrow> fst t + k \<le> length (devices (snd t))"

lemma length_devices_add_device [simp]: "length (devices (add_device i s num net)) = length (devices net)"
  by (simp add: add_device_def Let_def)

lemma add_device_devices:
  "devices (add_device n s num net) =
     (devices net)[n := \<lparr>nd_name = snprintf_name (nd_name (devices net ! n)) s, nd_num = num\<rparr>]"
  by (simp add: add_device_def Let_def)

interpretation name_hash: lookup_table net_lookup net_insert "\<lambda>t. net_inv (fst t) (snd t)" net_fits dev_name_ok
proof
  fix t :: "nat \<times> net" and n :: nat and k :: string and v :: int
  assume inv: "net_inv (fst t) (snd t)" and fits: "net_fits t (Suc n)" and k: "dev_name_ok k"
  have lt: "fst t < length (devices (snd t))" using fits by (simp add: net_fits_def)
  let ?t = "(Suc (fst t), add_device (fst t) k v (snd t))"
  have "net_lookup ?t k' = (if k' = k then Some v else net_lookup t k')" if "dev_name_ok k'" for k'
    using dev_get_by_name_add_device [OF inv lt k that] dev_get_by_name_bound [OF inv] lt
    by (auto simp: net_lookup_def add_device_devices bytes_of_string_inj nth_list_update map_option_case
        split: option.splits)
  then show "\<exists>t'. net_insert k v t = Some t' \<and> net_inv (fst t') (snd t') \<and> net_fits t' n \<and>
      (\<forall>k'. dev_name_ok k' \<longrightarrow> net_lookup t' k' = (if k' = k then Some v else net_lookup t k'))"
    using net_inv_add_device [OF inv lt] fits by (auto simp: net_insert_def net_fits_def)
qed

lemma net_insert_pair: "net_insert s num (i, net) = Some (Suc i, add_device i s num net)"
  by (simp add: net_insert_def)

text \<open>Entering a list of named devices, the first at index \<open>i\<close>.\<close>

fun enter_all :: "nat \<Rightarrow> (string \<times> int) list \<Rightarrow> net \<Rightarrow> net" where
  "enter_all i [] net = net"
| "enter_all i ((s, num) # kvs) net = enter_all (Suc i) kvs (add_device i s num net)"

lemma enter_all_insert_all:
  "name_hash.insert_all kvs (i, net) = Some (i + length kvs, enter_all i kvs net)"
  by (induction i kvs net rule: enter_all.induct) (simp_all add: net_insert_pair)

lemma add_devices_enter_all:
  "add_devices i k net = enter_all i (map (\<lambda>j. (eth_name j, int j)) [i..<i + k]) net"
proof (induction k arbitrary: i net)
  case (Suc k)
  have "[i..<i + Suc k] = i # [Suc i..<Suc i + k]" by (simp add: upt_conv_Cons del: upt_Suc)
  then show ?case using Suc [of "Suc i"] by (simp del: upt_Suc)
qed simp

definition empty_net :: "net_device list \<Rightarrow> net" where
  "empty_net ds = \<lparr>dev_name_head = netdev_create_hash, devices = ds\<rparr>"

lemma net_inv_empty: "net_inv 0 (empty_net ds)"
  by (simp add: empty_net_def net_inv_def netdev_create_hash_def NETDEV_HASHENTRIES_def NETDEV_HASHBITS_def)

lemma net_lookup_empty: "net_lookup (n, empty_net ds) k = None"
  using dev_name_hash_bound [of "bytes_of_string k"]
  by (simp add: net_lookup_def dev_get_by_name_def empty_net_def netdev_create_hash_def
      NETDEV_HASHENTRIES_def NETDEV_HASHBITS_def)

lemma enter_all_lookup:
  assumes "distinct (map fst kvs)" and "\<forall>k \<in> set (map fst kvs). dev_name_ok k"
    and "length kvs \<le> length ds" and "dev_name_ok s"
  shows "net_inv (length kvs) (enter_all 0 kvs (empty_net ds))"
    and "net_lookup (length kvs, enter_all 0 kvs (empty_net ds)) s = map_of kvs s"
proof -
  have "net_fits (0, empty_net ds) (length kvs)" using assms(3) by (simp add: net_fits_def empty_net_def)
  from name_hash.lookup_fill [OF _ this assms(1,2)] net_inv_empty net_lookup_empty assms(4)
  show "net_inv (length kvs) (enter_all 0 kvs (empty_net ds))"
    and "net_lookup (length kvs, enter_all 0 kvs (empty_net ds)) s = map_of kvs s"
    by (simp_all add: enter_all_insert_all)
qed

text \<open>
  C6. The hash table is a map from names: after devices with different names of at most 15
  characters have been entered into an empty table, \<^verbatim>\<open>dev_get_by_name\<close> finds each of them
  by its name, with its own number, and no other name, whichever names share a bucket and
  whatever garbage the array held; and every node hangs in the bucket of its name.
\<close>

theorem dev_get_by_name_finds:
  assumes "distinct (map fst kvs)" and "\<forall>k \<in> set (map fst kvs). dev_name_ok k"
    and "length kvs \<le> length ds" and "dev_name_ok s" and "net = enter_all 0 kvs (empty_net ds)"
  shows "map_option (\<lambda>i. nd_num (devices net ! i)) (dev_get_by_name net (bytes_of_string s)) = map_of kvs s \<and>
     (\<forall>b < 256. \<forall>p \<in> set (dev_name_head net ! b). dev_name_hash (nd_name (devices net ! p)) = b)"
  using enter_all_lookup [OF assms(1-4)] assms(5) by (auto simp: net_lookup_def net_inv_def)

theorem dev_get_by_name_finds_witness:
  "map_option (\<lambda>i. nd_num (devices (enter_all 0 [(''lo'', 7), (''eth0'', 8)]
       (empty_net (replicate 3 \<lparr>nd_name = [], nd_num = 0\<rparr>))) ! i))
     (dev_get_by_name (enter_all 0 [(''lo'', 7), (''eth0'', 8)]
       (empty_net (replicate 3 \<lparr>nd_name = [], nd_num = 0\<rparr>))) (bytes_of_string ''eth0'')) = Some 8"
  using dev_get_by_name_finds [of "[(''lo'', 7), (''eth0'', 8)]" "replicate 3 \<lparr>nd_name = [], nd_num = 0\<rparr>" "''eth0''"]
  by (simp add: dev_name_ok_def bytes_of_string_def byte_of_char_def del: enter_all.simps)

section \<open>Loading and unloading\<close>

interpretation hlist_mod: loadable hlist_module_init hlist_module_exit "\<lambda>a. True"
  by unfold_locales
    (auto simp: hlist_module_init_def hlist_module_exit_def Let_def kcall_simps split: if_splits)

lemma eth_names:
  "map fst (map (\<lambda>j. (eth_name j, int j)) [0..<10]) =
     [''eth0'', ''eth1'', ''eth2'', ''eth3'', ''eth4'', ''eth5'', ''eth6'', ''eth7'', ''eth8'', ''eth9'']"
  by (simp add: upt_conv_Cons eth_name_def dec_string.simps digit_char_def)

lemma hlist_module_net:
  assumes "ha_heads a \<noteq> NULL" and "ha_devices a \<noteq> NULL" and "10 \<le> length (ha_garbage a)"
    and "hlist_module_init a = (r, g, tr)" and "dev_name_ok s"
  shows "net_lookup (10, hg_net g) s = map_of (map (\<lambda>j. (eth_name j, int j)) [0..<10]) s"
proof -
  have "hg_net g = enter_all 0 (map (\<lambda>j. (eth_name j, int j)) [0..<10]) (empty_net (ha_garbage a))"
    using assms(1,2,4) add_devices_enter_all [of 0 10 "empty_net (ha_garbage a)"]
    by (auto simp: hlist_module_init_def Let_def empty_net_def)
  moreover have "\<forall>k \<in> set (map fst (map (\<lambda>j. (eth_name j, int j)) [0..<10])). dev_name_ok k"
    unfolding eth_names by (simp add: dev_name_ok_def bytes_of_string_def byte_of_char_def)
  moreover have "distinct (map fst (map (\<lambda>j. (eth_name j, int j)) [0..<10]))"
    unfolding eth_names by simp
  ultimately show ?thesis
    using enter_all_lookup(2) [of "map (\<lambda>j. (eth_name j, int j)) [0..<10]" "ha_garbage a" s] assms(3,5) by simp
qed


lemma dev_get_by_name_name:
  assumes "dev_get_by_name net (bytes_of_string s) = Some i" and "dev_name_ok s"
  shows "c_string (nd_name (devices net ! i)) = bytes_of_string s"
proof -
  let ?x = "nd_name (devices net ! i)"
  have "hlist_find devs ps name = Some i \<Longrightarrow> strncmp (nd_name (devs ! i)) name 16 = 0" for devs ps name
    by (induction ps) (auto simp: IFNAMSIZ_def split: if_splits)
  then have x: "c_string (take 16 ?x) = bytes_of_string s"
    using assms by (auto simp: dev_get_by_name_def strncmp_zero_iff dev_name_ok_def)
  then have "length (takeWhile (\<lambda>b. b \<noteq> 0) (take 16 ?x)) < 16"
    using assms(2) by (simp add: c_string_def dev_name_ok_def)
  from takeWhile_take_short [OF this] show ?thesis using x by (simp add: c_string_def)
qed

text \<open>
  The module: whatever memory the kernel gives it, loading prints the device named eth1
  with its number 1 and leaves a table that finds exactly eth0 to eth9, each with its
  number; and any sequence of loads (also refused ones) and unloads gives all memory back.
\<close>

lemma hlist_module_works:
  assumes "ha_heads a \<noteq> NULL" and "ha_devices a \<noteq> NULL" and "10 \<le> length (ha_garbage a)"
    and "hlist_module_init a = (r, g, tr)" and "dev_name_ok s"
  shows "r = 0 \<and> hg_printed g = Some (bytes_of_string ''eth1'', 1) \<and>
     map_option (\<lambda>i. nd_num (devices (hg_net g) ! i)) (dev_get_by_name (hg_net g) (bytes_of_string s)) =
       map_of (map (\<lambda>j. (''eth'' @ dec_string j, int j)) [0..<10]) s \<and>
     kexec {#} (concat (map (load_unload hlist_module_init hlist_module_exit) as)) = Some {#}"
proof (intro conjI)
  show "r = 0" using assms(1,2,4) by (auto simp: hlist_module_init_def Let_def)
  show "map_option (\<lambda>i. nd_num (devices (hg_net g) ! i)) (dev_get_by_name (hg_net g) (bytes_of_string s)) =
      map_of (map (\<lambda>j. (''eth'' @ dec_string j, int j)) [0..<10]) s"
    using hlist_module_net [OF assms] by (simp add: net_lookup_def eth_name_def)
  have e: "dev_name_ok ''eth1''" by (simp add: dev_name_ok_def bytes_of_string_def byte_of_char_def)
  have "map_of (map (\<lambda>j. (eth_name j, int j)) [0..<10]) ''eth1'' = Some 1"
    by (simp add: upt_conv_Cons eth_name_def dec_string.simps digit_char_def)
  with hlist_module_net [OF assms(1-4) e] obtain i where
    i: "dev_get_by_name (hg_net g) (bytes_of_string ''eth1'') = Some i" "nd_num (devices (hg_net g) ! i) = 1"
    by (auto simp: net_lookup_def)
  have "hg_printed g = (case dev_get_by_name (hg_net g) (bytes_of_string ''eth1'') of None \<Rightarrow> None
      | Some i \<Rightarrow> Some (c_string (nd_name (devices (hg_net g) ! i)), nd_num (devices (hg_net g) ! i)))"
    using assms(1,2,4) by (auto simp: hlist_module_init_def Let_def cong: option.case_cong)
  then show "hg_printed g = Some (bytes_of_string ''eth1'', 1)"
    using i dev_get_by_name_name [OF i(1) e] by simp
  show "kexec {#} (concat (map (load_unload hlist_module_init hlist_module_exit) as)) = Some {#}"
    by (rule hlist_mod.load_attempts) simp
qed

definition demo_hlist :: hlist_answers where
  "demo_hlist = \<lparr>ha_heads = 4, ha_devices = 8, ha_garbage = replicate 10 \<lparr>nd_name = [1, 2, 3], nd_num = 99\<rparr>\<rparr>"

lemma hlist_module_works_witness:
  "fst (hlist_module_init demo_hlist) = 0 \<and>
   hg_printed (fst (snd (hlist_module_init demo_hlist))) = Some (bytes_of_string ''eth1'', 1) \<and>
   kexec {#} (concat (map (load_unload hlist_module_init hlist_module_exit)
     [demo_hlist, demo_hlist\<lparr>ha_devices := NULL\<rparr>])) = Some {#}"
proof -
  have "hlist_module_init demo_hlist = (fst (hlist_module_init demo_hlist),
      fst (snd (hlist_module_init demo_hlist)), snd (snd (hlist_module_init demo_hlist)))" by simp
  from hlist_module_works [OF _ _ _ this, of "''lo''" "[demo_hlist, demo_hlist\<lparr>ha_devices := NULL\<rparr>]"]
  show ?thesis
    by (simp add: demo_hlist_def dev_name_ok_def bytes_of_string_def byte_of_char_def)
qed

end
