(* ===== verification/Product_Tree.thy ===== *)
theory Product_Tree
  imports Lookup_Table Module_Lifecycle "HOL-Library.Tree"
begin

text \<open>
  The tree of products, \<^verbatim>\<open>data-struct-labs/rbtree.c\<close>: search, insertion, deletion and clearing of
  a red-black tree ordered by name, and the module that uses it. What the file itself does
  is the descent; linking and rebalancing are the kernel's \<^verbatim>\<open>rb_insert_color\<close> and \<^verbatim>\<open>rb_erase\<close>,
  which are the parameters \<open>insert_color\<close> and \<open>erase\<close>: functions on trees of which only the
  documented effect on the order of the nodes is used (\<open>rb_laws\<close>).

  The loop of \<^verbatim>\<open>rb_tree_add\<close> does not end when it meets a node with the same name, so it is a
  partial function whose value is then \<^term>\<open>None\<close>.
\<close>

section \<open>The operations\<close>

record product =
  p_addr :: ptr
  p_name :: bytes
  p_price :: u32

text \<open>The return values 0 and -1 of the search are \<^term>\<open>Some\<close> with the product, and \<^term>\<open>None\<close>.\<close>

fun rbtree_search_product_by_name :: "bytes \<Rightarrow> product tree \<Rightarrow> product option" where
  "rbtree_search_product_by_name name Leaf = None"
| "rbtree_search_product_by_name name (Node l each r) =
     (let ret = strcmp name (p_name each) in
      if ret < 0 then rbtree_search_product_by_name name l
      else if ret > 0 then rbtree_search_product_by_name name r
      else Some each)"

definition rbtree_del ::
  "(product \<Rightarrow> product tree \<Rightarrow> product tree) \<Rightarrow> bytes \<Rightarrow> product tree \<Rightarrow> int \<times> product tree" where
  "rbtree_del erase name t =
     (case rbtree_search_product_by_name name t of
        None \<Rightarrow> (- 1, t)
      | Some tmp \<Rightarrow> (0, erase tmp t))"

text \<open>
  The descent of \<^verbatim>\<open>rb_tree_add\<close> to the empty link, and \<^verbatim>\<open>rb_link_node\<close> there. With an equal name
  the loop prints and goes round again at the same node.
\<close>

partial_function (option) rb_descend_link :: "product \<Rightarrow> product tree \<Rightarrow> product tree option" where
  "rb_descend_link p t =
     (case t of
        Leaf \<Rightarrow> Some (Node Leaf p Leaf)
      | Node l each r \<Rightarrow>
          (let ret = strcmp (p_name p) (p_name each) in
           if ret < 0 then Option.bind (rb_descend_link p l) (\<lambda>l'. Some (Node l' each r))
           else if ret > 0 then Option.bind (rb_descend_link p r) (\<lambda>r'. Some (Node l each r'))
           else rb_descend_link p t))"

definition rb_tree_add ::
  "(product tree \<Rightarrow> product tree) \<Rightarrow> product option \<Rightarrow> product tree \<Rightarrow> (int \<times> product tree) option" where
  "rb_tree_add insert_color product_data t =
     (case product_data of
        None \<Rightarrow> Some (- EINVAL, t)
      | Some p \<Rightarrow> Option.bind (rb_descend_link p t) (\<lambda>t'. Some (0, insert_color t')))"

text \<open>
  \<^verbatim>\<open>rbtree_postorder_for_each_entry_safe\<close>: the next node in post-order is taken from the tree as
  it is when a node is about to be treated. The loop has fuel; the node it stands at is
  freed, so its address is recorded.
\<close>

fun succ_in :: "'a \<Rightarrow> 'a list \<Rightarrow> 'a option" where
  "succ_in x (a # b # xs) = (if a = x then Some b else succ_in x (b # xs))"
| "succ_in x _ = None"

fun clear_loop ::
  "nat \<Rightarrow> (product \<Rightarrow> product tree \<Rightarrow> product tree) \<Rightarrow> product option \<Rightarrow> product tree \<Rightarrow>
   (product tree \<times> product list) option" where
  "clear_loop fuel erase None t = Some (t, [])"
| "clear_loop 0 erase (Some pos) t = None"
| "clear_loop (Suc fuel) erase (Some pos) t =
     (let n = succ_in pos (postorder t) in
      Option.bind (clear_loop fuel erase n (erase pos t)) (\<lambda>(t', freed). Some (t', pos # freed)))"

definition first_postorder :: "product tree \<Rightarrow> product option" where
  "first_postorder t = (case postorder t of [] \<Rightarrow> None | p # ps \<Rightarrow> Some p)"

definition rbtree_clear ::
  "(product \<Rightarrow> product tree \<Rightarrow> product tree) \<Rightarrow> product tree \<Rightarrow> (product tree \<times> product list) option" where
  "rbtree_clear erase t = clear_loop (size t) erase (first_postorder t) t"

section \<open>The module\<close>

record rbtree_answers =
  ra_p1 :: ptr
  ra_p2 :: ptr

record rbtree_globals =
  rg_tree :: "product tree"
  rg_found :: bool          \<comment> \<open>which line the module printed at the end of its init\<close>

definition jeff :: "ptr \<Rightarrow> product" where
  "jeff p = \<lparr>p_addr = p, p_name = bytes_of_string ''jeff'', p_price = 23\<rparr>"

definition one :: "ptr \<Rightarrow> product" where
  "one p = \<lparr>p_addr = p, p_name = bytes_of_string ''one'', p_price = 24\<rparr>"

text \<open>\<^term>\<open>None\<close> when one of the additions does not return.\<close>

definition rbtree_init ::
  "(product tree \<Rightarrow> product tree) \<Rightarrow> (product \<Rightarrow> product tree \<Rightarrow> product tree) \<Rightarrow> rbtree_answers \<Rightarrow>
   rbtree_globals loaded option" where
  "rbtree_init insert_color erase a =
     (let p1 = ra_p1 a; p2 = ra_p2 a; g = \<lparr>rg_tree = Leaf, rg_found = False\<rparr> in
      if p1 = NULL then Some (- ENOMEM, g, [Kmalloc p1])
      else if p2 = NULL then Some (- ENOMEM, g, [Kmalloc p1, Kmalloc p2, Kfree p1])
      else
        Option.bind (rb_tree_add insert_color (Some (jeff p1)) Leaf) (\<lambda>(r1, t1).
        Option.bind (rb_tree_add insert_color (Some (one p2)) t1) (\<lambda>(r2, t2).
          let t3 = snd (rbtree_del erase (bytes_of_string ''one'') t2) in
          Some (0, \<lparr>rg_tree = t3,
                    rg_found = (rbtree_search_product_by_name (bytes_of_string ''one'') t3 \<noteq> None)\<rparr>,
                [Kmalloc p1, Kmalloc p2]))))"

definition rbtree_exit :: "(product \<Rightarrow> product tree \<Rightarrow> product tree) \<Rightarrow> rbtree_globals \<Rightarrow> kcall list option" where
  "rbtree_exit erase g =
     Option.bind (rbtree_clear erase (rg_tree g)) (\<lambda>(t, freed). Some (map (\<lambda>p. Kfree (p_addr p)) freed))"

section \<open>What is used of the kernel's rebalancing\<close>

text \<open>Rebalancing keeps the order of the nodes; erasing takes one node out of it.\<close>

definition rb_laws ::
  "('a tree \<Rightarrow> 'a tree) \<Rightarrow> ('a \<Rightarrow> 'a tree \<Rightarrow> 'a tree) \<Rightarrow> bool" where
  "rb_laws insert_color erase \<longleftrightarrow>
     (\<forall>t. inorder (insert_color t) = inorder t) \<and>
     (\<forall>p t. p \<in> set (inorder t) \<longrightarrow> distinct (inorder t) \<longrightarrow> inorder (erase p t) = removeAll p (inorder t))"

lemma rb_lawsD:
  assumes "rb_laws ic er"
  shows "inorder (ic t) = inorder t"
    and "p \<in> set (inorder t) \<Longrightarrow> distinct (inorder t) \<Longrightarrow> inorder (er p t) = removeAll p (inorder t)"
  using assms by (simp_all add: rb_laws_def)

section \<open>The invariant\<close>

definition names :: "product tree \<Rightarrow> bytes list" where
  "names t = map p_name (inorder t)"

definition tree_inv :: "product tree \<Rightarrow> bool" where
  "tree_inv t \<longleftrightarrow> sorted_wrt (<) (names t) \<and> (\<forall>n \<in> set (names t). plain n)"

lemma tree_inv_Node:
  "tree_inv (Node l x r) \<longleftrightarrow> tree_inv l \<and> tree_inv r \<and> plain (p_name x) \<and>
     (\<forall>n \<in> set (names l). n < p_name x) \<and> (\<forall>n \<in> set (names r). p_name x < n)"
  by (auto simp: tree_inv_def names_def sorted_wrt_append) (meson less_trans)

lemma tree_inv_inorder: "inorder t = inorder t' \<Longrightarrow> tree_inv t \<longleftrightarrow> tree_inv t'"
  by (simp add: tree_inv_def names_def)

lemma tree_inv_distinct: "tree_inv t \<Longrightarrow> distinct (names t) \<and> distinct (inorder t)"
  by (auto simp: tree_inv_def names_def strict_sorted_iff distinct_map)

text \<open>The table a tree stands for: its nodes by name.\<close>

definition by_name :: "product list \<Rightarrow> bytes \<Rightarrow> product option" where
  "by_name ps = map_of (map (\<lambda>p. (p_name p, p)) ps)"

lemma by_name_simps [simp]:
  "by_name [] k = None"
  "by_name (p # ps) k = (if k = p_name p then Some p else by_name ps k)"
  "by_name (ps @ qs) k = (case by_name ps k of None \<Rightarrow> by_name qs k | Some p \<Rightarrow> Some p)"
  by (auto simp: by_name_def map_add_def split: option.splits)

lemma by_name_None: "by_name ps k = None \<longleftrightarrow> k \<notin> p_name ` set ps"
  by (induction ps) auto

lemma search_by_name:
  assumes "tree_inv t" and "plain k"
  shows "rbtree_search_product_by_name k t = by_name (inorder t) k"
  using assms(1)
proof (induction t)
  case (Node l x r)
  then have i: "tree_inv l" "tree_inv r" "plain (p_name x)"
    and l: "\<And>n. n \<in> p_name ` set (inorder l) \<Longrightarrow> n < p_name x"
    and r: "\<And>n. n \<in> p_name ` set (inorder r) \<Longrightarrow> p_name x < n"
    by (auto simp: tree_inv_Node names_def)
  note c = strcmp_cases [OF assms(2) i(3)]
  consider "k < p_name x" | "k = p_name x" | "p_name x < k" by fastforce
  then show ?case
  proof cases
    case 1
    then have "by_name (inorder r) k = None" using r by (fastforce simp: by_name_None)
    with 1 c Node.IH(1) [OF i(1)] show ?thesis by (auto simp: Let_def split: option.splits)
  next
    case 2
    then have "by_name (inorder l) k = None" using l by (fastforce simp: by_name_None)
    with 2 c show ?thesis by (auto simp: Let_def)
  next
    case 3
    then have "by_name (inorder l) k = None" using l by (fastforce simp: by_name_None)
    with 3 c Node.IH(2) [OF i(2)] show ?thesis by (auto simp: Let_def)
  qed
qed simp


section \<open>Insertion\<close>

text \<open>With a new name the descent ends, and the product lands in its place.\<close>

lemma rb_descend_link_new:
  assumes "tree_inv t" and "plain (p_name p)" and "p_name p \<notin> set (names t)"
  shows "\<exists>t' as bs. rb_descend_link p t = Some t' \<and> inorder t = as @ bs \<and> inorder t' = as @ p # bs \<and>
     (\<forall>a \<in> set as. p_name a < p_name p) \<and> (\<forall>b \<in> set bs. p_name p < p_name b)"
  using assms(1,3)
proof (induction t)
  case Leaf
  then show ?case by (subst rb_descend_link.simps) simp
next
  case (Node l x r)
  from Node.prems(1) have i: "tree_inv l" "tree_inv r" "plain (p_name x)"
    and o: "\<forall>q \<in> set (inorder l). p_name q < p_name x" "\<forall>q \<in> set (inorder r). p_name x < p_name q"
    by (auto simp: tree_inv_Node names_def)
  note c = strcmp_cases [OF assms(2) i(3)]
  have "p_name p \<noteq> p_name x" "p_name p \<notin> set (names l)" "p_name p \<notin> set (names r)"
    using Node.prems(2) by (auto simp: names_def)
  then consider "p_name p < p_name x" | "p_name x < p_name p" by fastforce
  then show ?case
  proof cases
    case 1
    obtain l' as bs where l': "rb_descend_link p l = Some l'" "inorder l = as @ bs" "inorder l' = as @ p # bs"
        "\<forall>a \<in> set as. p_name a < p_name p" "\<forall>b \<in> set bs. p_name p < p_name b"
      using Node.IH(1) [OF i(1) \<open>p_name p \<notin> set (names l)\<close>] by blast
    have "rb_descend_link p (Node l x r) = Some (Node l' x r)"
      using 1 c l'(1) by (subst rb_descend_link.simps) simp
    moreover have "\<forall>b \<in> set (bs @ x # inorder r). p_name p < p_name b"
      using 1 l'(5) o(2) by (auto dest: less_trans)
    ultimately show ?thesis
      using l' by (intro exI [of _ "Node l' x r"] exI [of _ as] exI [of _ "bs @ x # inorder r"]) simp
  next
    case 2
    obtain r' as bs where r': "rb_descend_link p r = Some r'" "inorder r = as @ bs" "inorder r' = as @ p # bs"
        "\<forall>a \<in> set as. p_name a < p_name p" "\<forall>b \<in> set bs. p_name p < p_name b"
      using Node.IH(2) [OF i(2) \<open>p_name p \<notin> set (names r)\<close>] by blast
    have "rb_descend_link p (Node l x r) = Some (Node l x r')"
      using 2 c r'(1) by (subst rb_descend_link.simps) (simp add: less_not_sym)
    moreover have "\<forall>a \<in> set (inorder l @ x # as). p_name a < p_name p"
      using 2 r'(4) o(1) by (auto dest: less_trans)
    ultimately show ?thesis
      using r' by (intro exI [of _ "Node l x r'"] exI [of _ "inorder l @ x # as"] exI [of _ bs]) simp
  qed
qed

text \<open>With a name that is there already it never ends.\<close>

lemma rb_descend_link_Some:
  "rb_descend_link p t = Some t' \<Longrightarrow> tree_inv t \<Longrightarrow> plain (p_name p) \<Longrightarrow> p_name p \<notin> set (names t)"
proof (induction rule: rb_descend_link.raw_induct [rotated 1, consumes 1])
  case (1 f p t t')
  note IH = 1(1) and body = 1(2) and inv = 1(3) and pl = 1(4)
  show ?case
  proof (cases t)
    case (Node l x r)
    then have i: "tree_inv l" "tree_inv r" "plain (p_name x)" "\<forall>n \<in> set (names l). n < p_name x"
        "\<forall>n \<in> set (names r). p_name x < n"
      using inv by (simp_all add: tree_inv_Node)
    note c = strcmp_cases [OF pl i(3)]
    have n: "set (names t) = insert (p_name x) (set (names l) \<union> set (names r))"
      using Node by (auto simp: names_def)
    consider "p_name p < p_name x" | "p_name p = p_name x" | "p_name x < p_name p" by fastforce
    then show ?thesis
    proof cases
      case 1
      with body Node c obtain l' where "f p l = Some l'" by (auto simp: bind_eq_Some_conv)
      then have "p_name p \<notin> set (names l)" using IH i(1) pl by blast
      then show ?thesis using 1 n i(5) by fastforce
    next
      case 2
      then have "f p t = Some t'" using body c Node by simp
      then show ?thesis using IH inv pl by blast
    next
      case 3
      with body Node c obtain r' where "f p r = Some r'" by (auto simp: bind_eq_Some_conv)
      then have "p_name p \<notin> set (names r)" using IH i(2) pl by blast
      then show ?thesis using 3 n i(4) by fastforce
    qed
  qed (simp add: names_def)
qed

lemma rb_tree_add_new:
  assumes "rb_laws ic er" and "tree_inv t" and "plain (p_name p)" and "p_name p \<notin> set (names t)"
  shows "\<exists>t'. rb_tree_add ic (Some p) t = Some (0, t') \<and> tree_inv t' \<and>
     mset (inorder t') = add_mset p (mset (inorder t)) \<and>
     (\<forall>k. by_name (inorder t') k = (if k = p_name p then Some p else by_name (inorder t) k))"
proof -
  from rb_descend_link_new [OF assms(2-4)] obtain u as bs where
    u: "rb_descend_link p t = Some u" "inorder t = as @ bs" "inorder u = as @ p # bs"
       "\<forall>a \<in> set as. p_name a < p_name p" "\<forall>b \<in> set bs. p_name p < p_name b"
    by blast
  have o: "inorder (ic u) = as @ p # bs" using rb_lawsD(1) [OF assms(1)] u(3) by simp
  have inv: "tree_inv (ic u)"
    using assms(2,3) u o by (auto simp: tree_inv_def names_def sorted_wrt_append)
  have "by_name as (p_name p) = None" using u(4) by (auto simp: by_name_None)
  then have "by_name (inorder (ic u)) k = (if k = p_name p then Some p else by_name (inorder t) k)" for k
    using o u(2) by (auto split: option.splits)
  then show ?thesis
    using u(1,2) o inv by (simp add: rb_tree_add_def)
qed

section \<open>Deletion\<close>

lemma by_name_removeAll:
  assumes "distinct (map p_name ps)" and "p \<in> set ps"
  shows "by_name (removeAll p ps) k = (if k = p_name p then None else by_name ps k)"
proof -
  have "k \<noteq> p_name p \<Longrightarrow> by_name (removeAll p ps) k = by_name ps k"
    by (induction ps) auto
  moreover have "by_name (removeAll p ps) (p_name p) = None"
    using assms by (auto simp: by_name_None distinct_map inj_on_def)
  ultimately show ?thesis by simp
qed

lemma by_name_Some: "by_name ps k = Some p \<Longrightarrow> p \<in> set ps \<and> p_name p = k"
  by (induction ps) (auto split: if_splits)

lemma rbtree_del_found:
  assumes "rb_laws ic er" and "tree_inv t" and "plain k" and "by_name (inorder t) k = Some p"
  shows "\<exists>t'. rbtree_del er k t = (0, t') \<and> tree_inv t' \<and> inorder t' = removeAll p (inorder t) \<and>
     (\<forall>k'. by_name (inorder t') k' = (if k' = k then None else by_name (inorder t) k'))"
proof -
  have p: "p \<in> set (inorder t)" "p_name p = k" using by_name_Some [OF assms(4)] by auto
  have d: "distinct (inorder t)" "distinct (map p_name (inorder t))"
    using tree_inv_distinct [OF assms(2)] by (simp_all add: names_def)
  have o: "inorder (er p t) = removeAll p (inorder t)" using rb_lawsD(2) [OF assms(1) p(1) d(1)] .
  have "sorted_wrt (<) (map p_name (removeAll p (inorder t)))"
    using assms(2) by (simp add: tree_inv_def names_def sorted_wrt_map removeAll_filter_not_eq sorted_wrt_filter)
  then have "tree_inv (er p t)"
    using assms(2) o by (auto simp: tree_inv_def names_def)
  then show ?thesis
    using o by_name_removeAll [OF d(2) p(1)] p(2) search_by_name [OF assms(2,3)] assms(4)
    by (simp add: rbtree_del_def)
qed


section \<open>The tree as a lookup table\<close>

definition product_lookup :: "product tree \<Rightarrow> bytes \<Rightarrow> (ptr \<times> u32) option" where
  "product_lookup t k = map_option (\<lambda>p. (p_addr p, p_price p)) (rbtree_search_product_by_name k t)"

definition product_insert ::
  "(product tree \<Rightarrow> product tree) \<Rightarrow> bytes \<Rightarrow> ptr \<times> u32 \<Rightarrow> product tree \<Rightarrow> product tree option" where
  "product_insert ic k v t =
     map_option snd (rb_tree_add ic (Some \<lparr>p_addr = fst v, p_name = k, p_price = snd v\<rparr>) t)"

definition product_delete ::
  "(product \<Rightarrow> product tree \<Rightarrow> product tree) \<Rightarrow> bytes \<Rightarrow> product tree \<Rightarrow> product tree option" where
  "product_delete er k t = (case rbtree_del er k t of (r, t') \<Rightarrow> if r < 0 then None else Some t')"

lemma product_lookup_None: "tree_inv t \<Longrightarrow> plain k \<Longrightarrow> product_lookup t k = None \<longleftrightarrow> k \<notin> set (names t)"
  by (simp add: product_lookup_def search_by_name by_name_None names_def)

locale rb_library =
  fixes ic :: "product tree \<Rightarrow> product tree"
    and er :: "product \<Rightarrow> product tree \<Rightarrow> product tree"
  assumes laws: "rb_laws ic er"

sublocale rb_library \<subseteq> products: deletable_table product_lookup "product_insert ic" tree_inv
  "\<lambda>t n. True" plain "product_delete er"
proof
  fix t :: "product tree" and n :: nat and k :: bytes and v :: "ptr \<times> u32"
  assume t: "tree_inv t" and k: "plain k" and "product_lookup t k = None"
  then have "k \<notin> set (names t)" by (simp add: product_lookup_None)
  with rb_tree_add_new [OF laws t, of "\<lparr>p_addr = fst v, p_name = k, p_price = snd v\<rparr>"] k obtain t' where
    "rb_tree_add ic (Some \<lparr>p_addr = fst v, p_name = k, p_price = snd v\<rparr>) t = Some (0, t')" "tree_inv t'"
    "\<And>k'. by_name (inorder t') k' =
       (if k' = k then Some \<lparr>p_addr = fst v, p_name = k, p_price = snd v\<rparr> else by_name (inorder t) k')"
    by auto
  then show "\<exists>t'. product_insert ic k v t = Some t' \<and> tree_inv t' \<and> True \<and>
      (\<forall>k'. plain k' \<longrightarrow> product_lookup t' k' = (if k' = k then Some v else product_lookup t k'))"
    using t by (simp add: product_insert_def product_lookup_def search_by_name)
next
  fix t :: "product tree" and k :: bytes
  assume t: "tree_inv t" and k: "plain k" and "product_lookup t k \<noteq> None"
  then obtain p where "by_name (inorder t) k = Some p" by (auto simp: product_lookup_def search_by_name)
  from rbtree_del_found [OF laws t k this]
  show "\<exists>t'. product_delete er k t = Some t' \<and> tree_inv t' \<and>
      (\<forall>k'. plain k' \<longrightarrow> product_lookup t' k' = (if k' = k then None else product_lookup t k'))"
    using t by (auto simp: product_delete_def product_lookup_def search_by_name)
qed

text \<open>Adding a list of products, one after the other.\<close>

fun product_add_all ::
  "(product tree \<Rightarrow> product tree) \<Rightarrow> (bytes \<times> (ptr \<times> u32)) list \<Rightarrow> product tree \<Rightarrow> product tree option" where
  "product_add_all ic [] t = Some t"
| "product_add_all ic ((k, v) # kvs) t = Option.bind (product_insert ic k v t) (product_add_all ic kvs)"

context rb_library
begin

lemma product_add_all_insert_all: "product_add_all ic kvs t = products.insert_all kvs t"
  by (induction kvs arbitrary: t) (auto split: option.splits)

lemma table_of_list:
  assumes "distinct (map fst kvs)" and "\<forall>n \<in> set (map fst kvs). plain n"
  shows "\<exists>t. product_add_all ic kvs Leaf = Some t \<and> tree_inv t \<and>
     (\<forall>k. plain k \<longrightarrow> product_lookup t k = map_of kvs k)"
proof -
  have "product_lookup Leaf = (\<lambda>k. None)" "tree_inv Leaf"
    by (simp_all add: product_lookup_def tree_inv_def names_def fun_eq_iff)
  then show ?thesis
    using products.lookup_fill [of Leaf kvs] assms by (simp add: product_add_all_insert_all)
qed

lemma delete_one:
  assumes "tree_inv t" and "plain d" and "product_lookup t d \<noteq> None"
  shows "\<exists>t'. rbtree_del er d t = (0, t') \<and> tree_inv t' \<and>
     (\<forall>k. plain k \<longrightarrow> product_lookup t' k = (if k = d then None else product_lookup t k))"
proof -
  from products.delete_law [OF assms] obtain t' where
    "product_delete er d t = Some t'" "tree_inv t'"
    "\<And>k. plain k \<Longrightarrow> product_lookup t' k = (if k = d then None else product_lookup t k)"
    by blast
  moreover from this(1) have "rbtree_del er d t = (0, t')"
    by (auto simp: product_delete_def rbtree_del_def split: option.splits)
  ultimately show ?thesis by auto
qed

end

text \<open>
  An instance of the laws: no rebalancing, and erasing by putting the left subtree under the
  leftmost node of the right one.
\<close>

fun hang_left :: "'a tree \<Rightarrow> 'a tree \<Rightarrow> 'a tree" where
  "hang_left l Leaf = l"
| "hang_left l (Node l' x r) = Node (hang_left l l') x r"

fun plain_erase :: "'a \<Rightarrow> 'a tree \<Rightarrow> 'a tree" where
  "plain_erase p Leaf = Leaf"
| "plain_erase p (Node l x r) =
     (if x = p then hang_left l r else Node (plain_erase p l) x (plain_erase p r))"

lemma inorder_hang_left: "inorder (hang_left l r) = inorder l @ inorder r"
  by (induction r) simp_all

lemma inorder_plain_erase: "distinct (inorder t) \<Longrightarrow> inorder (plain_erase p t) = removeAll p (inorder t)"
  by (induction t) (auto simp: inorder_hang_left)

lemma plain_rb_laws: "rb_laws id plain_erase"
  by (simp add: rb_laws_def inorder_plain_erase)

interpretation plain_rb: rb_library id plain_erase
  by unfold_locales (rule plain_rb_laws)

section \<open>Clearing the tree\<close>

lemma succ_in_Some:
  "succ_in x xs = Some y \<Longrightarrow> distinct xs \<Longrightarrow> y \<in> set xs \<and> y \<noteq> x"
  by (induction x xs rule: succ_in.induct) (auto split: if_splits)

lemma distinct_postorder: "distinct (inorder t) \<Longrightarrow> distinct (postorder t)"
  by (induction t) auto

lemma clear_loop_frees:
  assumes "rb_laws ic er" and "distinct (inorder t)" and "length (inorder t) \<le> fuel"
    and "\<And>q. pos = Some q \<Longrightarrow> q \<in> set (inorder t)"
  shows "\<exists>t' freed. clear_loop fuel er pos t = Some (t', freed) \<and> distinct (freed @ inorder t') \<and>
     set (freed @ inorder t') = set (inorder t)"
  using assms(2-4)
proof (induction fuel arbitrary: pos t)
  case 0
  then show ?case by (cases pos) auto
next
  case (Suc fuel)
  show ?case
  proof (cases pos)
    case (Some q)
    then have q: "q \<in> set (inorder t)" using Suc.prems(3) by simp
    have o: "inorder (er q t) = removeAll q (inorder t)" using rb_lawsD(2) [OF assms(1) q Suc.prems(1)] .
    have "distinct (postorder t)" using Suc.prems(1) by (rule distinct_postorder)
    then have n: "succ_in q (postorder t) = Some y \<Longrightarrow> y \<in> set (inorder (er q t))" for y
      using succ_in_Some [of q "postorder t" y] o by auto
    have l: "length (inorder (er q t)) \<le> fuel"
      using Suc.prems(1,2) q o by (simp add: distinct_remove1_removeAll [symmetric] length_remove1)
    have "distinct (inorder (er q t))" using Suc.prems(1) o by (simp add: distinct_removeAll)
    from Suc.IH [OF this l n, of "succ_in q (postorder t)"] obtain t' freed where
      "clear_loop fuel er (succ_in q (postorder t)) (er q t) = Some (t', freed)"
      "distinct (freed @ inorder t')" "set (freed @ inorder t') = set (inorder t) - {q}"
      using o by auto
    then show ?thesis using Some q by auto
  qed (use Suc.prems in simp)
qed

lemma rbtree_clear_frees:
  assumes "rb_laws ic er" and "distinct (inorder t)"
  shows "\<exists>t' freed. rbtree_clear er t = Some (t', freed) \<and> distinct (freed @ inorder t') \<and>
     set (freed @ inorder t') = set (inorder t)"
  unfolding rbtree_clear_def
proof (rule clear_loop_frees [OF assms])
  fix q assume "first_postorder t = Some q"
  then have "q \<in> set (postorder t)"
    by (auto simp: first_postorder_def split: list.splits simp del: set_postorder)
  then show "q \<in> set (inorder t)" by simp
qed simp

section \<open>What the operations guarantee\<close>

text \<open>
  C7. The tree is a table by name, whatever rotations the kernel makes: after products with
  different names have been added to an empty tree, the search finds each of them with its
  address and price and no other name; deleting one of them makes that one name disappear;
  and the tree stays ordered.
\<close>

theorem rbtree_is_a_table:
  assumes "rb_laws insert_color erase" and "distinct (map fst kvs)"
    and "\<forall>n \<in> set (map fst kvs). plain n" and "plain k" and "d \<in> set (map fst kvs)"
  shows "\<exists>t t'. product_add_all insert_color kvs Leaf = Some t \<and> tree_inv t \<and>
     product_lookup t k = map_of kvs k \<and>
     rbtree_del erase d t = (0, t') \<and> tree_inv t' \<and>
     product_lookup t' k = (if k = d then None else map_of kvs k)"
proof -
  have lib: "rb_library insert_color erase" using assms(1) by unfold_locales
  from rb_library.table_of_list [OF lib assms(2,3)] obtain t where
    t: "product_add_all insert_color kvs Leaf = Some t" "tree_inv t"
       "\<And>k. plain k \<Longrightarrow> product_lookup t k = map_of kvs k"
    by blast
  have "map_of kvs d \<noteq> None" using assms(5) by (simp add: map_of_eq_None_iff)
  with assms(3,5) t(3) have d: "plain d" "product_lookup t d \<noteq> None" by metis+
  from rb_library.delete_one [OF lib t(2) d] t assms(4) show ?thesis by auto
qed

text \<open>
  C20. Adding a product returns exactly when its name is new: with a name that is in the tree
  the loop never ends (it prints, and looks at the same node again).
\<close>

theorem rb_tree_add_returns_iff:
  assumes "tree_inv t" and "plain (p_name p)"
  shows "rb_tree_add insert_color (Some p) t = None \<longleftrightarrow>
         rbtree_search_product_by_name (p_name p) t \<noteq> None"
proof -
  have s: "rbtree_search_product_by_name (p_name p) t \<noteq> None \<longleftrightarrow> p_name p \<in> set (names t)"
    using assms by (simp add: search_by_name by_name_None names_def)
  show ?thesis
  proof (cases "p_name p \<in> set (names t)")
    case True
    then have "rb_descend_link p t = None" using rb_descend_link_Some [OF _ assms] by (cases "rb_descend_link p t") auto
    then show ?thesis using s True by (simp add: rb_tree_add_def)
  next
    case False
    then show ?thesis using s rb_descend_link_new [OF assms False] by (auto simp: rb_tree_add_def)
  qed
qed

text \<open>
  Clearing ends and frees no node twice: every node is either freed once or still in the
  tree, for every way the kernel rebalances. It frees everything when the tree has at most
  one node, as it has in the module.
\<close>

lemma rbtree_clear_frees_once:
  assumes "rb_laws insert_color erase" and "tree_inv t"
  shows "\<exists>t' freed. rbtree_clear erase t = Some (t', freed) \<and> distinct (freed @ inorder t') \<and>
     set (freed @ inorder t') = set (inorder t) \<and> (size t \<le> 1 \<longrightarrow> t' = Leaf)"
proof -
  have d: "distinct (inorder t)" using tree_inv_distinct [OF assms(2)] by simp
  from rbtree_clear_frees [OF assms(1) d] obtain t' freed where
    c: "rbtree_clear erase t = Some (t', freed)" "distinct (freed @ inorder t')"
       "set (freed @ inorder t') = set (inorder t)"
    by blast
  have "t' = Leaf" if "size t \<le> 1"
  proof (cases t)
    case Leaf
    then show ?thesis using c(3) by (cases t') auto
  next
    case (Node l x r)
    with that have t: "t = Node Leaf x Leaf" by (auto simp: eq_size_0)
    have "freed = x # tl freed" using c(1) t
      by (auto simp: rbtree_clear_def first_postorder_def bind_eq_Some_conv)
    then have "x \<notin> set (inorder t')" using c(2) by (metis Un_iff disjoint_iff distinct_append list.set_intros(1))
    then show ?thesis using c(3) t by (cases t') auto
  qed
  then show ?thesis using c by blast
qed


text \<open>
  Clearing may miss nodes: the loop erases from the tree it walks, and with a kernel that
  moves nodes when it rebalances (within its contract) a node can end up behind the walk and
  is never freed.
\<close>

lemma rbtree_clear_may_miss:
  "\<exists>insert_color erase t t' freed. rb_laws insert_color erase \<and> tree_inv t \<and>
     rbtree_clear erase t = Some (t', freed) \<and> t' \<noteq> Leaf"
proof -
  define spine :: "product list \<Rightarrow> product tree" where
    "spine = rec_list Leaf (\<lambda>p ps t. Node t p Leaf)"
  define er where "er p t = spine (rev (removeAll p (inorder t)))" for p t
  have "inorder (spine ps) = rev ps" for ps
    by (induction ps) (simp_all add: spine_def)
  then have l: "rb_laws id er" by (simp add: rb_laws_def er_def)
  define mk where "mk c = \<lparr>p_addr = unat c, p_name = [c], p_price = 0\<rparr>" for c :: u8
  let ?t = "Node (Node Leaf (mk 1) Leaf) (mk 2) (Node Leaf (mk 3) Leaf)"
  have "tree_inv ?t" by (simp add: tree_inv_def names_def mk_def)
  moreover have "rbtree_clear er ?t = Some (Node Leaf (mk 2) Leaf, [mk 1, mk 3])"
    by (simp add: rbtree_clear_def first_postorder_def er_def spine_def mk_def eval_nat_numeral)
  ultimately show ?thesis using l by blast
qed

text \<open>
  The module: with both allocations granted it finds that the deleted product is gone,
  and it keeps the first product only. Unloading frees that one; the deleted product was
  never freed, so its memory is lost.
\<close>

lemma rbtree_module_leaks_deleted:
  assumes "rb_laws insert_color erase" and "p1 \<noteq> NULL" and "p2 \<noteq> NULL" and "p1 \<noteq> p2"
  shows "\<exists>g tr ex. rbtree_init insert_color erase \<lparr>ra_p1 = p1, ra_p2 = p2\<rparr> = Some (0, g, tr) \<and>
     \<not> rg_found g \<and> inorder (rg_tree g) = [jeff p1] \<and>
     rbtree_exit erase g = Some ex \<and> kexec {#} (tr @ ex) = Some {#RMem p2#}"
proof -
  have pl: "plain (bytes_of_string ''jeff'')" "plain (bytes_of_string ''one'')"
    by (simp_all add: bytes_of_string_def byte_of_char_def)
  have ne: "bytes_of_string ''one'' \<noteq> bytes_of_string ''jeff''" by (simp add: bytes_of_string_inj)
  have l: "tree_inv Leaf" by (simp add: tree_inv_def names_def)
  obtain t1 where t1: "rb_tree_add insert_color (Some (jeff p1)) Leaf = Some (0, t1)" "tree_inv t1"
      "mset (inorder t1) = {#jeff p1#}"
    using rb_tree_add_new [OF assms(1) l, of "jeff p1"] pl by (auto simp: jeff_def names_def)
  have i1: "inorder t1 = [jeff p1]" using t1(3) by simp
  obtain t2 where t2: "rb_tree_add insert_color (Some (one p2)) t1 = Some (0, t2)" "tree_inv t2"
      "mset (inorder t2) = {#one p2, jeff p1#}" "by_name (inorder t2) (bytes_of_string ''one'') = Some (one p2)"
    using rb_tree_add_new [OF assms(1) t1(2), of "one p2"] pl ne i1 by (auto simp: one_def jeff_def names_def)
  obtain t3 where t3: "rbtree_del erase (bytes_of_string ''one'') t2 = (0, t3)" "tree_inv t3"
      "inorder t3 = removeAll (one p2) (inorder t2)" "by_name (inorder t3) (bytes_of_string ''one'') = None"
    using rbtree_del_found [OF assms(1) t2(2) pl(2) t2(4)] by auto
  have "mset (inorder t3) = {#jeff p1#}"
    using t2(3) t3(3) ne by (auto simp: jeff_def one_def removeAll_filter_not_eq)
  then have i3: "inorder t3 = [jeff p1]" by simp
  let ?g = "\<lparr>rg_tree = t3, rg_found = False\<rparr>"
  have g: "rbtree_init insert_color erase \<lparr>ra_p1 = p1, ra_p2 = p2\<rparr> = Some (0, ?g, [Kmalloc p1, Kmalloc p2])"
    using assms(2,3) t1(1) t2(1) t3(1,4) search_by_name [OF t3(2) pl(2)] by (simp add: rbtree_init_def Let_def)
  from i3 have leaf: "t3 = Node Leaf (jeff p1) Leaf" by (cases t3) (auto simp: append_eq_Cons_conv)
  then have "rbtree_exit erase ?g = Some [Kfree p1]"
    by (simp add: rbtree_exit_def rbtree_clear_def first_postorder_def jeff_def)
  then show ?thesis
    using g i3 assms(2-4) by (auto simp: kcall_simps)
qed


section \<open>Witnesses\<close>

definition demo_tree :: "product tree" where
  "demo_tree = Node Leaf (jeff 5) Leaf"

lemma demo_tree_inv: "tree_inv demo_tree"
  by (simp add: demo_tree_def tree_inv_def names_def jeff_def bytes_of_string_def byte_of_char_def)

theorem rbtree_is_a_table_witness:
  "\<exists>t t'. product_add_all id [([2], (10, 1)), ([1], (20, 2)), ([3], (30, 3))] Leaf = Some t \<and>
     product_lookup t [1] = Some (20, 2) \<and>
     rbtree_del plain_erase [2] t = (0, t') \<and> product_lookup t' [1] = Some (20, 2)"
  using rbtree_is_a_table [OF plain_rb_laws, of "[([2], (10, 1)), ([1], (20, 2)), ([3], (30, 3))]" "[1]" "[2]"]
  by (auto simp del: product_add_all.simps)

theorem rb_tree_add_returns_iff_witness:
  "rb_tree_add id (Some (jeff 9)) demo_tree = None"
  using rb_tree_add_returns_iff [OF demo_tree_inv, of "jeff 9" id]
  by (simp add: demo_tree_def jeff_def bytes_of_string_def byte_of_char_def hd0_def)

lemma rbtree_clear_frees_once_witness:
  "\<exists>freed. rbtree_clear plain_erase demo_tree = Some (Leaf, freed) \<and> set freed = {jeff 5}"
  using rbtree_clear_frees_once [OF plain_rb_laws demo_tree_inv]
  by (auto simp: demo_tree_def)

lemma rbtree_module_leaks_deleted_witness:
  "\<exists>g tr ex. rbtree_init id plain_erase \<lparr>ra_p1 = 4, ra_p2 = 8\<rparr> = Some (0, g, tr) \<and>
     rbtree_exit plain_erase g = Some ex \<and> kexec {#} (tr @ ex) = Some {#RMem 8#}"
  using rbtree_module_leaks_deleted [OF plain_rb_laws, of 4 8] by auto

end
