(* ===== verification/Bottom_Half.thy ===== *)
theory Bottom_Half
  imports Module_Lifecycle
begin

text \<open>
  The interrupt labs, \<^verbatim>\<open>interrupt-labs/\<close>: four ways to defer the work of an interrupt handler,
  a tasklet (\<^verbatim>\<open>interrupt_tasklet.c\<close>), a work item (\<^verbatim>\<open>interrupt_workqueue.c\<close>), a kernel thread
  woken by a condition (\<^verbatim>\<open>interrupt_add_thread.c\<close>) and a threaded interrupt
  (\<^verbatim>\<open>interrupt_thread.c\<close>). Each counts the interrupts (\<^verbatim>\<open>counter_th\<close>) and the runs of its
  bottom half (\<^verbatim>\<open>counter_bh\<close>) in 32-bit atomics. Interrupts come at any moment, so each lab is
  a state machine: an event is an interrupt, or a step of the deferred work.

  The locale \<open>deferred_work\<close> is the promise of deferring: a bottom half runs at most once
  for an interrupt. The first three labs are interpretations. The threaded interrupt is
  not: it runs with nothing to do and then counts down from zero.
\<close>

section \<open>Events, and the promise of deferred work\<close>

text \<open>An interrupt at a time (\<^verbatim>\<open>jiffies\<close>), a step of the deferred work, \<^verbatim>\<open>kthread_stop\<close>.\<close>

datatype irq_event = Irq u64 | Bottom | Stop

fun run_events :: "(irq_event \<Rightarrow> 's \<Rightarrow> 's option) \<Rightarrow> irq_event list \<Rightarrow> 's \<Rightarrow> 's option" where
  "run_events exec [] s = Some s"
| "run_events exec (e # es) s = (case exec e s of None \<Rightarrow> None | Some s' \<Rightarrow> run_events exec es s')"

definition is_irq :: "irq_event \<Rightarrow> bool" where
  "is_irq e = (case e of Irq j \<Rightarrow> True | _ \<Rightarrow> False)"

definition irqs :: "irq_event list \<Rightarrow> nat" where
  "irqs es = length (filter is_irq es)"

lemma irqs_simps [simp]: "irqs [] = 0" "irqs (e # es) = (if is_irq e then 1 else 0) + irqs es"
  by (simp_all add: irqs_def)

lemma run_events_append:
  "run_events exec (es @ fs) s = (case run_events exec es s of None \<Rightarrow> None | Some s' \<Rightarrow> run_events exec fs s')"
  by (induction es arbitrary: s) (auto split: option.splits)

text \<open>\<open>credit s\<close> is how often the bottom half may still run without another interrupt.\<close>

locale deferred_work =
  fixes exec :: "irq_event \<Rightarrow> 's \<Rightarrow> 's option"
    and th :: "'s \<Rightarrow> u32"
    and bh :: "'s \<Rightarrow> u32"
    and credit :: "'s \<Rightarrow> nat"
  assumes irq_law: "exec (Irq j) s = Some s' \<Longrightarrow> th s' = th s + 1 \<and> bh s' = bh s \<and> credit s' \<le> credit s + 1"
    and work_law: "exec e s = Some s' \<Longrightarrow> \<not> is_irq e \<Longrightarrow> th s' = th s \<and>
      (bh s' = bh s \<and> credit s' \<le> credit s \<or> bh s' = bh s + 1 \<and> credit s' + 1 \<le> credit s)"
begin

text \<open>The counters of every run, and that no interrupt is served twice.\<close>

lemma at_most_once:
  assumes "run_events exec es s = Some s'"
  shows "th s' = th s + of_nat (irqs es) \<and>
     (\<exists>k. bh s' = bh s + of_nat k \<and> k + credit s' \<le> credit s + irqs es)"
  using assms
proof (induction es arbitrary: s)
  case Nil
  then show ?case by (auto intro: exI [of _ 0])
next
  case (Cons e es)
  from Cons.prems obtain s1 where s1: "exec e s = Some s1" "run_events exec es s1 = Some s'"
    by (auto split: option.splits)
  from Cons.IH [OF s1(2)] obtain k where
    k: "th s' = th s1 + of_nat (irqs es)" "bh s' = bh s1 + of_nat k" "k + credit s' \<le> credit s1 + irqs es"
    by blast
  show ?case
  proof (cases "is_irq e")
    case True
    then obtain j where "e = Irq j" by (auto simp: is_irq_def split: irq_event.splits)
    with irq_law s1(1) have "th s1 = th s + 1" "bh s1 = bh s" "credit s1 \<le> credit s + 1" by auto
    with k True show ?thesis by (auto intro!: exI [of _ k])
  next
    case False
    from work_law [OF s1(1) this] have "th s1 = th s" and
      c: "bh s1 = bh s \<and> credit s1 \<le> credit s \<or> bh s1 = bh s + 1 \<and> credit s1 + 1 \<le> credit s" by auto
    from c show ?thesis
    proof
      assume "bh s1 = bh s \<and> credit s1 \<le> credit s"
      with k False \<open>th s1 = th s\<close> show ?thesis by (auto intro!: exI [of _ k])
    next
      assume "bh s1 = bh s + 1 \<and> credit s1 + 1 \<le> credit s"
      with k False \<open>th s1 = th s\<close> show ?thesis by (auto intro!: exI [of _ "Suc k"])
    qed
  qed
qed

end

section \<open>Tasklet and work item\<close>

record bh_state =
  counter_th :: u32
  counter_bh :: u32
  dat_jiffies :: u64         \<comment> \<open>\<^verbatim>\<open>my_data.jiffies\<close>\<close>
  pending :: bool            \<comment> \<open>the tasklet's or work item's pending bit\<close>

text \<open>The interrupt handler; scheduling something that is pending already does nothing.\<close>

definition my_interrupt :: "u64 \<Rightarrow> bh_state \<Rightarrow> bh_state" where
  "my_interrupt now s = s\<lparr>counter_th := counter_th s + 1, dat_jiffies := now, pending := True\<rparr>"

text \<open>The bottom half; the kernel clears the pending bit before it calls it.\<close>

definition t_fun :: "bh_state \<Rightarrow> bh_state" where
  "t_fun s = s\<lparr>counter_bh := counter_bh s + 1\<rparr>"

fun bh_exec :: "irq_event \<Rightarrow> bh_state \<Rightarrow> bh_state option" where
  "bh_exec (Irq now) s = Some (my_interrupt now s)"
| "bh_exec Bottom s = (if pending s then Some (t_fun (s\<lparr>pending := False\<rparr>)) else None)"
| "bh_exec Stop s = None"

text \<open>
  The modules. \<^verbatim>\<open>tasklet_kill\<close> waits until a scheduled tasklet has run; the work item's module
  has no such call. The state an exit leaves is what can still happen after it.
\<close>

definition my_init_bh :: "bh_state" where
  "my_init_bh = \<lparr>counter_th = 0, counter_bh = 0, dat_jiffies = 0, pending = False\<rparr>"

definition tasklet_kill :: "bh_state \<Rightarrow> bh_state" where
  "tasklet_kill s = (if pending s then t_fun (s\<lparr>pending := False\<rparr>) else s)"

record irq_answers =
  ia_irq :: int
  ia_request :: int          \<comment> \<open>\<^verbatim>\<open>request_irq\<close>\<close>
  ia_thread :: ptr           \<comment> \<open>\<^verbatim>\<open>kthread_run\<close>\<close>

definition tasklet_init :: "irq_answers \<Rightarrow> (int \<times> bh_state) loaded" where
  "tasklet_init a =
     (let irq = ia_irq a; tr = [Tasklet_init 1, Request_irq irq (ia_request a)] in
      if ia_request a \<noteq> 0 then (- 1, (irq, my_init_bh), tr) else (0, (irq, my_init_bh), tr))"

definition tasklet_exit :: "int \<times> bh_state \<Rightarrow> kcall list" where
  "tasklet_exit g = [Synchronize_irq (fst g), Free_irq (fst g), Tasklet_kill 1]"

definition work_init :: "irq_answers \<Rightarrow> (int \<times> bh_state) loaded" where
  "work_init a =
     (let irq = ia_irq a; tr = [Request_irq irq (ia_request a)] in
      if ia_request a \<noteq> 0 then (- 1, (irq, my_init_bh), tr) else (0, (irq, my_init_bh), tr))"

definition work_exit :: "int \<times> bh_state \<Rightarrow> kcall list" where
  "work_exit g = [Synchronize_irq (fst g), Free_irq (fst g)]"

interpretation bh: deferred_work bh_exec counter_th counter_bh "\<lambda>s. if pending s then 1 else 0"
proof
  fix e :: irq_event and s s' :: bh_state
  assume "bh_exec e s = Some s'" "\<not> is_irq e"
  then show "counter_th s' = counter_th s \<and>
      (counter_bh s' = counter_bh s \<and> (if pending s' then 1 else 0 :: nat) \<le> (if pending s then 1 else 0) \<or>
       counter_bh s' = counter_bh s + 1 \<and> (if pending s' then 1 else 0) + 1 \<le> (if pending s then 1 else 0 :: nat))"
    by (cases e) (auto simp: is_irq_def t_fun_def split: if_splits)
qed (auto simp: my_interrupt_def)

interpretation tasklet_mod: loadable tasklet_init tasklet_exit "\<lambda>a. True"
  by unfold_locales (auto simp: tasklet_init_def tasklet_exit_def Let_def kcall_simps split: if_splits)

interpretation work_mod: loadable work_init work_exit "\<lambda>a. True"
  by unfold_locales (auto simp: work_init_def work_exit_def Let_def kcall_simps split: if_splits)


section \<open>A kernel thread woken by a condition\<close>

text \<open>Where \<^verbatim>\<open>thr_fun\<close> stands in its loop.\<close>

datatype at_pc =
    AClear        \<comment> \<open>about to clear \<^verbatim>\<open>cond\<close>\<close>
  | AWait         \<comment> \<open>in \<^verbatim>\<open>wait_event_interruptible\<close>\<close>
  | ACount        \<comment> \<open>about to look at \<^verbatim>\<open>cond\<close> and count\<close>
  | ALoop         \<comment> \<open>at the loop's condition\<close>
  | AExit

record at_state =
  at_counter_th :: u32
  at_counter_bh :: u32
  at_jiffies :: u64
  cond :: bool
  should_stop :: bool
  at_pc :: at_pc

definition at_interrupt :: "u64 \<Rightarrow> at_state \<Rightarrow> at_state" where
  "at_interrupt now s = s\<lparr>at_counter_th := at_counter_th s + 1, at_jiffies := now, cond := True\<rparr>"

definition thr_fun :: "at_state \<Rightarrow> at_state option" where
  "thr_fun s = (case at_pc s of
      AClear \<Rightarrow> Some (s\<lparr>cond := False, at_pc := AWait\<rparr>)
    | AWait \<Rightarrow> if should_stop s \<or> cond s then Some (s\<lparr>at_pc := ACount\<rparr>) else None
    | ACount \<Rightarrow> Some (s\<lparr>at_counter_bh := (if cond s then at_counter_bh s + 1 else at_counter_bh s),
                        at_pc := ALoop\<rparr>)
    | ALoop \<Rightarrow> Some (s\<lparr>at_pc := (if should_stop s then AExit else AClear)\<rparr>)
    | AExit \<Rightarrow> None)"

fun at_exec :: "irq_event \<Rightarrow> at_state \<Rightarrow> at_state option" where
  "at_exec (Irq now) s = Some (at_interrupt now s)"
| "at_exec Bottom s = thr_fun s"
| "at_exec Stop s = Some (s\<lparr>should_stop := True\<rparr>)"

definition at_start :: at_state where
  "at_start = \<lparr>at_counter_th = 0, at_counter_bh = 0, at_jiffies = 0, cond = True, should_stop = False,
               at_pc = AClear\<rparr>"

definition at_init :: "irq_answers \<Rightarrow> (int \<times> ptr) loaded" where
  "at_init a =
     (let irq = ia_irq a; tr = [Request_irq irq (ia_request a)] in
      if ia_request a \<noteq> 0 then (- 1, (irq, NULL), tr)
      else
        let tr = tr @ [Kthread_run (ia_thread a)] in
        if ia_thread a = NULL then (- 1, (irq, NULL), tr) else (0, (irq, ia_thread a), tr))"

definition at_exit :: "int \<times> ptr \<Rightarrow> kcall list" where
  "at_exit g = [Kthread_stop (snd g), Synchronize_irq (fst g), Free_irq (fst g)]"

text \<open>An interrupt counts for the thread only between its clearing and its counting.\<close>

definition at_credit :: "at_state \<Rightarrow> nat" where
  "at_credit s = (if cond s \<and> (at_pc s = AWait \<or> at_pc s = ACount) then 1 else 0)"

interpretation at: deferred_work at_exec at_counter_th at_counter_bh at_credit
proof
  fix e :: irq_event and s s' :: at_state
  assume "at_exec e s = Some s'" "\<not> is_irq e"
  then show "at_counter_th s' = at_counter_th s \<and>
      (at_counter_bh s' = at_counter_bh s \<and> at_credit s' \<le> at_credit s \<or>
       at_counter_bh s' = at_counter_bh s + 1 \<and> at_credit s' + 1 \<le> at_credit s)"
    by (cases e) (auto simp: is_irq_def thr_fun_def at_credit_def split: at_pc.splits if_splits)
qed (auto simp: at_interrupt_def at_credit_def)

interpretation at_mod: unloadable at_init at_exit "\<lambda>a. \<not> IS_ERR (ia_thread a)"
  by unfold_locales (auto simp: at_init_def at_exit_def Let_def kcall_simps split: if_splits)

section \<open>The threaded interrupt\<close>

datatype ti_pc =
    TIdle         \<comment> \<open>the interrupt thread waits for its run flag\<close>
  | TInc          \<comment> \<open>in \<^verbatim>\<open>thread_run\<close>, about to count\<close>
  | TDec          \<comment> \<open>at \<^verbatim>\<open>atomic_dec_and_test(&nevents)\<close>\<close>

record ti_state =
  ti_counter_th :: u32
  ti_counter_bh :: u32
  nevents :: u32
  run_flag :: bool          \<comment> \<open>set by \<^verbatim>\<open>IRQ_WAKE_THREAD\<close>, cleared when the thread starts to run\<close>
  ti_pc :: ti_pc

definition ti_interrupt :: "ti_state \<Rightarrow> ti_state" where
  "ti_interrupt s = s\<lparr>ti_counter_th := ti_counter_th s + 1, nevents := nevents s + 1, run_flag := True\<rparr>"

definition thread_run :: "ti_state \<Rightarrow> ti_state option" where
  "thread_run s = (case ti_pc s of
      TIdle \<Rightarrow> if run_flag s then Some (s\<lparr>run_flag := False, ti_pc := TInc\<rparr>) else None
    | TInc \<Rightarrow> Some (s\<lparr>ti_counter_bh := ti_counter_bh s + 1, ti_pc := TDec\<rparr>)
    | TDec \<Rightarrow> Some (s\<lparr>nevents := nevents s - 1, ti_pc := (if nevents s - 1 = 0 then TIdle else TInc)\<rparr>))"

fun ti_exec :: "irq_event \<Rightarrow> ti_state \<Rightarrow> ti_state option" where
  "ti_exec (Irq now) s = Some (ti_interrupt s)"
| "ti_exec Bottom s = thread_run s"
| "ti_exec Stop s = None"

definition ti_start :: ti_state where
  "ti_start = \<lparr>ti_counter_th = 0, ti_counter_bh = 0, nevents = 0, run_flag = False, ti_pc = TIdle\<rparr>"

definition ti_init :: "irq_answers \<Rightarrow> (int \<times> ti_state) loaded" where
  "ti_init a =
     (let irq = ia_irq a; tr = [Request_irq irq (ia_request a)] in
      if ia_request a \<noteq> 0 then (- 1, (irq, ti_start), tr) else (0, (irq, ti_start), tr))"

definition ti_exit :: "int \<times> ti_state \<Rightarrow> kcall list" where
  "ti_exit g = [Synchronize_irq (fst g), Free_irq (fst g)]"

interpretation ti_mod: loadable ti_init ti_exit "\<lambda>a. True"
  by unfold_locales (auto simp: ti_init_def ti_exit_def Let_def kcall_simps split: if_splits)

inductive ti_reachable :: "ti_state \<Rightarrow> bool" where
  start: "ti_reachable ti_start"
| event: "ti_reachable s \<Longrightarrow> ti_exec e s = Some s' \<Longrightarrow> ti_reachable s'"

inductive_cases ti_reachableE: "ti_reachable s"

text \<open>The counters agree up to the events still to be served, in 32-bit arithmetic.\<close>

lemma ti_counters:
  "ti_reachable s \<Longrightarrow>
   ti_counter_th s = ti_counter_bh s + nevents s - (if ti_pc s = TDec then 1 else 0)"
proof (induction rule: ti_reachable.induct)
  case start
  then show ?case by (simp add: ti_start_def)
next
  case (event s e s')
  then show ?case
    by (cases e) (auto simp: ti_interrupt_def thread_run_def split: ti_pc.splits if_splits)
qed

lemma ti_reachable_run:
  "run_events ti_exec es s = Some s' \<Longrightarrow> ti_reachable s \<Longrightarrow> ti_reachable s'"
  by (induction es arbitrary: s) (auto split: option.splits intro: ti_reachable.event)

text \<open>
  How long the loop runs when no interrupt comes in between: \<^verbatim>\<open>nevents\<close> turns, or \<open>2 ^ 32\<close> of
  them when it starts with none, since the test is for zero after a decrement.
\<close>

lemma ti_turns:
  assumes "ti_pc s = TInc" and "k \<le> unat (nevents s - 1)"
  shows "run_events ti_exec (replicate (2 * k) Bottom) s =
     Some (s\<lparr>ti_counter_bh := ti_counter_bh s + of_nat k, nevents := nevents s - of_nat k\<rparr>)"
  using assms
proof (induction k arbitrary: s)
  case (Suc k)
  have nz: "nevents s - 1 \<noteq> 0" using Suc.prems(2) by auto
  let ?s = "s\<lparr>ti_counter_bh := ti_counter_bh s + 1, nevents := nevents s - 1\<rparr>"
  have two: "run_events ti_exec (replicate (2 * Suc k) Bottom) s = run_events ti_exec (replicate (2 * k) Bottom) ?s"
    using Suc.prems(1) nz by (cases s) (simp add: thread_run_def)
  have "unat (nevents s - 1 - 1) = unat (nevents s - 1) - 1"
    using nz by (rule unat_minus_one)
  then have "k \<le> unat (nevents ?s - 1)" using Suc.prems(2) by simp
  from Suc.IH [OF _ this] Suc.prems(1) two show ?case
    by (simp add: algebra_simps)
qed simp

lemma ti_returns:
  assumes "ti_pc s = TInc" and "m = unat (nevents s - 1)"
  shows "run_events ti_exec (replicate (2 * Suc m) Bottom) s =
     Some (s\<lparr>ti_counter_bh := ti_counter_bh s + of_nat (Suc m), nevents := 0, ti_pc := TIdle\<rparr>)"
proof -
  have "replicate (2 * Suc m) Bottom = replicate (2 * m) Bottom @ [Bottom, Bottom]"
    by (simp add: replicate_append_same [symmetric])
  moreover have "(of_nat m :: u32) = nevents s - 1" using assms(2) by simp
  ultimately show ?thesis
    using ti_turns [OF assms(1), of m] assms by (simp add: run_events_append thread_run_def)
qed


section \<open>What the labs guarantee\<close>

text \<open>
  C9. However interrupts and deferred work interleave, with a tasklet, a work item or a thread
  woken by a condition the top half's counter is the number of interrupts, and the bottom
  half has run at most once for each of them.
\<close>

theorem bottom_half_at_most_once:
  "(run_events bh_exec es my_init_bh = Some s \<longrightarrow>
      counter_th s = of_nat (irqs es) \<and> (\<exists>k \<le> irqs es. counter_bh s = of_nat k)) \<and>
   (run_events at_exec es at_start = Some u \<longrightarrow>
      at_counter_th u = of_nat (irqs es) \<and> (\<exists>k \<le> irqs es. at_counter_bh u = of_nat k))"
proof (intro conjI impI)
  assume "run_events bh_exec es my_init_bh = Some s"
  from bh.at_most_once [OF this] show "counter_th s = of_nat (irqs es)"
    and "\<exists>k \<le> irqs es. counter_bh s = of_nat k"
    by (auto simp: my_init_bh_def intro: le_trans [OF le_add1])
next
  assume "run_events at_exec es at_start = Some u"
  from at.at_most_once [OF this] show "at_counter_th u = of_nat (irqs es)"
    and "\<exists>k \<le> irqs es. at_counter_bh u = of_nat k"
    by (auto simp: at_start_def at_credit_def intro: le_trans [OF le_add1])
qed

theorem bottom_half_at_most_once_witness:
  "\<exists>s u. run_events bh_exec [Irq 1, Irq 2, Bottom] my_init_bh = Some s \<and> counter_th s = 2 \<and>
     run_events at_exec [Bottom, Irq 1, Bottom] at_start = Some u \<and> at_counter_th u = 1"
proof -
  obtain s where s: "run_events bh_exec [Irq 1, Irq 2, Bottom] my_init_bh = Some s"
    by (simp add: my_interrupt_def)
  obtain u where u: "run_events at_exec [Bottom, Irq 1, Bottom] at_start = Some u"
    by (simp add: at_interrupt_def thr_fun_def at_start_def)
  show ?thesis
    using bottom_half_at_most_once [of "[Irq 1, Irq 2, Bottom]" s] s
      bottom_half_at_most_once [of "[Bottom, Irq 1, Bottom]" _ u] u
    by (auto simp: is_irq_def simp del: run_events.simps)
qed

text \<open>
  The thread woken by a condition can miss an interrupt: one that comes after the thread
  has counted and before it clears \<^verbatim>\<open>cond\<close> again is wiped out, and the thread waits on without
  counting it, until another interrupt or a stop.
\<close>

lemma added_thread_misses_interrupt:
  assumes "at_pc s = ALoop" and "\<not> should_stop s"
  shows "\<exists>s'. run_events at_exec [Irq now, Bottom, Bottom] s = Some s' \<and>
     at_counter_th s' = at_counter_th s + 1 \<and> at_counter_bh s' = at_counter_bh s \<and>
     at_pc s' = AWait \<and> at_exec Bottom s' = None"
  using assms by (simp add: at_interrupt_def thr_fun_def)

lemma added_thread_misses_interrupt_witness:
  "\<exists>s s'. run_events at_exec [Bottom, Irq 1, Bottom, Bottom] at_start = Some s \<and> at_counter_bh s = 1 \<and>
     run_events at_exec [Irq 2, Bottom, Bottom] s = Some s' \<and> at_counter_th s' = 2 \<and> at_counter_bh s' = 1 \<and>
     at_exec Bottom s' = None"
proof -
  obtain s where "run_events at_exec [Bottom, Irq 1, Bottom, Bottom] at_start = Some s"
    "at_pc s = ALoop" "\<not> should_stop s" "at_counter_bh s = 1" "at_counter_th s = 1"
    by (simp add: at_start_def at_interrupt_def thr_fun_def)
  with added_thread_misses_interrupt [of s 2] show ?thesis
    by (metis one_add_one)
qed

text \<open>
  The threaded interrupt serves every event it finds: when its thread starts with events
  pending and no interrupt comes in between, the loop ends after one turn per event, and
  then as many bottom halves have been counted as interrupts.
\<close>

lemma threaded_irq_serves_all:
  assumes "ti_reachable s" and "ti_pc s = TInc" and "nevents s \<noteq> 0"
  shows "\<exists>s'. run_events ti_exec (replicate (2 * unat (nevents s)) Bottom) s = Some s' \<and>
     ti_pc s' = TIdle \<and> nevents s' = 0 \<and> ti_counter_bh s' = ti_counter_th s'"
proof -
  have n: "unat (nevents s) = Suc (unat (nevents s - 1))"
    using assms(3) by (simp add: unat_minus_one) (metis Suc_pred unat_gt_0)
  have "of_nat (unat (nevents s)) = nevents s" by simp
  then have "of_nat (Suc (unat (nevents s - 1))) = nevents s" by (simp only: n)
  with ti_returns [OF assms(2) refl] ti_counters [OF assms(1)] assms(2) show ?thesis
    unfolding n by (simp add: algebra_simps)
qed

lemma threaded_irq_serves_all_witness:
  "\<exists>s s'. run_events ti_exec [Irq 1, Irq 2, Bottom] ti_start = Some s \<and>
     run_events ti_exec (replicate 4 Bottom) s = Some s' \<and> nevents s' = 0 \<and> ti_counter_bh s' = ti_counter_th s'"
proof -
  obtain s where s: "run_events ti_exec [Irq 1, Irq 2, Bottom] ti_start = Some s" "ti_pc s = TInc" "nevents s = 2"
    by (simp add: ti_start_def ti_interrupt_def thread_run_def)
  with threaded_irq_serves_all [OF ti_reachable_run [OF s(1) ti_reachable.start] s(2)] show ?thesis by auto
qed

text \<open>
  The threaded interrupt can run away: an interrupt that comes while the thread is in its
  loop is served there and also makes the thread run again, now with nothing pending. The
  counter of pending events goes below zero, and without further interrupts the loop
  turns \<open>2 ^ 32\<close> times, counting a bottom half each time.
\<close>

lemma threaded_irq_runs_away:
  "\<exists>s. run_events ti_exec ([Irq 0, Bottom, Irq 1] @ replicate 5 Bottom) ti_start = Some s \<and>
     ti_pc s = TInc \<and> nevents s = 0 \<and> ti_counter_th s = 2 \<and> ti_counter_bh s = 2 \<and>
     (\<forall>k < 2 ^ 32. \<exists>u. run_events ti_exec (replicate (2 * k) Bottom) s = Some u \<and> ti_pc u = TInc \<and>
         ti_counter_bh u = 2 + of_nat k \<and> ti_counter_th u = 2) \<and>
     (\<exists>u. run_events ti_exec (replicate (2 * 2 ^ 32) Bottom) s = Some u \<and> ti_pc u = TIdle)"
proof -
  have r: "replicate 5 Bottom = [Bottom, Bottom, Bottom, Bottom, Bottom]" by (simp add: eval_nat_numeral)
  obtain s where s: "run_events ti_exec ([Irq 0, Bottom, Irq 1] @ replicate 5 Bottom) ti_start = Some s"
      "ti_pc s = TInc" "nevents s = 0" "ti_counter_th s = 2" "ti_counter_bh s = 2"
    unfolding r by (simp add: ti_start_def ti_interrupt_def thread_run_def)
  have m: "unat (nevents s - 1) = 2 ^ 32 - 1"
    using s(3) by (simp add: unsigned_minus_1_eq_mask mask_eq_exp_minus_1)
  have "\<exists>u. run_events ti_exec (replicate (2 * k) Bottom) s = Some u \<and> ti_pc u = TInc \<and>
      ti_counter_bh u = 2 + of_nat k \<and> ti_counter_th u = 2" if "k < 2 ^ 32" for k
    using ti_turns [OF s(2), of k] that m s by simp
  moreover have "\<exists>u. run_events ti_exec (replicate (2 * 2 ^ 32) Bottom) s = Some u \<and> ti_pc u = TIdle"
    using ti_returns [OF s(2) m [symmetric]] by simp
  ultimately show ?thesis using s by blast
qed

lemma threaded_irq_runs_away_witness:
  "\<exists>s u. run_events ti_exec ([Irq 0, Bottom, Irq 1] @ replicate 5 Bottom) ti_start = Some s \<and>
     run_events ti_exec (replicate (2 * 1000) Bottom) s = Some u \<and> ti_pc u = TInc \<and> ti_counter_bh u = 1002"
proof -
  have "1000 < (2 :: nat) ^ 32" by simp
  with threaded_irq_runs_away show ?thesis by fastforce
qed

end
