(* ===== verification/Sync_Counter.thy ===== *)
theory Sync_Counter
  imports Module_Lifecycle
begin

text \<open>
  The synchronisation labs, \<^verbatim>\<open>sync/\<close>: a counter that one thread increments and others print,
  guarded by a spinlock (\<^verbatim>\<open>spinlock.c\<close>), a mutex (\<^verbatim>\<open>mutex.c\<close>), a reader-writer lock
  (\<^verbatim>\<open>rw_lock.c\<close>) or nothing but atomic operations (\<^verbatim>\<open>atomic.c\<close>); a thread that waits for another
  with a completion (\<^verbatim>\<open>completion.c\<close>); and the page of \<^verbatim>\<open>high_mem.c\<close>.

  The three locking labs have the same two thread functions over different locks, so there
  is one model of the threads, whose lock is a record of four operations. Incrementing is a
  load and a store, and any number of threads interleave. The locale \<open>exclusion\<close> says what
  the threads rely on of a lock; the locks of the labs are its interpretations.
\<close>

section \<open>Threads over a lock\<close>

record 'l lock_ops =
  rlock :: "'l \<Rightarrow> 'l option"       \<comment> \<open>\<^term>\<open>None\<close>: has to wait\<close>
  runlock :: "'l \<Rightarrow> 'l"
  wlock :: "'l \<Rightarrow> 'l option"
  wunlock :: "'l \<Rightarrow> 'l"

datatype sync_pc =
    WLoop | WAcquire | WLoad | WStore u32 | WRelease | WExit
  | RLoop | RAcquire | RShow | RRelease | RExit

record 'l sync_state =
  sy_lock :: 'l
  sy_counter :: u32
  sy_pc :: "nat \<Rightarrow> sync_pc"
  sy_stop :: "nat \<Rightarrow> bool"          \<comment> \<open>\<^verbatim>\<open>kthread_should_stop\<close> of each thread\<close>
  sy_log :: "u32 list"              \<comment> \<open>what the readers printed\<close>
  sy_done :: nat                    \<comment> \<open>how many increments have been stored\<close>

datatype sync_event = Run nat | StopThread nat

definition goto :: "nat \<Rightarrow> sync_pc \<Rightarrow> ('l, 'm) sync_state_scheme \<Rightarrow> ('l, 'm) sync_state_scheme" where
  "goto t c s = s\<lparr>sy_pc := (sy_pc s)(t := c)\<rparr>"

text \<open>One step of \<^verbatim>\<open>write_function\<close>.\<close>

definition write_function :: "'l lock_ops \<Rightarrow> nat \<Rightarrow> 'l sync_state \<Rightarrow> 'l sync_state option" where
  "write_function ops t s = (case sy_pc s t of
      WLoop \<Rightarrow> Some (goto t (if sy_stop s t then WExit else WAcquire) s)
    | WAcquire \<Rightarrow> (case wlock ops (sy_lock s) of None \<Rightarrow> None
                  | Some l \<Rightarrow> Some (goto t WLoad (s\<lparr>sy_lock := l\<rparr>)))
    | WLoad \<Rightarrow> Some (goto t (WStore (sy_counter s)) s)
    | WStore v \<Rightarrow> Some (goto t WRelease (s\<lparr>sy_counter := v + 1, sy_done := Suc (sy_done s)\<rparr>))
    | WRelease \<Rightarrow> Some (goto t WLoop (s\<lparr>sy_lock := wunlock ops (sy_lock s)\<rparr>))
    | _ \<Rightarrow> None)"

text \<open>One step of \<^verbatim>\<open>read_function\<close>.\<close>

definition read_function :: "'l lock_ops \<Rightarrow> nat \<Rightarrow> 'l sync_state \<Rightarrow> 'l sync_state option" where
  "read_function ops t s = (case sy_pc s t of
      RLoop \<Rightarrow> Some (goto t (if sy_stop s t then RExit else RAcquire) s)
    | RAcquire \<Rightarrow> (case rlock ops (sy_lock s) of None \<Rightarrow> None
                  | Some l \<Rightarrow> Some (goto t RShow (s\<lparr>sy_lock := l\<rparr>)))
    | RShow \<Rightarrow> Some (goto t RRelease (s\<lparr>sy_log := sy_log s @ [sy_counter s]\<rparr>))
    | RRelease \<Rightarrow> Some (goto t RLoop (s\<lparr>sy_lock := runlock ops (sy_lock s)\<rparr>))
    | _ \<Rightarrow> None)"

fun sync_exec :: "'l lock_ops \<Rightarrow> sync_event \<Rightarrow> 'l sync_state \<Rightarrow> 'l sync_state option" where
  "sync_exec ops (Run t) s =
     (case write_function ops t s of Some s' \<Rightarrow> Some s' | None \<Rightarrow> read_function ops t s)"
| "sync_exec ops (StopThread t) s = Some (s\<lparr>sy_stop := (sy_stop s)(t := True)\<rparr>)"

fun sync_run :: "'l lock_ops \<Rightarrow> sync_event list \<Rightarrow> 'l sync_state \<Rightarrow> 'l sync_state option" where
  "sync_run ops [] s = Some s"
| "sync_run ops (e # es) s = (case sync_exec ops e s of None \<Rightarrow> None | Some s' \<Rightarrow> sync_run ops es s')"

text \<open>\<^verbatim>\<open>my_mod_init\<close>: the counter is zero, the lock free, and each thread at its loop.\<close>

definition sync_start :: "'l \<Rightarrow> (nat \<Rightarrow> bool) \<Rightarrow> 'l sync_state" where
  "sync_start free writer =
     \<lparr>sy_lock = free, sy_counter = 0, sy_pc = (\<lambda>t. if writer t then WLoop else RLoop),
      sy_stop = (\<lambda>t. False), sy_log = [], sy_done = 0\<rparr>"

section \<open>The locks\<close>

text \<open>
  The kernel's locks, as far as the labs rely on them. A spinlock or mutex is held or not;
  reader and writer take it the same way.
\<close>

definition spin_lock :: "bool \<Rightarrow> bool option" where
  "spin_lock l = (if l then None else Some True)"

definition spin_unlock :: "bool \<Rightarrow> bool" where
  "spin_unlock l = False"

definition spin_ops :: "bool lock_ops" where
  "spin_ops = \<lparr>rlock = spin_lock, runlock = spin_unlock, wlock = spin_lock, wunlock = spin_unlock\<rparr>"

text \<open>A reader-writer lock: how many readers hold it, and whether a writer does.\<close>

definition rw_ops :: "(nat \<times> bool) lock_ops" where
  "rw_ops = \<lparr>rlock = (\<lambda>(n, w). if w then None else Some (Suc n, w)),
             runlock = (\<lambda>(n, w). (n - 1, w)),
             wlock = (\<lambda>(n, w). if w \<or> n \<noteq> 0 then None else Some (n, True)),
             wunlock = (\<lambda>(n, w). (n, False))\<rparr>"

text \<open>The threads of \<^verbatim>\<open>mutex.c\<close> and \<^verbatim>\<open>rw_lock.c\<close>: the same functions over the other locks.\<close>

definition mutex_exec :: "sync_event \<Rightarrow> bool sync_state \<Rightarrow> bool sync_state option" where
  "mutex_exec = sync_exec spin_ops"

definition rw_exec :: "sync_event \<Rightarrow> (nat \<times> bool) sync_state \<Rightarrow> (nat \<times> bool) sync_state option" where
  "rw_exec = sync_exec rw_ops"

section \<open>What the threads rely on\<close>

definition in_write :: "sync_pc \<Rightarrow> bool" where
  "in_write c = (case c of WLoad \<Rightarrow> True | WStore v \<Rightarrow> True | WRelease \<Rightarrow> True | _ \<Rightarrow> False)"

definition in_read :: "sync_pc \<Rightarrow> bool" where
  "in_read c = (case c of RShow \<Rightarrow> True | RRelease \<Rightarrow> True | _ \<Rightarrow> False)"

lemma in_write_simps [simp]:
  "in_write WLoad" "in_write (WStore v)" "in_write WRelease" "\<not> in_write WLoop" "\<not> in_write WAcquire"
  "\<not> in_write WExit" "\<not> in_write RLoop" "\<not> in_write RAcquire" "\<not> in_write RShow" "\<not> in_write RRelease"
  "\<not> in_write RExit"
  by (simp_all add: in_write_def)

lemma in_read_simps [simp]:
  "\<not> in_read WLoad" "\<not> in_read (WStore v)" "\<not> in_read WRelease" "\<not> in_read WLoop" "\<not> in_read WAcquire"
  "\<not> in_read WExit" "\<not> in_read RLoop" "\<not> in_read RAcquire" "in_read RShow" "in_read RRelease"
  "\<not> in_read RExit"
  by (simp_all add: in_read_def)

definition writers :: "'l sync_state \<Rightarrow> nat set" where
  "writers s = {t. in_write (sy_pc s t)}"

definition readers :: "'l sync_state \<Rightarrow> nat set" where
  "readers s = {t. in_read (sy_pc s t)}"

lemma goto_fields [simp]:
  "sy_lock (goto t c s) = sy_lock s" "sy_counter (goto t c s) = sy_counter s"
  "sy_done (goto t c s) = sy_done s" "sy_pc (goto t c s) = (sy_pc s)(t := c)"
  by (simp_all add: goto_def)

lemma writers_goto: "writers (goto t c s) = (if in_write c then insert t (writers s) else writers s - {t})"
  by (auto simp: writers_def)

lemma readers_goto: "readers (goto t c s) = (if in_read c then insert t (readers s) else readers s - {t})"
  by (auto simp: readers_def)

lemma holders_update [simp]:
  "writers (s\<lparr>sy_lock := l\<rparr>) = writers s" "readers (s\<lparr>sy_lock := l\<rparr>) = readers s"
  "writers (s\<lparr>sy_counter := c, sy_done := d\<rparr>) = writers s" "readers (s\<lparr>sy_counter := c, sy_done := d\<rparr>) = readers s"
  "writers (s\<lparr>sy_log := g\<rparr>) = writers s" "readers (s\<lparr>sy_log := g\<rparr>) = readers s"
  "writers (s\<lparr>sy_stop := p\<rparr>) = writers s" "readers (s\<lparr>sy_stop := p\<rparr>) = readers s"
  by (simp_all add: writers_def readers_def)

text \<open>
  \<open>holds l r w\<close>: the lock may be in state \<open>l\<close> while \<open>r\<close> readers and \<open>w\<close> writers hold it.
\<close>

locale exclusion =
  fixes ops :: "'l lock_ops"
    and free :: 'l
    and holds :: "'l \<Rightarrow> nat \<Rightarrow> nat \<Rightarrow> bool"
  assumes free_law: "holds free 0 0"
    and rlock_law: "holds l r w \<Longrightarrow> rlock ops l = Some l' \<Longrightarrow> w = 0 \<and> holds l' (Suc r) w"
    and wlock_law: "holds l r w \<Longrightarrow> wlock ops l = Some l' \<Longrightarrow> r = 0 \<and> w = 0 \<and> holds l' 0 1"
    and runlock_law: "holds l (Suc r) w \<Longrightarrow> holds (runlock ops l) r w"
    and wunlock_law: "holds l r (Suc w) \<Longrightarrow> holds (wunlock ops l) r w"
begin

definition sync_inv :: "'l sync_state \<Rightarrow> bool" where
  "sync_inv s \<longleftrightarrow> finite (writers s) \<and> finite (readers s) \<and>
     holds (sy_lock s) (card (readers s)) (card (writers s)) \<and>
     card (writers s) \<le> 1 \<and> (writers s \<noteq> {} \<longrightarrow> readers s = {}) \<and>
     sy_counter s = of_nat (sy_done s) \<and> (\<forall>t v. sy_pc s t = WStore v \<longrightarrow> v = sy_counter s)"

text \<open>A step that changes neither who holds the lock nor the lock nor the counter.\<close>

lemma inv_goto:
  assumes "sync_inv s" and "in_write c = in_write (sy_pc s t)" and "in_read c = in_read (sy_pc s t)"
    and "\<And>v. c = WStore v \<Longrightarrow> v = sy_counter s"
  shows "sync_inv (goto t c s)"
proof -
  have "writers (goto t c s) = writers s" "readers (goto t c s) = readers s"
    using assms(2,3) by (auto simp: writers_goto readers_goto writers_def readers_def)
  then show ?thesis using assms(1,4) by (auto simp: sync_inv_def)
qed

lemma no_store: "sync_inv s \<Longrightarrow> writers s = {} \<Longrightarrow> sy_pc s t \<noteq> WStore v"
  by (metis (mono_tags, lifting) empty_Collect_eq in_write_simps(2) writers_def)

lemma the_writer: "sync_inv s \<Longrightarrow> in_write (sy_pc s t) \<Longrightarrow> writers s = {t} \<and> readers s = {}"
proof -
  assume i: "sync_inv s" and t: "in_write (sy_pc s t)"
  then have "t \<in> writers s" by (simp add: writers_def)
  moreover have "card (writers s) \<le> 1" "finite (writers s)" using i by (simp_all add: sync_inv_def)
  ultimately have "writers s = {t}"
    by (metis card_1_singletonE card_0_eq empty_iff le_antisym less_one not_less singletonD)
  with i show ?thesis by (simp add: sync_inv_def)
qed

lemma write_function_inv:
  assumes i: "sync_inv s" and st: "write_function ops t s = Some s'"
  shows "sync_inv s'"
proof (cases "sy_pc s t")
  case WAcquire
  with st obtain l where l: "wlock ops (sy_lock s) = Some l" and s': "s' = goto t WLoad (s\<lparr>sy_lock := l\<rparr>)"
    by (auto simp: write_function_def split: option.splits)
  from i have "holds (sy_lock s) (card (readers s)) (card (writers s))" by (simp add: sync_inv_def)
  from wlock_law [OF this l] have "card (readers s) = 0" "card (writers s) = 0" and h: "holds l 0 1" by auto
  with i have e: "readers s = {}" "writers s = {}" by (auto simp: sync_inv_def)
  then show ?thesis
    using i h s' no_store [OF i e(2)] by (simp add: sync_inv_def writers_goto readers_goto)
next
  case (WStore v)
  then have s': "s' = goto t WRelease (s\<lparr>sy_counter := v + 1, sy_done := Suc (sy_done s)\<rparr>)"
    and w: "writers s = {t}" "readers s = {}" and v: "v = sy_counter s"
    using st i the_writer [OF i, of t] by (auto simp: write_function_def sync_inv_def)
  have "t' = t" if "sy_pc s t' = WStore v'" for t' v' using the_writer [OF i, of t'] that w by auto
  then show ?thesis
    using i s' w v by (auto simp: sync_inv_def writers_goto readers_goto)
next
  case WRelease
  then have s': "s' = goto t WLoop (s\<lparr>sy_lock := wunlock ops (sy_lock s)\<rparr>)"
    and w: "writers s = {t}" "readers s = {}"
    using st i the_writer [OF i, of t] by (auto simp: write_function_def)
  then have "holds (wunlock ops (sy_lock s)) 0 0"
    using i wunlock_law [of "sy_lock s" 0 0] by (simp add: sync_inv_def)
  then show ?thesis
    using i s' w by (auto simp: sync_inv_def writers_goto readers_goto)
qed (use i st in \<open>auto simp: write_function_def split: if_splits intro!: inv_goto\<close>)

lemma read_function_inv:
  assumes i: "sync_inv s" and st: "read_function ops t s = Some s'"
  shows "sync_inv s'"
proof (cases "sy_pc s t")
  case RAcquire
  with st obtain l where l: "rlock ops (sy_lock s) = Some l" and s': "s' = goto t RShow (s\<lparr>sy_lock := l\<rparr>)"
    by (auto simp: read_function_def split: option.splits)
  from i have "holds (sy_lock s) (card (readers s)) (card (writers s))" by (simp add: sync_inv_def)
  from rlock_law [OF this l] have "card (writers s) = 0"
    and h: "holds l (Suc (card (readers s))) (card (writers s))" by auto
  with i have e: "writers s = {}" by (auto simp: sync_inv_def)
  moreover have "t \<notin> readers s" using RAcquire by (simp add: readers_def)
  ultimately show ?thesis
    using i h s' no_store [OF i e] by (simp add: sync_inv_def writers_goto readers_goto)
next
  case RShow
  then have "s' = goto t RRelease (s\<lparr>sy_log := sy_log s @ [sy_counter s]\<rparr>)" using st by (simp add: read_function_def)
  moreover have "sync_inv (s\<lparr>sy_log := sy_log s @ [sy_counter s]\<rparr>)" using i by (auto simp: sync_inv_def)
  ultimately show ?thesis using RShow by (auto intro!: inv_goto)
next
  case RRelease
  then have s': "s' = goto t RLoop (s\<lparr>sy_lock := runlock ops (sy_lock s)\<rparr>)" and t: "t \<in> readers s"
    using st by (auto simp: read_function_def readers_def)
  have w: "writers s = {}" using i t by (auto simp: sync_inv_def)
  have "finite (readers s)" using i by (simp add: sync_inv_def)
  from card.remove [OF this t] have "holds (runlock ops (sy_lock s)) (card (readers s - {t})) 0"
    using i w runlock_law [of "sy_lock s" "card (readers s - {t})" 0] by (simp add: sync_inv_def)
  then show ?thesis
    using i s' w no_store [OF i w] by (simp add: sync_inv_def writers_goto readers_goto)
qed (use i st in \<open>auto simp: read_function_def split: if_splits intro!: inv_goto\<close>)

lemma sync_run_inv:
  "sync_run ops es s = Some s' \<Longrightarrow> sync_inv s \<Longrightarrow> sync_inv s'"
proof (induction es arbitrary: s)
  case (Cons e es)
  from Cons.prems(1) obtain s1 where s1: "sync_exec ops e s = Some s1" "sync_run ops es s1 = Some s'"
    by (auto split: option.splits)
  have "sync_inv s1"
  proof (cases e)
    case (Run t)
    then show ?thesis
      using s1(1) Cons.prems(2)
      by (auto split: option.splits intro: write_function_inv read_function_inv)
  next
    case (StopThread t)
    then show ?thesis using s1(1) Cons.prems(2) by (auto simp: sync_inv_def)
  qed
  then show ?case using Cons.IH s1(2) by blast
qed simp

lemma start_inv: "sync_inv (sync_start free w)"
  by (simp add: sync_inv_def sync_start_def writers_def readers_def free_law)

text \<open>What the lock gives the threads, in every state they can reach.\<close>

lemma counter_exact:
  assumes "sync_run ops es (sync_start free w) = Some s"
  shows "sy_counter s = of_nat (sy_done s) \<and>
     (in_write (sy_pc s t) \<longrightarrow> (\<forall>t'. t' \<noteq> t \<longrightarrow> \<not> in_write (sy_pc s t') \<and> \<not> in_read (sy_pc s t')))"
proof -
  have i: "sync_inv s" using sync_run_inv [OF assms start_inv] .
  moreover have "\<not> in_write (sy_pc s t')" "\<not> in_read (sy_pc s t')"
    if "in_write (sy_pc s t)" "t' \<noteq> t" for t'
    using the_writer [OF i that(1)] that(2) by (auto simp: writers_def readers_def)
  ultimately show ?thesis by (simp add: sync_inv_def)
qed

end

interpretation spin: exclusion spin_ops False "\<lambda>l r w. r + w = (if l then 1 else 0)"
  by unfold_locales (auto simp: spin_ops_def spin_lock_def spin_unlock_def split: if_splits)

interpretation rw: exclusion rw_ops "(0, False)"
  "\<lambda>l r w. fst l = r \<and> w = (if snd l then 1 else 0) \<and> (snd l \<longrightarrow> r = 0)"
  by unfold_locales (auto simp: rw_ops_def split: if_splits prod.splits)


section \<open>atomic.c\<close>

text \<open>
  The same threads without a lock: \<^verbatim>\<open>atomic_inc\<close> is one step. Only the threads' number of
  steps counts, so the state is the counter, what was printed, and who has been stopped.
\<close>

record atomic_state =
  ac_counter :: u32
  ac_log :: "u32 list"

datatype atomic_event = AtomicInc | AtomicPrint

definition atomic_exec :: "atomic_event \<Rightarrow> atomic_state \<Rightarrow> atomic_state" where
  "atomic_exec e s = (case e of
      AtomicInc \<Rightarrow> s\<lparr>ac_counter := ac_counter s + 1\<rparr>
    | AtomicPrint \<Rightarrow> s\<lparr>ac_log := ac_log s @ [ac_counter s]\<rparr>)"

definition atomic_start :: atomic_state where
  "atomic_start = \<lparr>ac_counter = 0, ac_log = []\<rparr>"

section \<open>completion.c\<close>

datatype comp_wpc = CTest | CIncrement | CComplete | CWExit

datatype comp_rpc = CWait | CPrint | CRExit

record comp_state =
  cm_counter :: u32
  cm_done :: bool               \<comment> \<open>the completion\<close>
  cm_wpc :: comp_wpc
  cm_rpc :: comp_rpc
  cm_printed :: "u32 option"

definition comp_write :: "comp_state \<Rightarrow> comp_state option" where
  "comp_write s = (case cm_wpc s of
      CTest \<Rightarrow> Some (s\<lparr>cm_wpc := (if cm_counter s \<noteq> 1234 then CIncrement else CComplete)\<rparr>)
    | CIncrement \<Rightarrow> Some (s\<lparr>cm_counter := cm_counter s + 1, cm_wpc := CTest\<rparr>)
    | CComplete \<Rightarrow> Some (s\<lparr>cm_done := True, cm_wpc := CWExit\<rparr>)
    | CWExit \<Rightarrow> None)"

definition comp_read :: "comp_state \<Rightarrow> comp_state option" where
  "comp_read s = (case cm_rpc s of
      CWait \<Rightarrow> if cm_done s then Some (s\<lparr>cm_rpc := CPrint\<rparr>) else None
    | CPrint \<Rightarrow> Some (s\<lparr>cm_printed := Some (cm_counter s), cm_rpc := CRExit\<rparr>)
    | CRExit \<Rightarrow> None)"

text \<open>A schedule says whose turn it is: the writer's when \<^term>\<open>True\<close>. A thread that has to wait skips its turn.\<close>

fun comp_run :: "bool list \<Rightarrow> comp_state \<Rightarrow> comp_state" where
  "comp_run [] s = s"
| "comp_run (w # ws) s =
     comp_run ws (case (if w then comp_write s else comp_read s) of None \<Rightarrow> s | Some s' \<Rightarrow> s')"

definition comp_start :: comp_state where
  "comp_start = \<lparr>cm_counter = 0, cm_done = False, cm_wpc = CTest, cm_rpc = CWait, cm_printed = None\<rparr>"

definition comp_inv :: "comp_state \<Rightarrow> bool" where
  "comp_inv s \<longleftrightarrow> (cm_wpc s = CComplete \<or> cm_wpc s = CWExit \<longrightarrow> cm_counter s = 1234) \<and>
     (cm_done s \<longrightarrow> cm_wpc s = CWExit) \<and> (cm_rpc s \<noteq> CWait \<longrightarrow> cm_done s) \<and>
     (\<forall>v. cm_printed s = Some v \<longrightarrow> v = 1234) \<and> (cm_rpc s = CRExit \<longrightarrow> cm_printed s \<noteq> None)"

lemma comp_run_inv: "comp_inv s \<Longrightarrow> comp_inv (comp_run ws s)"
proof (induction ws arbitrary: s)
  case (Cons w ws)
  have "comp_write s = Some s' \<Longrightarrow> comp_inv s'" "comp_read s = Some s' \<Longrightarrow> comp_inv s'" for s'
    using Cons.prems
    by (auto simp: comp_inv_def comp_write_def comp_read_def split: comp_wpc.splits comp_rpc.splits if_splits)
  then show ?case using Cons.prems by (auto intro!: Cons.IH split: option.splits)
qed simp

lemma comp_run_append: "comp_run (ws @ vs) s = comp_run vs (comp_run ws s)"
  by (induction ws arbitrary: s) simp_all

text \<open>The writer alone: two turns for each increment.\<close>

lemma comp_counts:
  "n \<le> 1234 \<Longrightarrow> comp_run (replicate (2 * n) True) comp_start = comp_start\<lparr>cm_counter := of_nat n\<rparr>"
proof (induction n)
  case (Suc n)
  have "(of_nat n :: u32) \<noteq> 1234"
  proof
    assume "(of_nat n :: u32) = 1234"
    then have "unat (of_nat n :: u32) = 1234" by simp
    then show False using Suc.prems by (simp add: unat_of_nat)
  qed
  moreover have "replicate (2 * Suc n) True = replicate (2 * n) True @ [True, True]"
    by (simp add: replicate_append_same [symmetric])
  ultimately show ?case
    using Suc by (simp add: comp_run_append comp_write_def comp_start_def)
qed (simp add: comp_start_def)

section \<open>high_mem.c\<close>

definition INTS_IN_PAGES :: nat where
  "INTS_IN_PAGES = PAGE_SIZE div 4"

text \<open>The loop of \<^verbatim>\<open>my_mod_init\<close> over the mapped page, seen as an array of \<^verbatim>\<open>int\<close>.\<close>

fun fill_page :: "nat \<Rightarrow> nat \<Rightarrow> u32 list \<Rightarrow> u32 list" where
  "fill_page i 0 arr = arr"
| "fill_page i (Suc k) arr = fill_page (Suc i) k (arr[i := of_nat i])"

definition high_mem_init :: "ptr \<times> u32 list \<Rightarrow> (u32 list) loaded" where
  "high_mem_init a =
     (let p = fst a in
      if p = NULL then (- 1, [], [Alloc_pages p])
      else (0, fill_page 0 INTS_IN_PAGES (snd a), [Alloc_pages p, Kmap p, Kunmap p, Free_pages p]))"

definition high_mem_exit :: "u32 list \<Rightarrow> kcall list" where
  "high_mem_exit g = []"

lemma nth_fill_page:
  "i + k \<le> length arr \<Longrightarrow> length (fill_page i k arr) = length arr \<and>
   (\<forall>j < length arr. fill_page i k arr ! j = (if i \<le> j \<and> j < i + k then of_nat j else arr ! j))"
  by (induction i k arr rule: fill_page.induct) (auto simp: nth_list_update, metis Suc_leI le_neq_implies_less)

interpretation high_mem_mod: loadable high_mem_init high_mem_exit "\<lambda>a. True"
  by unfold_locales (auto simp: high_mem_init_def high_mem_exit_def Let_def kcall_simps split: if_splits)

section \<open>The modules\<close>

record sync_answers =
  sa_mem :: ptr                 \<comment> \<open>\<^verbatim>\<open>kmalloc\<close> of the mutex or the completion\<close>
  sa_readers :: "ptr list"      \<comment> \<open>the reading threads\<close>
  sa_writer :: ptr              \<comment> \<open>the writing thread\<close>

text \<open>
  \<^verbatim>\<open>spinlock.c\<close>, \<^verbatim>\<open>atomic.c\<close> (one reader) and \<^verbatim>\<open>rw_lock.c\<close> (three readers) start and stop threads;
  \<^verbatim>\<open>mutex.c\<close> and \<^verbatim>\<open>completion.c\<close> allocate first. Nobody looks at what \<^verbatim>\<open>kthread_run\<close> returned.
  The globals of the first two are the counter and the two threads.
\<close>

definition spinlock_init :: "ptr \<times> ptr \<Rightarrow> (u32 \<times> ptr \<times> ptr) loaded" where
  "spinlock_init a =
     (let counter = 0; read_thread = fst a; write_thread = snd a in
      (0, (counter, read_thread, write_thread), [Kthread_run read_thread, Kthread_run write_thread]))"

definition spinlock_exit :: "u32 \<times> ptr \<times> ptr \<Rightarrow> kcall list" where
  "spinlock_exit g = (case g of (counter, read_thread, write_thread) \<Rightarrow> [Kthread_stop read_thread, Kthread_stop write_thread])"

definition atomic_init :: "ptr \<times> ptr \<Rightarrow> (u32 \<times> ptr \<times> ptr) loaded" where
  "atomic_init a =
     (let counter = 0; read_thread = fst a; write_thread = snd a in
      (0, (counter, read_thread, write_thread), [Kthread_run read_thread, Kthread_run write_thread]))"

definition atomic_exit :: "u32 \<times> ptr \<times> ptr \<Rightarrow> kcall list" where
  "atomic_exit g = (case g of (counter, read_thread, write_thread) \<Rightarrow> [Kthread_stop read_thread, Kthread_stop write_thread])"

definition threads_init :: "sync_answers \<Rightarrow> sync_answers loaded" where
  "threads_init a = (0, a, map Kthread_run (sa_readers a) @ [Kthread_run (sa_writer a)])"

definition threads_exit :: "sync_answers \<Rightarrow> kcall list" where
  "threads_exit a = map Kthread_stop (sa_readers a) @ [Kthread_stop (sa_writer a)]"

definition mutex_init :: "sync_answers \<Rightarrow> sync_answers loaded" where
  "mutex_init a =
     (if sa_mem a = NULL then (- 1, a, [Kmalloc (sa_mem a)])
      else (0, a, [Kmalloc (sa_mem a)] @ map Kthread_run (sa_readers a) @ [Kthread_run (sa_writer a)]))"

definition mutex_exit :: "sync_answers \<Rightarrow> kcall list" where
  "mutex_exit a = map Kthread_stop (sa_readers a) @ [Kthread_stop (sa_writer a)]"

text \<open>\<^verbatim>\<open>completion.c\<close>: here the threads end on their own, each with \<^verbatim>\<open>do_exit\<close>.\<close>

definition completion_init :: "sync_answers \<Rightarrow> sync_answers loaded" where
  "completion_init a =
     (if sa_mem a = NULL then (- 1, a, [Kmalloc (sa_mem a)])
      else (0, a, [Kmalloc (sa_mem a)] @ map Kthread_run (sa_readers a) @ [Kthread_run (sa_writer a)]))"

definition completion_exit :: "sync_answers \<Rightarrow> kcall list" where
  "completion_exit a = map Kthread_stop (sa_readers a) @ [Kthread_stop (sa_writer a)]"

text \<open>The threads that have called \<^verbatim>\<open>do_exit\<close> in a state of the module.\<close>

definition comp_exits :: "sync_answers \<Rightarrow> comp_state \<Rightarrow> kcall list" where
  "comp_exits a s = (if cm_wpc s = CWExit then [Do_exit (sa_writer a)] else []) @
     (if cm_rpc s = CRExit then map Do_exit (sa_readers a) else [])"

lemma kexec_start_threads:
  "\<forall>p \<in> set ps. p \<noteq> NULL \<and> \<not> IS_ERR p \<Longrightarrow> kexec H (map Kthread_run ps) = Some (H + mset (map RThread ps))"
  by (induction ps arbitrary: H) (auto simp: kcall_simps)

lemma kexec_stop_threads:
  "kexec (mset (map RThread ps) + H) (map Kthread_stop ps) = Some H"
  by (induction ps) (auto simp: kcall_simps)

text \<open>The threads of a module, when each of them was started.\<close>

definition threads_granted :: "sync_answers \<Rightarrow> bool" where
  "threads_granted a \<longleftrightarrow> (\<forall>p \<in> set (sa_readers a @ [sa_writer a]). p \<noteq> NULL \<and> \<not> IS_ERR p)"

lemma kexec_threads:
  assumes "threads_granted a"
  shows "kexec H (map Kthread_run (sa_readers a) @ [Kthread_run (sa_writer a)]) =
           Some (H + mset (map RThread (sa_readers a @ [sa_writer a])))"
    and "kexec (mset (map RThread (sa_readers a @ [sa_writer a])) + H)
           (map Kthread_stop (sa_readers a) @ [Kthread_stop (sa_writer a)]) = Some H"
proof -
  have nz: "\<forall>p \<in> set (sa_readers a @ [sa_writer a]). p \<noteq> NULL \<and> \<not> IS_ERR p"
    using assms by (auto simp: threads_granted_def)
  show "kexec H (map Kthread_run (sa_readers a) @ [Kthread_run (sa_writer a)]) =
      Some (H + mset (map RThread (sa_readers a @ [sa_writer a])))"
    using kexec_start_threads [OF nz] by simp
  show "kexec (mset (map RThread (sa_readers a @ [sa_writer a])) + H)
      (map Kthread_stop (sa_readers a) @ [Kthread_stop (sa_writer a)]) = Some H"
    using kexec_stop_threads [of "sa_readers a @ [sa_writer a]" H] by simp
qed

interpretation threads_mod: loadable threads_init threads_exit threads_granted
proof
  fix e s :: sync_answers and r :: int and tr :: "kcall list"
  assume "threads_granted e" "threads_init e = (r, s, tr)"
  then show "kexec {#} (tr @ threads_exit s) = Some {#}"
    using kexec_threads(1) [of e "{#}"] kexec_threads(2) [of e "{#}"]
    by (auto simp: threads_init_def threads_exit_def)
qed (simp add: threads_init_def)

text \<open>The two labs with one reader, when both threads were started.\<close>

definition pair_granted :: "ptr \<times> ptr \<Rightarrow> bool" where
  "pair_granted a \<longleftrightarrow> fst a \<noteq> NULL \<and> \<not> IS_ERR (fst a) \<and> snd a \<noteq> NULL \<and> \<not> IS_ERR (snd a)"

lemmas pair_mod_defs = spinlock_init_def spinlock_exit_def atomic_init_def atomic_exit_def pair_granted_def

interpretation spinlock_mod: loadable spinlock_init spinlock_exit pair_granted
  by unfold_locales (auto simp: pair_mod_defs kcall_simps add_mset_commute)

interpretation atomic_mod: loadable atomic_init atomic_exit pair_granted
  by unfold_locales (auto simp: pair_mod_defs kcall_simps add_mset_commute)

section \<open>What the labs guarantee\<close>

text \<open>
  C5. Mutual exclusion and an exact counter, for every lock that keeps the contract, any
  number of reading and writing threads and every interleaving: while a writer is between
  lock and unlock nobody else is, and the counter is the number of increments stored so
  far, modulo \<open>2 ^ 32\<close>, so that no increment is lost.
\<close>

theorem locked_counter_exact:
  assumes "exclusion ops free holds" and "sync_run ops es (sync_start free w) = Some s"
  shows "sy_counter s = of_nat (sy_done s) \<and>
     (in_write (sy_pc s t) \<longrightarrow> (\<forall>t'. t' \<noteq> t \<longrightarrow> \<not> in_write (sy_pc s t') \<and> \<not> in_read (sy_pc s t')))"
  using exclusion.counter_exact [OF assms] .

text \<open>Thread 0 writes; threads 1 and 2 read.\<close>

definition demo_sync :: "sync_event list" where
  "demo_sync = [Run 0, Run 0, Run 0, Run 0, Run 0, Run 1, Run 2, Run 1, Run 1]"

theorem locked_counter_exact_witness:
  "\<exists>s u. sync_run spin_ops demo_sync (sync_start False (\<lambda>t. t = 0)) = Some s \<and>
     sync_run rw_ops demo_sync (sync_start (0, False) (\<lambda>t. t = 0)) = Some u \<and>
     sy_done s = 1 \<and> sy_counter s = 1 \<and> sy_done u = 1 \<and> sy_counter u = 1"
proof -
  obtain s where s: "sync_run spin_ops demo_sync (sync_start False (\<lambda>t. t = 0)) = Some s" "sy_done s = 1"
    by (simp add: demo_sync_def sync_start_def write_function_def read_function_def goto_def spin_ops_def
        spin_lock_def spin_unlock_def)
  obtain u where u: "sync_run rw_ops demo_sync (sync_start (0, False) (\<lambda>t. t = 0)) = Some u" "sy_done u = 1"
    by (simp add: demo_sync_def sync_start_def write_function_def read_function_def goto_def rw_ops_def)
  show ?thesis
    using locked_counter_exact [OF spin.exclusion_axioms s(1), of 0]
      locked_counter_exact [OF rw.exclusion_axioms u(1), of 0] s u by auto
qed

text \<open>
  The completion orders the two threads: in every interleaving, whatever the reader prints
  is 1234, and the reader is past its wait only after the writer's loop has ended. The
  writer's loop does end, after 1234 increments, and then the reader prints.
\<close>

lemma completion_prints_1234:
  "(\<forall>v. cm_printed (comp_run ws comp_start) = Some v \<longrightarrow> v = 1234) \<and>
   (cm_rpc (comp_run ws comp_start) \<noteq> CWait \<longrightarrow> cm_wpc (comp_run ws comp_start) = CWExit) \<and>
   cm_printed (comp_run (replicate (2 * 1234 + 2) True @ [False, False]) comp_start) = Some 1234"
proof -
  have "comp_inv comp_start" by (simp add: comp_inv_def comp_start_def)
  from comp_run_inv [OF this] have "comp_inv (comp_run ws comp_start)" .
  moreover have "replicate (2 * 1234 + 2) True = replicate (2 * 1234) True @ [True, True]"
    by (simp only: replicate_add) (simp add: numeral_2_eq_2)
  then have "comp_run (replicate (2 * 1234 + 2) True @ [False, False]) comp_start =
      comp_run [True, True, False, False] (comp_start\<lparr>cm_counter := of_nat 1234\<rparr>)"
    using comp_counts [of 1234] by (simp only: comp_run_append le_refl append_assoc) simp
  then have "cm_printed (comp_run (replicate (2 * 1234 + 2) True @ [False, False]) comp_start) = Some 1234"
    by (simp add: comp_write_def comp_read_def comp_start_def)
  ultimately show ?thesis by (auto simp: comp_inv_def)
qed

lemma completion_prints_1234_witness:
  "cm_printed (comp_run [False, True] comp_start) \<noteq> Some 0 \<and>
   cm_printed (comp_run (replicate (2 * 1234 + 2) True @ [False, False]) comp_start) = Some 1234"
  using completion_prints_1234 [of "[False, True]"] by (auto simp del: comp_run.simps)

text \<open>The mutex of \<^verbatim>\<open>mutex.c\<close> and the completion of \<^verbatim>\<open>completion.c\<close> are never freed.\<close>

lemma mutex_leaks:
  assumes "threads_granted a" and "sa_mem a \<noteq> NULL"
  shows "kexec {#} (load_unload mutex_init mutex_exit a) = Some {#RMem (sa_mem a)#}"
proof -
  let ?H = "{#RMem (sa_mem a)#}"
  have "kexec {#} [Kmalloc (sa_mem a)] = Some ?H" using assms(2) by (simp add: kcall_simps)
  moreover have "load_unload mutex_init mutex_exit a = [Kmalloc (sa_mem a)] @
      (map Kthread_run (sa_readers a) @ [Kthread_run (sa_writer a)]) @
      (map Kthread_stop (sa_readers a) @ [Kthread_stop (sa_writer a)])"
    using assms(2) by (simp add: load_unload_def mutex_init_def mutex_exit_def)
  ultimately show ?thesis
    using kexec_threads(1) [OF assms(1), of ?H] kexec_threads(2) [OF assms(1), of ?H]
    by (simp only: kexec_append option.case add.commute)
qed

text \<open>
  Unloading \<^verbatim>\<open>completion.c\<close> after its reader has printed stops a thread that is gone: \<^verbatim>\<open>kthread_stop\<close>
  uses a task that nobody holds any more.
\<close>

lemma completion_stops_ended_threads:
  assumes "threads_granted a" and "sa_mem a \<noteq> NULL" and "sa_readers a = [rd]" and "rd \<noteq> sa_writer a"
    and "s = comp_run ws comp_start" and "cm_rpc s = CRExit"
  shows "kexec {#} (snd (snd (completion_init a)) @ comp_exits a s @ completion_exit a) = None"
proof -
  have "comp_inv comp_start" by (simp add: comp_inv_def comp_start_def)
  then have "comp_inv s" using comp_run_inv assms(5) by simp
  then have "cm_wpc s = CWExit" using assms(6) by (simp add: comp_inv_def)
  moreover have "rd \<noteq> NULL" "\<not> IS_ERR rd" "sa_writer a \<noteq> NULL" "\<not> IS_ERR (sa_writer a)"
    using assms(1,3) by (auto simp: threads_granted_def)
  ultimately show ?thesis
    using assms(2-4,6) by (simp add: completion_init_def comp_exits_def completion_exit_def kcall_simps)
qed

end
