(* ===== verification/C_Layout.thy ===== *)
theory C_Layout
  imports Kernel_Prelude
begin

text \<open>
  How C lays out the structures the programs share with the machine and with the kernel:
  \<^verbatim>\<open>struct tss64\<close> of \<^verbatim>\<open>kvm-test-lab/kvm-test.c\<close>, which the guest's processor reads, and
  \<^verbatim>\<open>struct sched_attr\<close> of \<^verbatim>\<open>sched-dl/patch-dl/test-dl.c\<close> and \<^verbatim>\<open>struct sched_param2\<close> of the
  scheduler patch, which cross the system call boundary. The rules are those of the x86-64
  System V ABI: a number of \<open>n\<close> bytes is aligned at \<open>n\<close>, an array like its elements, a structure
  like its most aligned field, with padding before fields and at the end; a packed structure
  has no padding and alignment 1. Numbers are stored with the least significant byte first.
\<close>

named_theorems layout_simps "evaluation of sizes, alignments and offsets"

section \<open>Types, sizes and offsets\<close>

datatype ctype = CNum nat | CArray nat ctype | CStruct bool "(string \<times> ctype) list"

definition align_up :: "nat \<Rightarrow> nat \<Rightarrow> nat" where
  "align_up a n = (n + (a - 1)) div a * a"

fun calign :: "ctype \<Rightarrow> nat" where
  "calign (CNum n) = n"
| "calign (CArray n t) = calign t"
| "calign (CStruct packed fs) = (if packed then 1 else foldr max (map (\<lambda>f. calign (snd f)) fs) 1)"

definition place :: "bool \<Rightarrow> nat \<Rightarrow> nat \<Rightarrow> nat" where
  "place packed a off = (if packed then off else align_up a off)"

fun c_end :: "bool \<Rightarrow> nat \<Rightarrow> (nat \<times> nat) list \<Rightarrow> nat" where
  "c_end packed off [] = off"
| "c_end packed off ((s, a) # fs) = c_end packed (place packed a off + s) fs"

fun csize :: "ctype \<Rightarrow> nat" where
  "csize (CNum n) = n"
| "csize (CArray n t) = n * csize t"
| "csize (CStruct packed fs) =
     align_up (calign (CStruct packed fs)) (c_end packed 0 (map (\<lambda>f. (csize (snd f), calign (snd f))) fs))"

text \<open>The fields of a structure with their offsets and types.\<close>

fun c_fields :: "bool \<Rightarrow> nat \<Rightarrow> (string \<times> ctype) list \<Rightarrow> (string \<times> nat \<times> ctype) list" where
  "c_fields packed off [] = []"
| "c_fields packed off ((x, t) # fs) =
     (let o1 = place packed (calign t) off in (x, o1, t) # c_fields packed (o1 + csize t) fs)"

text \<open>A designator such as \<^verbatim>\<open>tss->rsp[1]\<close> is a list of field names and indices.\<close>

datatype designator = Fld string | Idx nat

fun c_path :: "ctype \<Rightarrow> designator list \<Rightarrow> (nat \<times> ctype) option" where
  "c_path t [] = Some (0, t)"
| "c_path (CStruct packed fs) (Fld x # ds) =
     (case map_of (c_fields packed 0 fs) x of None \<Rightarrow> None
      | Some (o1, u) \<Rightarrow> (case c_path u ds of None \<Rightarrow> None | Some (o2, v) \<Rightarrow> Some (o1 + o2, v)))"
| "c_path (CArray n t) (Idx i # ds) =
     (if i < n then (case c_path t ds of None \<Rightarrow> None | Some (o2, v) \<Rightarrow> Some (i * csize t + o2, v)) else None)"
| "c_path t ds = None"

definition offsetof :: "ctype \<Rightarrow> designator list \<Rightarrow> nat" where
  "offsetof t ds = (case c_path t ds of None \<Rightarrow> 0 | Some (off, u) \<Rightarrow> off)"

text \<open>The types C programs have: numbers of 1, 2, 4 or 8 bytes, distinct field names.\<close>

fun c_wf :: "ctype \<Rightarrow> bool" where
  "c_wf (CNum n) = (n \<in> {1, 2, 4, 8})"
| "c_wf (CArray n t) = c_wf t"
| "c_wf (CStruct packed fs) = (distinct (map fst fs) \<and> (\<forall>f \<in> set fs. c_wf (snd f)))"

fun unpacked :: "ctype \<Rightarrow> bool" where
  "unpacked (CNum n) = True"
| "unpacked (CArray n t) = unpacked t"
| "unpacked (CStruct packed fs) = (\<not> packed \<and> (\<forall>f \<in> set fs. unpacked (snd f)))"

section \<open>Typed loads and stores\<close>

definition num_bytes :: "nat \<Rightarrow> u64 \<Rightarrow> bytes" where
  "num_bytes n v = map (\<lambda>i. ucast (drop_bit (8 * i) v)) [0..<n]"

fun bytes_num :: "bytes \<Rightarrow> u64" where
  "bytes_num [] = 0"
| "bytes_num (b # bs) = ucast b OR push_bit 8 (bytes_num bs)"

definition field_write :: "ctype \<Rightarrow> nat \<Rightarrow> designator list \<Rightarrow> u64 \<Rightarrow> (nat \<times> bytes) option" where
  "field_write t base ds v =
     (case c_path t ds of Some (off, CNum n) \<Rightarrow> Some (base + off, num_bytes n v) | _ \<Rightarrow> None)"

definition c_store :: "ctype \<Rightarrow> nat \<Rightarrow> designator list \<Rightarrow> u64 \<Rightarrow> bytes \<Rightarrow> bytes option" where
  "c_store t base ds v m =
     (case field_write t base ds v of None \<Rightarrow> None | Some (a, bs) \<Rightarrow> mem_write m a bs)"

definition c_load :: "ctype \<Rightarrow> nat \<Rightarrow> designator list \<Rightarrow> bytes \<Rightarrow> u64 option" where
  "c_load t base ds m =
     (case c_path t ds of Some (off, CNum n) \<Rightarrow> map_option bytes_num (mem_read m (base + off) n) | _ \<Rightarrow> None)"

fun c_stores :: "ctype \<Rightarrow> nat \<Rightarrow> (designator list \<times> u64) list \<Rightarrow> bytes \<Rightarrow> bytes option" where
  "c_stores t base [] m = Some m"
| "c_stores t base ((ds, v) # ws) m =
     (case c_store t base ds v m of None \<Rightarrow> None | Some m' \<Rightarrow> c_stores t base ws m')"

section \<open>The structures of the programs\<close>

abbreviation "uint32_t \<equiv> CNum 4"
abbreviation "uint64_t \<equiv> CNum 8"

definition tss64 :: ctype where
  "tss64 = CStruct True
     [(''reserved0'', uint32_t), (''rsp'', CArray 3 uint64_t), (''reserved1'', uint64_t),
      (''ist'', CArray 7 uint64_t), (''reserved2'', uint64_t), (''reserved3'', uint32_t),
      (''io_bitmap'', uint32_t)]"

definition sched_attr_t :: ctype where
  "sched_attr_t = CStruct False
     [(''size'', uint32_t), (''sched_policy'', uint32_t), (''sched_flags'', uint64_t),
      (''sched_nice'', uint32_t), (''sched_priority'', uint32_t), (''sched_runtime'', uint64_t),
      (''sched_deadline'', uint64_t), (''sched_period'', uint64_t)]"

definition sched_param2_t :: ctype where
  "sched_param2_t = CStruct False
     [(''sched_priority'', uint32_t), (''sched_flags'', uint32_t), (''sched_runtime'', uint64_t),
      (''sched_deadline'', uint64_t), (''sched_period'', uint64_t), (''__unused'', CArray 12 uint64_t)]"

definition program_structs :: "ctype list" where
  "program_structs = [tss64, sched_attr_t, sched_param2_t]"

section \<open>Alignment and size\<close>

lemma align_up_ge: "0 < a \<Longrightarrow> n \<le> align_up a n"
proof -
  assume "0 < a"
  have "n + (a - 1) = (n + (a - 1)) div a * a + (n + (a - 1)) mod a" by simp
  moreover have "(n + (a - 1)) mod a < a" using \<open>0 < a\<close> by simp
  ultimately show ?thesis using \<open>0 < a\<close> unfolding align_up_def by linarith
qed

lemma align_up_dvd [simp]: "a dvd align_up a n"
  by (simp add: align_up_def)

lemma align_up_1 [simp]: "align_up 1 n = n" "align_up (Suc 0) n = n"
  by (simp_all add: align_up_def)

lemma place_ge: "0 < a \<Longrightarrow> off \<le> place packed a off"
  by (simp add: place_def align_up_ge)

lemma pow2_max_dvd:
  "a \<in> {1, 2, 4, 8} \<Longrightarrow> b \<in> {1, 2, 4, 8} \<Longrightarrow> a dvd max a b \<and> b dvd max a b" for a b :: nat
  by auto

lemma foldr_max_pow2:
  "\<forall>a \<in> set as. a \<in> {1, 2, 4, 8} \<Longrightarrow>
   foldr max as 1 \<in> {1, 2, 4, 8} \<and> (\<forall>a \<in> set as. a dvd foldr max as (1 :: nat))"
proof (induction as)
  case (Cons a as)
  then have "foldr max as 1 \<in> {1, 2, 4, 8}" "\<forall>b \<in> set as. b dvd foldr max as 1" "a \<in> {1, 2, 4, 8}"
    by simp_all
  moreover from this have "a dvd max a (foldr max as 1)" "foldr max as 1 dvd max a (foldr max as 1)"
    using pow2_max_dvd [of a "foldr max as 1"] by simp_all
  moreover have "max a (foldr max as 1) = a \<or> max a (foldr max as 1) = foldr max as 1"
    by (simp add: max_def)
  ultimately show ?case by (metis dvd_trans foldr_Cons o_apply set_ConsD)
qed simp

lemma calign_pow2: "c_wf t \<Longrightarrow> calign t \<in> {1, 2, 4, 8}"
proof (induction t rule: calign.induct)
  case (3 packed fs)
  show ?case
  proof (cases packed)
    case False
    with 3 have "\<forall>a \<in> set (map (\<lambda>f. calign (snd f)) fs). a \<in> {1, 2, 4, 8}" by auto
    from foldr_max_pow2 [OF this] False show ?thesis by simp
  qed simp
qed simp_all

lemma calign_pos: "c_wf t \<Longrightarrow> 0 < calign t"
  using calign_pow2 [of t] by auto

lemma field_calign_dvd:
  assumes "c_wf (CStruct False fs)" "f \<in> set fs"
  shows "calign (snd f) dvd calign (CStruct False fs)"
proof -
  from assms have "\<forall>a \<in> set (map (\<lambda>f. calign (snd f)) fs). a \<in> {1, 2, 4, 8}" 
    using calign_pow2 by auto
  from foldr_max_pow2 [OF this] assms(2) show ?thesis by simp
qed

lemma calign_dvd_csize: "c_wf t \<Longrightarrow> calign t dvd csize t"
  by (induction t rule: calign.induct) auto

section \<open>Fields of a structure\<close>

abbreviation "c_measures fs \<equiv> map (\<lambda>f. (csize (snd f), calign (snd f))) fs"

lemma c_end_ge: "\<forall>f \<in> set fs. c_wf (snd f) \<Longrightarrow> off \<le> c_end packed off (c_measures fs)"
proof (induction fs arbitrary: off)
  case (Cons f fs)
  then have "off \<le> place packed (calign (snd f)) off" by (simp add: place_ge calign_pos)
  also have "\<dots> \<le> place packed (calign (snd f)) off + csize (snd f)" by simp
  also have "\<dots> \<le> c_end packed (place packed (calign (snd f)) off + csize (snd f)) (c_measures fs)"
    using Cons by simp
  finally show ?case by simp
qed simp

lemma c_fields_bounds:
  assumes "\<forall>f \<in> set fs. c_wf (snd f)" "(x, o1, t) \<in> set (c_fields packed off fs)"
  shows "off \<le> o1 \<and> o1 + csize t \<le> c_end packed off (c_measures fs) \<and> (x, t) \<in> set fs \<and>
         (\<not> packed \<longrightarrow> calign t dvd o1)"
  using assms
proof (induction fs arbitrary: off)
  case (Cons f fs)
  obtain y u where f: "f = (y, u)" by (cases f)
  let ?p = "place packed (calign u) off"
  have ge: "off \<le> ?p" using Cons.prems(1) by (simp add: f place_ge calign_pos)
  have wf: "\<forall>f \<in> set fs. c_wf (snd f)" using Cons.prems(1) by simp
  have le: "?p + csize u \<le> c_end packed (?p + csize u) (c_measures fs)" by (rule c_end_ge [OF wf])
  from Cons.prems(2) consider "(x, o1, t) = (y, ?p, u)" | "(x, o1, t) \<in> set (c_fields packed (?p + csize u) fs)"
    by (auto simp: f Let_def)
  then show ?case
  proof cases
    case 1
    then show ?thesis using ge le by (simp add: f place_def)
  next
    case 2
    from Cons.IH [OF wf 2] show ?thesis using ge by (auto simp: f)
  qed
qed simp

lemma fst_c_fields [simp]: "map fst (c_fields packed off fs) = map fst fs"
  by (induction packed off fs rule: c_fields.induct) (simp_all add: Let_def)

text \<open>Two fields never overlap.\<close>

lemma c_fields_disjoint:
  assumes "\<forall>f \<in> set fs. c_wf (snd f)" "distinct (map fst fs)"
    and "(x, o1, t) \<in> set (c_fields packed off fs)" "(y, o2, u) \<in> set (c_fields packed off fs)" "x \<noteq> y"
  shows "o1 + csize t \<le> o2 \<or> o2 + csize u \<le> o1"
  using assms
proof (induction fs arbitrary: off)
  case (Cons f fs)
  obtain z w where f: "f = (z, w)" by (cases f)
  let ?p = "place packed (calign w) off"
  have wf: "\<forall>f \<in> set fs. c_wf (snd f)" using Cons.prems(1) by simp
  have rest: "?p + csize w \<le> k" if "(v, k, s) \<in> set (c_fields packed (?p + csize w) fs)" for v k s
    using c_fields_bounds [OF wf that] by simp
  have "o1 + csize t \<le> o2 \<or> o2 + csize u \<le> o1"
    if "(x, o1, t) \<in> set (c_fields packed (?p + csize w) fs)" "(y, o2, u) \<in> set (c_fields packed (?p + csize w) fs)"
    using Cons.IH [OF wf _ that Cons.prems(5)] Cons.prems(2) by simp
  then show ?case using Cons.prems(3-5) rest by (auto simp: f Let_def)
qed simp

lemma c_end_csize: "c_wf (CStruct packed fs) \<Longrightarrow> c_end packed 0 (c_measures fs) \<le> csize (CStruct packed fs)"
  using calign_pos [of "CStruct packed fs"] by (simp add: align_up_ge del: calign.simps c_wf.simps)

section \<open>Designators\<close>

lemma c_path_inside:
  "c_wf t \<Longrightarrow> c_path t ds = Some (off, u) \<Longrightarrow> c_wf u \<and> off + csize u \<le> csize t"
proof (induction t ds arbitrary: off u rule: c_path.induct)
  case (2 packed fs x ds)
  then obtain o1 w o2 where m: "map_of (c_fields packed 0 fs) x = Some (o1, w)"
    and p: "c_path w ds = Some (o2, u)" and off: "off = o1 + o2"
    by (auto split: option.splits prod.splits)
  from 2(2) have wf: "\<forall>f \<in> set fs. c_wf (snd f)" by simp
  from c_fields_bounds [OF wf map_of_SomeD [OF m]] have
    b: "o1 + csize w \<le> c_end packed 0 (c_measures fs)" "(x, w) \<in> set fs" by simp_all
  then have "c_wf w" using wf by force
  with 2(1) m p have "c_wf u \<and> o2 + csize u \<le> csize w" by simp
  with b(1) c_end_csize [OF 2(2)] off show ?case by linarith
next
  case (3 n t i ds)
  then obtain o2 where p: "i < n" "c_path t ds = Some (o2, u)" "off = i * csize t + o2"
    by (auto split: option.splits if_splits)
  with 3 have "c_wf u" "o2 + csize u \<le> csize t" by simp_all
  moreover have "i * csize t + csize t \<le> n * csize t" using mult_le_mono1 [of "Suc i" n "csize t"] p(1) by simp
  ultimately show ?case using p(3) by simp
qed simp_all

lemma c_path_aligned:
  "c_wf t \<Longrightarrow> unpacked t \<Longrightarrow> c_path t ds = Some (off, u) \<Longrightarrow> calign u dvd off \<and> calign u dvd calign t"
proof (induction t ds arbitrary: off u rule: c_path.induct)
  case (2 packed fs x ds)
  then obtain o1 w o2 where m: "map_of (c_fields packed 0 fs) x = Some (o1, w)"
    and p: "c_path w ds = Some (o2, u)" and off: "off = o1 + o2"
    by (auto split: option.splits prod.splits)
  from 2(2,3) have wf: "\<forall>f \<in> set fs. c_wf (snd f)" and np: "\<not> packed" by simp_all
  from c_fields_bounds [OF wf map_of_SomeD [OF m]] np have b: "calign w dvd o1" "(x, w) \<in> set fs" by simp_all
  then have "c_wf w" "unpacked w" using wf 2(3) by force+
  with 2(1) m p have "calign u dvd o2" "calign u dvd calign w" by simp_all
  moreover have "calign w dvd calign (CStruct False fs)"
    using field_calign_dvd [of fs "(x, w)"] 2(2) b(2) np by simp
  ultimately have "calign u dvd o1" "calign u dvd o2" "calign u dvd calign (CStruct packed fs)"
    using b(1) np by (auto intro: dvd_trans simp del: calign.simps)
  then show ?case using off by simp
next
  case (3 n t i ds)
  then obtain o2 where p: "i < n" "c_path t ds = Some (o2, u)" "off = i * csize t + o2"
    by (auto split: option.splits if_splits)
  with 3 have "calign u dvd o2" "calign u dvd calign t" by simp_all
  moreover have "calign t dvd csize t" using 3(2) by (simp add: calign_dvd_csize)
  ultimately show ?case using p(3) by (auto intro: dvd_trans dvd_mult)
qed simp_all

text \<open>Two different designators of numbers never overlap.\<close>

lemma c_path_disjoint:
  "c_wf t \<Longrightarrow> c_path t ds = Some (o1, CNum n) \<Longrightarrow> c_path t es = Some (o2, CNum k) \<Longrightarrow> ds \<noteq> es \<Longrightarrow>
   o1 + n \<le> o2 \<or> o2 + k \<le> o1"
proof (induction t ds arbitrary: o1 o2 es rule: c_path.induct)
  case (1 t)
  then show ?case by (cases es) simp_all
next
  case (2 packed fs x ds)
  then obtain p1 w r1 where m: "map_of (c_fields packed 0 fs) x = Some (p1, w)"
    and p: "c_path w ds = Some (r1, CNum n)" and o1: "o1 = p1 + r1"
    by (auto split: option.splits prod.splits)
  from 2(2) have wf: "\<forall>f \<in> set fs. c_wf (snd f)" and d: "distinct (map fst fs)" by simp_all
  from 2(4) obtain y es' where es: "es = Fld y # es'" by (cases "(CStruct packed fs, es)" rule: c_path.cases) simp_all
  from 2(4) obtain p2 w' r2 where m': "map_of (c_fields packed 0 fs) y = Some (p2, w')"
    and p': "c_path w' es' = Some (r2, CNum k)" and o2: "o2 = p2 + r2"
    by (auto simp: es split: option.splits prod.splits)
  have in1: "(x, p1, w) \<in> set (c_fields packed 0 fs)" and in2: "(y, p2, w') \<in> set (c_fields packed 0 fs)"
    using map_of_SomeD [OF m] map_of_SomeD [OF m'] by simp_all
  have "(x, w) \<in> set fs" "(y, w') \<in> set fs"
    using c_fields_bounds [OF wf in1] c_fields_bounds [OF wf in2] by simp_all
  then have wfw: "c_wf w" "c_wf w'" using wf by force+
  show ?case
  proof (cases "x = y")
    case True
    then have "p2 = p1" "w' = w" using m m' by simp_all
    with p' have "c_path w es' = Some (r2, CNum k)" by simp
    from 2(1) [OF m refl wfw(1) p this] 2(5) True es o1 o2 \<open>p2 = p1\<close> show ?thesis by simp
  next
    case False
    from c_fields_disjoint [OF wf d in1 in2 False]
      c_path_inside [OF wfw(1) p] c_path_inside [OF wfw(2) p'] o1 o2
    show ?thesis by auto
  qed
next
  case (3 m t i ds)
  then obtain r1 where p: "i < m" "c_path t ds = Some (r1, CNum n)" "o1 = i * csize t + r1"
    by (auto split: option.splits if_splits)
  from 3(4) obtain j es' where es: "es = Idx j # es'" by (cases "(CArray m t, es)" rule: c_path.cases) simp_all
  with 3(4) obtain r2 where p': "j < m" "c_path t es' = Some (r2, CNum k)" "o2 = j * csize t + r2"
    by (auto split: option.splits if_splits)
  have wf: "c_wf t" using 3(2) by simp
  have in1: "r1 + n \<le> csize t" and in2: "r2 + k \<le> csize t"
    using c_path_inside [OF wf p(2)] c_path_inside [OF wf p'(2)] by simp_all
  have step: "a * csize t + csize t \<le> b * csize t" if "a < b" for a b
    using mult_le_mono1 [of "Suc a" b "csize t"] that by simp
  consider "i = j" | "i < j" | "j < i" by linarith
  then show ?case
  proof cases
    case 1
    with 3(1) [OF p(1) wf p(2) p'(2)] 3(5) es p(3) p'(3) show ?thesis by simp
  next
    case 2
    from step [OF 2] in1 p(3) p'(3) show ?thesis by linarith
  next
    case 3
    from step [OF 3] in2 p(3) p'(3) show ?thesis by linarith
  qed
qed simp_all

section \<open>Loads after stores\<close>

lemma length_num_bytes [simp]: "length (num_bytes n v) = n"
  by (simp add: num_bytes_def)

lemma num_bytes_Suc: "num_bytes (Suc n) v = ucast v # num_bytes n (drop_bit 8 v)"
proof -
  have "[0..<Suc n] = 0 # map Suc [0..<n]" by (simp only: upt_conv_Cons map_Suc_upt zero_less_Suc)
  then show ?thesis by (simp add: num_bytes_def add.commute del: upt_Suc)
qed

lemma num_bytes_le: "num_bytes 8 v = le64 v" "num_bytes 4 v = le32 (ucast v)"
proof -
  show "num_bytes 8 v = le64 v" by (simp add: num_bytes_def le64_def upt_rec)
  have "ucast (drop_bit (8 * i) (ucast v :: u32)) = (ucast (drop_bit (8 * i) v) :: u8)" if "i < 4" for i
    using that by (intro bit_eqI) (auto simp: bit_simps)
  from this [of 0] this [of 1] this [of 2] this [of 3] show "num_bytes 4 v = le32 (ucast v)"
    by (simp add: num_bytes_def le32_def upt_rec)
qed

lemma bytes_num_bytes: "bytes_num (num_bytes n v) = take_bit (8 * n) v"
proof (induction n arbitrary: v)
  case 0
  then show ?case by (simp add: num_bytes_def)
next
  case (Suc n)
  have "ucast (ucast v :: u8) OR push_bit 8 (take_bit (8 * n) (drop_bit 8 v)) = take_bit (8 * Suc n) v"
    by (rule bit_eqI) (auto simp: bit_simps not_le)
  with Suc show ?case by (simp add: num_bytes_Suc)
qed

lemma c_load_num:
  "c_path t ds = Some (off, CNum n) \<Longrightarrow> base + off + n \<le> length m \<Longrightarrow>
   c_load t base ds m = Some (bytes_num (take n (drop (base + off) m)))"
  by (simp add: c_load_def mem_read_def)

lemma c_store_num:
  "c_path t ds = Some (off, CNum n) \<Longrightarrow> base + off + n \<le> length m \<Longrightarrow>
   c_store t base ds v m = Some (mem_splice m (base + off) (num_bytes n v))"
  by (simp add: c_store_def field_write_def mem_write_def)

lemma c_load_cases:
  assumes "c_wf t" "base + csize t \<le> length m"
  shows "c_load t base ds m = None \<and> (\<forall>m'. c_load t base ds m' = None) \<or>
    (\<exists>off n. c_path t ds = Some (off, CNum n) \<and> base + off + n \<le> length m)"
proof (cases "\<exists>off n. c_path t ds = Some (off, CNum n)")
  case True
  then obtain off n where "c_path t ds = Some (off, CNum n)" by blast
  with c_path_inside [OF assms(1) this] assms(2) show ?thesis by simp
next
  case False
  then show ?thesis by (auto simp: c_load_def split: option.splits ctype.splits)
qed

lemma store_load_other:
  assumes "c_wf t" "base + csize t \<le> length m" "c_path t ds = Some (off, CNum n)" "es \<noteq> ds"
  shows "c_load t base es (mem_splice m (base + off) (num_bytes n v)) = c_load t base es m"
proof -
  have inside: "base + off + n \<le> length m" using c_path_inside [OF assms(1,3)] assms(2) by simp
  from c_load_cases [OF assms(1,2)] consider "\<forall>m'. c_load t base es m' = None" 
    | o2 k where "c_path t es = Some (o2, CNum k)" "base + o2 + k \<le> length m" by blast
  then show ?thesis
  proof cases
    case 2
    from c_path_disjoint [OF assms(1,3) 2(1)] assms(4) have "off + n \<le> o2 \<or> o2 + k \<le> off" by auto
    then have "take k (drop (base + o2) (mem_splice m (base + off) (num_bytes n v))) = take k (drop (base + o2) m)"
      using inside by (intro take_drop_splice_other) auto
    with 2 inside show ?thesis by (simp add: c_load_num)
  qed simp
qed

lemma c_store_load:
  assumes "c_wf t" "base + csize t \<le> length m" "c_path t ds = Some (off, CNum n)"
  shows "\<exists>m'. c_store t base ds v m = Some m' \<and> length m' = length m \<and>
    c_load t base ds m' = Some (take_bit (8 * n) v) \<and>
    (\<forall>es. es \<noteq> ds \<longrightarrow> c_load t base es m' = c_load t base es m) \<and>
    (\<forall>i < length m. i < base \<or> base + csize t \<le> i \<longrightarrow> m' ! i = m ! i)"
proof -
  have off: "off + n \<le> csize t" using c_path_inside [OF assms(1,3)] by simp
  then have inside: "base + off + n \<le> length m" using assms(2) by simp
  let ?m = "mem_splice m (base + off) (num_bytes n v)"
  have "c_load t base ds ?m = Some (take_bit (8 * n) v)"
    using inside take_drop_splice_same [of "base + off" "num_bytes n v" m]
    by (simp add: c_load_num [OF assms(3)] bytes_num_bytes)
  moreover have "?m ! i = m ! i" if "i < length m" "i < base \<or> base + csize t \<le> i" for i
    using that inside off by (auto simp: nth_mem_splice)
  ultimately show ?thesis
    using inside store_load_other [OF assms] by (simp add: c_store_num [OF assms(3)])
qed

text \<open>Several stores: the last value of each field stays, the other fields keep theirs.\<close>

lemma c_stores_load:
  assumes "c_wf t" "base + csize t \<le> length m" "distinct (map fst ws)"
    and "\<forall>w \<in> set ws. \<exists>off n. c_path t (fst w) = Some (off, CNum n)"
  shows "\<exists>m'. c_stores t base ws m = Some m' \<and> length m' = length m \<and>
    (\<forall>ds v off n. (ds, v) \<in> set ws \<longrightarrow> c_path t ds = Some (off, CNum n) \<longrightarrow>
       c_load t base ds m' = Some (take_bit (8 * n) v)) \<and>
    (\<forall>es. es \<notin> fst ` set ws \<longrightarrow> c_load t base es m' = c_load t base es m)"
  using assms(2-4)
proof (induction ws arbitrary: m)
  case (Cons w ws)
  obtain ds v where w: "w = (ds, v)" by (cases w)
  obtain off n where p: "c_path t ds = Some (off, CNum n)" using Cons.prems(3) by (auto simp: w)
  obtain m1 where m1: "c_store t base ds v m = Some m1" "length m1 = length m"
      "c_load t base ds m1 = Some (take_bit (8 * n) v)" "\<forall>es. es \<noteq> ds \<longrightarrow> c_load t base es m1 = c_load t base es m"
    using c_store_load [OF assms(1) Cons.prems(1) p, of v] by blast
  have "base + csize t \<le> length m1" "distinct (map fst ws)" "\<forall>w \<in> set ws. \<exists>off n. c_path t (fst w) = Some (off, CNum n)"
    using Cons.prems m1(2) by simp_all
  from Cons.IH [OF this] obtain m' where m': "c_stores t base ws m1 = Some m'" "length m' = length m1"
      "\<forall>ds v off n. (ds, v) \<in> set ws \<longrightarrow> c_path t ds = Some (off, CNum n) \<longrightarrow>
         c_load t base ds m' = Some (take_bit (8 * n) v)"
      "\<forall>es. es \<notin> fst ` set ws \<longrightarrow> c_load t base es m' = c_load t base es m1"
    by blast
  have "ds \<notin> fst ` set ws" using Cons.prems(2) by (simp add: w)
  then have "c_load t base ds m' = Some (take_bit (8 * n) v)" using m'(4) m1(3) by simp
  then show ?case using m' m1 p by (auto simp: w)
qed simp

lemma program_structs_wf: "t \<in> set program_structs \<Longrightarrow> c_wf t"
  by (auto simp: program_structs_def tss64_def sched_attr_t_def sched_param2_t_def)

lemmas layout_defs = place_def align_up_def max_def
lemmas struct_defs = tss64_def sched_attr_t_def sched_param2_t_def

lemma tss64_layout [simp]:
  "csize tss64 = 108" "c_path tss64 [Fld ''rsp'', Idx 0] = Some (4, uint64_t)"
  "c_path tss64 [Fld ''rsp'', Idx (Suc 0)] = Some (12, uint64_t)" "c_path tss64 [Fld ''rsp'', Idx 2] = Some (20, uint64_t)"
  "c_path tss64 [Fld ''io_bitmap''] = Some (104, uint32_t)"
  by (simp_all add: tss64_def layout_defs)

lemma sched_attr_layout [simp]:
  "csize sched_attr_t = 48" "c_path sched_attr_t [Fld ''size''] = Some (0, uint32_t)"
  "c_path sched_attr_t [Fld ''sched_policy''] = Some (4, uint32_t)"
  "c_path sched_attr_t [Fld ''sched_flags''] = Some (8, uint64_t)"
  "c_path sched_attr_t [Fld ''sched_nice''] = Some (16, uint32_t)"
  "c_path sched_attr_t [Fld ''sched_priority''] = Some (20, uint32_t)"
  "c_path sched_attr_t [Fld ''sched_runtime''] = Some (24, uint64_t)"
  "c_path sched_attr_t [Fld ''sched_deadline''] = Some (32, uint64_t)"
  "c_path sched_attr_t [Fld ''sched_period''] = Some (40, uint64_t)"
  by (simp_all add: sched_attr_t_def layout_defs)

lemma sched_param2_layout [simp]:
  "csize sched_param2_t = 128" "c_path sched_param2_t [Fld ''sched_priority''] = Some (0, uint32_t)"
  "c_path sched_param2_t [Fld ''sched_flags''] = Some (4, uint32_t)"
  "c_path sched_param2_t [Fld ''sched_runtime''] = Some (8, uint64_t)"
  "c_path sched_param2_t [Fld ''sched_deadline''] = Some (16, uint64_t)"
  "c_path sched_param2_t [Fld ''sched_period''] = Some (24, uint64_t)"
  by (simp_all add: sched_param2_t_def layout_defs)

section \<open>Typed access\<close>



end
