(* ===== verification/Kvm_Guest.thy ===== *)
theory Kvm_Guest
  imports C_Layout
begin

text \<open>
  The virtual machine of \<^verbatim>\<open>kvm-test-lab/kvm-test.c\<close>: the guest memory and the special registers
  that \<^verbatim>\<open>test\<close> prepares before it runs the guest, that is the segment descriptors, the task
  state, the interrupt gates, the page tables and the two pieces of guest code. The guest
  has 64 KiB of memory. What \<^verbatim>\<open>test\<close> does to it is a sequence of writes in program order; the
  calls of KVM that follow only read what was prepared (\<open>Kvm_Program\<close> has them). A field of a C
  structure that \<^verbatim>\<open>test\<close> never sets (\<^verbatim>\<open>avl\<close> of the segments) is a parameter.
\<close>

section \<open>Guest memory\<close>

type_synonym gmem = "nat \<Rightarrow> u8"
type_synonym gwrite = "nat \<times> bytes"

definition guest_mem_size :: nat where
  "guest_mem_size = 64 * 1024"

definition in_guest :: "gwrite \<Rightarrow> bool" where
  "in_guest w \<longleftrightarrow> fst w + length (snd w) \<le> guest_mem_size"

definition poke :: "gwrite \<Rightarrow> gmem \<Rightarrow> gmem" where
  "poke w m = (\<lambda>x. if fst w \<le> x \<and> x < fst w + length (snd w) then snd w ! (x - fst w) else m x)"

fun pokes :: "gwrite list \<Rightarrow> gmem \<Rightarrow> gmem" where
  "pokes [] m = m"
| "pokes (w # ws) m = pokes ws (poke w m)"

text \<open>Loading a 64-bit number, least significant byte first.\<close>

definition load64 :: "gmem \<Rightarrow> nat \<Rightarrow> u64" where
  "load64 m a = ucast (m a) OR push_bit 8 (ucast (m (a + 1))) OR push_bit 16 (ucast (m (a + 2))) OR
     push_bit 24 (ucast (m (a + 3))) OR push_bit 32 (ucast (m (a + 4))) OR
     push_bit 40 (ucast (m (a + 5))) OR push_bit 48 (ucast (m (a + 6))) OR push_bit 56 (ucast (m (a + 7)))"

section \<open>Flags\<close>

definition CR0_PE :: u64 where "CR0_PE = 1"
definition CR0_NE :: u64 where "CR0_NE = push_bit 5 1"
definition CR4_PAE :: u64 where "CR4_PAE = push_bit 5 1"
definition CR4_PCE :: u64 where "CR4_PCE = push_bit 8 1"
definition CR4_OSFXSR :: u64 where "CR4_OSFXSR = push_bit 8 1"
definition EFER_LME :: u64 where "EFER_LME = push_bit 8 1"
definition PDE64_PRESENT :: u64 where "PDE64_PRESENT = 1"
definition PDE64_RW :: u64 where "PDE64_RW = push_bit 1 1"
definition PDE64_USER :: u64 where "PDE64_USER = push_bit 2 1"
definition PDE64_PS :: u64 where "PDE64_PS = push_bit 7 1"

text \<open>
  All masks of the file, by register. A mask is an expression \<^verbatim>\<open>1 << n\<close> of type \<^verbatim>\<open>int\<close>; a 64-bit
  register it is assigned to gets the converted value.
\<close>

definition c_flag :: "nat \<Rightarrow> u64" where
  "c_flag n = ulong_of_int (push_bit n 1)"

definition CR0_flags :: "(string \<times> u64) list" where
  "CR0_flags =
    [(''PE'', 1), (''MP'', c_flag 1), (''EM'', c_flag 2), (''TS'', c_flag 3),
     (''ET'', c_flag 4), (''NE'', c_flag 5), (''WP'', c_flag 16), (''AM'', c_flag 18),
     (''NW'', c_flag 29), (''CD'', c_flag 30), (''PG'', c_flag 31)]"

definition CR4_flags :: "(string \<times> u64) list" where
  "CR4_flags =
    [(''VME'', 1), (''PVI'', c_flag 1), (''TSD'', c_flag 2), (''DE'', c_flag 3),
     (''PSE'', c_flag 4), (''PAE'', c_flag 5), (''MCE'', c_flag 6), (''PGE'', c_flag 7),
     (''PCE'', c_flag 8), (''OSFXSR'', c_flag 8), (''OSXMMEXCPT'', c_flag 10),
     (''UMIP'', c_flag 11), (''VMXE'', c_flag 13), (''SMXE'', c_flag 14),
     (''FSGSBASE'', c_flag 16), (''PCIDE'', c_flag 17), (''OSXSAVE'', c_flag 18),
     (''SMEP'', c_flag 20), (''SMAP'', c_flag 21), (''PKE'', c_flag 22)]"

definition EFER_flags :: "(string \<times> u64) list" where
  "EFER_flags =
    [(''SCE'', 1), (''LME'', c_flag 8), (''LMA'', c_flag 10), (''NXE'', c_flag 11),
     (''SVME'', c_flag 12), (''LMSLE'', c_flag 13), (''FFXSR'', c_flag 14),
     (''TCE'', c_flag 15)]"

definition PDE32_flags :: "(string \<times> u64) list" where
  "PDE32_flags =
    [(''PRESENT'', 1), (''RW'', c_flag 1), (''USER'', c_flag 2), (''PS'', c_flag 7)]"

definition PDE64_flags :: "(string \<times> u64) list" where
  "PDE64_flags =
    [(''PRESENT'', 1), (''RW'', c_flag 1), (''USER'', c_flag 2), (''ACCESSED'', c_flag 5),
     (''DIRTY'', c_flag 6), (''PS'', c_flag 7), (''G'', c_flag 8)]"

lemmas flag_tables = CR0_flags_def CR4_flags_def EFER_flags_def PDE32_flags_def PDE64_flags_def c_flag_def
  ulong_of_int_def

text \<open>
  The masks that \<^verbatim>\<open>test\<close> uses are those of the tables. In each register the masks are different,
  except that \<^verbatim>\<open>CR4_PCE\<close> and \<^verbatim>\<open>CR4_OSFXSR\<close> are both bit 8; and \<^verbatim>\<open>CR0_PG\<close>, which \<^verbatim>\<open>test\<close> does not use,
  is negative and would set the upper half of the register.
\<close>

lemma flags_in_tables:
  "map_of CR0_flags ''PE'' = Some CR0_PE" "map_of CR0_flags ''NE'' = Some CR0_NE"
  "map_of CR4_flags ''PAE'' = Some CR4_PAE" "map_of EFER_flags ''LME'' = Some EFER_LME"
  "map_of PDE64_flags ''PRESENT'' = Some PDE64_PRESENT" "map_of PDE64_flags ''RW'' = Some PDE64_RW"
  "map_of PDE64_flags ''USER'' = Some PDE64_USER" "map_of PDE64_flags ''PS'' = Some PDE64_PS"
  by (simp_all add: flag_tables CR0_PE_def CR0_NE_def CR4_PAE_def EFER_LME_def PDE64_PRESENT_def
      PDE64_RW_def PDE64_USER_def PDE64_PS_def)

lemma flags_distinct:
  "distinct (map snd CR0_flags)" "distinct (map snd EFER_flags)" "distinct (map snd PDE32_flags)"
  "distinct (map snd PDE64_flags)" "distinct (map snd (filter (\<lambda>f. fst f \<noteq> ''OSFXSR'') CR4_flags))"
  "map_of CR4_flags ''OSFXSR'' = map_of CR4_flags ''PCE''"
  "map_of CR0_flags ''PG'' = Some 0xffffffff80000000"
  by (simp_all add: flag_tables)

lemmas flag_defs = CR0_PE_def CR0_NE_def CR4_PAE_def CR4_PCE_def CR4_OSFXSR_def EFER_LME_def
  PDE64_PRESENT_def PDE64_RW_def PDE64_USER_def PDE64_PS_def

section \<open>Segment descriptors\<close>

record kvm_segment =
  seg_base :: u64
  seg_limit :: u32
  seg_selector :: u16
  seg_type :: u8
  seg_present :: u8
  seg_dpl :: u8
  seg_db :: u8
  seg_s :: u8
  seg_l :: u8
  seg_g :: u8
  seg_avl :: u8

definition segment_descriptor :: "kvm_segment \<Rightarrow> u64" where
  "segment_descriptor seg =
     (let limit = (if seg_g seg \<noteq> 0 then drop_bit 12 (seg_limit seg) else seg_limit seg) in
      ucast (limit AND 0xffff)
      OR push_bit 16 (seg_base seg AND 0xffffff)
      OR push_bit 40 (ucast (seg_type seg))
      OR push_bit 44 (ucast (seg_s seg))
      OR push_bit 45 (ucast (seg_dpl seg))
      OR push_bit 47 (ucast (seg_present seg))
      OR push_bit 48 (ucast limit AND 0xf0000)
      OR push_bit 52 (ucast (seg_avl seg))
      OR push_bit 53 (ucast (seg_l seg))
      OR push_bit 54 (ucast (seg_db seg))
      OR push_bit 55 (ucast (seg_g seg))
      OR push_bit 56 (seg_base seg AND 0xff000000))"

text \<open>\<^verbatim>\<open>fill_segment_descriptor(dt, lt, seg)\<close>; the parameter \<^verbatim>\<open>lt\<close> is not used.\<close>

definition fill_segment_descriptor :: "nat \<Rightarrow> kvm_segment \<Rightarrow> gwrite" where
  "fill_segment_descriptor dt seg =
     (let index = drop_bit 3 (seg_selector seg) in (dt + 8 * unat index, le64 (segment_descriptor seg)))"

definition seg_cs16 :: "u8 \<Rightarrow> kvm_segment" where
  "seg_cs16 avl = \<lparr>seg_base = 0, seg_limit = 0xfffff, seg_selector = push_bit 3 1, seg_type = 11,
     seg_present = 1, seg_dpl = 0, seg_db = 0, seg_s = 1, seg_l = 0, seg_g = 0, seg_avl = avl\<rparr>"

definition seg_ds16 :: "u8 \<Rightarrow> kvm_segment" where
  "seg_ds16 avl = (seg_cs16 avl)\<lparr>seg_selector := push_bit 3 2, seg_type := 3\<rparr>"

definition seg_cs32 :: "u8 \<Rightarrow> kvm_segment" where
  "seg_cs32 avl = (seg_cs16 avl)\<lparr>seg_selector := push_bit 3 5, seg_db := 1\<rparr>"

definition seg_ds32 :: "u8 \<Rightarrow> kvm_segment" where
  "seg_ds32 avl = (seg_ds16 avl)\<lparr>seg_selector := push_bit 3 6, seg_db := 1\<rparr>"

definition seg_cs64 :: "u8 \<Rightarrow> kvm_segment" where
  "seg_cs64 avl = (seg_cs16 avl)\<lparr>seg_selector := push_bit 3 9, seg_l := 1\<rparr>"

definition task_base :: nat where
  "task_base = 0x500"

definition seg_tss_32 :: "u8 \<Rightarrow> kvm_segment" where
  "seg_tss_32 avl = \<lparr>seg_base = of_nat task_base, seg_limit = 0xff, seg_selector = push_bit 3 11, seg_type = 9,
     seg_present = 1, seg_dpl = 0, seg_db = 0, seg_s = 0, seg_l = 0, seg_g = 0, seg_avl = avl\<rparr>"

definition seg_tss_64 :: "u8 \<Rightarrow> kvm_segment" where
  "seg_tss_64 avl = (seg_tss_32 avl)\<lparr>seg_selector := push_bit 3 16, seg_base := of_nat task_base + 0x400,
     seg_limit := 0x1ff\<rparr>"

definition gdt_base :: nat where
  "gdt_base = 0x1000"

text \<open>The twelve segments in the order of the code; \<open>a\<close> and \<open>b\<close> are the two unset \<^verbatim>\<open>avl\<close> fields.\<close>

definition gdt_writes :: "u8 \<Rightarrow> u8 \<Rightarrow> gwrite list" where
  "gdt_writes a b =
     map (fill_segment_descriptor gdt_base)
       [seg_cs16 a, seg_ds16 a,
        (seg_cs16 a)\<lparr>seg_selector := push_bit 3 3 + 3, seg_dpl := 3\<rparr>,
        (seg_ds16 a)\<lparr>seg_selector := push_bit 3 4 + 3, seg_dpl := 3\<rparr>,
        seg_cs32 a, seg_ds32 a,
        (seg_cs32 a)\<lparr>seg_selector := push_bit 3 7 + 3, seg_dpl := 3\<rparr>,
        (seg_ds32 a)\<lparr>seg_selector := push_bit 3 8 + 3, seg_dpl := 3\<rparr>,
        seg_cs64 a,
        (seg_cs64 a)\<lparr>seg_selector := push_bit 3 10 + 3, seg_dpl := 3\<rparr>,
        seg_tss_32 b, seg_tss_64 b]
     @ [(gdt_base + 8 * (16 + 1), le64 0)]"

section \<open>Task state, interrupt gates, page tables\<close>

text \<open>The assignments to \<^verbatim>\<open>*tss\<close>, after the \<^verbatim>\<open>memset\<close> of the whole structure.\<close>

definition tss_fields :: "(designator list \<times> u64) list" where
  "tss_fields = [([Fld ''rsp'', Idx 0], 0x100), ([Fld ''rsp'', Idx 1], 0x100), ([Fld ''rsp'', Idx 2], 0x100),
                 ([Fld ''io_bitmap''], of_nat (offsetof tss64 [Fld ''io_bitmap'']))]"

definition tss_writes :: "gwrite list" where
  "tss_writes =
     (let tss = task_base + 0x400 in
      (tss, replicate (csize tss64) 0) #
      List.map_filter (\<lambda>(ds, v). field_write tss64 tss ds v) tss_fields)"

text \<open>\<^verbatim>\<open>struct tss64\<close> is packed: 108 bytes, \<^verbatim>\<open>rsp\<close> at 4, \<^verbatim>\<open>io_bitmap\<close> at 104.\<close>

lemma tss_writes_eq:
  "tss_writes =
     (let tss = task_base + 0x400 in
      [(tss, replicate 108 0), (tss + 4, le64 0x100), (tss + 12, le64 0x100), (tss + 20, le64 0x100),
       (tss + 104, le32 104)])"
  by (simp add: tss_writes_def tss_fields_def offsetof_def field_write_def List.map_filter_def num_bytes_le Let_def)

definition idt_base :: nat where
  "idt_base = task_base + 0x600"

definition idt_gate :: "u8 \<Rightarrow> nat \<Rightarrow> u64" where
  "idt_gate a i = of_nat (0x600 + i) OR push_bit 16 (ucast (seg_selector (seg_cs64 a)))
     OR push_bit 40 14 OR push_bit 47 1"

text \<open>One turn of the loop: the gate, its upper half, and the handler's one instruction \<^verbatim>\<open>hlt\<close>.\<close>

definition idt_turn :: "u8 \<Rightarrow> nat \<Rightarrow> gwrite list" where
  "idt_turn a i = [(idt_base + 8 * (i * 2), le64 (idt_gate a i)), (idt_base + 8 * (i * 2 + 1), le64 0),
                   (0x600 + i, [0xf4])]"

definition idt_writes :: "u8 \<Rightarrow> gwrite list" where
  "idt_writes a = concat (map (idt_turn a) [0..<32])"

definition page_table_writes :: "gwrite list" where
  "page_table_writes =
     [(0x3000, le64 (PDE64_PRESENT OR PDE64_RW OR PDE64_USER OR 0x4000)),
      (0x4000, le64 (PDE64_PRESENT OR PDE64_RW OR PDE64_USER OR 0x5000)),
      (0x5000, le64 (PDE64_PRESENT OR PDE64_RW OR PDE64_USER OR PDE64_PS))]"

section \<open>The special registers\<close>

text \<open>What \<^verbatim>\<open>test\<close> touches of \<^verbatim>\<open>struct kvm_sregs\<close>.\<close>

record kvm_sregs =
  sr_cr0 :: u64
  sr_cr3 :: u64
  sr_cr4 :: u64
  sr_efer :: u64
  sr_gdt_base :: u64
  sr_gdt_limit :: u16
  sr_idt_base :: u64
  sr_idt_limit :: u16
  sr_ldt_limit :: u32
  sr_cs :: kvm_segment
  sr_ds :: kvm_segment      \<comment> \<open>also \<^verbatim>\<open>es\<close>, \<^verbatim>\<open>fs\<close>, \<^verbatim>\<open>gs\<close> and \<^verbatim>\<open>ss\<close>\<close>

definition setup_sregs :: "u8 \<Rightarrow> kvm_sregs \<Rightarrow> kvm_sregs" where
  "setup_sregs a sregs =
     (let sregs = sregs\<lparr>sr_cr0 := 0, sr_cr4 := 0, sr_efer := 0,
                        sr_gdt_base := of_nat gdt_base, sr_gdt_limit := 24 * 8 - 1\<rparr>;
          sregs = sregs\<lparr>sr_efer := sr_efer sregs OR EFER_LME, sr_cr0 := sr_cr0 sregs OR CR0_PE\<rparr>;
          sregs = sregs\<lparr>sr_idt_base := of_nat idt_base, sr_ldt_limit := 0x1ff\<rparr>;
          sregs = sregs\<lparr>sr_cs := seg_cs32 a, sr_ds := seg_ds32 a, sr_cr3 := 0x3000\<rparr> in
      sregs\<lparr>sr_cr4 := sr_cr4 sregs OR CR4_PAE, sr_cr0 := sr_cr0 sregs OR CR0_NE\<rparr>)"

section \<open>The guest code\<close>

definition init_vm_a :: bytes where
  "init_vm_a = [
    0x0f, 0x20, 0xc0, 0x0d, 0x00, 0x00, 0x00, 0x80, 0x0f, 0x22, 0xc0, 0xea, 0xde, 0xc0, 0xad, 0x0b,
    0x48, 0x00, 0x48, 0xc7, 0xc0, 0x80, 0x00, 0x00, 0x00, 0x0f, 0x00, 0xd8, 0x48, 0xc7, 0xc1, 0x3a,
    0x00, 0x00, 0x00, 0x0f, 0x32, 0x48, 0x83, 0xc8, 0x05, 0x0f, 0x30, 0x0f, 0x20, 0xe0, 0x48, 0x0d,
    0x00, 0x20, 0x00, 0x00, 0x0f, 0x22, 0xe0, 0x48, 0xc7, 0xc1, 0x80, 0x04, 0x00, 0x00, 0x0f, 0x32,
    0x48, 0xc7, 0xc2, 0x00, 0x60, 0x00, 0x00, 0x89, 0x02, 0x48, 0xc7, 0xc2, 0x00, 0x70, 0x00, 0x00,
    0x89, 0x02, 0x48, 0xc7, 0xc0, 0x00, 0x5f, 0x00, 0x00, 0xf3, 0x0f, 0xc7, 0x30, 0x48, 0xc7, 0xc0,
    0x08, 0x5f, 0x00, 0x00, 0x66, 0x0f, 0xc7, 0x30, 0x0f, 0xc7, 0x30, 0x48, 0xc7, 0xc1, 0x81, 0x04,
    0x00, 0x00, 0x0f, 0x32, 0x48, 0x83, 0xc8, 0x3f, 0x48, 0x21, 0xd0, 0x48, 0xc7, 0xc2, 0x00, 0x40,
    0x00, 0x00, 0x0f, 0x79, 0xd0, 0x48, 0xc7, 0xc2, 0x02, 0x40, 0x00, 0x00, 0x48, 0xc7, 0xc0, 0x84,
    0x9e, 0x99, 0x61, 0x0f, 0x79, 0xd0, 0x48, 0xc7, 0xc2, 0x1e, 0x40, 0x00, 0x00, 0x48, 0xc7, 0xc0,
    0x00, 0x00, 0x00, 0x00, 0x0f, 0x79, 0xd0, 0x48, 0xc7, 0xc1, 0x83, 0x04, 0x00, 0x00, 0x0f, 0x32,
    0x48, 0x0d, 0xff, 0x6f, 0x03, 0x00, 0x48, 0x21, 0xd0, 0x48, 0xc7, 0xc2, 0x0c, 0x40, 0x00, 0x00,
    0x0f, 0x79, 0xd0, 0x48, 0xc7, 0xc1, 0x84, 0x04, 0x00, 0x00, 0x0f, 0x32, 0x48, 0x0d, 0xff, 0x13,
    0x00, 0x00, 0x48, 0x21, 0xd0, 0x48, 0xc7, 0xc2, 0x12, 0x40, 0x00, 0x00, 0x0f, 0x79, 0xd0, 0x48,
    0xc7, 0xc2, 0x04, 0x2c, 0x00, 0x00, 0x48, 0xc7, 0xc0, 0x00, 0x00, 0x00, 0x00, 0x0f, 0x79, 0xd0,
    0x48, 0xc7, 0xc2, 0x00, 0x28, 0x00, 0x00, 0x48, 0xc7, 0xc0, 0xff, 0xff, 0xff, 0xff, 0x0f, 0x79,
    0xd0, 0x48, 0xc7, 0xc2, 0x02, 0x0c, 0x00, 0x00, 0x48, 0xc7, 0xc0, 0x48, 0x00, 0x00, 0x00, 0x0f,
    0x79, 0xd0, 0x48, 0xc7, 0xc0, 0x30, 0x00, 0x00, 0x00, 0x48, 0xc7, 0xc2, 0x00, 0x0c, 0x00, 0x00,
    0x0f, 0x79, 0xd0, 0x48, 0xc7, 0xc2, 0x04, 0x0c, 0x00, 0x00, 0x0f, 0x79, 0xd0, 0x48, 0xc7, 0xc2,
    0x06, 0x0c, 0x00, 0x00, 0x0f, 0x79, 0xd0, 0x48, 0xc7, 0xc2, 0x08, 0x0c, 0x00, 0x00, 0x0f, 0x79,
    0xd0, 0x48, 0xc7, 0xc2, 0x0a, 0x0c, 0x00, 0x00, 0x0f, 0x79, 0xd0, 0x48, 0xc7, 0xc0, 0x80, 0x00,
    0x00, 0x00, 0x48, 0xc7, 0xc2, 0x0c, 0x0c, 0x00, 0x00, 0x0f, 0x79, 0xd0, 0x48, 0xc7, 0xc2, 0x02,
    0x2c, 0x00, 0x00, 0x48, 0xc7, 0xc0, 0x00, 0x05, 0x00, 0x00, 0x0f, 0x79, 0xd0, 0x48, 0xc7, 0xc2,
    0x00, 0x4c, 0x00, 0x00, 0x48, 0xc7, 0xc0, 0x48, 0x00, 0x00, 0x00, 0x0f, 0x79, 0xd0, 0x48, 0xc7,
    0xc2, 0x10, 0x6c, 0x00, 0x00, 0x48, 0xc7, 0xc0, 0x00, 0x00, 0x00, 0x00, 0x0f, 0x79, 0xd0, 0x48,
    0xc7, 0xc2, 0x12, 0x6c, 0x00, 0x00, 0x48, 0xc7, 0xc0, 0x00, 0x00, 0x00, 0x00, 0x0f, 0x79, 0xd0,
    0x0f, 0x20, 0xc0, 0x48, 0xc7, 0xc2, 0x00, 0x6c, 0x00, 0x00, 0x48, 0x89, 0xc0, 0x0f, 0x79, 0xd0,
    0x0f, 0x20, 0xd8, 0x48, 0xc7, 0xc2, 0x02, 0x6c, 0x00, 0x00, 0x48, 0x89, 0xc0, 0x0f, 0x79, 0xd0,
    0x0f, 0x20, 0xe0, 0x48, 0xc7, 0xc2, 0x04, 0x6c, 0x00, 0x00, 0x48, 0x89, 0xc0, 0x0f, 0x79, 0xd0,
    0x48, 0xc7, 0xc2, 0x06, 0x6c, 0x00, 0x00, 0x48, 0xc7, 0xc0, 0x00, 0x00, 0x00, 0x00, 0x0f, 0x79,
    0xd0, 0x48, 0xc7, 0xc2, 0x08, 0x6c, 0x00, 0x00, 0x48, 0xc7, 0xc0, 0x00, 0x00, 0x00, 0x00, 0x0f,
    0x79, 0xd0, 0x48, 0xc7, 0xc2, 0x0a, 0x6c, 0x00, 0x00, 0x48, 0xc7, 0xc0, 0x00, 0x09, 0x00, 0x00]"

definition init_vm_b :: bytes where
  "init_vm_b = [
    0x0f, 0x79, 0xd0, 0x48, 0xc7, 0xc2, 0x0c, 0x6c, 0x00, 0x00, 0x48, 0xc7, 0xc0, 0x00, 0x10, 0x00,
    0x00, 0x0f, 0x79, 0xd0, 0x48, 0xc7, 0xc2, 0x0e, 0x6c, 0x00, 0x00, 0x48, 0xc7, 0xc0, 0x00, 0x0b,
    0x00, 0x00, 0x0f, 0x79, 0xd0, 0x48, 0xc7, 0xc2, 0x14, 0x6c, 0x00, 0x00, 0x48, 0xc7, 0xc0, 0x00,
    0x00, 0x00, 0x00, 0x0f, 0x79, 0xd0, 0x48, 0xc7, 0xc2, 0x16, 0x6c, 0x00, 0x00, 0x48, 0x8b, 0x04,
    0x25, 0x10, 0x5f, 0x00, 0x00, 0x0f, 0x79, 0xd0, 0x48, 0xc7, 0xc2, 0x00, 0x00, 0x00, 0x00, 0x48,
    0xc7, 0xc0, 0x00, 0x00, 0x00, 0x00, 0x0f, 0x79, 0xd0, 0x48, 0xc7, 0xc2, 0x02, 0x00, 0x00, 0x00,
    0x48, 0xc7, 0xc0, 0x00, 0x00, 0x00, 0x00, 0x0f, 0x79, 0xd0, 0x48, 0xc7, 0xc2, 0x00, 0x20, 0x00,
    0x00, 0x48, 0xc7, 0xc0, 0x00, 0x00, 0x00, 0x00, 0x0f, 0x79, 0xd0, 0x48, 0xc7, 0xc2, 0x02, 0x20,
    0x00, 0x00, 0x48, 0xc7, 0xc0, 0x00, 0x00, 0x00, 0x00, 0x0f, 0x79, 0xd0, 0x48, 0xc7, 0xc2, 0x04,
    0x20, 0x00, 0x00, 0x48, 0xc7, 0xc0, 0x00, 0x00, 0x00, 0x00, 0x0f, 0x79, 0xd0, 0x48, 0xc7, 0xc2,
    0x06, 0x20, 0x00, 0x00, 0x48, 0xc7, 0xc0, 0x00, 0x00, 0x00, 0x00, 0x0f, 0x79, 0xd0, 0x48, 0xc7,
    0xc1, 0x77, 0x02, 0x00, 0x00, 0x0f, 0x32, 0x48, 0xc1, 0xe2, 0x20, 0x48, 0x09, 0xd0, 0x48, 0xc7,
    0xc2, 0x00, 0x2c, 0x00, 0x00, 0x48, 0x89, 0xc0, 0x0f, 0x79, 0xd0, 0x48, 0xc7, 0xc2, 0x04, 0x40,
    0x00, 0x00, 0x48, 0xc7, 0xc0, 0x00, 0x00, 0x00, 0x00, 0x0f, 0x79, 0xd0, 0x48, 0xc7, 0xc2, 0x0a,
    0x40, 0x00, 0x00, 0x48, 0xc7, 0xc0, 0x00, 0x00, 0x00, 0x00, 0x0f, 0x79, 0xd0, 0x48, 0xc7, 0xc2,
    0x0e, 0x40, 0x00, 0x00, 0x48, 0xc7, 0xc0, 0x00, 0x00, 0x00, 0x00, 0x0f, 0x79, 0xd0, 0x48, 0xc7,
    0xc2, 0x10, 0x40, 0x00, 0x00, 0x48, 0xc7, 0xc0, 0x00, 0x00, 0x00, 0x00, 0x0f, 0x79, 0xd0, 0x48,
    0xc7, 0xc2, 0x16, 0x40, 0x00, 0x00, 0x48, 0xc7, 0xc0, 0x00, 0x00, 0x00, 0x00, 0x0f, 0x79, 0xd0,
    0x48, 0xc7, 0xc2, 0x14, 0x40, 0x00, 0x00, 0x48, 0xc7, 0xc0, 0x00, 0x00, 0x00, 0x00, 0x0f, 0x79,
    0xd0, 0x48, 0xc7, 0xc2, 0x00, 0x60, 0x00, 0x00, 0x48, 0xc7, 0xc0, 0xff, 0xff, 0xff, 0xff, 0x0f,
    0x79, 0xd0, 0x48, 0xc7, 0xc2, 0x02, 0x60, 0x00, 0x00, 0x48, 0xc7, 0xc0, 0xff, 0xff, 0xff, 0xff,
    0x0f, 0x79, 0xd0, 0x48, 0xc7, 0xc2, 0x1c, 0x20, 0x00, 0x00, 0x48, 0xc7, 0xc0, 0x00, 0x00, 0x00,
    0x00, 0x0f, 0x79, 0xd0, 0x48, 0xc7, 0xc2, 0x1e, 0x20, 0x00, 0x00, 0x48, 0xc7, 0xc0, 0x00, 0x00,
    0x00, 0x00, 0x0f, 0x79, 0xd0, 0x48, 0xc7, 0xc2, 0x20, 0x20, 0x00, 0x00, 0x48, 0xc7, 0xc0, 0x00,
    0x00, 0x00, 0x00, 0x0f, 0x79, 0xd0, 0x48, 0xc7, 0xc2, 0x22, 0x20, 0x00, 0x00, 0x48, 0xc7, 0xc0,
    0x00, 0x00, 0x00, 0x00, 0x0f, 0x79, 0xd0, 0x48, 0xc7, 0xc2, 0x00, 0x08, 0x00, 0x00, 0x48, 0xc7,
    0xc0, 0x30, 0x00, 0x00, 0x00, 0x0f, 0x79, 0xd0, 0x48, 0xc7, 0xc2, 0x02, 0x08, 0x00, 0x00, 0x48,
    0xc7, 0xc0, 0x48, 0x00, 0x00, 0x00, 0x0f, 0x79, 0xd0, 0x48, 0xc7, 0xc2, 0x04, 0x08, 0x00, 0x00,
    0x48, 0xc7, 0xc0, 0x30, 0x00, 0x00, 0x00, 0x0f, 0x79, 0xd0, 0x48, 0xc7, 0xc2, 0x06, 0x08, 0x00,
    0x00, 0x48, 0xc7, 0xc0, 0x30, 0x00, 0x00, 0x00, 0x0f, 0x79, 0xd0, 0x48, 0xc7, 0xc2, 0x08, 0x08,
    0x00, 0x00, 0x48, 0xc7, 0xc0, 0x30, 0x00, 0x00, 0x00, 0x0f, 0x79, 0xd0, 0x48, 0xc7, 0xc2, 0x0a,
    0x08, 0x00, 0x00, 0x48, 0xc7, 0xc0, 0x30, 0x00, 0x00, 0x00, 0x0f, 0x79, 0xd0, 0x48, 0xc7, 0xc2]"

definition init_vm_c :: bytes where
  "init_vm_c = [
    0x0c, 0x08, 0x00, 0x00, 0x48, 0xc7, 0xc0, 0x00, 0x00, 0x00, 0x00, 0x0f, 0x79, 0xd0, 0x48, 0xc7,
    0xc2, 0x0e, 0x08, 0x00, 0x00, 0x48, 0xc7, 0xc0, 0x80, 0x00, 0x00, 0x00, 0x0f, 0x79, 0xd0, 0x48,
    0xc7, 0xc2, 0x12, 0x68, 0x00, 0x00, 0x48, 0xc7, 0xc0, 0x00, 0x00, 0x00, 0x00, 0x0f, 0x79, 0xd0,
    0x48, 0xc7, 0xc2, 0x14, 0x68, 0x00, 0x00, 0x48, 0xc7, 0xc0, 0x00, 0x09, 0x00, 0x00, 0x0f, 0x79,
    0xd0, 0x48, 0xc7, 0xc2, 0x16, 0x68, 0x00, 0x00, 0x48, 0xc7, 0xc0, 0x00, 0x10, 0x00, 0x00, 0x0f,
    0x79, 0xd0, 0x48, 0xc7, 0xc2, 0x18, 0x68, 0x00, 0x00, 0x48, 0xc7, 0xc0, 0x00, 0x0b, 0x00, 0x00,
    0x0f, 0x79, 0xd0, 0x48, 0xc7, 0xc2, 0x00, 0x48, 0x00, 0x00, 0x48, 0xc7, 0xc0, 0xff, 0xff, 0x0f,
    0x00, 0x0f, 0x79, 0xd0, 0x48, 0xc7, 0xc2, 0x02, 0x48, 0x00, 0x00, 0x48, 0xc7, 0xc0, 0xff, 0xff,
    0x0f, 0x00, 0x0f, 0x79, 0xd0, 0x48, 0xc7, 0xc2, 0x04, 0x48, 0x00, 0x00, 0x48, 0xc7, 0xc0, 0xff,
    0xff, 0x0f, 0x00, 0x0f, 0x79, 0xd0, 0x48, 0xc7, 0xc2, 0x06, 0x48, 0x00, 0x00, 0x48, 0xc7, 0xc0,
    0xff, 0xff, 0x0f, 0x00, 0x0f, 0x79, 0xd0, 0x48, 0xc7, 0xc2, 0x08, 0x48, 0x00, 0x00, 0x48, 0xc7,
    0xc0, 0xff, 0xff, 0x0f, 0x00, 0x0f, 0x79, 0xd0, 0x48, 0xc7, 0xc2, 0x0a, 0x48, 0x00, 0x00, 0x48,
    0xc7, 0xc0, 0xff, 0xff, 0x0f, 0x00, 0x0f, 0x79, 0xd0, 0x48, 0xc7, 0xc2, 0x0c, 0x48, 0x00, 0x00,
    0x48, 0xc7, 0xc0, 0x00, 0x00, 0x00, 0x00, 0x0f, 0x79, 0xd0, 0x48, 0xc7, 0xc2, 0x0e, 0x48, 0x00,
    0x00, 0x48, 0xc7, 0xc0, 0xff, 0x1f, 0x00, 0x00, 0x0f, 0x79, 0xd0, 0x48, 0xc7, 0xc2, 0x10, 0x48,
    0x00, 0x00, 0x48, 0xc7, 0xc0, 0xff, 0x1f, 0x00, 0x00, 0x0f, 0x79, 0xd0, 0x48, 0xc7, 0xc2, 0x12,
    0x48, 0x00, 0x00, 0x48, 0xc7, 0xc0, 0xff, 0x1f, 0x00, 0x00, 0x0f, 0x79, 0xd0, 0x48, 0xc7, 0xc2,
    0x14, 0x48, 0x00, 0x00, 0x48, 0xc7, 0xc0, 0x93, 0x40, 0x00, 0x00, 0x0f, 0x79, 0xd0, 0x48, 0xc7,
    0xc2, 0x16, 0x48, 0x00, 0x00, 0x48, 0xc7, 0xc0, 0x9b, 0x20, 0x00, 0x00, 0x0f, 0x79, 0xd0, 0x48,
    0xc7, 0xc2, 0x18, 0x48, 0x00, 0x00, 0x48, 0xc7, 0xc0, 0x93, 0x40, 0x00, 0x00, 0x0f, 0x79, 0xd0,
    0x48, 0xc7, 0xc2, 0x1a, 0x48, 0x00, 0x00, 0x48, 0xc7, 0xc0, 0x93, 0x40, 0x00, 0x00, 0x0f, 0x79,
    0xd0, 0x48, 0xc7, 0xc2, 0x1c, 0x48, 0x00, 0x00, 0x48, 0xc7, 0xc0, 0x93, 0x40, 0x00, 0x00, 0x0f,
    0x79, 0xd0, 0x48, 0xc7, 0xc2, 0x1e, 0x48, 0x00, 0x00, 0x48, 0xc7, 0xc0, 0x93, 0x40, 0x00, 0x00,
    0x0f, 0x79, 0xd0, 0x48, 0xc7, 0xc2, 0x20, 0x48, 0x00, 0x00, 0x48, 0xc7, 0xc0, 0x82, 0x00, 0x00,
    0x00, 0x0f, 0x79, 0xd0, 0x48, 0xc7, 0xc2, 0x22, 0x48, 0x00, 0x00, 0x48, 0xc7, 0xc0, 0x8b, 0x00,
    0x00, 0x00, 0x0f, 0x79, 0xd0, 0x48, 0xc7, 0xc2, 0x1c, 0x68, 0x00, 0x00, 0x48, 0xc7, 0xc0, 0x00,
    0x00, 0x00, 0x00, 0x0f, 0x79, 0xd0, 0x48, 0xc7, 0xc2, 0x1e, 0x68, 0x00, 0x00, 0x48, 0xc7, 0xc0,
    0x00, 0x91, 0x00, 0x00, 0x0f, 0x79, 0xd0, 0x48, 0xc7, 0xc2, 0x20, 0x68, 0x00, 0x00, 0x48, 0xc7,
    0xc0, 0x02, 0x00, 0x00, 0x00, 0x0f, 0x79, 0xd0, 0x48, 0xc7, 0xc2, 0x06, 0x28, 0x00, 0x00, 0x48,
    0xc7, 0xc0, 0x00, 0x05, 0x00, 0x00, 0x0f, 0x79, 0xd0, 0x48, 0xc7, 0xc2, 0x0a, 0x28, 0x00, 0x00,
    0x48, 0xc7, 0xc0, 0x00, 0x00, 0x00, 0x00, 0x0f, 0x79, 0xd0, 0x48, 0xc7, 0xc2, 0x0c, 0x28, 0x00,
    0x00, 0x48, 0xc7, 0xc0, 0x00, 0x00, 0x00, 0x00, 0x0f, 0x79, 0xd0, 0x48, 0xc7, 0xc2, 0x0e, 0x28]"

definition init_vm_d :: bytes where
  "init_vm_d = [
    0x00, 0x00, 0x48, 0xc7, 0xc0, 0x00, 0x00, 0x00, 0x00, 0x0f, 0x79, 0xd0, 0x48, 0xc7, 0xc2, 0x10,
    0x28, 0x00, 0x00, 0x48, 0xc7, 0xc0, 0x00, 0x00, 0x00, 0x00, 0x0f, 0x79, 0xd0, 0x0f, 0x20, 0xc0,
    0x48, 0xc7, 0xc2, 0x00, 0x68, 0x00, 0x00, 0x48, 0x89, 0xc0, 0x0f, 0x79, 0xd0, 0x0f, 0x20, 0xd8,
    0x48, 0xc7, 0xc2, 0x02, 0x68, 0x00, 0x00, 0x48, 0x89, 0xc0, 0x0f, 0x79, 0xd0, 0x0f, 0x20, 0xe0,
    0x48, 0xc7, 0xc2, 0x04, 0x68, 0x00, 0x00, 0x48, 0x89, 0xc0, 0x0f, 0x79, 0xd0, 0x0f, 0x01, 0xc2,
    0x48, 0xc7, 0xc2, 0x00, 0x44, 0x00, 0x00, 0x0f, 0x78, 0xd0, 0xf4]"

definition kvm_asm64_init_vm :: bytes where
  "kvm_asm64_init_vm = init_vm_a @ init_vm_b @ init_vm_c @ init_vm_d"

definition kvm_asm64_vm_exit :: bytes where
  "kvm_asm64_vm_exit = [
    0xf4, 0x48, 0xc7, 0xc3, 0x00, 0x44, 0x00, 0x00, 0x0f, 0x78, 0xda, 0x48, 0xc7, 0xc3, 0x02, 0x44,
    0x00, 0x00, 0x0f, 0x78, 0xd9, 0x48, 0xc7, 0xc0, 0x00, 0x64, 0x00, 0x00, 0x0f, 0x78, 0xc0, 0x48,
    0xc7, 0xc3, 0x1e, 0x68, 0x00, 0x00, 0x0f, 0x78, 0xdb, 0xf4]"

text \<open>\<^verbatim>\<open>memmem\<close>: where the needle first occurs.\<close>

fun memmem :: "bytes \<Rightarrow> bytes \<Rightarrow> nat option" where
  "memmem needle [] = (if needle = [] then Some 0 else None)"
| "memmem needle (b # bs) =
     (if take (length needle) (b # bs) = needle then Some 0 else map_option Suc (memmem needle bs))"

text \<open>
  The rest of \<^verbatim>\<open>test\<close>: the pointers the guest code uses, the exit code, the initial code with
  the target of its jump patched in, and a final \<^verbatim>\<open>hlt\<close>.
\<close>

definition code_writes :: "gwrite list" where
  "code_writes =
     [(0x5f00, le64 0x6000), (0x5f08, le64 0x7000), (0x9000, kvm_asm64_vm_exit), (0x5f10, le64 0x9000),
      (0x9100, [0xf4]), (0, kvm_asm64_init_vm)]
     @ (case memmem [0xde, 0xc0, 0xad, 0x0b] kvm_asm64_init_vm of
          None \<Rightarrow> [] | Some off \<Rightarrow> [(off, le32 (of_nat off + 6))])
     @ [(length kvm_asm64_init_vm, [0xf4])]"

text \<open>Everything \<^verbatim>\<open>test\<close> writes into the guest's memory, in order.\<close>

definition test_writes :: "u8 \<Rightarrow> u8 \<Rightarrow> gwrite list" where
  "test_writes a b = gdt_writes a b @ tss_writes @ idt_writes a @ page_table_writes @ code_writes"

text \<open>Fresh memory from \<^verbatim>\<open>mmap\<close> is zero.\<close>

definition test_mem :: "u8 \<Rightarrow> u8 \<Rightarrow> gmem" where
  "test_mem a b = pokes (test_writes a b) (\<lambda>x. 0)"


section \<open>Lemmas on guest memory\<close>

lemma pokes_append: "pokes (xs @ ys) m = pokes ys (pokes xs m)"
  by (induction xs arbitrary: m) simp_all

definition clear_of :: "nat \<Rightarrow> nat \<Rightarrow> gwrite \<Rightarrow> bool" where
  "clear_of a n w \<longleftrightarrow> a + n \<le> fst w \<or> fst w + length (snd w) \<le> a"

lemma pokes_clear:
  "list_all (clear_of a n) ws \<Longrightarrow> a \<le> x \<Longrightarrow> x < a + n \<Longrightarrow> pokes ws m x = m x"
  by (induction ws arbitrary: m) (auto simp: clear_of_def poke_def)

lemma load64_clear: "list_all (clear_of a 8) ws \<Longrightarrow> load64 (pokes ws m) a = load64 m a"
  by (simp add: load64_def pokes_clear)

lemma ucast_u8_take_bit: "ucast (ucast (x :: u64) :: u8) = take_bit 8 x"
  by (rule bit_word_eqI) (auto simp: bit_simps)

lemma take_bit_join: "take_bit k (v :: u64) OR push_bit k (take_bit 8 (drop_bit k v)) = take_bit (k + 8) v"
  by (rule bit_word_eqI) (auto simp: bit_simps)

lemma load64_poke: "load64 (poke (a, le64 v) m) a = v"
proof -
  have "load64 (poke (a, le64 v) m) a =
      take_bit 8 v OR push_bit 8 (take_bit 8 (drop_bit 8 v)) OR push_bit 16 (take_bit 8 (drop_bit 16 v)) OR
      push_bit 24 (take_bit 8 (drop_bit 24 v)) OR push_bit 32 (take_bit 8 (drop_bit 32 v)) OR
      push_bit 40 (take_bit 8 (drop_bit 40 v)) OR push_bit 48 (take_bit 8 (drop_bit 48 v)) OR
      push_bit 56 (take_bit 8 (drop_bit 56 v))"
    by (simp add: load64_def poke_def le64_def ucast_u8_take_bit)
  also have "\<dots> = take_bit 64 v"
    using take_bit_join [of 8 v] take_bit_join [of 16 v] take_bit_join [of 24 v] take_bit_join [of 32 v]
      take_bit_join [of 40 v] take_bit_join [of 48 v] take_bit_join [of 56 v]
    by (simp add: or.assoc [symmetric])
  also have "\<dots> = v"
    using take_bit_length_eq [of v] by simp
  finally show ?thesis .
qed

lemma load64_written:
  "list_all (clear_of a 8) ys \<Longrightarrow> load64 (pokes (xs @ (a, le64 v) # ys) m) a = v"
  by (simp add: pokes_append load64_clear load64_poke)

lemma init_vm_length [simp]: "length kvm_asm64_init_vm = 1627" "length kvm_asm64_vm_exit = 42"
  by (simp_all add: kvm_asm64_init_vm_def init_vm_a_def init_vm_b_def init_vm_c_def init_vm_d_def kvm_asm64_vm_exit_def)

lemma init_vm_jump: "memmem [0xde, 0xc0, 0xad, 0x0b] kvm_asm64_init_vm = Some 12"
proof -
  let ?head = "[0x0f, 0x20, 0xc0, 0x0d, 0x00, 0x00, 0x00, 0x80, 0x0f, 0x22, 0xc0, 0xea, 0xde, 0xc0, 0xad, 0x0b]"
  have "take 16 init_vm_a = ?head" by (simp add: init_vm_a_def)
  then have "kvm_asm64_init_vm = ?head @ drop 16 init_vm_a @ init_vm_b @ init_vm_c @ init_vm_d"
    by (metis append.assoc append_take_drop_id kvm_asm64_init_vm_def)
  moreover have "memmem [0xde, 0xc0, 0xad, 0x0b] (?head @ rest) = Some 12" for rest
    by simp
  ultimately show ?thesis by metis
qed

lemma code_writes_eq:
  "code_writes = [(0x5f00, le64 0x6000), (0x5f08, le64 0x7000), (0x9000, kvm_asm64_vm_exit), (0x5f10, le64 0x9000),
      (0x9100, [0xf4]), (0, kvm_asm64_init_vm), (12, le32 18), (1627, [0xf4])]"
  by (simp add: code_writes_def init_vm_jump)


section \<open>What the guest finds\<close>

text \<open>
  How the processor translates an address below 2 MiB in long mode: three levels, the last
  of them mapping a large page. An entry that is not present is a fault.
\<close>

definition pte_addr :: "u64 \<Rightarrow> nat" where
  "pte_addr e = unat (take_bit 52 (push_bit 12 (drop_bit 12 e)))"

definition translate :: "gmem \<Rightarrow> nat \<Rightarrow> nat \<Rightarrow> nat option" where
  "translate m cr3 va =
     (let e4 = load64 m (cr3 + 8 * (va div 2 ^ 39 mod 512)) in
      if \<not> bit e4 0 then None
      else
        let e3 = load64 m (pte_addr e4 + 8 * (va div 2 ^ 30 mod 512)) in
        if \<not> bit e3 0 \<or> bit e3 7 then None
        else
          let e2 = load64 m (pte_addr e3 + 8 * (va div 2 ^ 21 mod 512)) in
          if \<not> bit e2 0 \<or> \<not> bit e2 7 then None
          else Some (2 ^ 21 * (pte_addr e2 div 2 ^ 21) + va mod 2 ^ 21))"

lemma test_mem_tables:
  "load64 (test_mem a b) 0x3000 = 0x4007" "load64 (test_mem a b) 0x4000 = 0x5007"
  "load64 (test_mem a b) 0x5000 = 0x87"
proof -
  let ?pre = "gdt_writes a b @ tss_writes @ idt_writes a"
  let ?e = "\<lambda>x :: u64. le64 (PDE64_PRESENT OR PDE64_RW OR PDE64_USER OR x)"
  have w: "test_writes a b = ?pre @ (0x3000, ?e 0x4000) # (0x4000, ?e 0x5000) # (0x5000, ?e PDE64_PS) # code_writes"
    by (simp add: test_writes_def page_table_writes_def)
  have "load64 (test_mem a b) 0x3000 = PDE64_PRESENT OR PDE64_RW OR PDE64_USER OR 0x4000"
    unfolding test_mem_def w by (rule load64_written) (simp add: code_writes_eq clear_of_def)
  then show "load64 (test_mem a b) 0x3000 = 0x4007" by (simp add: flag_defs)
  have "test_writes a b = (?pre @ [(0x3000, ?e 0x4000)]) @ (0x4000, ?e 0x5000) # (0x5000, ?e PDE64_PS) # code_writes"
    by (simp add: w)
  then have "load64 (test_mem a b) 0x4000 = PDE64_PRESENT OR PDE64_RW OR PDE64_USER OR 0x5000"
    unfolding test_mem_def by (simp only:) (rule load64_written, simp add: code_writes_eq clear_of_def)
  then show "load64 (test_mem a b) 0x4000 = 0x5007" by (simp add: flag_defs)
  have "test_writes a b = (?pre @ [(0x3000, ?e 0x4000), (0x4000, ?e 0x5000)]) @ (0x5000, ?e PDE64_PS) # code_writes"
    by (simp add: w)
  then have "load64 (test_mem a b) 0x5000 = PDE64_PRESENT OR PDE64_RW OR PDE64_USER OR PDE64_PS"
    unfolding test_mem_def by (simp only:) (rule load64_written, simp add: code_writes_eq clear_of_def)
  then show "load64 (test_mem a b) 0x5000 = 0x87" by (simp add: flag_defs)
qed

section \<open>Fields of a descriptor\<close>

lemma push_bit_lost: "64 \<le> j + k \<Longrightarrow> push_bit j (x AND push_bit k (y :: u64)) = 0"
  by (auto intro!: bit_word_eqI simp: bit_simps)

lemma lost_fields: "push_bit 48 (x AND 0xf0000) = (0 :: u64)" "push_bit 56 (x AND 0xff000000) = (0 :: u64)"
  using push_bit_lost [where j = 48 and k = 16 and x = x and y = "0xf"]
    push_bit_lost [where j = 56 and k = 24 and x = x and y = "0xff"]
  by (simp_all add: push_bit_eq_mult)

lemma low_masks: "ucast (z AND 0xffff :: u32) = take_bit 16 (ucast z :: u64)" "x AND 0xffffff = take_bit 24 (x :: u64)"
proof -
  have "z AND 0xffff = take_bit 16 z" by (simp add: take_bit_eq_mask mask_eq_exp_minus_1)
  then show "ucast (z AND 0xffff :: u32) = take_bit 16 (ucast z :: u64)"
    by (auto intro!: bit_word_eqI simp: bit_simps)
qed (simp add: take_bit_eq_mask mask_eq_exp_minus_1)

lemma small_field: "unat (x :: u8) < 2 ^ k \<Longrightarrow> ucast x = take_bit k (ucast x :: u64)"
proof -
  assume "unat (x :: u8) < 2 ^ k"
  then have "take_bit k (unat x) = unat x" by (simp add: take_bit_nat_eq_self)
  then have "bit (unat x) n \<Longrightarrow> n < k" for n by (metis bit_take_bit_iff)
  then show ?thesis by (auto intro!: bit_word_eqI simp: bit_simps)
qed

lemma flag_field: "unat (x :: u8) < 2 \<Longrightarrow> ucast x = (of_bool (x = 1) :: u64)"
proof -
  assume "unat x < 2"
  then have "unat x = unat (0 :: u8) \<or> unat x = unat (1 :: u8)" by auto
  then have "x = 0 \<or> x = 1" by (simp only: word_unat_eq_iff [symmetric])
  then show ?thesis by auto
qed

text \<open>A packed word of that shape, and what its parts are.\<close>

definition packed :: "u64 \<Rightarrow> u64 \<Rightarrow> u64 \<Rightarrow> bool \<Rightarrow> u64 \<Rightarrow> bool \<Rightarrow> bool \<Rightarrow> bool \<Rightarrow> bool \<Rightarrow> bool \<Rightarrow> u64" where
  "packed li ba ty s dp pr av l db g =
     take_bit 16 li OR push_bit 16 (take_bit 24 ba) OR push_bit 40 (take_bit 4 ty) OR push_bit 44 (of_bool s) OR
     push_bit 45 (take_bit 2 dp) OR push_bit 47 (of_bool pr) OR push_bit 52 (of_bool av) OR
     push_bit 53 (of_bool l) OR push_bit 54 (of_bool db) OR push_bit 55 (of_bool g)"

lemmas packed_bits = packed_def bit_or_iff bit_take_bit_iff bit_push_bit_iff bit_drop_bit_eq bit_of_bool_iff

lemma packed_parts:
  "take_bit 16 (packed li ba ty s dp pr av l db g) = take_bit 16 li"
  "take_bit 24 (drop_bit 16 (packed li ba ty s dp pr av l db g)) = take_bit 24 ba"
  "take_bit 4 (drop_bit 40 (packed li ba ty s dp pr av l db g)) = take_bit 4 ty"
  "take_bit 2 (drop_bit 45 (packed li ba ty s dp pr av l db g)) = take_bit 2 dp"
  "take_bit 4 (drop_bit 48 (packed li ba ty s dp pr av l db g)) = 0"
  "drop_bit 56 (packed li ba ty s dp pr av l db g) = 0"
  by (rule bit_word_eqI; simp add: packed_bits cong: conj_cong)+

lemma packed_flags:
  "bit (packed li ba ty s dp pr av l db g) 44 = s" "bit (packed li ba ty s dp pr av l db g) 47 = pr"
  "bit (packed li ba ty s dp pr av l db g) 53 = l" "bit (packed li ba ty s dp pr av l db g) 54 = db"
  "bit (packed li ba ty s dp pr av l db g) 55 = g"
  by (simp_all add: packed_bits cong: conj_cong)

definition seg_ok :: "kvm_segment \<Rightarrow> bool" where
  "seg_ok seg \<longleftrightarrow> unat (seg_type seg) < 16 \<and> unat (seg_dpl seg) < 4 \<and> unat (seg_s seg) < 2 \<and>
     unat (seg_present seg) < 2 \<and> unat (seg_l seg) < 2 \<and> unat (seg_db seg) < 2 \<and> unat (seg_g seg) < 2 \<and>
     unat (seg_avl seg) < 2"

lemma segment_descriptor_packed:
  assumes "seg_ok seg" and "limit = (if seg_g seg \<noteq> 0 then drop_bit 12 (seg_limit seg) else seg_limit seg)"
  shows "segment_descriptor seg =
     packed (ucast limit) (seg_base seg) (ucast (seg_type seg)) (seg_s seg = 1) (ucast (seg_dpl seg))
       (seg_present seg = 1) (seg_avl seg = 1) (seg_l seg = 1) (seg_db seg = 1) (seg_g seg = 1)"
proof -
  have t: "ucast (seg_type seg) = take_bit 4 (ucast (seg_type seg) :: u64)"
      "ucast (seg_dpl seg) = take_bit 2 (ucast (seg_dpl seg) :: u64)"
    using assms(1) by (auto simp: seg_ok_def intro!: small_field)
  have f: "ucast (seg_s seg) = (of_bool (seg_s seg = 1) :: u64)" "ucast (seg_present seg) = (of_bool (seg_present seg = 1) :: u64)"
      "ucast (seg_avl seg) = (of_bool (seg_avl seg = 1) :: u64)" "ucast (seg_l seg) = (of_bool (seg_l seg = 1) :: u64)"
      "ucast (seg_db seg) = (of_bool (seg_db seg = 1) :: u64)" "ucast (seg_g seg) = (of_bool (seg_g seg = 1) :: u64)"
    using assms(1) by - (rule flag_field, simp add: seg_ok_def)+
  show ?thesis
    unfolding segment_descriptor_def Let_def assms(2) [symmetric] low_masks lost_fields packed_def f
    using t by (simp add: or.assoc)
qed


section \<open>Where the writes go\<close>

lemma selector_index:
  "n < 8192 \<Longrightarrow> r < 8 \<Longrightarrow> unat (drop_bit 3 (of_nat (8 * n + r) :: u16)) = n"
  by (simp add: drop_bit_eq_div unat_div unat_of_nat del: of_nat_add of_nat_mult)

lemma segment_indices:
  "unat (drop_bit 3 (push_bit 3 1 :: u16)) = 1" "unat (drop_bit 3 (push_bit 3 2 :: u16)) = 2"
  "unat (drop_bit 3 (push_bit 3 3 + 3 :: u16)) = 3" "unat (drop_bit 3 (push_bit 3 4 + 3 :: u16)) = 4"
  "unat (drop_bit 3 (push_bit 3 5 :: u16)) = 5" "unat (drop_bit 3 (push_bit 3 6 :: u16)) = 6"
  "unat (drop_bit 3 (push_bit 3 7 + 3 :: u16)) = 7" "unat (drop_bit 3 (push_bit 3 8 + 3 :: u16)) = 8"
  "unat (drop_bit 3 (push_bit 3 9 :: u16)) = 9" "unat (drop_bit 3 (push_bit 3 10 + 3 :: u16)) = 10"
  "unat (drop_bit 3 (push_bit 3 11 :: u16)) = 11" "unat (drop_bit 3 (push_bit 3 16 :: u16)) = 16"
  using selector_index [of 1 0] selector_index [of 2 0] selector_index [of 3 3] selector_index [of 4 3]
    selector_index [of 5 0] selector_index [of 6 0] selector_index [of 7 3] selector_index [of 8 3]
    selector_index [of 9 0] selector_index [of 10 3] selector_index [of 11 0] selector_index [of 16 0]
  by (simp_all add: push_bit_eq_mult)

lemmas seg_defs = seg_cs16_def seg_ds16_def seg_cs32_def seg_ds32_def seg_cs64_def seg_tss_32_def seg_tss_64_def

lemma writes_in_guest: "list_all in_guest (test_writes a b)"
proof -
  have "list_all in_guest (gdt_writes a b)"
    by (simp add: gdt_writes_def fill_segment_descriptor_def Let_def seg_defs segment_indices in_guest_def
        gdt_base_def guest_mem_size_def)
  moreover have "list_all in_guest tss_writes"
    by (simp add: tss_writes_eq in_guest_def task_base_def guest_mem_size_def Let_def)
  moreover have "list_all in_guest (idt_turn a i)" if "i < 32" for i
    using that by (simp add: idt_turn_def in_guest_def idt_base_def task_base_def guest_mem_size_def)
  then have "list_all in_guest (idt_writes a)"
    by (auto simp: idt_writes_def list_all_iff)
  moreover have "list_all in_guest (page_table_writes @ code_writes)"
    by (simp add: page_table_writes_def code_writes_eq in_guest_def guest_mem_size_def)
  ultimately show ?thesis by (simp add: test_writes_def)
qed

lemma test_mem_code:
  assumes "16 \<le> x" and "x < 1627"
  shows "test_mem a b x = kvm_asm64_init_vm ! x"
proof -
  let ?pre = "gdt_writes a b @ tss_writes @ idt_writes a @ page_table_writes @ take 5 code_writes"
  have "test_writes a b = ?pre @ [(0, kvm_asm64_init_vm), (12, le32 18), (1627, [0xf4])]"
    by (simp add: test_writes_def code_writes_eq)
  then show ?thesis
    using assms by (simp add: test_mem_def pokes_append poke_def)
qed

lemma handler_bytes:
  assumes "i < 32"
  shows "kvm_asm64_init_vm ! (0x600 + i) \<noteq> 0xf4"
proof -
  have l: "length init_vm_a = 512" "length init_vm_b = 512" "length init_vm_c = 512"
    by (simp_all add: init_vm_a_def init_vm_b_def init_vm_c_def)
  have "kvm_asm64_init_vm ! (0x600 + i) = init_vm_d ! i"
    by (simp add: kvm_asm64_init_vm_def nth_append l)
  moreover have "init_vm_d ! i = take 32 init_vm_d ! i" using assms by simp
  moreover have "take 32 init_vm_d ! i \<in> set (take 32 init_vm_d)"
    using assms by (intro nth_mem) (simp add: init_vm_d_def)
  moreover have "0xf4 \<notin> set (take 32 init_vm_d)" by (simp add: init_vm_d_def)
  ultimately show ?thesis by metis
qed

section \<open>What the preparation guarantees\<close>

text \<open>
  C12. Every write of \<^verbatim>\<open>test\<close> stays inside the guest's 64 KiB, the page tables it leaves map the
  first 2 MiB one to one (whatever the stack held where the code leaves a field unset), and
  the far jump of the initial code is patched to the instruction behind it.
\<close>

theorem kvm_guest_prepared:
  assumes "va < 2 ^ 21"
  shows "list_all in_guest (test_writes a b) \<and>
     translate (test_mem a b) (unat (sr_cr3 (setup_sregs a sregs))) va = Some va \<and>
     map (test_mem a b) [12, 13, 14, 15] = le32 18"
proof (intro conjI)
  show "list_all in_guest (test_writes a b)" by (rule writes_in_guest)
  have c: "unat (sr_cr3 (setup_sregs a sregs)) = 0x3000" by (simp add: setup_sregs_def Let_def)
  have p: "pte_addr 0x4007 = 0x4000" "pte_addr 0x5007 = 0x5000" "pte_addr 0x87 = 0"
    by (simp_all add: pte_addr_def drop_bit_eq_div push_bit_eq_mult take_bit_eq_mod)
  have bits: "bit (0x4007 :: u64) 0" "bit (0x5007 :: u64) 0" "\<not> bit (0x5007 :: u64) 7" "bit (0x87 :: u64) 0"
      "bit (0x87 :: u64) 7"
    by (simp_all add: bit_iff_odd)
  have z: "va div 2 ^ 39 = 0" "va div 2 ^ 30 = 0" "va div 2 ^ 21 = 0" using assms by simp_all
  show "translate (test_mem a b) (unat (sr_cr3 (setup_sregs a sregs))) va = Some va"
    using assms unfolding translate_def c z by (simp add: Let_def test_mem_tables p bits)
  let ?pre = "gdt_writes a b @ tss_writes @ idt_writes a @ page_table_writes @ take 6 code_writes"
  have "test_writes a b = ?pre @ [(12, le32 18), (1627, [0xf4])]"
    by (simp add: test_writes_def code_writes_eq)
  then show "map (test_mem a b) [12, 13, 14, 15] = le32 18"
    by (simp add: test_mem_def pokes_append poke_def le32_def)
qed

text \<open>
  A descriptor holds the low sixteen bits of the limit, the low 24 bits of the base, and
  the type, privilege and flag bits in their places. The bits 16 to 19 of the limit and 24
  to 31 of the base are always zero: the code shifts them out of the 64-bit word (by 48 and
  56 instead of 32), so a segment with limit \<^verbatim>\<open>0xfffff\<close> is described with \<^verbatim>\<open>0xffff\<close> only.
\<close>

lemma kvm_descriptor_fields:
  assumes "seg_ok seg" and "limit = (if seg_g seg \<noteq> 0 then drop_bit 12 (seg_limit seg) else seg_limit seg)"
    and "sd = segment_descriptor seg"
  shows "take_bit 16 sd = take_bit 16 (ucast limit) \<and> take_bit 24 (drop_bit 16 sd) = take_bit 24 (seg_base seg) \<and>
     take_bit 4 (drop_bit 40 sd) = ucast (seg_type seg) \<and> take_bit 2 (drop_bit 45 sd) = ucast (seg_dpl seg) \<and>
     bit sd 44 = (seg_s seg = 1) \<and> bit sd 47 = (seg_present seg = 1) \<and> bit sd 53 = (seg_l seg = 1) \<and>
     bit sd 54 = (seg_db seg = 1) \<and> bit sd 55 = (seg_g seg = 1) \<and>
     take_bit 4 (drop_bit 48 sd) = 0 \<and> drop_bit 56 sd = 0"
proof -
  have "take_bit 4 (ucast (seg_type seg)) = (ucast (seg_type seg) :: u64)"
      "take_bit 2 (ucast (seg_dpl seg)) = (ucast (seg_dpl seg) :: u64)"
    using assms(1) by (auto simp: seg_ok_def intro!: small_field [symmetric])
  then show ?thesis
    unfolding assms(3) segment_descriptor_packed [OF assms(1,2)] packed_parts packed_flags by simp
qed

text \<open>
  Exceptions of the guest do not reach a \<^verbatim>\<open>hlt\<close>: gate \<open>i\<close> points to \<^verbatim>\<open>0x600 + i\<close>, where the
  handler's instruction was written, but the initial code is copied to address 0 afterwards
  and is 1627 bytes long, so that it overwrites all 32 handlers. The table's limit is not
  set either: the code sets the limit of the LDT in its place.
\<close>

lemma kvm_handlers_overwritten:
  assumes "i < 32"
  shows "take_bit 16 (idt_gate a i) = of_nat (0x600 + i) \<and> (0x600 + i, [0xf4]) \<in> set (test_writes a b) \<and>
     test_mem a b (0x600 + i) = kvm_asm64_init_vm ! (0x600 + i) \<and> test_mem a b (0x600 + i) \<noteq> 0xf4 \<and>
     sr_idt_limit (setup_sregs a sregs) = sr_idt_limit sregs \<and> sr_ldt_limit (setup_sregs a sregs) = 0x1ff"
proof -
  have m: "test_mem a b (0x600 + i) = kvm_asm64_init_vm ! (0x600 + i)"
    using assms by (intro test_mem_code) simp_all
  have "(0x600 + i, [0xf4]) \<in> set (idt_turn a i)" by (simp add: idt_turn_def)
  then have w: "(0x600 + i, [0xf4]) \<in> set (test_writes a b)"
    using assms by (auto simp: test_writes_def idt_writes_def)
  have "unat (of_nat (0x600 + i) :: u64) = 0x600 + i" by (rule unat_of_nat_u64) (use assms in simp)
  then have "unat (of_nat (0x600 + i) :: u64) < 2 ^ 16" using assms by (simp only:) simp
  then have "take_bit 16 (of_nat (0x600 + i) :: u64) = of_nat (0x600 + i)"
    by (metis take_bit_nat_eq_self unsigned_take_bit_eq word_unat_eq_iff)
  moreover have "take_bit 16 (idt_gate a i) = take_bit 16 (of_nat (0x600 + i) :: u64)"
    unfolding idt_gate_def by (rule bit_word_eqI) (simp add: bit_simps cong: conj_cong)
  ultimately show ?thesis
    using m w handler_bytes [OF assms] by (simp add: setup_sregs_def Let_def)
qed


section \<open>Witnesses\<close>

definition demo_sregs :: kvm_sregs where
  "demo_sregs = \<lparr>sr_cr0 = 0, sr_cr3 = 0, sr_cr4 = 0, sr_efer = 0, sr_gdt_base = 0, sr_gdt_limit = 0,
    sr_idt_base = 0, sr_idt_limit = 0xffff, sr_ldt_limit = 0, sr_cs = seg_cs16 0, sr_ds = seg_ds16 0\<rparr>"

theorem kvm_guest_prepared_witness:
  "translate (test_mem 0 0) (unat (sr_cr3 (setup_sregs 0 demo_sregs))) 0x9100 = Some 0x9100 \<and>
   map (test_mem 0 0) [12, 13, 14, 15] = le32 18"
proof -
  have "(0x9100 :: nat) < 2 ^ 21" by simp
  from kvm_guest_prepared [OF this, of 0 0 demo_sregs] show ?thesis by blast
qed

lemma kvm_descriptor_fields_witness:
  "seg_limit (seg_cs16 0) = 0xfffff \<and> take_bit 16 (segment_descriptor (seg_cs16 0)) = 0xffff \<and>
   take_bit 4 (drop_bit 48 (segment_descriptor (seg_cs16 0))) = 0"
proof -
  have "seg_ok (seg_cs16 0)" by (simp add: seg_ok_def seg_cs16_def)
  from kvm_descriptor_fields [OF this refl refl] have
    "take_bit 16 (segment_descriptor (seg_cs16 0)) = take_bit 16 (ucast (0xfffff :: u32) :: u64)"
    "take_bit 4 (drop_bit 48 (segment_descriptor (seg_cs16 0))) = 0"
    by (simp_all add: seg_cs16_def)
  moreover have "take_bit 16 (ucast (0xfffff :: u32) :: u64) = 0xffff" by (simp add: take_bit_eq_mod)
  ultimately show ?thesis by (simp add: seg_cs16_def)
qed

lemma kvm_handlers_overwritten_witness:
  "(0x60d, [0xf4]) \<in> set (test_writes 0 0) \<and> test_mem 0 0 0x60d \<noteq> 0xf4 \<and>
   sr_idt_limit (setup_sregs 0 demo_sregs) = 0xffff"
proof -
  have "(13 :: nat) < 32" by simp
  from kvm_handlers_overwritten [OF this, of 0 0 demo_sregs] have
    "(0x600 + 13, [0xf4]) \<in> set (test_writes 0 0)" "test_mem 0 0 (0x600 + 13) \<noteq> 0xf4"
    "sr_idt_limit (setup_sregs 0 demo_sregs) = sr_idt_limit demo_sregs"
    by blast+
  then show ?thesis by (simp add: demo_sregs_def)
qed

end
