(* ===== verification/Kvm_Program.thy ===== *)
theory Kvm_Program
  imports Kvm_Guest
begin

text \<open>
  The system calls of the two KVM programs: \<^verbatim>\<open>test\<close> of \<^verbatim>\<open>kvm-test-lab/kvm-test.c\<close>, around the guest
  preparation of \<open>Kvm_Guest\<close>, and \<^verbatim>\<open>kvm-test-2.c\<close>, which starts a guest while a second thread
  enables a capability of its processor. The programs do not look at what the calls return; a
  call's descriptor is what an earlier call returned. \<open>kvm_exec\<close> is the documented order of the
  interface: a virtual machine is created on the device, a processor on the machine, and so on;
  \<^term>\<open>None\<close> is a call that the kernel refuses.
\<close>

section \<open>Calls\<close>

record kvm_regs =
  rg_rflags :: u64
  rg_rip :: u64
  rg_rsp :: u64       \<comment> \<open>all other registers are zero\<close>

record mem_region =
  mr_slot :: u32
  mr_flags :: u32
  mr_guest_phys_addr :: u64
  mr_memory_size :: u64
  mr_userspace_addr :: u64

text \<open>The descriptor called on comes first, the answer last.\<close>

datatype kvm_call =
    OpenKvm int
  | CreateVm int int
  | CreateVcpu int int
  | SetMemory int mem_region
  | GetSregs int kvm_sregs
  | SetSregs int kvm_sregs
  | GetSupportedCpuid int bytes bytes     \<comment> \<open>the buffer before and after\<close>
  | SetCpuid2 int bytes
  | SetRegs int kvm_regs
  | CreateIrqchip int
  | EnableCap int nat
  | Run int

text \<open>What the kernel answers: three descriptors, the address of the memory, the initial
  special registers, and the buffer with the supported CPUID entries.\<close>

record kvm_answers =
  kva_kvmfd :: int
  kva_vmfd :: int
  kva_cpufd :: int
  kva_host_mem :: u64
  kva_sregs :: kvm_sregs
  kva_cpuid :: bytes

section \<open>test of kvm-test.c\<close>

text \<open>
  \<^verbatim>\<open>buf\<close>: 16 KiB of zeros, with 128 in the first field, \<^verbatim>\<open>nent\<close>, of the \<^verbatim>\<open>struct kvm_cpuid2\<close> at its start.
\<close>

definition test_cpuid :: bytes where
  "test_cpuid = mem_splice (replicate (16 * 1024) 0) 0 (le32 128)"

text \<open>\<open>a\<close> is the byte of the segments that the code leaves uninitialised, as in \<open>setup_sregs\<close>.\<close>

definition test_calls :: "u8 \<Rightarrow> kvm_answers \<Rightarrow> kvm_call list" where
  "test_calls a k =
     [OpenKvm (kva_kvmfd k), CreateVm (kva_kvmfd k) (kva_vmfd k), CreateVcpu (kva_vmfd k) (kva_cpufd k),
      SetMemory (kva_vmfd k) \<lparr>mr_slot = 0, mr_flags = 0, mr_guest_phys_addr = 0,
        mr_memory_size = of_nat guest_mem_size, mr_userspace_addr = kva_host_mem k\<rparr>,
      GetSregs (kva_cpufd k) (kva_sregs k), GetSupportedCpuid (kva_kvmfd k) test_cpuid (kva_cpuid k),
      SetCpuid2 (kva_cpufd k) (kva_cpuid k),
      SetSregs (kva_cpufd k) (setup_sregs a (kva_sregs k)),
      SetRegs (kva_cpufd k) \<lparr>rg_rflags = 2, rg_rip = 0, rg_rsp = 0x200\<rparr>, Run (kva_cpufd k)]"

section \<open>kvm-test-2.c\<close>

definition KVM_CAP_HYPERV_SYNIC :: nat where
  "KVM_CAP_HYPERV_SYNIC = 123"

definition thr_calls :: "int \<Rightarrow> kvm_call list" where
  "thr_calls arg = [EnableCap arg KVM_CAP_HYPERV_SYNIC]"

definition guest2_code :: bytes where
  "guest2_code =
    [0x1a, 0xb5, 0x00, 0x04, 0x65, 0x26, 0x64, 0x26, 0xf0, 0x82, 0xaa, 0x00,
     0x02, 0x00, 0x3e, 0x75, 0x64, 0xf3, 0xf3, 0xf0, 0x18, 0x35, 0x66, 0xb9,
     0x99, 0x00, 0x00, 0x40, 0x46, 0xb8, 0xc0, 0x40, 0x00, 0x00, 0x66, 0xba,
     0x00, 0x00, 0x00, 0x00, 0x0f, 0x30, 0x0f, 0xfc, 0xda, 0xdb, 0xca, 0x36,
     0x26, 0x3e, 0x67, 0x3e, 0x67, 0xcf, 0x66, 0xb9, 0x4a, 0x0a, 0x00, 0x00,
     0x0f, 0x32, 0x2e, 0x26, 0x65, 0x0f, 0x0f, 0x01, 0xa0]"

text \<open>The guest's memory: a page of zeros with the code copied to its start.\<close>

definition guest2_mem :: "bytes option" where
  "guest2_mem = memcpy (replicate 0x1000 0) 0 guest2_code 0 69"

definition guest2_sregs :: "kvm_sregs \<Rightarrow> kvm_sregs" where
  "guest2_sregs sregs = sregs\<lparr>sr_cr0 := 0, sr_cr4 := 0, sr_efer := 0,
     sr_cs := (sr_cs sregs)\<lparr>seg_selector := 0, seg_base := 0\<rparr>\<rparr>"

text \<open>\<^verbatim>\<open>main\<close> before it creates the thread, and what it does while the thread runs.\<close>

definition main2_setup :: "kvm_answers \<Rightarrow> kvm_call list" where
  "main2_setup k =
     [OpenKvm (kva_kvmfd k), CreateVm (kva_kvmfd k) (kva_vmfd k),
      SetMemory (kva_vmfd k) \<lparr>mr_slot = 0, mr_flags = 0, mr_guest_phys_addr = 0,
        mr_memory_size = 0x1000, mr_userspace_addr = kva_host_mem k\<rparr>,
      CreateVcpu (kva_vmfd k) (kva_cpufd k), GetSregs (kva_cpufd k) (kva_sregs k),
      SetSregs (kva_cpufd k) (guest2_sregs (kva_sregs k)),
      SetRegs (kva_cpufd k) \<lparr>rg_rflags = 2, rg_rip = 0, rg_rsp = 0\<rparr>, CreateIrqchip (kva_vmfd k)]"

definition main2_run :: "kvm_answers \<Rightarrow> kvm_call list" where
  "main2_run k = [Run (kva_cpufd k)]"

text \<open>All orders in which the calls of the program can reach the kernel.\<close>

definition main2_calls :: "kvm_answers \<Rightarrow> kvm_call list set" where
  "main2_calls k = (\<lambda>cs. main2_setup k @ cs) ` shuffles (thr_calls (kva_cpufd k)) (main2_run k)"

section \<open>The order the interface asks for\<close>

record kvm_vm =
  kv_kvm :: "int option"
  kv_vm :: "int option"
  kv_cpu :: "int option"
  kv_memory :: "mem_region option"
  kv_sregs :: "kvm_sregs option"
  kv_regs :: "kvm_regs option"
  kv_cpuid :: "bytes option"
  kv_irqchip :: bool
  kv_apic :: bool           \<comment> \<open>the processor was created after the interrupt controller\<close>
  kv_caps :: "nat list"
  kv_runs :: nat

definition kvm_vm0 :: kvm_vm where
  "kvm_vm0 = \<lparr>kv_kvm = None, kv_vm = None, kv_cpu = None, kv_memory = None, kv_sregs = None, kv_regs = None, kv_cpuid = None,
     kv_irqchip = False, kv_apic = False, kv_caps = [], kv_runs = 0\<rparr>"

definition kvm_do :: "kvm_call \<Rightarrow> kvm_vm \<Rightarrow> kvm_vm option" where
  "kvm_do c s = (case c of
      OpenKvm r \<Rightarrow> (if 0 \<le> r then Some (s\<lparr>kv_kvm := Some r\<rparr>) else None)
    | CreateVm fd r \<Rightarrow> (if kv_kvm s = Some fd \<and> 0 \<le> r then Some (s\<lparr>kv_vm := Some r\<rparr>) else None)
    | CreateVcpu fd r \<Rightarrow>
        (if kv_vm s = Some fd \<and> 0 \<le> r then Some (s\<lparr>kv_cpu := Some r, kv_apic := kv_irqchip s\<rparr>) else None)
    | SetMemory fd m \<Rightarrow> (if kv_vm s = Some fd then Some (s\<lparr>kv_memory := Some m\<rparr>) else None)
    | GetSregs fd r \<Rightarrow> (if kv_cpu s = Some fd then Some s else None)
    | SetSregs fd r \<Rightarrow> (if kv_cpu s = Some fd then Some (s\<lparr>kv_sregs := Some r\<rparr>) else None)
    | GetSupportedCpuid fd b c \<Rightarrow> (if kv_kvm s = Some fd then Some s else None)
    | SetCpuid2 fd b \<Rightarrow> (if kv_cpu s = Some fd then Some (s\<lparr>kv_cpuid := Some b\<rparr>) else None)
    | SetRegs fd r \<Rightarrow> (if kv_cpu s = Some fd then Some (s\<lparr>kv_regs := Some r\<rparr>) else None)
    | CreateIrqchip fd \<Rightarrow> (if kv_vm s = Some fd then Some (s\<lparr>kv_irqchip := True\<rparr>) else None)
    | EnableCap fd c \<Rightarrow> (if kv_cpu s = Some fd then Some (s\<lparr>kv_caps := c # kv_caps s\<rparr>) else None)
    | Run fd \<Rightarrow> (if kv_cpu s = Some fd then Some (s\<lparr>kv_runs := kv_runs s + 1\<rparr>) else None))"

fun kvm_exec :: "kvm_call list \<Rightarrow> kvm_vm \<Rightarrow> kvm_vm option" where
  "kvm_exec [] s = Some s"
| "kvm_exec (c # cs) s = Option.bind (kvm_do c s) (kvm_exec cs)"

definition kvm_granted :: "kvm_answers \<Rightarrow> bool" where
  "kvm_granted k \<longleftrightarrow> 0 \<le> kva_kvmfd k \<and> 0 \<le> kva_vmfd k \<and> 0 \<le> kva_cpufd k"

lemma kvm_exec_append: "kvm_exec (cs @ ds) s = Option.bind (kvm_exec cs s) (kvm_exec ds)"
  by (induction cs arbitrary: s) (auto split: bind_splits)

text \<open>
  \<^verbatim>\<open>test\<close> runs the guest once, with the memory, the special registers and the general registers that
  it has prepared: the guest starts at address 0, where its code is.
\<close>

lemma test_calls_run:
  assumes "kvm_granted k"
  shows "kvm_exec (test_calls a k) kvm_vm0 = Some (kvm_vm0\<lparr>kv_kvm := Some (kva_kvmfd k), kv_vm := Some (kva_vmfd k),
     kv_cpu := Some (kva_cpufd k), kv_memory := Some \<lparr>mr_slot = 0, mr_flags = 0, mr_guest_phys_addr = 0,
       mr_memory_size = of_nat guest_mem_size, mr_userspace_addr = kva_host_mem k\<rparr>,
     kv_sregs := Some (setup_sregs a (kva_sregs k)), kv_cpuid := Some (kva_cpuid k),
     kv_regs := Some \<lparr>rg_rflags = 2, rg_rip = 0, rg_rsp = 0x200\<rparr>, kv_runs := 1\<rparr>)"
  using assms by (simp add: test_calls_def kvm_granted_def kvm_do_def kvm_vm0_def)

lemma guest2_mem_code: "\<exists>m. guest2_mem = Some m \<and> length m = 0x1000 \<and> take 69 m = guest2_code"
proof -
  have l: "length guest2_code = 69" by (simp add: guest2_code_def)
  then show ?thesis by (simp add: guest2_mem_def memcpy_eq mem_splice_def)
qed

text \<open>
  Whatever the order in which the two threads of \<^verbatim>\<open>kvm-test-2.c\<close> come, no call is refused: the
  guest runs once on a processor whose memory and registers were set before, and the
  capability is enabled once. The processor has no local interrupt controller, because the
  interrupt chip is created after it.
\<close>

lemma kvm_test_2_any_order:
  assumes "kvm_granted k" and "cs \<in> main2_calls k"
  shows "\<exists>s. kvm_exec cs kvm_vm0 = Some s \<and> kv_runs s = 1 \<and> kv_caps s = [KVM_CAP_HYPERV_SYNIC] \<and>
     kv_sregs s = Some (guest2_sregs (kva_sregs k)) \<and> kv_regs s = Some \<lparr>rg_rflags = 2, rg_rip = 0, rg_rsp = 0\<rparr> \<and>
     map_option mr_memory_size (kv_memory s) = Some 0x1000 \<and> kv_irqchip s \<and> \<not> kv_apic s"
proof -
  let ?e = "EnableCap (kva_cpufd k) KVM_CAP_HYPERV_SYNIC" and ?r = "Run (kva_cpufd k)"
  have "cs = main2_setup k @ [?e, ?r] \<or> cs = main2_setup k @ [?r, ?e]"
    using assms(2) by (auto simp: main2_calls_def thr_calls_def main2_run_def)
  then show ?thesis
    using assms(1) by (auto simp: main2_setup_def kvm_granted_def kvm_do_def kvm_vm0_def)
qed

definition demo_kvm :: kvm_answers where
  "demo_kvm = \<lparr>kva_kvmfd = 3, kva_vmfd = 4, kva_cpufd = 5, kva_host_mem = 0x7f0000000000, kva_sregs = demo_sregs,
     kva_cpuid = test_cpuid\<rparr>"

lemma kvm_test_2_any_order_witness:
  "\<exists>s. kvm_exec (main2_setup demo_kvm @ [Run 5, EnableCap 5 KVM_CAP_HYPERV_SYNIC]) kvm_vm0 = Some s \<and> kv_runs s = 1 \<and> \<not> kv_apic s"
proof -
  have "kvm_granted demo_kvm" by (simp add: kvm_granted_def demo_kvm_def)
  moreover have "main2_setup demo_kvm @ [Run 5, EnableCap 5 KVM_CAP_HYPERV_SYNIC] \<in> main2_calls demo_kvm"
    by (auto simp: main2_calls_def thr_calls_def main2_run_def demo_kvm_def)
  ultimately show ?thesis using kvm_test_2_any_order by blast
qed

end
