(* ===== verification/Kvm_Main.thy ===== *)
theory Kvm_Main
  imports Kvm_Program "HOL-Library.AList"
begin

text \<open>
  \<^verbatim>\<open>main\<close> of \<^verbatim>\<open>kvm-test-lab/kvm-test.c\<close>: the program forks a supervisor, which forks one worker
  after the other and waits for each, while the program itself sleeps and returns. The worker
  calls \<^verbatim>\<open>printg\<close>, which is not in the repository: whether it returns in a given process is the
  parameter \<open>ends\<close>. The processes are a step relation; \<^verbatim>\<open>fork\<close> fails whenever the kernel
  likes. The list of forks and of successful waits of the supervisor is part of the state.
\<close>

section \<open>The processes\<close>

type_synonym pid = nat

datatype par_pc = PFork | PSleep | PReturned int

datatype sup_pc = SNone | SFork | SWait pid | SExited int

datatype wrk_pc = WRunning | WExited int    \<comment> \<open>exited and not yet waited for\<close>

datatype sup_event = Forked pid | Reaped pid

record kvm_procs =
  kp_par :: par_pc
  kp_sup :: sup_pc
  kp_wrk :: "(pid \<times> wrk_pc) list"      \<comment> \<open>the supervisor's children, newest first\<close>
  kp_log :: "sup_event list"

definition kp_start :: kvm_procs where
  "kp_start = \<lparr>kp_par = PFork, kp_sup = SNone, kp_wrk = [], kp_log = []\<rparr>"

text \<open>
  The outer loop runs once: the process that \<^verbatim>\<open>fork\<close> returns a non-zero number to, which is the
  parent and also the caller of a \<^verbatim>\<open>fork\<close> that failed, goes on to \<^verbatim>\<open>sleep\<close>. \<^verbatim>\<open>waitpid(-1, ...)\<close>
  returns any child that has exited; any other answer than the worker's number, an error
  included, makes the supervisor call it again.
\<close>

inductive kp_step :: "(pid \<Rightarrow> bool) \<Rightarrow> kvm_procs \<Rightarrow> kvm_procs \<Rightarrow> bool" for ends where
  par_fork: "kp_par s = PFork \<Longrightarrow> kp_step ends s (s\<lparr>kp_par := PSleep, kp_sup := SFork\<rparr>)"
| par_fork_fails: "kp_par s = PFork \<Longrightarrow> kp_step ends s (s\<lparr>kp_par := PSleep\<rparr>)"
| par_sleep: "kp_par s = PSleep \<Longrightarrow> kp_step ends s (s\<lparr>kp_par := PReturned 0\<rparr>)"
| sup_fork: "kp_sup s = SFork \<Longrightarrow> p \<notin> fst ` set (kp_wrk s) \<Longrightarrow> 0 < p \<Longrightarrow>
    kp_step ends s (s\<lparr>kp_sup := SWait p, kp_wrk := (p, WRunning) # kp_wrk s, kp_log := kp_log s @ [Forked p]\<rparr>)"
| sup_fork_fails: "kp_sup s = SFork \<Longrightarrow> kp_step ends s (s\<lparr>kp_sup := SExited 0\<rparr>)"
| wrk_exit: "(p, WRunning) \<in> set (kp_wrk s) \<Longrightarrow> ends p \<Longrightarrow>
    kp_step ends s (s\<lparr>kp_wrk := AList.update p (WExited 0) (kp_wrk s)\<rparr>)"
| sup_wait: "kp_sup s = SWait p \<Longrightarrow> (q, WExited v) \<in> set (kp_wrk s) \<Longrightarrow>
    kp_step ends s (s\<lparr>kp_sup := if q = p then SFork else SWait p,
                      kp_wrk := filter (\<lambda>(r, _). r \<noteq> q) (kp_wrk s), kp_log := kp_log s @ [Reaped q]\<rparr>)"
| sup_wait_error: "kp_sup s = SWait p \<Longrightarrow> kp_step ends s s"

inductive_cases kp_stepE: "kp_step ends s s'"

section \<open>One worker at a time\<close>

text \<open>A log of whole turns: every fork is followed by the wait for that worker.\<close>

fun turns :: "sup_event list \<Rightarrow> bool" where
  "turns [] = True"
| "turns (Forked p # Reaped q # es) = (p = q \<and> turns es)"
| "turns es = False"

lemma turns_append: "turns es \<Longrightarrow> turns (es @ [Forked p, Reaped p])"
  by (induction es rule: turns.induct) simp_all

definition kp_inv :: "kvm_procs \<Rightarrow> bool" where
  "kp_inv s \<longleftrightarrow> (kp_par s = PFork \<longrightarrow> kp_sup s = SNone) \<and>
     (case kp_sup s of
        SWait p \<Rightarrow> \<exists>w es. kp_wrk s = [(p, w)] \<and> kp_log s = es @ [Forked p] \<and> turns es
      | SNone \<Rightarrow> kp_wrk s = [] \<and> kp_log s = []
      | SFork \<Rightarrow> kp_wrk s = [] \<and> turns (kp_log s)
      | SExited v \<Rightarrow> v = 0 \<and> kp_wrk s = [] \<and> turns (kp_log s))"

lemma kp_inv_step: "kp_step ends s s' \<Longrightarrow> kp_inv s \<Longrightarrow> kp_inv s'"
proof (induction rule: kp_step.induct)
  case (sup_wait s p q v)
  then obtain w es where "kp_wrk s = [(p, w)]" "kp_log s = es @ [Forked p]" "turns es"
    by (auto simp: kp_inv_def)
  then show ?case using sup_wait turns_append [of es p] by (auto simp: kp_inv_def)
next
  case (wrk_exit p s)
  then show ?case by (auto simp: kp_inv_def split: sup_pc.splits)
qed (auto simp: kp_inv_def split: sup_pc.splits)

lemma kp_inv_reachable: "(kp_step ends)\<^sup>*\<^sup>* kp_start s \<Longrightarrow> kp_inv s"
proof (induction rule: rtranclp_induct)
  case base
  show ?case by (simp add: kp_inv_def kp_start_def)
qed (rule kp_inv_step)

text \<open>A worker that ends is waited for, and the next one is forked.\<close>

lemma kp_turn:
  assumes "kp_inv s" "kp_sup s = SWait p" "ends p"
  shows "\<exists>s'. (kp_step ends)\<^sup>*\<^sup>* s s' \<and> kp_sup s' = SFork \<and> kp_log s' = kp_log s @ [Reaped p]"
proof -
  from assms obtain w where w: "kp_wrk s = [(p, w)]" by (auto simp: kp_inv_def)
  have reap: "\<exists>s'. (kp_step ends)\<^sup>*\<^sup>* t s' \<and> kp_sup s' = SFork \<and> kp_log s' = kp_log t @ [Reaped p]"
    if "kp_wrk t = [(p, WExited v)]" "kp_sup t = SWait p" for t v
  proof (intro exI conjI)
    let ?t = "t\<lparr>kp_sup := SFork, kp_wrk := [], kp_log := kp_log t @ [Reaped p]\<rparr>"
    show "(kp_step ends)\<^sup>*\<^sup>* t ?t" using sup_wait [of t p p v ends] that by auto
  qed simp_all
  show ?thesis
  proof (cases w)
    case WRunning
    let ?t = "s\<lparr>kp_wrk := AList.update p (WExited 0) (kp_wrk s)\<rparr>"
    have "kp_step ends s ?t" using w WRunning assms(3) by (intro wrk_exit) simp_all
    moreover have "kp_wrk ?t = [(p, WExited 0)]" "kp_sup ?t = SWait p" using w assms(2) by simp_all
    from reap [OF this] obtain s' where "(kp_step ends)\<^sup>*\<^sup>* ?t s'" "kp_sup s' = SFork"
      "kp_log s' = kp_log s @ [Reaped p]" by auto
    ultimately show ?thesis by (meson converse_rtranclp_into_rtranclp)
  next
    case (WExited v)
    with reap [of s v] w assms(2) show ?thesis by simp
  qed
qed

section \<open>Properties\<close>

text \<open>
  C31. In every reachable state of the processes of \<^verbatim>\<open>main\<close>, with any failures of \<^verbatim>\<open>fork\<close>, the
  supervisor has at most one worker: its forks and waits alternate, each wait being for the
  worker forked just before. So \<^verbatim>\<open>waitpid\<close> always has a child to wait for, and nothing is left
  unwaited when the supervisor exits, which it does with status 0. A worker whose function
  returns is waited for, and the supervisor then forks again.
\<close>

theorem kvm_supervisor_serial:
  assumes "(kp_step ends)\<^sup>*\<^sup>* kp_start s"
  shows "(\<exists>es. turns es \<and> (kp_log s = es \<and> kp_wrk s = [] \<or>
            (\<exists>p w. kp_log s = es @ [Forked p] \<and> kp_sup s = SWait p \<and> kp_wrk s = [(p, w)]))) \<and>
    (\<forall>v. kp_sup s = SExited v \<longrightarrow> v = 0 \<and> kp_wrk s = []) \<and>
    (\<forall>p. kp_sup s = SWait p \<and> ends p \<longrightarrow>
       (\<exists>s'. (kp_step ends)\<^sup>*\<^sup>* s s' \<and> kp_sup s' = SFork \<and> kp_log s' = kp_log s @ [Reaped p]))"
proof (intro conjI allI impI)
  have inv: "kp_inv s" by (rule kp_inv_reachable [OF assms])
  then show "\<exists>es. turns es \<and> (kp_log s = es \<and> kp_wrk s = [] \<or>
      (\<exists>p w. kp_log s = es @ [Forked p] \<and> kp_sup s = SWait p \<and> kp_wrk s = [(p, w)]))"
    by (cases "kp_sup s") (auto simp: kp_inv_def)
  from inv show "v = 0" "kp_wrk s = []" if "kp_sup s = SExited v" for v
    using that by (simp_all add: kp_inv_def)
  from inv show "\<exists>s'. (kp_step ends)\<^sup>*\<^sup>* s s' \<and> kp_sup s' = SFork \<and> kp_log s' = kp_log s @ [Reaped p]"
    if "kp_sup s = SWait p \<and> ends p" for p
    using that by (blast intro: kp_turn)
qed

definition kp_demo :: kvm_procs where
  "kp_demo = \<lparr>kp_par = PSleep, kp_sup = SWait 7, kp_wrk = [(7, WRunning)], kp_log = [Forked 7]\<rparr>"

lemma kp_demo_reachable: "(kp_step ends)\<^sup>*\<^sup>* kp_start kp_demo"
proof -
  have "kp_step ends kp_start (kp_start\<lparr>kp_par := PSleep, kp_sup := SFork\<rparr>)"
    by (rule par_fork) (simp add: kp_start_def)
  moreover have "kp_step ends (kp_start\<lparr>kp_par := PSleep, kp_sup := SFork\<rparr>) kp_demo"
    using sup_fork [of "kp_start\<lparr>kp_par := PSleep, kp_sup := SFork\<rparr>" 7 ends]
    by (simp add: kp_start_def kp_demo_def)
  ultimately show ?thesis by (meson r_into_rtranclp rtranclp.rtrancl_into_rtrancl)
qed

theorem kvm_supervisor_serial_witness:
  "\<exists>s'. (kp_step (\<lambda>p. True))\<^sup>*\<^sup>* kp_demo s' \<and> kp_sup s' = SFork \<and> kp_log s' = [Forked 7, Reaped 7]"
  using kvm_supervisor_serial [OF kp_demo_reachable, of "\<lambda>p. True"] by (simp add: kp_demo_def)

text \<open>
  When the first \<^verbatim>\<open>fork\<close> fails, \<^verbatim>\<open>main\<close> behaves as if it had succeeded: it sleeps and returns 0
  without any supervisor.
\<close>

lemma kvm_main_ignores_fork_failure:
  "(kp_step ends)\<^sup>*\<^sup>* kp_start (kp_start\<lparr>kp_par := PReturned 0\<rparr>)"
proof -
  have "kp_step ends kp_start (kp_start\<lparr>kp_par := PSleep\<rparr>)"
    by (rule par_fork_fails) (simp add: kp_start_def)
  moreover have "kp_step ends (kp_start\<lparr>kp_par := PSleep\<rparr>) (kp_start\<lparr>kp_par := PReturned 0\<rparr>)"
    using par_sleep [of "kp_start\<lparr>kp_par := PSleep\<rparr>" ends] by (simp add: kp_start_def)
  ultimately show ?thesis by (meson r_into_rtranclp rtranclp.rtrancl_into_rtrancl)
qed

end
