(* ===== verification/Small_Modules.thy ===== *)
theory Small_Modules
  imports Module_Lifecycle
begin

text \<open>
  The small modules, whose behaviour is what they acquire, set up and give back: the linked
  list (\<^verbatim>\<open>data-struct-labs/list.c\<close>), the timers (\<^verbatim>\<open>timer-labs/\<close>), the module notifier
  (\<^verbatim>\<open>notifier-labs/notifier-module.c\<close>), the slab cache (\<^verbatim>\<open>mm-lab/mod_kmem_cache.c\<close>), the poll
  device (\<^verbatim>\<open>poll-labs/poll.c\<close>), the kernel thread of \<^verbatim>\<open>sched-lab/\<close> and the probe of
  \<^verbatim>\<open>kprobe-labs/kprobe.c\<close>. Those that keep the contract of a module are interpretations of
  \<open>loadable\<close> or \<open>unloadable\<close>; for the others a lemma says what is left.
\<close>

section \<open>list.c\<close>

record my_entry =
  me_addr :: ptr
  me_val :: int

definition list_add :: "my_entry \<Rightarrow> my_entry list \<Rightarrow> my_entry list" where
  "list_add e l = e # l"

record list_globals =
  lg_list :: "my_entry list"
  lg_printed :: "int list"

definition list_lab_init :: "ptr \<times> ptr \<Rightarrow> list_globals loaded" where
  "list_lab_init a =
     (let m1 = fst a; m2 = snd a; g = \<lparr>lg_list = [], lg_printed = []\<rparr> in
      if m1 = NULL then (- ENOMEM, g, [Kmalloc m1])
      else if m2 = NULL then (- ENOMEM, g, [Kmalloc m1, Kmalloc m2])
      else
        let l = list_add \<lparr>me_addr = m2, me_val = 27\<rparr> (list_add \<lparr>me_addr = m1, me_val = 20\<rparr> []) in
        (0, \<lparr>lg_list = l, lg_printed = map me_val l\<rparr>, [Kmalloc m1, Kmalloc m2]))"

text \<open>\<^verbatim>\<open>list_for_each_safe\<close>: each entry is taken off the list and freed.\<close>

fun list_free :: "my_entry list \<Rightarrow> kcall list" where
  "list_free [] = []"
| "list_free (e # l) = Kfree (me_addr e) # list_free l"

definition list_lab_exit :: "list_globals \<Rightarrow> kcall list" where
  "list_lab_exit g = list_free (lg_list g)"

interpretation list_mod: unloadable list_lab_init list_lab_exit "\<lambda>a. True"
  by unfold_locales
    (auto simp: list_lab_init_def list_lab_exit_def list_add_def Let_def kcall_simps split: if_splits)

lemma list_lab_leaks:
  "m1 \<noteq> NULL \<Longrightarrow> kexec {#} (load_unload list_lab_init list_lab_exit (m1, NULL)) = Some {#RMem m1#}"
  by (simp add: load_unload_def list_lab_init_def Let_def kcall_simps)

section \<open>Timers\<close>

text \<open>
  \<^verbatim>\<open>timer.c\<close> has two timers, \<open>my_timer\<close> and the one inside \<open>my_data\<close>. Only the second is ever
  armed; the exit function deletes the first. The model unloads the module before the timer
  has expired.
\<close>

definition my_timer :: ptr where "my_timer = 1"
definition my_data_tlist :: ptr where "my_data_tlist = 2"

definition timer_init :: "unit \<Rightarrow> unit loaded" where
  "timer_init u = (0, (), [Add_timer my_data_tlist])"

definition timer_exit :: "unit \<Rightarrow> kcall list" where
  "timer_exit u = [Del_timer my_timer]"

lemma timer_stays_armed:
  "kexec {#} (load_unload timer_init timer_exit ()) = Some {#RTimer my_data_tlist#}"
  by (simp add: load_unload_def timer_init_def timer_exit_def my_timer_def my_data_tlist_def kcall_simps)

text \<open>\<^verbatim>\<open>hrtimer.c\<close>: \<^verbatim>\<open>hrtimer_cancel\<close> waits for a running callback, like \<^verbatim>\<open>del_timer_sync\<close>.\<close>

definition hr_timer :: ptr where "hr_timer = 3"

definition hrtimer_init :: "unit \<Rightarrow> unit loaded" where
  "hrtimer_init u = (0, (), [Add_timer hr_timer])"

definition hrtimer_exit :: "unit \<Rightarrow> kcall list" where
  "hrtimer_exit u = [Del_timer_sync hr_timer]"

interpretation hrtimer_mod: loadable hrtimer_init hrtimer_exit "\<lambda>a. True"
  by unfold_locales (auto simp: hrtimer_init_def hrtimer_exit_def kcall_simps)

section \<open>notifier-module.c\<close>

text \<open>
  The callback names the state \<open>v\<close> of a module; a state behind the end of the table is a read
  out of range. What is printed is the module's name, the state and the priority.
\<close>

definition master :: "string list" where
  "master = [''LIVE'', ''COMING'', ''GOING'']"

definition get_notify :: "int \<Rightarrow> u64 \<Rightarrow> string \<Rightarrow> (int \<times> string \<times> string \<times> int) option" where
  "get_notify priority v name =
     (if unat v < length master then Some (0, name, master ! unat v, priority) else None)"

text \<open>The kernel's numbers of the three states a notifier is told about.\<close>

lemma get_notify_states:
  "get_notify 12 0 m = Some (0, m, ''LIVE'', 12)" "get_notify 12 1 m = Some (0, m, ''COMING'', 12)"
  "get_notify 12 2 m = Some (0, m, ''GOING'', 12)"
  by (simp_all add: get_notify_def master_def)

definition hello_init :: "ptr \<Rightarrow> ptr loaded" where
  "hello_init pnb =
     (if pnb = NULL then (- ENOMEM, pnb, [Kzalloc pnb])
      else (0, pnb, [Kzalloc pnb, Deref pnb, Register_module_notifier pnb]))"

definition hello_exit :: "ptr \<Rightarrow> kcall list" where
  "hello_exit pnb = [Unregister_module_notifier pnb, Kfree pnb]"

interpretation notifier_mod: loadable hello_init hello_exit "\<lambda>a. True"
  by unfold_locales (auto simp: hello_init_def hello_exit_def kcall_simps split: if_splits)

section \<open>mod_kmem_cache.c\<close>

text \<open>The answers: the cache and the object. The object's allocation is not checked.\<close>

definition jslab_init :: "ptr \<times> ptr \<Rightarrow> (ptr \<times> ptr) loaded" where
  "jslab_init a =
     (let jcache = fst a; buf = snd a in
      if jcache = NULL then (- ENOMEM, (jcache, NULL), [Kmem_cache_create jcache, Kmem_cache_destroy jcache])
      else (0, (jcache, buf), [Kmem_cache_create jcache, Kmem_cache_alloc jcache buf]))"

definition jslab_exit :: "ptr \<times> ptr \<Rightarrow> kcall list" where
  "jslab_exit g = [Kmem_cache_free (fst g) (snd g), Kmem_cache_destroy (fst g)]"

interpretation jslab_mod: loadable jslab_init jslab_exit "\<lambda>a. snd a \<noteq> NULL"
  by unfold_locales (auto simp: jslab_init_def jslab_exit_def Let_def kcall_simps split: if_splits)

lemma jslab_frees_null:
  "jcache \<noteq> NULL \<Longrightarrow> kexec {#} (load_unload jslab_init jslab_exit (jcache, NULL)) = None"
  by (simp add: load_unload_def jslab_init_def jslab_exit_def Let_def kcall_simps)

section \<open>poll.c\<close>

text \<open>
  Each open file has a \<open>polldev\<close>. A value the code uses without having set it (what
  \<^verbatim>\<open>kern_open\<close> returns, the mask of \<^verbatim>\<open>kern_poll\<close>) is a parameter.
\<close>

record polldev =
  pd_state :: u64

definition POLLIN :: u64 where
  "POLLIN = 1"

text \<open>\<^term>\<open>None\<close> is a fault: the fields of a null pointer are written.\<close>

definition kern_open :: "int \<Rightarrow> ptr \<Rightarrow> (int \<times> polldev option) option" where
  "kern_open garbage pd =
     (if IS_ERR pd then Some (PTR_ERR pd, None)
      else if pd = NULL then None
      else Some (garbage, Some \<lparr>pd_state = 0\<rparr>))"

definition kern_release :: "ptr \<Rightarrow> int \<times> kcall list" where
  "kern_release pd = (0, [Kfree pd])"

definition kern_poll :: "u32 \<Rightarrow> polldev \<Rightarrow> u32" where
  "kern_poll garbage pd = garbage"

text \<open>The commands wake or reset; the waiters of the queue are woken by both.\<close>

definition kern_unlocked_ioctl :: "u32 \<Rightarrow> polldev \<Rightarrow> int \<times> bool \<times> polldev" where
  "kern_unlocked_ioctl cmd pd =
     (if cmd = 1 then (0, True, pd\<lparr>pd_state := POLLIN\<rparr>)
      else if cmd = 2 then (0, True, pd\<lparr>pd_state := 0\<rparr>)
      else (- ENOTTY, False, pd))"

definition poll_init :: "int \<Rightarrow> unit loaded" where
  "poll_init r = (if r \<noteq> 0 then (- EBUSY, (), [Misc_register r]) else (0, (), [Misc_register r]))"

definition poll_exit :: "unit \<Rightarrow> kcall list" where
  "poll_exit u = [Misc_deregister]"

interpretation poll_mod: loadable poll_init poll_exit "\<lambda>r. True"
  by unfold_locales (auto simp: poll_init_def poll_exit_def kcall_simps split: if_splits)

text \<open>A refused allocation is not noticed, and a wake-up is never reported to a poller.\<close>

lemma poll_open_null: "kern_open garbage 0 = None"
  by (simp add: kern_open_def)

lemma poll_reports_no_wake:
  "kern_unlocked_ioctl 1 pd = (0, True, pd') \<Longrightarrow> pd_state pd' = POLLIN \<and> kern_poll garbage pd' = kern_poll garbage pd"
  by (auto simp: kern_unlocked_ioctl_def kern_poll_def)

section \<open>sched-lab/kthread\<close>

definition kthread_init :: "ptr \<Rightarrow> ptr loaded" where
  "kthread_init tsk = (if tsk = NULL then (- 1, tsk, [Kthread_run tsk]) else (0, tsk, [Kthread_run tsk]))"

definition kthread_exit :: "ptr \<Rightarrow> kcall list" where
  "kthread_exit tsk = [Kthread_stop tsk]"

interpretation kthread_mod: loadable kthread_init kthread_exit "\<lambda>p. \<not> IS_ERR p"
  by unfold_locales (auto simp: kthread_init_def kthread_exit_def kcall_simps split: if_splits)

text \<open>The test for a null pointer does not see an error pointer: the module loads, and unloading
  stops a thread that does not exist.\<close>

lemma kthread_error_unnoticed:
  "IS_ERR p \<Longrightarrow> fst (kthread_init p) = 0 \<and> kexec {#} (load_unload kthread_init kthread_exit p) = None"
  by (cases "p = 0") (simp_all add: load_unload_def kthread_init_def kthread_exit_def kcall_simps)

section \<open>kprobe.c\<close>

text \<open>A failed registration is reported in the log only: the module loads, and unloading
  removes a probe that is not there.\<close>

definition init_kprobe_sample :: "int \<Rightarrow> unit loaded" where
  "init_kprobe_sample retval = (0, (), [Register_kprobe retval])"

definition cleanup_kprobe_sample :: "unit \<Rightarrow> kcall list" where
  "cleanup_kprobe_sample u = [Unregister_kprobe]"

interpretation kprobe_mod: unloadable init_kprobe_sample cleanup_kprobe_sample "\<lambda>r. 0 \<le> r"
  by unfold_locales (auto simp: init_kprobe_sample_def cleanup_kprobe_sample_def kcall_simps)

lemma kprobe_removes_unregistered:
  "r < 0 \<Longrightarrow> kexec {#} (load_unload init_kprobe_sample cleanup_kprobe_sample r) = None"
  by (simp add: load_unload_def init_kprobe_sample_def cleanup_kprobe_sample_def kcall_simps)

end
