(* ===== verification/Memory_Scan.thy ===== *)
theory Memory_Scan
  imports Module_Lifecycle
begin

text \<open>
  Programs that walk over memory: \<^verbatim>\<open>mmap-root/jeff-mmap.c\<close>, which searches mapped physical memory
  for a marker and patches what follows it, the module \<^verbatim>\<open>mmap-root/kmalloc.c\<close> that puts such a
  marker into memory, \<^verbatim>\<open>mmap-root/mmap-get-root.c\<close>, which searches for the user's number, and
  \<^verbatim>\<open>memcheck\<close> of \<^verbatim>\<open>include/kernel_helper.h\<close>. The mapping is a list of bytes or words; a read or
  write outside it is \<^term>\<open>None\<close>.
\<close>

section \<open>jeff-mmap.c\<close>

definition marker :: bytes where
  "marker = bytes_of_string ''jeffnice''"

definition patch :: bytes where
  "patch = bytes_of_string ''-19''"

text \<open>
  The condition \<^verbatim>\<open>addr[count++] == 'j' && ...\<close> at offset \<open>i\<close>: it reads a byte only when all
  before it were equal.
\<close>

fun matches :: "'a list \<Rightarrow> nat \<Rightarrow> 'a list \<Rightarrow> bool option" where
  "matches m i [] = Some True"
| "matches m i (c # cs) =
     (if i < length m then (if m ! i = c then matches m (Suc i) cs else Some False) else None)"

text \<open>One turn of the \<^verbatim>\<open>while\<close> loop, and the loop over the next \<open>k\<close> addresses; the result is the
  memory and the offsets that were reported.\<close>

definition scan_turn :: "nat \<Rightarrow> bytes \<Rightarrow> (bytes \<times> nat list) option" where
  "scan_turn i m =
     (case matches m i marker of
        None \<Rightarrow> None
      | Some False \<Rightarrow> Some (m, [])
      | Some True \<Rightarrow> map_option (\<lambda>m'. (m', [i])) (mem_write m (i + length marker) patch))"

fun scan_loop :: "nat \<Rightarrow> nat \<Rightarrow> bytes \<Rightarrow> (bytes \<times> nat list) option" where
  "scan_loop i 0 m = Some (m, [])"
| "scan_loop i (Suc k) m =
     Option.bind (scan_turn i m) (\<lambda>(m1, found).
       map_option (\<lambda>(m2, more). (m2, found @ more)) (scan_loop (Suc i) k m1))"

text \<open>
  \<^verbatim>\<open>main\<close>: \<open>fd\<close> is the answer of \<^verbatim>\<open>open\<close>, \<open>mapped\<close> that of \<^verbatim>\<open>mmap\<close>, and \<open>m\<close> the mapping, of the size asked
  for. The result is the exit status, the memory and the offsets reported.
\<close>

definition jeff_mmap :: "int \<Rightarrow> bool \<Rightarrow> bytes \<Rightarrow> (int \<times> bytes \<times> nat list) option" where
  "jeff_mmap fd mapped m =
     (if fd < 0 then Some (- 1, m, [])
      else if \<not> mapped then Some (- 1, m, [])
      else map_option (\<lambda>(m', found). (0, m', found)) (scan_loop 0 (length m) m))"

section \<open>kmalloc.c\<close>

definition init_kmalloc :: "ptr \<Rightarrow> ptr loaded" where
  "init_kmalloc p = (if p = NULL then (- 1, p, [Kmalloc p]) else (0, p, [Kmalloc p, Deref p]))"

definition exit_kmalloc :: "ptr \<Rightarrow> kcall list" where
  "exit_kmalloc p = [Deref p, Kfree p]"

text \<open>What the module copies into its 20 bytes, without the terminating zero.\<close>

definition kmalloc_text :: bytes where
  "kmalloc_text = bytes_of_string ''jeffnice+20''"

interpretation kmalloc_mod: loadable init_kmalloc exit_kmalloc "\<lambda>p. True"
  by unfold_locales (auto simp: init_kmalloc_def exit_kmalloc_def kcall_simps split: if_splits)

section \<open>mmap-get-root.c\<close>

text \<open>Eight words from \<open>i\<close> on are set to \<open>w\<close>.\<close>

definition put8 :: "u32 list \<Rightarrow> nat \<Rightarrow> u32 \<Rightarrow> u32 list option" where
  "put8 m i w = (if i + 8 \<le> length m then Some (take i m @ replicate 8 w @ drop (i + 8) m) else None)"

text \<open>
  One turn of the loop: eight words equal to the user's number are set to 0; when the kernel
  then says the user is 0 the program stops, else it writes the number back. \<open>getuid\<close> is the
  kernel's answer, which depends on the memory. The result is whether the loop stops, the
  memory, and the offsets reported.
\<close>

definition cred_turn ::
  "(u32 list \<Rightarrow> u32) \<Rightarrow> u32 \<Rightarrow> nat \<Rightarrow> u32 list \<Rightarrow> (bool \<times> u32 list \<times> nat list) option" where
  "cred_turn getuid uid i m =
     (case matches m i (replicate 8 uid) of
        None \<Rightarrow> None
      | Some False \<Rightarrow> Some (False, m, [])
      | Some True \<Rightarrow>
          Option.bind (put8 m i 0) (\<lambda>m1.
            if getuid m1 = 0 then Some (True, m1, [i])
            else map_option (\<lambda>m2. (False, m2, [i])) (put8 m1 i uid)))"

fun cred_loop ::
  "(u32 list \<Rightarrow> u32) \<Rightarrow> u32 \<Rightarrow> nat \<Rightarrow> nat \<Rightarrow> u32 list \<Rightarrow> (bool \<times> u32 list \<times> nat list) option" where
  "cred_loop getuid uid i 0 m = Some (False, m, [])"
| "cred_loop getuid uid i (Suc k) m =
     Option.bind (cred_turn getuid uid i m) (\<lambda>(stop, m1, found).
       if stop then Some (True, m1, found)
       else map_option (\<lambda>(r, m2, more). (r, m2, found @ more)) (cred_loop getuid uid (Suc i) k m1))"

text \<open>\<^verbatim>\<open>main\<close>, with the answers of \<^verbatim>\<open>open\<close> and \<^verbatim>\<open>mmap\<close>. Where the loop stops the program becomes a shell.\<close>

definition get_root_main ::
  "int \<Rightarrow> bool \<Rightarrow> (u32 list \<Rightarrow> u32) \<Rightarrow> u32 list \<Rightarrow> (int \<times> bool \<times> u32 list \<times> nat list) option" where
  "get_root_main fd mapped getuid m =
     (let uid = getuid m in
      if fd < 0 then Some (- 1, False, m, [])
      else if \<not> mapped then Some (- 1, False, m, [])
      else map_option (\<lambda>(stop, m', found). (0, stop, m', found)) (cred_loop getuid uid 0 (length m) m))"

section \<open>memcheck\<close>

text \<open>The loop from index \<open>i\<close> over \<open>n\<close> more bytes.\<close>

fun memcheck_loop :: "bytes \<Rightarrow> u8 \<Rightarrow> nat \<Rightarrow> nat \<Rightarrow> int option" where
  "memcheck_loop buf val i 0 = Some 0"
| "memcheck_loop buf val i (Suc n) =
     (if i < length buf then (if buf ! i \<noteq> val then Some (- EFAULT) else memcheck_loop buf val (Suc i) n)
      else None)"

definition memcheck :: "bytes \<Rightarrow> u8 \<Rightarrow> u32 \<Rightarrow> int option" where
  "memcheck buf val sz = memcheck_loop buf val 0 (unat sz)"

lemma memcheck_loop_spec:
  "i + n \<le> length buf \<Longrightarrow>
   memcheck_loop buf val i n = Some (if \<forall>b \<in> set (take n (drop i buf)). b = val then 0 else - EFAULT)"
proof (induction n arbitrary: i)
  case (Suc n)
  then have "take (Suc n) (drop i buf) = buf ! i # take n (drop (Suc i) buf)"
    by (simp add: Cons_nth_drop_Suc [symmetric])
  with Suc show ?case by simp
qed simp

text \<open>\<^verbatim>\<open>memcheck\<close> accepts exactly a buffer of equal bytes.\<close>

lemma memcheck_spec:
  assumes "unat sz \<le> length buf"
  shows "memcheck buf val sz = Some (if \<forall>b \<in> set (take (unat sz) buf). b = val then 0 else - EFAULT)"
  using memcheck_loop_spec [of 0 "unat sz" buf val] assms by (simp add: memcheck_def)

section \<open>Where the marker occurs\<close>

definition occurs :: "bytes \<Rightarrow> nat \<Rightarrow> bool" where
  "occurs m i \<longleftrightarrow> i + length marker \<le> length m \<and> take (length marker) (drop i m) = marker"

text \<open>The memory does not end with the beginning of a marker.\<close>

definition clean_end :: "bytes \<Rightarrow> bool" where
  "clean_end m \<longleftrightarrow> (\<forall>k. 0 < k \<longrightarrow> k < length marker \<longrightarrow> k \<le> length m \<longrightarrow>
     drop (length m - k) m \<noteq> take k marker)"

lemma matches_prefix:
  "matches m i cs =
     (if i + length cs \<le> length m then Some (take (length cs) (drop i m) = cs)
      else if i \<le> length m \<and> drop i m = take (length m - i) cs then None
      else if i \<le> length m then Some False else if cs = [] then Some True else None)"
proof (induction cs arbitrary: i)
  case (Cons c cs)
  show ?case
  proof (cases "i < length m")
    case True
    then have d: "drop i m = m ! i # drop (Suc i) m" by (simp add: Cons_nth_drop_Suc)
    have "length m - i = Suc (length m - Suc i)" using True by simp
    with d True Cons [of "Suc i"] show ?thesis by auto
  next
    case False
    then show ?thesis by auto
  qed
qed auto

lemma length_marker [simp]: "length marker = 8" "length patch = 3"
  by (simp_all add: marker_def patch_def)

lemma matches_marker:
  assumes "clean_end m" and "i < length m"
  shows "matches m i marker = Some (occurs m i)"
proof (cases "i + 8 \<le> length m")
  case True
  then show ?thesis by (simp add: matches_prefix occurs_def)
next
  case False
  have "length m - i < length marker" "0 < length m - i" "length m - i \<le> length m" using assms(2) False by simp_all
  then have "drop (length m - (length m - i)) m \<noteq> take (length m - i) marker"
    using assms(1) unfolding clean_end_def by blast
  then show ?thesis using assms(2) False by (simp add: matches_prefix occurs_def)
qed

lemma scan_skip:
  assumes "clean_end m" and "i + k \<le> length m" and "\<And>j. i \<le> j \<Longrightarrow> j < i + k \<Longrightarrow> \<not> occurs m j"
  shows "scan_loop i k m = Some (m, [])"
  using assms(2,3)
proof (induction k arbitrary: i)
  case (Suc k)
  have "matches m i marker = Some False"
    using matches_marker [OF assms(1), of i] Suc.prems by simp
  then have "scan_turn i m = Some (m, [])" by (simp add: scan_turn_def)
  moreover have "scan_loop (Suc i) k m = Some (m, [])" using Suc by simp
  ultimately show ?case by simp
qed simp

lemma scan_loop_append:
  "scan_loop i (j + k) m = Option.bind (scan_loop i j m) (\<lambda>(m1, found).
     map_option (\<lambda>(m2, more). (m2, found @ more)) (scan_loop (i + j) k m1))"
proof (induction j arbitrary: i m)
  case 0
  then show ?case by (auto simp: map_option_case split: option.splits)
next
  case (Suc j)
  show ?case
    by (cases "scan_turn i m") (auto simp: Suc bind_eq_Some_conv map_option_case split: option.splits bind_splits prod.splits)
qed


section \<open>Patching creates no marker\<close>

lemma patch_no_letter: "set marker \<inter> set patch = {}"
  by (simp add: marker_def patch_def bytes_of_string_def byte_of_char_def)

lemma marker_survives:
  assumes "off + 3 \<le> length m" and "k \<le> 8" and "j + k \<le> length m"
    and "take k (drop j (mem_splice m off patch)) = take k marker"
  shows "take k (drop j m) = take k marker"
proof (rule nth_equalityI)
  show "length (take k (drop j m)) = length (take k marker)" using assms(2,3) by simp
  fix q assume "q < length (take k (drop j m))"
  then have q: "q < k" "j + q < length m" using assms(3) by auto
  let ?m = "mem_splice m off patch"
  have len: "length ?m = length m" using assms(1) by simp
  have "take k (drop j ?m) ! q = take k marker ! q" using assms(4) by simp
  then have e: "?m ! (j + q) = marker ! q" using q assms(3) len by simp
  have "marker ! q \<in> set marker" using q assms(2) by (intro nth_mem) simp
  then have "marker ! q \<notin> set patch" using patch_no_letter by blast
  moreover have "?m ! (j + q) \<in> set patch" if "off \<le> j + q" "j + q < off + 3"
  proof -
    have "j + q - off < length patch" using that by simp
    then have "patch ! (j + q - off) \<in> set patch" by (rule nth_mem)
    then show ?thesis using nth_mem_splice [of off patch m "j + q"] assms(1) q(2) that by simp
  qed
  ultimately have "\<not> (off \<le> j + q \<and> j + q < off + 3)" using e by auto
  then have "m ! (j + q) = marker ! q"
    using e nth_mem_splice [of off patch m "j + q"] assms(1) q(2) by (auto split: if_splits)
  then show "take k (drop j m) ! q = take k marker ! q" using q assms(3) by simp
qed

lemma patched_memory:
  assumes "off + 3 \<le> length m"
  shows "clean_end m \<Longrightarrow> clean_end (mem_splice m off patch)"
    and "occurs (mem_splice m off patch) j \<Longrightarrow> occurs m j"
proof -
  have len: "length (mem_splice m off patch) = length m" using assms by simp
  assume "clean_end m"
  then show "clean_end (mem_splice m off patch)"
    unfolding clean_end_def len
  proof (intro allI impI notI)
    fix k assume m: "\<forall>k>0. k < length marker \<longrightarrow> k \<le> length m \<longrightarrow> drop (length m - k) m \<noteq> take k marker"
      and k: "0 < k" "k < length marker" "k \<le> length m"
      and e: "drop (length m - k) (mem_splice m off patch) = take k marker"
    have "take k (drop (length m - k) m) = take k marker"
      by (rule marker_survives [OF assms]) (use k e len in simp_all)
    then show False using m k by auto
  qed
next
  assume "occurs (mem_splice m off patch) j"
  then show "occurs m j"
    using marker_survives [OF assms, of 8 j] assms by (simp add: occurs_def)
qed

section \<open>What the program does\<close>



text \<open>A memory of four zero bytes, the module's text and three zero bytes.\<close>

definition demo_scan :: bytes where
  "demo_scan = [0, 0, 0, 0] @ kmalloc_text @ [0, 0, 0]"

lemma demo_scan_bytes:
  "demo_scan = [0, 0, 0, 0, 106, 101, 102, 102, 110, 105, 99, 101, 43, 50, 48, 0, 0, 0]"
  by (simp add: demo_scan_def kmalloc_text_def bytes_of_string_def byte_of_char_def)

lemma marker_bytes: "marker = [106, 101, 102, 102, 110, 105, 99, 101]"
  by (simp add: marker_def bytes_of_string_def byte_of_char_def)


text \<open>
  The search for the user's number leaves the memory as it was, except where it stops: then
  exactly eight words, which held the number, are 0, and the kernel takes the user for 0.
\<close>

lemma matches_replicate:
  assumes "matches m i (replicate 8 w) = Some True"
  shows "i + 8 \<le> length m" and "take 8 (drop i m) = replicate 8 w"
  using assms by (auto simp: matches_prefix split: if_splits)

lemma put8_back:
  assumes "matches m i (replicate 8 w) = Some True" and "put8 m i 0 = Some m1"
  shows "put8 m1 i w = Some m"
proof -
  note m = matches_replicate [OF assms(1)]
  have "m1 = take i m @ replicate 8 0 @ drop (i + 8) m" using assms(2) m(1) by (simp add: put8_def)
  then have "put8 m1 i w = Some (take i m @ take 8 (drop i m) @ drop (i + 8) m)" using m by (simp add: put8_def)
  also have "take i m @ take 8 (drop i m) @ drop (i + 8) m = m"
    by (metis append_assoc append_take_drop_id take_add)
  finally show ?thesis .
qed

lemma cred_turn_restores:
  assumes "cred_turn getuid uid i m = Some (stop, m', found)"
  shows "if stop then getuid m' = 0 \<and> take 8 (drop i m) = replicate 8 uid \<and> put8 m i 0 = Some m' else m' = m"
  using assms put8_back [of m i uid]
  by (auto simp: cred_turn_def bind_eq_Some_conv dest: matches_replicate split: option.splits bool.splits if_splits)

lemma cred_loop_restores:
  assumes "cred_loop getuid uid i k m = Some (stop, m', found)"
  shows "if stop then \<exists>j. i \<le> j \<and> j < i + k \<and> take 8 (drop j m) = replicate 8 uid \<and> put8 m j 0 = Some m' \<and> getuid m' = 0
     else m' = m"
  using assms
proof (induction k arbitrary: i m found)
  case (Suc k)
  then obtain st m1 fd where t: "cred_turn getuid uid i m = Some (st, m1, fd)"
    and r: "if st then (stop, m', found) = (True, m1, fd)
        else \<exists>more. cred_loop getuid uid (Suc i) k m1 = Some (stop, m', more)"
    by (auto simp: bind_eq_Some_conv split: if_splits)
  note c = cred_turn_restores [OF t]
  show ?case
  proof (cases st)
    case True
    then show ?thesis using c r by auto
  next
    case False
    then have m1: "m1 = m" using c by simp
    with False r obtain more where "cred_loop getuid uid (Suc i) k m = Some (stop, m', more)" by auto
    from Suc.IH [OF this] show ?thesis by (cases stop) (simp_all, meson Suc_leD)
  qed
qed simp

lemma get_root_main_restores:
  assumes "get_root_main fd mapped getuid m = Some (r, stop, m', found)"
  shows "if stop then \<exists>j. take 8 (drop j m) = replicate 8 (getuid m) \<and> put8 m j 0 = Some m' \<and> getuid m' = 0 else m' = m"
  using cred_loop_restores [of getuid "getuid m" 0 "length m" m stop m' found] assms
  by (auto simp: get_root_main_def Let_def split: if_splits)

end
