(* ===== verification/Mmap_Device.thy ===== *)
theory Mmap_Device
  imports Module_Lifecycle C_Strings
begin

text \<open>
  The devices that map physical memory into a process: \<^verbatim>\<open>mmap-labs/mmap.c\<close> with its test program
  \<^verbatim>\<open>main.c\<close>, \<^verbatim>\<open>mmap-root/mmap-root.c\<close>, and \<^verbatim>\<open>mmap-labs/rammap.c\<close>, which looks at a physical address
  from inside the kernel. Physical memory is a map from page frame numbers to pages of bytes, a
  process's page table a map from virtual page numbers to page frame numbers;
  \<^verbatim>\<open>remap_pfn_range\<close>, which changes the table, is a parameter.
\<close>

section \<open>The modules\<close>

record mmap_answers =
  mm_page :: ptr
  mm_cdev :: ptr
  mm_region :: int
  mm_dev :: nat
  mm_add :: int

text \<open>The kernel reports success with 0 and errors with a negative number.\<close>

definition mmap_answers_ok :: "mmap_answers \<Rightarrow> bool" where
  "mmap_answers_ok a \<longleftrightarrow> mm_region a \<le> 0 \<and> mm_add a \<le> 0"

definition demo_timer :: ptr where "demo_timer = 4"

text \<open>\<^verbatim>\<open>demo_map_init\<close> of \<^verbatim>\<open>mmap.c\<close>, with its three error labels.\<close>

definition demo_map_init :: "mmap_answers \<Rightarrow> mmap_answers loaded" where
  "demo_map_init a =
     (let pg = mm_page a; c = mm_cdev a; d = mm_dev a;
          cdev_err = [Kunmap pg, ClearPageReserved pg, Free_pages pg];
          region_err = Cdev_del c # cdev_err;
          add_err = Unregister_chrdev_region d # region_err;
          tr = [Alloc_pages pg] in
      if pg = NULL then (- ENOMEM, a, tr)
      else
        let tr = tr @ [SetPageReserved pg, Kmap pg, Cdev_alloc c] in
        if c = NULL then (- ENOMEM, a, tr @ cdev_err)
        else
          let tr = tr @ [Cdev_init c, Alloc_chrdev_region (mm_region a) d] in
          if mm_region a \<noteq> 0 then (mm_region a, a, tr @ region_err)
          else
            let tr = tr @ [Cdev_add c d (mm_add a)] in
            if mm_add a \<noteq> 0 then (mm_add a, a, tr @ add_err)
            else (0, a, tr @ [Add_timer demo_timer]))"

definition demo_map_exit :: "mmap_answers \<Rightarrow> kcall list" where
  "demo_map_exit a =
     [Del_timer_sync demo_timer, Cdev_del (mm_cdev a), Unregister_chrdev_region (mm_dev a),
      Kunmap (mm_page a), ClearPageReserved (mm_page a), Free_pages (mm_page a)]"

interpretation demo_map_mod: loadable demo_map_init demo_map_exit mmap_answers_ok
  by unfold_locales
    (auto simp: demo_map_init_def demo_map_exit_def mmap_answers_ok_def Let_def kcall_simps split: if_splits)

text \<open>\<^verbatim>\<open>cve_mmap_init\<close> of \<^verbatim>\<open>mmap-root.c\<close>.\<close>

definition cve_mmap_init :: "mmap_answers \<Rightarrow> mmap_answers loaded" where
  "cve_mmap_init a =
     (let c = mm_cdev a; d = mm_dev a; tr = [Cdev_alloc c] in
      if c = NULL then (- ENOMEM, a, tr)
      else
        let tr = tr @ [Cdev_init c, Alloc_chrdev_region (mm_region a) d] in
        if mm_region a \<noteq> 0 then (mm_region a, a, tr @ [Cdev_del c])
        else
          let tr = tr @ [Cdev_add c d (mm_add a)] in
          if mm_add a \<noteq> 0 then (mm_add a, a, tr @ [Unregister_chrdev_region d, Cdev_del c])
          else (0, a, tr))"

definition cve_mmap_exit :: "mmap_answers \<Rightarrow> kcall list" where
  "cve_mmap_exit a = [Cdev_del (mm_cdev a), Unregister_chrdev_region (mm_dev a)]"

interpretation cve_mmap_mod: loadable cve_mmap_init cve_mmap_exit mmap_answers_ok
  by unfold_locales
    (auto simp: cve_mmap_init_def cve_mmap_exit_def mmap_answers_ok_def Let_def kcall_simps split: if_splits)

section \<open>The handlers\<close>

type_synonym ptab = "u64 \<rightharpoonup> u64"
type_synonym frames = "u64 \<rightharpoonup> bytes"
type_synonym remap = "u64 \<Rightarrow> u64 \<Rightarrow> u64 \<Rightarrow> ptab \<Rightarrow> int \<times> ptab"

record vm_area =
  vm_start :: u64
  vm_end :: u64
  vm_pgoff :: u64

text \<open>
  Both handlers map whatever range of physical pages the caller asks for: the offset of the
  mapping is the page frame number.
\<close>

definition demo_mmap :: "remap \<Rightarrow> vm_area \<Rightarrow> ptab \<Rightarrow> int \<times> ptab" where
  "demo_mmap remap_pfn_range vma pt =
     (let start = vm_start vma; size = vm_end vma - vm_start vma in
      remap_pfn_range start (vm_pgoff vma) size pt)"

definition simple_mmap :: "remap \<Rightarrow> vm_area \<Rightarrow> ptab \<Rightarrow> int \<times> ptab" where
  "simple_mmap remap_pfn_range vma pt =
     (case remap_pfn_range (vm_start vma) (vm_pgoff vma) (vm_end vma - vm_start vma) pt of
        (err, pt') \<Rightarrow> (if err \<noteq> 0 then - EAGAIN else 0, pt'))"

text \<open>\<^verbatim>\<open>dev_release\<close> of \<^verbatim>\<open>mmap-root.c\<close> frees the file's private data, which nobody has set.\<close>

definition dev_release :: "ptr \<Rightarrow> int \<times> kcall list" where
  "dev_release private_data = (0, [Kfree private_data])"

text \<open>The text \<^verbatim>\<open>demo_map_init\<close> puts into its page, and what the timer prints before it is armed again.\<close>

definition KSTR_DEF :: string where
  "KSTR_DEF = ''Hello world from kernel virtual space''"

definition strcpy :: "bytes \<Rightarrow> bytes \<Rightarrow> bytes option" where
  "strcpy dst src = mem_write dst 0 (c_string src @ [0])"

definition demo_map_page :: "bytes \<Rightarrow> bytes option" where
  "demo_map_page pg = strcpy pg (bytes_of_string KSTR_DEF)"

definition timer_func :: "bytes \<Rightarrow> bytes \<times> kcall list" where
  "timer_func pg = (c_string pg, [Add_timer demo_timer])"

section \<open>The test program\<close>

text \<open>\<^verbatim>\<open>strtoul\<close> with base 16: white space, a sign, \<^verbatim>\<open>0x\<close>, and digits up to the first other character; too
  large a number is the largest one.\<close>

definition hex_digit :: "char \<Rightarrow> nat option" where
  "hex_digit c =
     (let n = of_char c :: nat in
      if 48 \<le> n \<and> n \<le> 57 then Some (n - 48)
      else if 97 \<le> n \<and> n \<le> 102 then Some (n - 87)
      else if 65 \<le> n \<and> n \<le> 70 then Some (n - 55)
      else None)"

fun hex_run :: "nat \<Rightarrow> string \<Rightarrow> nat" where
  "hex_run acc [] = acc"
| "hex_run acc (c # cs) = (case hex_digit c of None \<Rightarrow> acc | Some d \<Rightarrow> hex_run (16 * acc + d) cs)"

definition hex_prefix :: "string \<Rightarrow> string" where
  "hex_prefix s =
     (case s of
        z # x # d # rest \<Rightarrow>
          if z = CHR ''0'' \<and> x \<in> {CHR ''x'', CHR ''X''} \<and> hex_digit d \<noteq> None then d # rest else s
      | _ \<Rightarrow> s)"

definition is_space :: "char \<Rightarrow> bool" where
  "is_space c \<longleftrightarrow> c = CHR '' '' \<or> (let n = of_char c :: nat in 9 \<le> n \<and> n \<le> 13)"

definition strtoul16 :: "string \<Rightarrow> u64" where
  "strtoul16 str =
     (let s = dropWhile is_space str;
          neg = (s \<noteq> [] \<and> hd s = CHR ''-'');
          s = (if s \<noteq> [] \<and> hd s \<in> {CHR ''-'', CHR ''+''} then tl s else s);
          n = hex_run 0 (hex_prefix s) in
      if 2 ^ 64 \<le> n then - 1 else if neg then - of_nat n else of_nat n)"

definition MAP_SIZE :: u64 where
  "MAP_SIZE = 4096"

definition USTR_DEF :: string where
  "USTR_DEF = ''String changed from the User Space''"

text \<open>
  The page a user address lies in.
\<close>

definition user_frame :: "ptab \<Rightarrow> u64 \<Rightarrow> u64 option" where
  "user_frame pt p = pt (drop_bit 12 p)"

text \<open>
  \<^verbatim>\<open>main\<close> over \<^verbatim>\<open>open\<close> and \<^verbatim>\<open>mmap\<close> (length and offset to an address, or \<^term>\<open>None\<close> for \<^verbatim>\<open>MAP_FAILED\<close>, and
  the page table). The result is the exit status, the strings read from the mapping and
  the memory. The arguments behind the last are null pointers; neither they nor the result of
  \<^verbatim>\<open>mmap\<close> are tested.
\<close>

definition mmap_main ::
  "(string \<Rightarrow> int) \<Rightarrow> (int \<Rightarrow> u64 \<Rightarrow> u64 \<Rightarrow> u64 option \<times> ptab) \<Rightarrow> string list \<Rightarrow> frames \<Rightarrow>
   (int \<times> bytes list \<times> frames) outcome" where
  "mmap_main openf mmapf argv mem =
     (if length argv \<le> 1 then Returns (- 1, [], mem)
      else
        let fd = openf (argv ! 1) in
        if fd \<ge> 0 then
          if length argv \<le> 2 then Fault
          else
            (case mmapf fd MAP_SIZE (strtoul16 (argv ! 2)) of
               (None, pt) \<Rightarrow> Fault
             | (Some pdata, pt) \<Rightarrow>
                 (case user_frame pt pdata of
                    None \<Rightarrow> Fault
                  | Some f \<Rightarrow>
                      (case mem f of
                         None \<Rightarrow> Fault
                       | Some page \<Rightarrow>
                           if 0 \<notin> set page then Fault
                           else
                             (case strcpy page (bytes_of_string USTR_DEF) of
                                None \<Rightarrow> Fault
                              | Some page' \<Rightarrow> Returns (0, [c_string page], mem(f \<mapsto> page'))))))
        else Returns (0, [], mem))"

section \<open>rammap.c\<close>

definition physaddr :: u32 where
  "physaddr = 0x32000000"

definition rammap_size :: u32 where
  "rammap_size = 170 * 1024 * 1024"

datatype page_flag =
  PG_lru | PG_private | PG_locked | PG_writeback | PG_slab | PG_swapcache | PG_active | PG_reserved

record page =
  pg_flags :: u64
  pg_mapping :: u64
  pg_mapcount :: int
  pg_count :: int

text \<open>
  What is printed of an address: that it has no page, or the page and the value of each flag,
  \<^verbatim>\<open>page->flags & (1 << PG_...)\<close>. The kernel's numbers of the flags are a parameter; the shifted 1
  is an \<^verbatim>\<open>int\<close>.
\<close>

datatype info_line =
    NoPage u64
  | PageLine u64 page
  | FlagLine page_flag u64

definition flag_value :: "(page_flag \<Rightarrow> nat) \<Rightarrow> page \<Rightarrow> page_flag \<Rightarrow> u64" where
  "flag_value pg_bit pg fl = pg_flags pg AND ulong_of_int (push_bit (pg_bit fl) 1)"

definition api_print_addressinfo ::
  "(page_flag \<Rightarrow> nat) \<Rightarrow> (u64 \<Rightarrow> page option) \<Rightarrow> u64 \<Rightarrow> info_line list" where
  "api_print_addressinfo pg_bit virt_to_page logical_adr =
     (case virt_to_page logical_adr of
        None \<Rightarrow> [NoPage logical_adr]
      | Some pg \<Rightarrow> PageLine logical_adr pg #
          map (\<lambda>fl. FlagLine fl (flag_value pg_bit pg fl))
            [PG_lru, PG_private, PG_locked, PG_writeback, PG_slab, PG_swapcache, PG_active, PG_reserved])"

text \<open>
  \<^verbatim>\<open>__va\<close> and \<^verbatim>\<open>phys_to_virt\<close> add the start of the kernel's direct mapping, a parameter, and \<^verbatim>\<open>__pa\<close>
  takes it off; \<^verbatim>\<open>phys2\<close> is an \<^verbatim>\<open>unsigned int\<close>. The numbers printed are \<open>phys\<close>, \<open>logical\<close>, \<open>phys2\<close>
  and \<open>logical2\<close>.
\<close>

definition api_debug_address ::
  "(page_flag \<Rightarrow> nat) \<Rightarrow> (u64 \<Rightarrow> page option) \<Rightarrow> u64 \<Rightarrow> u32 \<Rightarrow> (u32 \<times> u64 \<times> u32 \<times> u64) \<times> info_line list" where
  "api_debug_address pg_bit virt_to_page page_offset phys =
     (let logical = ucast phys + page_offset;
          logical2 = ucast phys + page_offset;
          phys2 = int_of_ulong (logical - page_offset) in
      ((phys, logical, phys2, logical2), api_print_addressinfo pg_bit virt_to_page logical))"

text \<open>The answer is that of \<^verbatim>\<open>ioremap\<close>.\<close>

definition rammap_init :: "ptr \<Rightarrow> ptr loaded" where
  "rammap_init logical =
     (let tr = [Ioremap logical] in
      if IS_ERR logical
      then (PTR_ERR logical, logical, tr @ [Release_mem_region (unat physaddr) (unat rammap_size)])
      else (0, logical, tr))"

definition rammap_exit :: "ptr \<Rightarrow> kcall list" where
  "rammap_exit logical = [Iounmap logical, Release_mem_region (unat physaddr) (unat rammap_size)]"

section \<open>The lab as a whole\<close>

text \<open>\<^verbatim>\<open>%lx\<close> of \<^verbatim>\<open>printf\<close>.\<close>

definition hex_char :: "nat \<Rightarrow> char" where
  "hex_char d = ''0123456789abcdef'' ! (d mod 16)"

fun hex_string :: "nat \<Rightarrow> string" where
  "hex_string n = (if n < 16 then [hex_char n] else hex_string (n div 16) @ [hex_char (n mod 16)])"

declare hex_string.simps [simp del]

lemma hex_digit_char [simp]: "hex_digit (hex_char d) = Some (d mod 16)"
proof -
  have "list_all (\<lambda>k. hex_digit (''0123456789abcdef'' ! k) = Some k) [0..<16]" by code_simp
  moreover have "d mod 16 \<in> set [0..<16]" by simp
  ultimately show ?thesis unfolding list_all_iff hex_char_def by blast
qed

lemma hex_run_snoc:
  "\<forall>x \<in> set xs. hex_digit x \<noteq> None \<Longrightarrow> hex_digit c = Some d \<Longrightarrow> hex_run acc (xs @ [c]) = 16 * hex_run acc xs + d"
  by (induction xs arbitrary: acc) auto

lemma hex_string_digits: "\<forall>c \<in> set (hex_string n). hex_digit c \<noteq> None"
  by (induction n rule: hex_string.induct) (subst hex_string.simps, auto)

lemma hex_run_hex_string: "hex_run 0 (hex_string n) = n"
proof (induction n rule: hex_string.induct)
  case (1 n)
  show ?case
  proof (cases "n < 16")
    case False
    then have "hex_run 0 (hex_string n) = 16 * hex_run 0 (hex_string (n div 16)) + n mod 16"
      by (subst hex_string.simps) (simp add: hex_run_snoc hex_string_digits)
    with 1 False show ?thesis by simp
  qed (simp add: hex_string.simps)
qed

lemma hex_string_not_empty [simp]: "hex_string n \<noteq> []"
  by (subst hex_string.simps) simp

text \<open>A number that the kernel printed with \<^verbatim>\<open>0x%lx\<close> is read back by the program.\<close>

lemma strtoul16_hex_string:
  assumes "n < 2 ^ 64"
  shows "strtoul16 (''0x'' @ hex_string n) = of_nat n"
proof -
  obtain d rest where h: "hex_string n = d # rest" by (cases "hex_string n") simp_all
  then have "hex_digit d \<noteq> None" using hex_string_digits [of n] by simp
  then have "hex_prefix (''0x'' @ hex_string n) = hex_string n" by (simp add: hex_prefix_def h)
  then show ?thesis using assms by (simp add: strtoul16_def is_space_def hex_run_hex_string)
qed

text \<open>
  What the kernel documents of \<^verbatim>\<open>remap_pfn_range\<close>: it maps the pages of the range to consecutive
  page frames; here it succeeds.
\<close>

definition maps_range :: "remap \<Rightarrow> bool" where
  "maps_range remap_pfn_range \<longleftrightarrow> (\<forall>start pfn size pt.
     fst (remap_pfn_range start pfn size pt) = 0 \<and>
     (\<forall>i < drop_bit 12 size. snd (remap_pfn_range start pfn size pt) (drop_bit 12 start + i) = Some (pfn + i)))"

text \<open>
  \<^verbatim>\<open>mmap(2)\<close> on a device: an offset that is not a multiple of the page size is refused; else the
  device's handler is called with the range of addresses the kernel chose.
\<close>

definition sys_mmap :: "(vm_area \<Rightarrow> ptab \<Rightarrow> int \<times> ptab) \<Rightarrow> u64 \<Rightarrow> ptab \<Rightarrow> u64 \<Rightarrow> u64 \<Rightarrow> u64 option \<times> ptab" where
  "sys_mmap handler uaddr pt len off =
     (if off AND 0xfff \<noteq> 0 then (None, pt)
      else case handler \<lparr>vm_start = uaddr, vm_end = uaddr + len, vm_pgoff = drop_bit 12 off\<rparr> pt of
        (r, pt') \<Rightarrow> (if r = 0 then Some uaddr else None, pt'))"

lemma page_offset_bits:
  assumes "pfn < 2 ^ 52"
  shows "(push_bit 12 pfn :: u64) AND 0xfff = 0" and "drop_bit 12 (push_bit 12 pfn :: u64) = pfn"
    and "unat (push_bit 12 pfn) = unat pfn * 4096"
proof -
  have "unat pfn < 2 ^ 52" using assms by (simp add: word_less_nat_alt)
  then show u: "unat (push_bit 12 pfn) = unat pfn * 4096"
    by (simp add: push_bit_eq_mult unat_word_ariths)
  have "unat (take_bit 12 (push_bit 12 pfn)) = 0"
    by (simp only: unsigned_take_bit_eq u) (simp add: take_bit_eq_mod)
  then have "take_bit 12 (push_bit 12 pfn) = 0" by (simp only: unsigned_eq_0_iff)
  moreover have "(0xfff :: u64) = mask 12" by (simp add: mask_eq_exp_minus_1)
  ultimately show "(push_bit 12 pfn :: u64) AND 0xfff = 0" by (simp only: take_bit_eq_mask)
  have "unat (drop_bit 12 (push_bit 12 pfn)) = unat pfn"
    by (simp only: unat_drop_bit_eq u) (simp add: drop_bit_eq_div)
  then show "drop_bit 12 (push_bit 12 pfn :: u64) = pfn" by (simp only: word_unat_eq_iff)
qed

lemma plain_texts [simp]:
  "plain (bytes_of_string KSTR_DEF)" "plain (bytes_of_string USTR_DEF)"
  "length KSTR_DEF = 37" "length USTR_DEF = 34"
  by (simp_all add: KSTR_DEF_def USTR_DEF_def bytes_of_string_def byte_of_char_def)

lemma strcpy_page:
  assumes "plain src" and "length src < length dst"
  obtains dst' where "strcpy dst src = Some dst'" and "length dst' = length dst" and "c_string dst' = src"
    and "0 \<in> set dst'" and "\<And>j. length src < j \<Longrightarrow> j < length dst \<Longrightarrow> dst' ! j = dst ! j"
proof
  let ?d = "mem_splice dst 0 (src @ [0])"
  show "strcpy dst src = Some ?d" using assms by (simp add: strcpy_def mem_write_def)
  show "length ?d = length dst" using assms by simp
  show "c_string ?d = src" using assms by (simp add: mem_splice_def c_string_terminated)
  show "0 \<in> set ?d" by (simp add: mem_splice_def)
  show "?d ! j = dst ! j" if "length src < j" "j < length dst" for j
    using assms nth_mem_splice [of 0 "src @ [0]" dst j] that by simp
qed

text \<open>
  C27. The program and the module share a page: after the module has put its text into page frame
  \<open>pfn\<close>, the program, run with the physical address that the module printed, prints that text
  and replaces it with its own; the module's timer then prints the program's text. Nothing
  behind the text and no other page frame is changed.
\<close>

theorem mmap_lab_shares_page:
  assumes "maps_range remap_pfn_range" and "length pg = PAGE_SIZE" and "pfn < 2 ^ 52" and "0 \<le> fd"
  shows "\<exists>pg1 pg2. demo_map_page pg = Some pg1 \<and>
     mmap_main (\<lambda>f. fd) (\<lambda>fd. sys_mmap (demo_mmap remap_pfn_range) uaddr pt)
       [prog, dev, ''0x'' @ hex_string (unat pfn * 4096)] (mem(pfn \<mapsto> pg1)) =
       Returns (0, [bytes_of_string KSTR_DEF], mem(pfn \<mapsto> pg2)) \<and>
     timer_func pg2 = (bytes_of_string USTR_DEF, [Add_timer demo_timer]) \<and>
     length pg2 = PAGE_SIZE \<and> (\<forall>j. 38 \<le> j \<longrightarrow> j < PAGE_SIZE \<longrightarrow> pg2 ! j = pg ! j)"
proof -
  have "unat pfn < 2 ^ 52" using assms(3) by (simp add: word_less_nat_alt)
  then have arg: "strtoul16 (''0x'' @ hex_string (unat pfn * 4096)) = push_bit 12 pfn"
    using strtoul16_hex_string [of "unat pfn * 4096"] unat_less_pow_64 [of "push_bit 12 pfn"]
    by (simp add: page_offset_bits(3) [OF assms(3), symmetric])
  obtain pg1 where pg1: "demo_map_page pg = Some pg1" "length pg1 = PAGE_SIZE" "c_string pg1 = bytes_of_string KSTR_DEF"
      "0 \<in> set pg1" "\<And>j. 37 < j \<Longrightarrow> j < PAGE_SIZE \<Longrightarrow> pg1 ! j = pg ! j"
    using strcpy_page [of "bytes_of_string KSTR_DEF" pg] assms(2)
    by (auto simp: demo_map_page_def PAGE_SIZE_def)
  obtain pg2 where pg2: "strcpy pg1 (bytes_of_string USTR_DEF) = Some pg2" "length pg2 = PAGE_SIZE"
      "c_string pg2 = bytes_of_string USTR_DEF" "\<And>j. 34 < j \<Longrightarrow> j < PAGE_SIZE \<Longrightarrow> pg2 ! j = pg1 ! j"
    using strcpy_page [of "bytes_of_string USTR_DEF" pg1] pg1(2) by (auto simp: PAGE_SIZE_def)
  let ?r = "remap_pfn_range uaddr pfn MAP_SIZE pt"
  have "0 < drop_bit 12 MAP_SIZE" by (simp add: MAP_SIZE_def)
  then have "fst ?r = 0" "snd ?r (drop_bit 12 uaddr + 0) = Some (pfn + 0)"
    using assms(1) unfolding maps_range_def by blast+
  then have "sys_mmap (demo_mmap remap_pfn_range) uaddr pt MAP_SIZE (push_bit 12 pfn) = (Some uaddr, snd ?r)"
      and "user_frame (snd ?r) uaddr = Some pfn"
    using page_offset_bits [OF assms(3)]
    by (auto simp: sys_mmap_def demo_mmap_def user_frame_def split: prod.splits)
  then have "mmap_main (\<lambda>f. fd) (\<lambda>fd. sys_mmap (demo_mmap remap_pfn_range) uaddr pt)
       [prog, dev, ''0x'' @ hex_string (unat pfn * 4096)] (mem(pfn \<mapsto> pg1)) =
       Returns (0, [bytes_of_string KSTR_DEF], mem(pfn \<mapsto> pg2))"
    using assms(4) arg pg1(3,4) pg2(1) by (simp add: mmap_main_def)
  moreover have "pg2 ! j = pg ! j" if "38 \<le> j" "j < PAGE_SIZE" for j using pg1(5) [of j] pg2(4) [of j] that by simp
  ultimately show ?thesis using pg1(1) pg2(2,3) by (auto simp: timer_func_def)
qed

text \<open>A \<^verbatim>\<open>remap_pfn_range\<close> that maps everything behind the start of the range.\<close>

definition demo_remap :: remap where
  "demo_remap start pfn len pt = (0, \<lambda>v. Some (pfn + (v - drop_bit 12 start)))"

theorem mmap_lab_shares_page_witness:
  "\<exists>pg1 pg2. demo_map_page (replicate 4096 0) = Some pg1 \<and>
     mmap_main (\<lambda>f. 3) (\<lambda>fd. sys_mmap (demo_mmap demo_remap) 0x7f0000000000 Map.empty)
       [''main'', ''/dev/mmap_dev'', ''0x'' @ hex_string (unat (0x2881b :: u64) * 4096)] [0x2881b \<mapsto> pg1] =
       Returns (0, [bytes_of_string KSTR_DEF], [0x2881b \<mapsto> pg2]) \<and>
     fst (timer_func pg2) = bytes_of_string USTR_DEF"
proof -
  have "maps_range demo_remap" by (simp add: maps_range_def demo_remap_def)
  moreover have "length (replicate 4096 (0 :: u8)) = PAGE_SIZE" by (simp add: PAGE_SIZE_def)
  moreover have "(0x2881b :: u64) < 2 ^ 52" "0 \<le> (3 :: int)" by simp_all
  ultimately show ?thesis
    using mmap_lab_shares_page [of demo_remap "replicate 4096 0" "0x2881b" 3 "0x7f0000000000" Map.empty "''main''" "''/dev/mmap_dev''" Map.empty]
    by fastforce
qed

text \<open>
  The program needs its third argument, and a mapping that succeeds: with the device alone, or
  with an address inside a page, it faults.
\<close>

lemma mmap_main_faults:
  "0 \<le> openf dev \<Longrightarrow> mmap_main openf mmapf [prog, dev] mem = Fault"
  "0 \<le> openf dev \<Longrightarrow> strtoul16 a AND 0xfff \<noteq> 0 \<Longrightarrow>
     mmap_main openf (\<lambda>fd. sys_mmap handler uaddr pt) [prog, dev, a] mem = Fault"
  by (simp_all add: mmap_main_def sys_mmap_def)

section \<open>What rammap.c shows\<close>

text \<open>The address goes to the kernel's mapping and back unchanged.\<close>

lemma api_debug_address_round_trip:
  "fst (api_debug_address pg_bit virt_to_page page_offset phys) =
     (phys, ucast phys + page_offset, phys, ucast phys + page_offset)"
proof -
  have "int_of_ulong (ucast phys :: u64) = phys"
    using unat_less_pow_32 [of phys] by (simp add: word_unat_eq_iff int_of_ulong_small)
  then show ?thesis by (simp add: api_debug_address_def Let_def)
qed

text \<open>For flags below bit 31 the value printed is the flag's bit, in its place.\<close>

lemma flag_value_bit:
  assumes "pg_bit fl < 31"
  shows "flag_value pg_bit pg fl = (if bit (pg_flags pg) (pg_bit fl) then 2 ^ pg_bit fl else 0)"
proof -
  have "ulong_of_int (push_bit (pg_bit fl) 1) = push_bit (pg_bit fl) 1"
    by (rule bit_word_eqI) (use assms in \<open>auto simp: ulong_of_int_def bit_simps min_def\<close>)
  then show ?thesis
    by (auto intro!: bit_word_eqI simp: flag_value_def bit_simps)
qed

text \<open>
  \<^verbatim>\<open>ioremap\<close> answers with a null pointer when it fails, which \<^verbatim>\<open>IS_ERR\<close> does not see; and the memory
  region that unloading releases was never requested.
\<close>

lemma rammap_never_balanced:
  "\<not> IS_ERR p \<Longrightarrow> fst (rammap_init p) = 0 \<and> kexec {#} (load_unload rammap_init rammap_exit p) = None"
  by (simp add: load_unload_def rammap_init_def rammap_exit_def kcall_simps)

end
