(* ===== verification/Kobject_Attr.thy ===== *)
theory Kobject_Attr
  imports Module_Lifecycle C_Strings
begin

text \<open>
  \<^verbatim>\<open>kobject-ueveng-lab/kobject-event.c\<close>: a module that puts a directory, a set and an object into
  sysfs and gives the object an attribute; writing a digit to the attribute sends one of the
  kernel's object events or turns the sending of events off and on.
\<close>

section \<open>The attribute\<close>

datatype uevent = KOBJ_ADD | KOBJ_REMOVE | KOBJ_CHANGE | KOBJ_MOVE | KOBJ_ONLINE | KOBJ_OFFLINE

record kobj_state =
  ko_flag :: u64
  ko_suppress :: bool
  ko_events :: "uevent list"      \<comment> \<open>\<^verbatim>\<open>kobject_uevent\<close> calls that were not suppressed, newest last\<close>

definition kobject_uevent :: "uevent \<Rightarrow> kobj_state \<Rightarrow> kobj_state" where
  "kobject_uevent e s = (if ko_suppress s then s else s\<lparr>ko_events := ko_events s @ [e]\<rparr>)"

text \<open>
  \<^verbatim>\<open>flag = buf[0] - '0'\<close>: a signed character, an \<^verbatim>\<open>int\<close> difference, and 64 bits in the end. The
  kernel ends the buffer with a zero byte, so the first byte of an empty one is zero.
\<close>

definition att_store :: "bytes \<Rightarrow> kobj_state \<Rightarrow> nat \<times> kobj_state" where
  "att_store buf s =
     (let flag = word_of_int (sint (hd0 buf) - 48);
          s = s\<lparr>ko_flag := flag\<rparr> in
      (length buf,
       if flag = 0 then kobject_uevent KOBJ_ADD s
       else if flag = 1 then kobject_uevent KOBJ_REMOVE s
       else if flag = 2 then kobject_uevent KOBJ_CHANGE s
       else if flag = 3 then kobject_uevent KOBJ_MOVE s
       else if flag = 4 then kobject_uevent KOBJ_ONLINE s
       else if flag = 5 then kobject_uevent KOBJ_OFFLINE s
       else if flag = 6 then s\<lparr>ko_suppress := True\<rparr>
       else if flag = 7 then s\<lparr>ko_suppress := False\<rparr>
       else s))"

definition att_show :: "kobj_state \<Rightarrow> string" where
  "att_show s = dec_string (unat (ko_flag s)) @ [CHR 0x0A]"

section \<open>The module\<close>

text \<open>What the kernel answers to the five calls of \<^verbatim>\<open>kobj_init\<close>.\<close>

record kobj_answers =
  ka_parent :: ptr      \<comment> \<open>\<^verbatim>\<open>kobject_create_and_add\<close>\<close>
  ka_child :: ptr       \<comment> \<open>\<^verbatim>\<open>kzalloc\<close>\<close>
  ka_kset :: ptr        \<comment> \<open>\<^verbatim>\<open>kset_create_and_add\<close>\<close>
  ka_add :: int         \<comment> \<open>\<^verbatim>\<open>kobject_init_and_add\<close>\<close>
  ka_file :: int        \<comment> \<open>\<^verbatim>\<open>sysfs_create_file\<close>\<close>

record kobj_globals =
  kg_parent :: ptr
  kg_child :: ptr
  kg_kset :: ptr

definition kobj_init :: "kobj_answers \<Rightarrow> kobj_globals loaded" where
  "kobj_init a =
     (let p = ka_parent a; c = ka_child a; k = ka_kset a;
          g = \<lparr>kg_parent = p, kg_child = c, kg_kset = NULL\<rparr>;
          tr = [Kobject_create_and_add p, Kzalloc c] in
      if c = NULL then (PTR_ERR c, g, tr)
      else
        let g = g\<lparr>kg_kset := k\<rparr>; tr = tr @ [Kset_create_and_add k] in
        if k = NULL then (- 1, g, tr)
        else
          let tr = tr @ [Kobject_init_and_add c (ka_add a)] in
          if ka_add a \<noteq> 0 then (ka_add a, g, tr)
          else (ka_file a, g, tr @ [Deref c, Sysfs_create_file c (ka_file a)]))"

definition kobj_exit :: "kobj_globals \<Rightarrow> kcall list" where
  "kobj_exit g = [Sysfs_remove_file (kg_child g), Kset_unregister (kg_kset g), Kobject_del (kg_child g),
     Kobject_del (kg_parent g)]"

section \<open>Sequences of writes\<close>

fun att_stores :: "bytes list \<Rightarrow> kobj_state \<Rightarrow> kobj_state" where
  "att_stores [] s = s"
| "att_stores (b # bs) s = att_stores bs (snd (att_store b s))"

text \<open>What is asked for with a digit, and what is to be sent for a sequence of digits.\<close>

definition digit_event :: "nat \<Rightarrow> uevent option" where
  "digit_event d = (if d < 6 then Some ([KOBJ_ADD, KOBJ_REMOVE, KOBJ_CHANGE, KOBJ_MOVE, KOBJ_ONLINE, KOBJ_OFFLINE] ! d)
     else None)"

fun sent :: "bool \<Rightarrow> nat list \<Rightarrow> uevent list" where
  "sent off [] = []"
| "sent off (d # ds) =
     (case digit_event d of
        Some e \<Rightarrow> (if off then [] else [e]) @ sent off ds
      | None \<Rightarrow> sent (if d = 6 then True else if d = 7 then False else off) ds)"

definition digit_byte :: "nat \<Rightarrow> u8" where
  "digit_byte d = 48 + of_nat d"

lemma att_store_digit:
  assumes "d < 10"
  shows "snd (att_store (digit_byte d # rest) s) =
     (let s = s\<lparr>ko_flag := of_nat d\<rparr> in
      case digit_event d of
        Some e \<Rightarrow> kobject_uevent e s
      | None \<Rightarrow> s\<lparr>ko_suppress := (if d = 6 then True else if d = 7 then False else ko_suppress s)\<rparr>)"
proof -
  have "d \<in> {0, 1, 2, 3, 4, 5, 6, 7, 8, 9}" using assms by auto
  then show ?thesis
    by (elim insertE emptyE)
      (simp_all add: att_store_def digit_byte_def digit_event_def hd0_def Let_def)
qed

text \<open>
  Writing any sequence of decimal digits to the attribute sends exactly the events the digits
  0 to 5 stand for, in order, except those written between a 6 and the next 7; and reading
  the attribute then gives the digit written last.
\<close>

lemma att_stores_send:
  assumes "\<forall>d \<in> set ds. d < 10"
  shows "ko_events (att_stores (map (\<lambda>d. [digit_byte d]) ds) s) = ko_events s @ sent (ko_suppress s) ds \<and>
     (ds \<noteq> [] \<longrightarrow> att_show (att_stores (map (\<lambda>d. [digit_byte d]) ds) s) = [digit_char (last ds), CHR 0x0A])"
  using assms
proof (induction ds arbitrary: s)
  case (Cons d ds)
  let ?s = "snd (att_store [digit_byte d] s)"
  have d: "d < 10" and IH: "ko_events (att_stores (map (\<lambda>d. [digit_byte d]) ds) ?s) = ko_events ?s @ sent (ko_suppress ?s) ds"
      "ds \<noteq> [] \<Longrightarrow> att_show (att_stores (map (\<lambda>d. [digit_byte d]) ds) ?s) = [digit_char (last ds), CHR 0x0A]"
    using Cons by auto
  have "ko_events ?s @ sent (ko_suppress ?s) ds = ko_events s @ sent (ko_suppress s) (d # ds)"
    using d by (auto simp: att_store_digit kobject_uevent_def Let_def split: option.splits)
  moreover have "ko_flag ?s = of_nat d"
    using d by (auto simp: att_store_digit kobject_uevent_def Let_def split: option.splits)
  then have "att_show ?s = [digit_char d, CHR 0x0A]"
    using d by (simp add: att_show_def dec_string.simps)
  ultimately show ?case using IH by (cases "ds = []") simp_all
qed simp

lemma att_stores_send_witness:
  "ko_events (att_stores (map (\<lambda>d. [digit_byte d]) [0, 6, 1, 7, 2]) \<lparr>ko_flag = 1, ko_suppress = False, ko_events = []\<rparr>) =
     [KOBJ_ADD, KOBJ_CHANGE]"
  using att_stores_send [of "[0, 6, 1, 7, 2]" "\<lparr>ko_flag = 1, ko_suppress = False, ko_events = []\<rparr>"]
  by (simp add: digit_event_def)

section \<open>What unloading leaves\<close>

text \<open>
  \<^verbatim>\<open>kobject_del\<close> takes an object out of sysfs and keeps the reference: the directory and the
  object's memory stay allocated.
\<close>

lemma kobj_unload_leaks:
  assumes "ka_child a \<noteq> NULL" and "ka_kset a \<noteq> NULL" and "ka_add a = 0" and "ka_file a = 0"
  shows "kexec {#} (load_unload kobj_init kobj_exit a) =
     Some (add_mset (RMem (ka_child a)) (if ka_parent a = NULL then {#} else {#RKref (ka_parent a)#}))"
  using assms by (simp add: load_unload_def kobj_init_def kobj_exit_def Let_def kcall_simps)

text \<open>
  A refused allocation is reported as 0, the error number of the null pointer: the module is
  loaded, and unloading removes a file from no object.
\<close>

lemma kobj_null_loads:
  "ka_child a = NULL \<Longrightarrow> fst (kobj_init a) = 0 \<and> kexec {#} (load_unload kobj_init kobj_exit a) = None"
  by (simp add: load_unload_def kobj_init_def kobj_exit_def Let_def PTR_ERR_def kcall_simps)

end
