(* ===== verification/Pointer_Walk.thy ===== *)
theory Pointer_Walk
  imports Kernel_Prelude
begin

text \<open>
  Walking along pointers: the loops of \<^verbatim>\<open>data-struct-labs/taints.c\<close> (over the kernel's ring of
  modules) and of \<^verbatim>\<open>mm-lab/vm_area.c\<close> (over the list of memory areas) follow a link from node
  to node until they meet a stop address. The links are a map from addresses to addresses;
  reading a link that is not mapped is a fault. The loop need not end, so it is a partial
  function, and the theorems say when it does: exactly when a path leads to the stop address,
  and then it has visited the nodes of that path.
\<close>

type_synonym addr = u64
type_synonym links = "addr \<rightharpoonup> addr"

section \<open>The loop\<close>

fun cons_outcome :: "'a \<Rightarrow> 'a list outcome \<Rightarrow> 'a list outcome" where
  "cons_outcome x Fault = Fault"
| "cons_outcome x (Returns xs) = Returns (x # xs)"

text \<open>\<^term>\<open>None\<close>: the loop does not end.\<close>

partial_function (option) walk :: "links \<Rightarrow> addr \<Rightarrow> addr \<Rightarrow> addr list outcome option" where
  "walk nxt stop p =
     (if p = stop then Some (Returns [])
      else case nxt p of
        None \<Rightarrow> Some Fault
      | Some q \<Rightarrow> Option.bind (walk nxt stop q) (\<lambda>r. Some (cons_outcome p r)))"

section \<open>Paths and rings\<close>

text \<open>\<open>lpath nxt p ps q\<close>: the links lead from \<open>p\<close> over the nodes \<open>ps\<close> (\<open>p\<close> first) to \<open>q\<close>.\<close>

fun lpath :: "links \<Rightarrow> addr \<Rightarrow> addr list \<Rightarrow> addr \<Rightarrow> bool" where
  "lpath nxt p [] q \<longleftrightarrow> p = q"
| "lpath nxt p (a # as) q \<longleftrightarrow> a = p \<and> (case nxt p of None \<Rightarrow> False | Some p' \<Rightarrow> lpath nxt p' as q)"

text \<open>A ring through its head, and the nodes between the head and the head.\<close>

definition lring :: "links \<Rightarrow> addr \<Rightarrow> addr list \<Rightarrow> bool" where
  "lring nxt h ps \<longleftrightarrow> lpath nxt h (h # ps) h \<and> distinct (h # ps)"

lemma lpath_append [simp]:
  "lpath nxt p (as @ bs) q \<longleftrightarrow> (\<exists>r. lpath nxt p as r \<and> lpath nxt r bs q)"
  by (induction as arbitrary: p) (auto split: option.splits)

lemma walk_path: "lpath nxt p ps stop \<Longrightarrow> stop \<notin> set ps \<Longrightarrow> walk nxt stop p = Some (Returns ps)"
  by (induction ps arbitrary: p) (subst walk.simps, auto split: option.splits)+

lemma walk_returns_path:
  assumes "walk nxt stop p = Some (Returns ps)"
  shows "lpath nxt p ps stop \<and> stop \<notin> set ps"
  using assms
proof (induction ps arbitrary: p)
  case Nil
  then have "p = stop"
    by (subst (asm) walk.simps) (auto simp: bind_eq_Some_conv elim!: cons_outcome.elims split: if_splits option.splits)
  then show ?case by simp
next
  case (Cons a as)
  from Cons.prems have "p \<noteq> stop" by (subst (asm) walk.simps) auto
  with Cons.prems obtain q r where "nxt p = Some q" "walk nxt stop q = Some r" "cons_outcome p r = Returns (a # as)"
    by (subst (asm) walk.simps) (auto simp: bind_eq_Some_conv split: option.splits)
  moreover from this(3) have "a = p" "r = Returns as" by (cases r; simp)+
  ultimately show ?case using Cons.IH [of q] \<open>p \<noteq> stop\<close> by auto
qed

text \<open>The loop returns with the nodes \<open>ps\<close> exactly when they are the path to the stop address.\<close>

lemma walk_returns_iff:
  "walk nxt stop p = Some (Returns ps) \<longleftrightarrow> lpath nxt p ps stop \<and> stop \<notin> set ps"
  using walk_path walk_returns_path by blast

text \<open>A ring can be entered anywhere: seen from another of its nodes it is rotated.\<close>

lemma lring_rotate:
  assumes "lring nxt h (as @ x # bs)"
  shows "lring nxt x (bs @ h # as)"
proof -
  from assms have "lpath nxt h ((h # as) @ (x # bs)) h" by (simp add: lring_def)
  then have "lpath nxt h (h # as) x" "lpath nxt x (x # bs) h"
    by (auto simp only: lpath_append lpath.simps split: option.splits)
  then have "lpath nxt x ((x # bs) @ (h # as)) x" by (auto simp only: lpath_append)
  moreover have "distinct (x # bs @ h # as)" using assms by (auto simp: lring_def)
  ultimately show ?thesis by (simp add: lring_def)
qed

lemma walk_ring:
  assumes "lring nxt h ps"
  obtains q where "nxt h = Some q" and "walk nxt h q = Some (Returns ps)"
  using assms that by (auto simp: lring_def walk_returns_iff split: option.splits)

end
