(* ===== verification/Vm_Area.thy ===== *)
theory Vm_Area
  imports Pointer_Walk
begin

text \<open>
  \<^verbatim>\<open>mm-lab/vm_area.c\<close>: a module that prints the memory areas of the process that loads it and
  tries the kernel's two lookup functions on them. The areas are records in memory, linked by
  \<^verbatim>\<open>vm_next\<close> up to the null pointer. \<^verbatim>\<open>find_vma\<close> and the function behind the pointer \<^verbatim>\<open>p\<close>
  (\<^verbatim>\<open>find_vma_prev\<close>) are the kernel's and parameters here; \<open>vma_lookup\<close> states what the kernel
  documents about them. A read through a null or dangling pointer is \<^term>\<open>Fault\<close>.
\<close>

section \<open>vm_area.c\<close>

record vm_area_struct =
  vma_start :: u64
  vma_end :: u64
  vma_next :: addr

type_synonym vmas = "addr \<rightharpoonup> vm_area_struct"

text \<open>What \<^verbatim>\<open>vma_init\<close> prints.\<close>

datatype vma_line =
    NullTask | NullCm | NullVma
  | Area u64 u64
  | FindFrom u64 | Got u64 u64
  | PrevArea u64 u64 | NoPrev
  | InitOk

text \<open>A dereference in the middle of the function.\<close>

definition with_vma :: "vmas \<Rightarrow> addr \<Rightarrow> (vm_area_struct \<Rightarrow> 'a outcome) \<Rightarrow> 'a outcome" where
  "with_vma V p k = (if p = 0 then Fault else case V p of None \<Rightarrow> Fault | Some v \<Rightarrow> k v)"

definition vm_next_links :: "vmas \<Rightarrow> links" where
  "vm_next_links V p = map_option vma_next (V p)"

text \<open>The lines of the \<^verbatim>\<open>while (vma)\<close> loop for the areas visited.\<close>

definition area_line :: "vmas \<Rightarrow> addr \<Rightarrow> vma_line" where
  "area_line V p = (case V p of None \<Rightarrow> NullVma | Some v \<Rightarrow> Area (vma_start v) (vma_end v))"

text \<open>
  What follows the loop. \<open>find_vma\<close> answers with an area or the null pointer; \<open>find_prev\<close> with an
  area and what it stored in \<open>prev\<close>.
\<close>

definition vma_lookups ::
  "vmas \<Rightarrow> (addr \<Rightarrow> addr) \<Rightarrow> (addr \<Rightarrow> addr \<times> addr) \<Rightarrow> addr \<Rightarrow> vma_line list outcome" where
  "vma_lookups V find_vma find_prev start_vma =
     with_vma V start_vma (\<lambda>sv.
       let start = vma_start sv - 0x4000;
           vma = find_vma (start - 0x4000) in
       (case (if vma = 0 then Returns []
              else with_vma V vma (\<lambda>v. Returns [FindFrom start, Got (vma_start v) (vma_end v)])) of
          Fault \<Rightarrow> Fault
        | Returns first \<Rightarrow>
            with_vma V (vma_next sv) (\<lambda>nv.
              let start = vma_start nv - 0x4000;
                  (vma, prev) = find_prev (start - 0x4000) in
              (case (if vma = 0 then Returns []
                     else with_vma V vma (\<lambda>v.
                       if prev = 0 then Returns [FindFrom start, Got (vma_start v) (vma_end v), NoPrev]
                       else with_vma V prev (\<lambda>w.
                         Returns [FindFrom start, Got (vma_start v) (vma_end v),
                                  PrevArea (vma_start w) (vma_end w)]))) of
                 Fault \<Rightarrow> Fault
               | Returns second \<Rightarrow> Returns (first @ second @ [InitOk])))))"

text \<open>
  \<open>task\<close> is the current task and \<open>mm\<close> its address space, each possibly null (\<^term>\<open>None\<close>); \<open>mm\<close> is the
  first area. The result is the return value and what was printed.
\<close>

definition vma_init ::
  "vmas \<Rightarrow> (addr \<Rightarrow> addr) \<Rightarrow> (addr \<Rightarrow> addr \<times> addr) \<Rightarrow> addr option option \<Rightarrow>
   (int \<times> vma_line list) outcome option" where
  "vma_init V find_vma find_prev task =
     (case task of
        None \<Rightarrow> Some (Returns (- 1, [NullTask]))
      | Some None \<Rightarrow> Some (Returns (- 1, [NullCm]))
      | Some (Some vma) \<Rightarrow>
          if vma = 0 then Some (Returns (- 1, [NullVma]))
          else
            map_option
              (\<lambda>r. case r of
                 Fault \<Rightarrow> Fault
               | Returns ps \<Rightarrow>
                   (case vma_lookups V find_vma find_prev vma of
                      Fault \<Rightarrow> Fault
                    | Returns ls \<Rightarrow> Returns (0, map (area_line V) ps @ ls)))
              (walk (vm_next_links V) 0 vma))"

section \<open>The address space\<close>

text \<open>
  The areas of an address space in list order: at the addresses \<open>ps\<close> with the contents \<open>as\<close>,
  not empty, ascending and disjoint.
\<close>

definition areas_sorted :: "vm_area_struct list \<Rightarrow> bool" where
  "areas_sorted as \<longleftrightarrow> (\<forall>a \<in> set as. vma_start a < vma_end a) \<and> sorted_wrt (\<lambda>a b. vma_end a \<le> vma_start b) as"

definition address_space :: "vmas \<Rightarrow> addr list \<Rightarrow> vm_area_struct list \<Rightarrow> bool" where
  "address_space V ps as \<longleftrightarrow>
     lpath (vm_next_links V) (hd (ps @ [0])) ps 0 \<and> 0 \<notin> set ps \<and> map V ps = map Some as \<and> areas_sorted as"

text \<open>
  What the kernel documents: \<^verbatim>\<open>find_vma\<close> returns the first area that ends above the address, or
  the null pointer; \<^verbatim>\<open>find_vma_prev\<close> also the area before it.
\<close>

fun lookup_area :: "addr list \<Rightarrow> vm_area_struct list \<Rightarrow> addr \<Rightarrow> addr \<Rightarrow> addr \<times> addr" where
  "lookup_area (p # ps) (a # as) prev x = (if x < vma_end a then (p, prev) else lookup_area ps as p x)"
| "lookup_area _ _ prev x = (0, prev)"

definition vma_lookup :: "addr list \<Rightarrow> vm_area_struct list \<Rightarrow> (addr \<Rightarrow> addr) \<Rightarrow> (addr \<Rightarrow> addr \<times> addr) \<Rightarrow> bool" where
  "vma_lookup ps as find_vma find_prev \<longleftrightarrow>
     (\<forall>x. find_vma x = fst (lookup_area ps as 0 x)) \<and> (\<forall>x. find_prev x = lookup_area ps as 0 x)"

section \<open>What is printed\<close>

lemma address_space_Cons:
  assumes "address_space V (p # ps) as"
  obtains a as' where "as = a # as'" and "V p = Some a" and "p \<noteq> 0" and "vma_next a = hd (ps @ [0])"
    and "address_space V ps as'"
proof -
  from assms obtain a as' where as: "as = a # as'" and V: "V p = Some a" "map V ps = map Some as'"
    by (auto simp: address_space_def)
  from assms V(1) have path: "lpath (vm_next_links V) (vma_next a) ps 0"
    by (simp add: address_space_def vm_next_links_def)
  then have "vma_next a = hd (ps @ [0])" by (cases ps) auto
  with assms as V path show ?thesis
    by (intro that) (auto simp: address_space_def areas_sorted_def)
qed

lemma address_space_walk:
  assumes "address_space V ps as"
  shows "walk (vm_next_links V) 0 (hd (ps @ [0])) = Some (Returns ps)"
    and "map (area_line V) ps = map (\<lambda>a. Area (vma_start a) (vma_end a)) as"
proof -
  show "walk (vm_next_links V) 0 (hd (ps @ [0])) = Some (Returns ps)"
    using assms by (intro walk_path) (auto simp: address_space_def)
  have "map V ps = map Some as \<Longrightarrow> map (area_line V) ps = map (\<lambda>a. Area (vma_start a) (vma_end a)) as" for ps as
    by (induction ps arbitrary: as) (auto simp: area_line_def)
  with assms show "map (area_line V) ps = map (\<lambda>a. Area (vma_start a) (vma_end a)) as"
    by (simp add: address_space_def)
qed

lemma minus_less: "k \<le> x \<Longrightarrow> x < y \<Longrightarrow> x - k < (y :: u64)"
  by (simp add: word_less_nat_alt unat_sub)

text \<open>
  With the lookups the kernel documents, loading the module into a process with at least two
  areas, the first of them not below 0x8000, ends, returns 0 and prints all areas in order.
  The first lookup finds the first area. The second finds the first area too when it reaches
  up to less than 0x8000 below the second one, and else the second with the first before it.
\<close>

lemma vma_init_prints_areas:
  assumes "address_space V (p # q # ps) (a # b # as)"
    and "vma_lookup (p # q # ps) (a # b # as) find_vma find_prev"
    and "0x8000 \<le> vma_start a"
  shows "vma_init V find_vma find_prev (Some (Some p)) = Some (Returns (0,
     map (\<lambda>a. Area (vma_start a) (vma_end a)) (a # b # as) @
     [FindFrom (vma_start a - 0x4000), Got (vma_start a) (vma_end a), FindFrom (vma_start b - 0x4000)] @
     (if vma_start b - 0x8000 < vma_end a then [Got (vma_start a) (vma_end a), NoPrev]
      else [Got (vma_start b) (vma_end b), PrevArea (vma_start a) (vma_end a)]) @ [InitOk]))"
proof -
  from assms(1) have p: "V p = Some a" "p \<noteq> 0" "vma_next a = q" and r: "address_space V (q # ps) (b # as)"
    by (auto elim: address_space_Cons)
  from r have q: "V q = Some b" "q \<noteq> 0" by (auto elim!: address_space_Cons)
  have s: "vma_start a < vma_end a" "vma_end a \<le> vma_start b" "vma_start b < vma_end b"
    using assms(1) by (auto simp: address_space_def areas_sorted_def)
  have a: "vma_start a - 0x8000 < vma_end a" by (rule minus_less [OF assms(3) s(1)])
  have b8: "0x8000 \<le> vma_start b" using assms(3) s by order
  have b: "vma_start b - 0x8000 < vma_end b" by (rule minus_less [OF b8 s(3)])
  have f: "find_vma (vma_start a - 0x8000) = p"
      "find_prev (vma_start b - 0x8000) = (if vma_start b - 0x8000 < vma_end a then (p, 0) else (q, p))"
    using assms(2) a b by (auto simp: vma_lookup_def)
  have "vma_lookups V find_vma find_prev p = Returns
     ([FindFrom (vma_start a - 0x4000), Got (vma_start a) (vma_end a), FindFrom (vma_start b - 0x4000)] @
     (if vma_start b - 0x8000 < vma_end a then [Got (vma_start a) (vma_end a), NoPrev]
      else [Got (vma_start b) (vma_end b), PrevArea (vma_start a) (vma_end a)]) @ [InitOk])"
    using p q by (simp add: vma_lookups_def with_vma_def Let_def f)
  then show ?thesis
    using address_space_walk [OF assms(1)] p(2) by (simp add: vma_init_def)
qed

text \<open>Two areas, 0x400000 to 0x401000 and 0x600000 to 0x601000.\<close>

definition demo_vmas :: vmas where
  "demo_vmas = [16 \<mapsto> \<lparr>vma_start = 0x400000, vma_end = 0x401000, vma_next = 32\<rparr>,
                32 \<mapsto> \<lparr>vma_start = 0x600000, vma_end = 0x601000, vma_next = 0\<rparr>]"

definition demo_areas :: "vm_area_struct list" where
  "demo_areas = [\<lparr>vma_start = 0x400000, vma_end = 0x401000, vma_next = 32\<rparr>,
                 \<lparr>vma_start = 0x600000, vma_end = 0x601000, vma_next = 0\<rparr>]"

lemma vma_init_prints_areas_witness:
  "vma_init demo_vmas (\<lambda>x. fst (lookup_area [16, 32] demo_areas 0 x)) (lookup_area [16, 32] demo_areas 0) (Some (Some 16)) =
     Some (Returns (0, [Area 0x400000 0x401000, Area 0x600000 0x601000, FindFrom 0x3fc000, Got 0x400000 0x401000,
       FindFrom 0x5fc000, Got 0x600000 0x601000, PrevArea 0x400000 0x401000, InitOk]))"
proof -
  have "address_space demo_vmas [16, 32] demo_areas"
    by (simp add: address_space_def areas_sorted_def vm_next_links_def demo_vmas_def demo_areas_def)
  moreover have "vma_lookup [16, 32] demo_areas (\<lambda>x. fst (lookup_area [16, 32] demo_areas 0 x)) (lookup_area [16, 32] demo_areas 0)"
    by (simp add: vma_lookup_def)
  ultimately show ?thesis
    using vma_init_prints_areas [of demo_vmas 16 32 "[]" _ _ "[]"] by (simp add: demo_areas_def)
qed

text \<open>
  The second lookup starts at the second area, which is not tested: with one area only the
  module faults.
\<close>

lemma vma_init_single_area:
  assumes "address_space V [p] as"
  shows "vma_init V find_vma find_prev (Some (Some p)) = Some Fault"
proof -
  from assms have p: "\<exists>a. V p = Some a \<and> vma_next a = 0" "p \<noteq> 0" by (auto elim!: address_space_Cons)
  then have "vma_lookups V find_vma find_prev p = Fault"
    by (auto simp: vma_lookups_def with_vma_def Let_def split: option.splits)
  then show ?thesis using address_space_walk [OF assms] p(2) by (simp add: vma_init_def)
qed

text \<open>
  Below 0x8000 the address wraps around: when no area ends in the last 0x8000 bytes, the first
  lookup finds nothing, although there is an area above the address meant.
\<close>

lemma find_vma_wraps:
  assumes "vma_lookup ps as find_vma find_prev" and "x < 0x8000"
    and "\<And>a. a \<in> set as \<Longrightarrow> vma_end a \<le> - 0x8000"
  shows "find_vma (x - 0x8000) = 0"
proof -
  have x: "- 0x8000 \<le> x - 0x8000"
  proof -
    have "unat x < 0x8000" using assms(2) by (simp add: word_less_nat_alt)
    then have "unat (x + (- 0x8000)) = unat x + (2 ^ 64 - 0x8000)"
      by (subst unat_word_ariths(1)) simp
    then show ?thesis by (simp add: word_le_nat_alt)
  qed
  have "fst (lookup_area ps as prev (x - 0x8000)) = 0" if "\<And>a. a \<in> set as \<Longrightarrow> vma_end a \<le> - 0x8000" for prev
    using that
  proof (induction ps as prev "x - 0x8000" rule: lookup_area.induct)
    case (1 p ps a as prev)
    have "vma_end a \<le> x - 0x8000" using 1(2) [of a] x by (simp add: order_trans)
    then show ?case using 1 by auto
  qed auto
  with assms(1,3) show ?thesis by (simp add: vma_lookup_def)
qed

end
