(* ===== verification/Module_Ring.thy ===== *)
theory Module_Ring
  imports Pointer_Walk
begin

text \<open>
  \<^verbatim>\<open>data-struct-labs/taints.c\<close>: a module that prints itself and then every entry of the ring it
  is on. The kernel threads all loaded modules on one ring, whose head is a variable of the
  kernel and not part of a module; \<open>off\<close> is the offset of the link inside \<^verbatim>\<open>struct module\<close>, and
  \<open>mods\<close> says at which addresses there is a module. What is printed of an address that holds
  no module is \<^term>\<open>None\<close>.
\<close>

section \<open>taints.c\<close>

record kmodule =
  km_name :: string
  km_taints :: u64

text \<open>\<^verbatim>\<open>list_entry(ptr, struct module, list)\<close>.\<close>

definition list_entry :: "addr \<Rightarrow> addr \<Rightarrow> addr" where
  "list_entry off p = p - off"

text \<open>
  \<^verbatim>\<open>list_for_each_entry(curr, modules, list)\<close>: from the successor of the head back to the head,
  with the entry around each node.
\<close>

definition list_for_each_entry :: "links \<Rightarrow> addr \<Rightarrow> addr \<Rightarrow> addr list outcome option" where
  "list_for_each_entry nxt off modules =
     (case nxt modules of
        None \<Rightarrow> Some Fault
      | Some p \<Rightarrow> map_option (\<lambda>r. case r of Fault \<Rightarrow> Fault | Returns ps \<Rightarrow> Returns (map (list_entry off) ps))
                   (walk nxt modules p))"

text \<open>The lines printed: the number and the module; \<open>m\<close> is \<^verbatim>\<open>THIS_MODULE\<close>.\<close>

definition taints_init ::
  "links \<Rightarrow> (addr \<rightharpoonup> kmodule) \<Rightarrow> addr \<Rightarrow> addr \<Rightarrow> (int \<times> (nat \<times> kmodule option) list) outcome option" where
  "taints_init nxt mods off m =
     (let modules = m + off; j = 0 in
      map_option
        (\<lambda>r. case r of
           Fault \<Rightarrow> Fault
         | Returns currs \<Rightarrow> Returns (0, (j, mods m) # zip [Suc j..<Suc j + length currs] (map mods currs)))
        (list_for_each_entry nxt off modules))"

section \<open>What is printed\<close>

text \<open>The kernel's ring: the modules in the order they hang on it, behind the kernel's own head.\<close>

definition module_ring :: "links \<Rightarrow> (addr \<rightharpoonup> kmodule) \<Rightarrow> addr \<Rightarrow> addr \<Rightarrow> addr list \<Rightarrow> bool" where
  "module_ring nxt mods off head ms \<longleftrightarrow>
     lring nxt head (map (\<lambda>m. m + off) ms) \<and> (\<forall>m \<in> set ms. mods m \<noteq> None) \<and> mods (head - off) = None"

lemma list_for_each_entry_ring:
  assumes "lring nxt modules ps"
  shows "list_for_each_entry nxt off modules = Some (Returns (map (list_entry off) ps))"
proof -
  from assms obtain q where "nxt modules = Some q" "walk nxt modules q = Some (Returns ps)" by (rule walk_ring)
  then show ?thesis by (simp add: list_for_each_entry_def)
qed

text \<open>
  Loading the module ends, returns 0, and prints every loaded module exactly once: first
  itself, then those behind it on the ring, then those before it, numbered in this order.
  Between the two groups it prints one line more, for the kernel's list head, which is not
  part of a module.
\<close>

lemma taints_prints_every_module:
  assumes "module_ring nxt mods off head (as @ this # bs)"
  shows "taints_init nxt mods off this =
     Some (Returns (0, enumerate 0 (mods this # map mods bs @ None # map mods as)))"
proof -
  let ?n = "\<lambda>m. m + off"
  have "lring nxt head (map ?n as @ ?n this # map ?n bs)"
    using assms by (simp add: module_ring_def)
  then have "lring nxt (this + off) (map ?n bs @ head # map ?n as)" by (rule lring_rotate)
  from list_for_each_entry_ring [OF this, of off]
  have "list_for_each_entry nxt off (this + off) = Some (Returns (bs @ (head - off) # as))"
    by (simp add: list_entry_def comp_def)
  moreover have "mods (head - off) = None" using assms by (simp add: module_ring_def)
  ultimately show ?thesis
    by (simp add: taints_init_def enumerate_eq_zip upt_conv_Cons del: upt_Suc)
qed

text \<open>Three modules at 100, 200 and 300, links at offset 8, and the head at 50.\<close>

definition demo_links :: links where
  "demo_links = [50 \<mapsto> 108, 108 \<mapsto> 208, 208 \<mapsto> 308, 308 \<mapsto> 50]"

definition demo_mods :: "addr \<rightharpoonup> kmodule" where
  "demo_mods = [100 \<mapsto> \<lparr>km_name = ''ext4'', km_taints = 0\<rparr>, 200 \<mapsto> \<lparr>km_name = ''taints'', km_taints = 4096\<rparr>,
                300 \<mapsto> \<lparr>km_name = ''loop'', km_taints = 0\<rparr>]"

lemma taints_prints_every_module_witness:
  "taints_init demo_links demo_mods 8 200 =
     Some (Returns (0, [(0, Some \<lparr>km_name = ''taints'', km_taints = 4096\<rparr>),
       (1, Some \<lparr>km_name = ''loop'', km_taints = 0\<rparr>), (2, None), (3, Some \<lparr>km_name = ''ext4'', km_taints = 0\<rparr>)]))"
proof -
  have "module_ring demo_links demo_mods 8 50 ([100] @ 200 # [300])"
    by (simp add: module_ring_def lring_def demo_links_def demo_mods_def)
  from taints_prints_every_module [OF this] show ?thesis by (simp add: demo_mods_def)
qed

end
