(* ===== verification/Cpu_Deadline.thy ===== *)
theory Cpu_Deadline
  imports Kernel_Prelude
begin

text \<open>
  The push heap of the deadline scheduler, \<^verbatim>\<open>kernel/sched/cpudeadline.c\<close> of the patch
  \<^verbatim>\<open>sched-dl/patch-dl/sched-add-sched_dl.patch\<close>: for every processor that runs a deadline task the
  earliest deadline there, in an array that is a heap with the latest deadline on top, with a
  second array that gives each processor's place in the heap. The model keeps both arrays, the
  loops that move an element up and down, and the comparison of times that wrap around.

  Shown: on deadlines below \<open>2 ^ 63\<close> the comparison is the order of the numbers, every update
  keeps the heap and the two arrays consistent, and the heap refines a map from processors to
  deadlines of which the top is the latest (locale \<open>latest_map\<close>).
\<close>

section \<open>cpudeadline.c\<close>

record array_item =
  ai_dl :: u64
  ai_cpu :: nat

text \<open>\<^verbatim>\<open>IDX_INVALID\<close> is \<^term>\<open>None\<close>; the lock is held by the caller.\<close>

record cpudl =
  cp_size :: nat
  cp_cpu_to_idx :: "nat option list"
  cp_elements :: "array_item list"
  cp_free_cpus :: "nat set"

definition parent :: "nat \<Rightarrow> nat" where
  "parent i = (i - 1) div 2"

definition left_child :: "nat \<Rightarrow> nat" where
  "left_child i = 2 * i + 1"

definition right_child :: "nat \<Rightarrow> nat" where
  "right_child i = 2 * i + 2"

definition dl_time_before :: "u64 \<Rightarrow> u64 \<Rightarrow> bool" where
  "dl_time_before a b \<longleftrightarrow> sint (a - b) < 0"

definition cp_key :: "cpudl \<Rightarrow> nat \<Rightarrow> u64" where
  "cp_key cp i = ai_dl (cp_elements cp ! i)"

definition cp_cpu :: "cpudl \<Rightarrow> nat \<Rightarrow> nat" where
  "cp_cpu cp i = ai_cpu (cp_elements cp ! i)"

definition cpudl_exchange :: "cpudl \<Rightarrow> nat \<Rightarrow> nat \<Rightarrow> cpudl" where
  "cpudl_exchange cp a b =
     (let cpu_a = cp_cpu cp a; cpu_b = cp_cpu cp b;
          els = cp_elements cp; idx = cp_cpu_to_idx cp in
      cp\<lparr>cp_elements := els[a := els ! b, b := els ! a],
         cp_cpu_to_idx := idx[cpu_a := idx ! cpu_b, cpu_b := idx ! cpu_a]\<rparr>)"

text \<open>One turn of \<^verbatim>\<open>cpudl_heapify\<close> up to the \<^verbatim>\<open>break\<close>.\<close>

definition cpudl_largest :: "cpudl \<Rightarrow> nat \<Rightarrow> nat" where
  "cpudl_largest cp idx =
     (let l = left_child idx; r = right_child idx;
          largest = (if l < cp_size cp \<and> dl_time_before (cp_key cp idx) (cp_key cp l) then l else idx) in
      if r < cp_size cp \<and> dl_time_before (cp_key cp largest) (cp_key cp r) then r else largest)"

lemma cp_size_exchange [simp]: "cp_size (cpudl_exchange cp a b) = cp_size cp"
  by (simp add: cpudl_exchange_def Let_def)

lemma cpudl_largest_below: "cpudl_largest cp idx \<noteq> idx \<Longrightarrow> idx < cpudl_largest cp idx \<and> cpudl_largest cp idx < cp_size cp"
  by (auto simp: cpudl_largest_def left_child_def right_child_def Let_def split: if_splits)

function cpudl_heapify :: "cpudl \<Rightarrow> nat \<Rightarrow> cpudl" where
  "cpudl_heapify cp idx =
     (let largest = cpudl_largest cp idx in
      if largest = idx then cp
      else cpudl_heapify (cpudl_exchange cp largest idx) largest)"
  by auto
termination
  by (relation "measure (\<lambda>(cp, idx). cp_size cp - idx)") (auto dest!: cpudl_largest_below)

declare cpudl_heapify.simps [simp del]

lemma parent_less: "0 < i \<Longrightarrow> parent i < i"
  by (simp add: parent_def)

text \<open>The \<^verbatim>\<open>while\<close> loops of \<^verbatim>\<open>cpudl_change_key\<close> and \<^verbatim>\<open>cpudl_set\<close>: the heap and the place reached.\<close>

function cpudl_up :: "cpudl \<Rightarrow> nat \<Rightarrow> cpudl \<times> nat" where
  "cpudl_up cp idx =
     (if idx > 0 \<and> dl_time_before (cp_key cp (parent idx)) (cp_key cp idx)
      then cpudl_up (cpudl_exchange cp idx (parent idx)) (parent idx)
      else (cp, idx))"
  by auto
termination
  by (relation "measure snd") (auto simp: parent_less)

declare cpudl_up.simps [simp del]

definition cpudl_set_dl :: "cpudl \<Rightarrow> nat \<Rightarrow> u64 \<Rightarrow> cpudl" where
  "cpudl_set_dl cp idx new_dl =
     cp\<lparr>cp_elements := (cp_elements cp)[idx := (cp_elements cp ! idx)\<lparr>ai_dl := new_dl\<rparr>]\<rparr>"

definition cpudl_change_key :: "cpudl \<Rightarrow> nat \<Rightarrow> u64 \<Rightarrow> cpudl" where
  "cpudl_change_key cp idx new_dl =
     (if dl_time_before new_dl (cp_key cp idx) then cpudl_heapify (cpudl_set_dl cp idx new_dl) idx
      else fst (cpudl_up (cpudl_set_dl cp idx new_dl) idx))"

definition cpudl_maximum :: "cpudl \<Rightarrow> nat" where
  "cpudl_maximum cp = cp_cpu cp 0"

text \<open>
  \<open>deadline\<close> and \<open>allowed\<close> are the task's; \<open>any\<close> is the kernel's choice from a mask. The result is
  the processor, if any, and the mask as it was filled in.
\<close>

definition cpudl_find ::
  "(nat set \<Rightarrow> nat) \<Rightarrow> nat set \<Rightarrow> cpudl \<Rightarrow> u64 \<Rightarrow> nat set \<Rightarrow> nat set option \<Rightarrow> nat option \<times> nat set option" where
  "cpudl_find any active cp deadline allowed later_mask =
     (if later_mask \<noteq> None \<and> cp_free_cpus cp \<inter> allowed \<noteq> {} \<and> cp_free_cpus cp \<inter> allowed \<inter> active \<noteq> {}
      then let m = cp_free_cpus cp \<inter> allowed \<inter> active in (Some (any m), Some m)
      else
        let m = (if later_mask = None then None
                 else if cp_free_cpus cp \<inter> allowed \<noteq> {} then Some (cp_free_cpus cp \<inter> allowed \<inter> active)
                 else Some (cp_free_cpus cp \<inter> allowed)) in
        if cpudl_maximum cp \<in> allowed \<and> dl_time_before deadline (cp_key cp 0)
        then (Some (cpudl_maximum cp), map_option (insert (cpudl_maximum cp)) m)
        else (None, m))"

text \<open>
  \<^verbatim>\<open>cpudl_set\<close> with \<^verbatim>\<open>is_valid\<close> 0: the last element takes the place of the removed one and moves up or
  down from there; and with another value: a new element starts with key 0 at the end.
\<close>

definition cpudl_move_last :: "cpudl \<Rightarrow> nat \<Rightarrow> nat \<Rightarrow> cpudl" where
  "cpudl_move_last cp cpu old_idx =
     (let last = cp_size cp - 1; new_cpu = cp_cpu cp last in
      cp\<lparr>cp_elements := (cp_elements cp)[old_idx := \<lparr>ai_dl = cp_key cp last, ai_cpu = new_cpu\<rparr>],
         cp_size := last,
         cp_cpu_to_idx := (cp_cpu_to_idx cp)[new_cpu := Some old_idx, cpu := None]\<rparr>)"

definition cpudl_remove :: "cpudl \<Rightarrow> nat \<Rightarrow> cpudl" where
  "cpudl_remove cp cpu =
     (case cp_cpu_to_idx cp ! cpu of
        None \<Rightarrow> cp
      | Some old_idx \<Rightarrow>
          let (cp', idx) = cpudl_up (cpudl_move_last cp cpu old_idx) old_idx in
          cpudl_heapify (cp'\<lparr>cp_free_cpus := insert cpu (cp_free_cpus cp')\<rparr>) idx)"

definition cpudl_append :: "cpudl \<Rightarrow> nat \<Rightarrow> cpudl" where
  "cpudl_append cp cpu =
     (let n = cp_size cp in
      cp\<lparr>cp_size := n + 1, cp_elements := (cp_elements cp)[n := \<lparr>ai_dl = 0, ai_cpu = cpu\<rparr>],
         cp_cpu_to_idx := (cp_cpu_to_idx cp)[cpu := Some n]\<rparr>)"

definition cpudl_insert :: "cpudl \<Rightarrow> nat \<Rightarrow> u64 \<Rightarrow> cpudl" where
  "cpudl_insert cp cpu dl =
     (case cp_cpu_to_idx cp ! cpu of
        None \<Rightarrow>
          let cp' = cpudl_append cp cpu; cp'' = cpudl_change_key cp' (cp_size cp' - 1) dl in
          cp''\<lparr>cp_free_cpus := cp_free_cpus cp'' - {cpu}\<rparr>
      | Some old_idx \<Rightarrow> cpudl_change_key cp old_idx dl)"

definition cpudl_set :: "cpudl \<Rightarrow> nat \<Rightarrow> u64 \<Rightarrow> bool \<Rightarrow> cpudl" where
  "cpudl_set cp cpu dl is_valid = (if is_valid then cpudl_insert cp cpu dl else cpudl_remove cp cpu)"

definition cpudl_init :: "nat \<Rightarrow> bool \<Rightarrow> int \<times> cpudl" where
  "cpudl_init nr_cpus mask_granted =
     (let cp = \<lparr>cp_size = 0, cp_cpu_to_idx = replicate nr_cpus None,
                cp_elements = replicate nr_cpus \<lparr>ai_dl = 0, ai_cpu = 0\<rparr>, cp_free_cpus = {}\<rparr> in
      if \<not> mask_granted then (- ENOMEM, cp) else (0, cp\<lparr>cp_free_cpus := {..<nr_cpus}\<rparr>))"

section \<open>Times that wrap around\<close>

text \<open>
  For two times less than \<open>2 ^ 63\<close> apart the comparison says which is earlier on the circle; in
  particular it is the order of the numbers below \<open>2 ^ 63\<close>.
\<close>

lemma dl_time_before_iff: "dl_time_before a b \<longleftrightarrow> 2 ^ 63 \<le> unat (a - b)"
proof -
  let ?n = "unat (a - b)"
  have "?n < 2 ^ 64" using unsigned_less [of "a - b"] by simp
  then have "?n div 2 ^ 63 < 2" by (simp add: div_less_iff_less_mult)
  then have "bit ?n 63 \<longleftrightarrow> 1 \<le> ?n div 2 ^ 63" by (auto simp: bit_iff_odd less_2_cases_iff)
  also have "\<dots> \<longleftrightarrow> 2 ^ 63 \<le> ?n" by (simp add: Suc_le_eq div_greater_zero_iff)
  finally have "bit (a - b) 63 \<longleftrightarrow> 2 ^ 63 \<le> ?n" by (simp add: bit_unsigned_iff)
  moreover have "sint (a - b) < 0 \<longleftrightarrow> bit (a - b) 63"
    by (simp add: sint_uint bit_uint_iff)
  ultimately show ?thesis by (simp add: dl_time_before_def)
qed

lemma dl_time_before_less:
  assumes "a < 2 ^ 63" and "b < 2 ^ 63"
  shows "dl_time_before a b \<longleftrightarrow> a < b"
proof -
  have u: "unat a < 2 ^ 63" "unat b < 2 ^ 63" using assms by (simp_all add: word_less_nat_alt)
  show ?thesis
  proof (cases "a < b")
    case True
    then have "unat a < unat b" by (simp add: word_less_nat_alt)
    then have "unat (a - b) = unat a + 2 ^ 64 - unat b" by (subst unat_sub_if_size) (simp add: word_size)
    then show ?thesis using True u by (simp add: dl_time_before_iff)
  next
    case False
    then have "unat (a - b) = unat a - unat b" by (intro unat_sub) (simp add: not_less)
    then show ?thesis using False u by (simp add: dl_time_before_iff)
  qed
qed

section \<open>Heaps with a hole\<close>

text \<open>
  \<open>k\<close> gives the key at each place. A heap with a hole at \<open>h\<close> is in order everywhere except
  between \<open>h\<close> and its neighbours, and would be in order without \<open>h\<close>.
\<close>

definition heap_ok :: "(nat \<Rightarrow> u64) \<Rightarrow> nat \<Rightarrow> bool" where
  "heap_ok k n \<longleftrightarrow> (\<forall>i. 0 < i \<longrightarrow> i < n \<longrightarrow> k i \<le> k (parent i))"

definition hole_ok :: "(nat \<Rightarrow> u64) \<Rightarrow> nat \<Rightarrow> nat \<Rightarrow> bool" where
  "hole_ok k n h \<longleftrightarrow>
     (\<forall>i. 0 < i \<longrightarrow> i < n \<longrightarrow> i \<noteq> h \<longrightarrow> parent i \<noteq> h \<longrightarrow> k i \<le> k (parent i)) \<and>
     (\<forall>i. 0 < h \<longrightarrow> 0 < i \<longrightarrow> i < n \<longrightarrow> parent i = h \<longrightarrow> k i \<le> k (parent h))"

definition up_ok :: "(nat \<Rightarrow> u64) \<Rightarrow> nat \<Rightarrow> bool" where
  "up_ok k h \<longleftrightarrow> (0 < h \<longrightarrow> k h \<le> k (parent h))"

definition swapped :: "(nat \<Rightarrow> 'a) \<Rightarrow> nat \<Rightarrow> nat \<Rightarrow> nat \<Rightarrow> 'a" where
  "swapped k a b = k(a := k b, b := k a)"

lemma heap_hole: "heap_ok k n \<Longrightarrow> m \<le> n \<Longrightarrow> h < n \<Longrightarrow> hole_ok (k(h := x)) m h"
  unfolding hole_ok_def heap_ok_def
  by (auto simp: parent_less less_imp_neq) (metis less_le_trans order_trans parent_less)+

lemma hole_up:
  assumes "hole_ok k n h" and "0 < h" and "h < n" and "k (parent h) < k h"
  shows "hole_ok (swapped k h (parent h)) n (parent h)"
proof -
  let ?p = "parent h"
  have p: "?p < h" using assms(2) by (rule parent_less)
  have other: "k i \<le> k (parent i)" if "0 < i" "i < n" "i \<noteq> h" "parent i \<noteq> h" for i
    using assms(1) that by (simp add: hole_ok_def)
  have below: "k i \<le> k ?p" if "0 < i" "i < n" "parent i = h" for i
    using assms(1,2) that by (simp add: hole_ok_def)
  show ?thesis
    unfolding hole_ok_def
  proof (intro conjI allI impI)
    fix i assume i: "0 < i" "i < n" "i \<noteq> ?p" "parent i \<noteq> ?p"
    then show "swapped k h ?p i \<le> swapped k h ?p (parent i)"
      using other [of i] below [of i] p by (auto simp: swapped_def)
  next
    fix i assume i: "0 < ?p" "0 < i" "i < n" "parent i = ?p"
    have "k ?p \<le> k (parent ?p)" using other [of ?p] i(1) p assms(3) parent_less [of ?p] by auto
    moreover have "k i \<le> k ?p" if "i \<noteq> h" using other [of i] i p that by auto
    ultimately show "swapped k h ?p i \<le> swapped k h ?p (parent ?p)"
      using i p parent_less [of i] parent_less [of ?p] by (auto simp: swapped_def)
  qed
qed

lemma hole_down:
  assumes "hole_ok k n h" and "up_ok k h" and "0 < c" and "c < n" and "parent c = h" and "k h < k c"
    and "\<And>i. 0 < i \<Longrightarrow> i < n \<Longrightarrow> parent i = h \<Longrightarrow> k i \<le> k c"
  shows "hole_ok (swapped k c h) n c" and "up_ok (swapped k c h) c"
proof -
  have h: "h < c" using assms(3,5) parent_less by blast
  have other: "k i \<le> k (parent i)" if "0 < i" "i < n" "i \<noteq> h" "parent i \<noteq> h" for i
    using assms(1) that by (simp add: hole_ok_def)
  show "up_ok (swapped k c h) c" using assms(5,6) h by (auto simp: up_ok_def swapped_def)
  show "hole_ok (swapped k c h) n c"
    unfolding hole_ok_def
  proof (intro conjI allI impI)
    fix i assume i: "0 < i" "i < n" "i \<noteq> c" "parent i \<noteq> c"
    have "k c \<le> k (parent h)" if "0 < h" using assms(1,3,4,5) that by (simp add: hole_ok_def)
    then show "swapped k c h i \<le> swapped k c h (parent i)"
      using i other [of i] assms(7) [of i] h parent_less [of i] by (auto simp: swapped_def)
  next
    fix i assume i: "0 < c" "0 < i" "i < n" "parent i = c"
    have "i \<noteq> h" using i h parent_less [of i] by auto
    then show "swapped k c h i \<le> swapped k c h (parent c)"
      using i other [of i] assms(5) h parent_less [of i] by (auto simp: swapped_def)
  qed
qed

lemma hole_done:
  assumes "hole_ok k n h" and "up_ok k h" and "\<And>i. 0 < i \<Longrightarrow> i < n \<Longrightarrow> parent i = h \<Longrightarrow> k i \<le> k h"
  shows "heap_ok k n"
  using assms unfolding heap_ok_def hole_ok_def up_ok_def by metis

lemma heap_top:
  assumes "heap_ok k n" and "i < n"
  shows "k i \<le> k 0"
  using assms(2)
proof (induction i rule: less_induct)
  case (less i)
  show ?case
  proof (cases "i = 0")
    case False
    then have "k i \<le> k (parent i)" "parent i < i" using assms(1) less.prems by (auto simp: heap_ok_def parent_less)
    with less.IH [of "parent i"] less.prems show ?thesis by (meson less_trans order_trans)
  qed simp
qed

lemma parent_child: "0 < i \<Longrightarrow> parent i = h \<longleftrightarrow> i = left_child h \<or> i = right_child h"
  unfolding parent_def left_child_def right_child_def by presburger

section \<open>Consistent arrays\<close>

text \<open>
  Both arrays have a place for every processor; the first \<open>cp_size\<close> places of the heap and the
  processors with a place are inverse to each other; the other processors are free.
\<close>

definition cp_wf :: "cpudl \<Rightarrow> bool" where
  "cp_wf cp \<longleftrightarrow>
     length (cp_elements cp) = length (cp_cpu_to_idx cp) \<and> cp_size cp \<le> length (cp_elements cp) \<and>
     (\<forall>i < cp_size cp. cp_cpu cp i < length (cp_cpu_to_idx cp) \<and> cp_cpu_to_idx cp ! cp_cpu cp i = Some i) \<and>
     (\<forall>c < length (cp_cpu_to_idx cp). \<forall>i. cp_cpu_to_idx cp ! c = Some i \<longrightarrow> i < cp_size cp \<and> cp_cpu cp i = c)"

definition cp_free_ok :: "cpudl \<Rightarrow> bool" where
  "cp_free_ok cp \<longleftrightarrow> cp_free_cpus cp = {c. c < length (cp_cpu_to_idx cp) \<and> cp_cpu_to_idx cp ! c = None}"

text \<open>All deadlines are below \<open>2 ^ 63\<close>.\<close>

definition cp_small :: "cpudl \<Rightarrow> bool" where
  "cp_small cp \<longleftrightarrow> (\<forall>i < cp_size cp. cp_key cp i < 2 ^ 63)"

text \<open>What the structure stands for: the deadline of each processor that has one.\<close>

definition cp_map :: "cpudl \<Rightarrow> nat \<rightharpoonup> u64" where
  "cp_map cp c = (if c < length (cp_cpu_to_idx cp) then map_option (cp_key cp) (cp_cpu_to_idx cp ! c) else None)"

definition cp_inv :: "cpudl \<Rightarrow> bool" where
  "cp_inv cp \<longleftrightarrow> cp_wf cp \<and> cp_free_ok cp \<and> cp_small cp \<and> heap_ok (cp_key cp) (cp_size cp)"

text \<open>What does not change when elements are exchanged.\<close>

definition cp_same :: "cpudl \<Rightarrow> cpudl \<Rightarrow> bool" where
  "cp_same cp cp' \<longleftrightarrow> cp_size cp' = cp_size cp \<and> cp_free_cpus cp' = cp_free_cpus cp \<and>
     length (cp_cpu_to_idx cp') = length (cp_cpu_to_idx cp) \<and> cp_map cp' = cp_map cp"

lemma cp_same_refl [simp]: "cp_same cp cp"
  by (simp add: cp_same_def)

lemma cp_same_trans: "cp_same a b \<Longrightarrow> cp_same b c \<Longrightarrow> cp_same a c"
  by (simp add: cp_same_def)

lemma cp_wf_cpu:
  assumes "cp_wf cp" and "a < cp_size cp" and "b < cp_size cp"
  shows "cp_cpu cp a = cp_cpu cp b \<longleftrightarrow> a = b"
  using assms by (metis cp_wf_def option.inject)

lemma exchange_parts:
  assumes "cp_wf cp" and "a < cp_size cp" and "b < cp_size cp" and "a \<noteq> b"
  shows "cp_key (cpudl_exchange cp a b) = swapped (cp_key cp) a b"
    and "cp_cpu (cpudl_exchange cp a b) = swapped (cp_cpu cp) a b"
    and "cp_cpu_to_idx (cpudl_exchange cp a b) = (cp_cpu_to_idx cp)[cp_cpu cp a := Some b, cp_cpu cp b := Some a]"
    and "length (cp_elements (cpudl_exchange cp a b)) = length (cp_elements cp)"
    and "cp_free_cpus (cpudl_exchange cp a b) = cp_free_cpus cp"
proof -
  have "cp_size cp \<le> length (cp_elements cp)" "cp_cpu_to_idx cp ! cp_cpu cp a = Some a" "cp_cpu_to_idx cp ! cp_cpu cp b = Some b"
    using assms by (auto simp: cp_wf_def)
  then show "cp_key (cpudl_exchange cp a b) = swapped (cp_key cp) a b"
    "cp_cpu (cpudl_exchange cp a b) = swapped (cp_cpu cp) a b"
    "cp_cpu_to_idx (cpudl_exchange cp a b) = (cp_cpu_to_idx cp)[cp_cpu cp a := Some b, cp_cpu cp b := Some a]"
    using assms(2-4)
    by (auto simp: fun_eq_iff cp_key_def cp_cpu_def cpudl_exchange_def swapped_def Let_def nth_list_update)
qed (simp_all add: cpudl_exchange_def Let_def)

lemma exchange_keeps:
  assumes "cp_wf cp" and "a < cp_size cp" and "b < cp_size cp" and "a \<noteq> b"
  shows "cp_wf (cpudl_exchange cp a b)" and "cp_same cp (cpudl_exchange cp a b)"
proof -
  note x = exchange_parts [OF assms]
  have ne: "cp_cpu cp a \<noteq> cp_cpu cp b" using cp_wf_cpu [OF assms(1-3)] assms(4) by simp
  have ab: "cp_cpu cp a < length (cp_cpu_to_idx cp)" "cp_cpu cp b < length (cp_cpu_to_idx cp)"
      "cp_cpu_to_idx cp ! cp_cpu cp a = Some a" "cp_cpu_to_idx cp ! cp_cpu cp b = Some b"
    using assms(1-3) by (auto simp: cp_wf_def)
  have idx: "cp_cpu_to_idx (cpudl_exchange cp a b) ! c =
      (if c = cp_cpu cp b then Some a else if c = cp_cpu cp a then Some b else cp_cpu_to_idx cp ! c)"
    if "c < length (cp_cpu_to_idx cp)" for c
    using that ab by (simp add: x(3) nth_list_update)
  show "cp_wf (cpudl_exchange cp a b)"
    unfolding cp_wf_def
  proof (intro conjI allI impI)
    fix i assume i: "i < cp_size (cpudl_exchange cp a b)"
    then have "cp_cpu cp i < length (cp_cpu_to_idx cp)" "cp_cpu_to_idx cp ! cp_cpu cp i = Some i"
      using assms(1) by (auto simp: cp_wf_def)
    with i show "cp_cpu (cpudl_exchange cp a b) i < length (cp_cpu_to_idx (cpudl_exchange cp a b))"
      "cp_cpu_to_idx (cpudl_exchange cp a b) ! cp_cpu (cpudl_exchange cp a b) i = Some i"
      using ab ne idx cp_wf_cpu [OF assms(1)] assms(2-4) by (auto simp: x(2,3) swapped_def)
  next
    fix c i assume c: "c < length (cp_cpu_to_idx (cpudl_exchange cp a b))" "cp_cpu_to_idx (cpudl_exchange cp a b) ! c = Some i"
    then have l: "c < length (cp_cpu_to_idx cp)" by (simp add: x(3))
    with c(2) have e: "(if c = cp_cpu cp b then Some a else if c = cp_cpu cp a then Some b else cp_cpu_to_idx cp ! c) = Some i"
      by (simp only: idx)
    have "i < cp_size cp \<and> cp_cpu cp i = c" if "c \<noteq> cp_cpu cp a" "c \<noteq> cp_cpu cp b"
      using assms(1) l e that by (auto simp: cp_wf_def)
    with e show "i < cp_size (cpudl_exchange cp a b)" "cp_cpu (cpudl_exchange cp a b) i = c"
      using assms(2-4) by (auto simp: x(2) swapped_def split: if_splits)
  qed (use assms(1) x(3,4) in \<open>simp_all add: cp_wf_def\<close>)
  have "cp_map (cpudl_exchange cp a b) c = cp_map cp c" for c
  proof (cases "c < length (cp_cpu_to_idx cp)")
    case True
    have "cp_cpu_to_idx cp ! c = Some i \<Longrightarrow> cp_cpu cp i = c" for i using assms(1) True by (simp add: cp_wf_def)
    then show ?thesis
      using True idx [OF True] ab ne assms(4)
      by (cases "cp_cpu_to_idx cp ! c") (auto simp: cp_map_def x(1,3) swapped_def)
  qed (simp add: cp_map_def x(3))
  then show "cp_same cp (cpudl_exchange cp a b)" by (simp add: cp_same_def x(3,5) fun_eq_iff)
qed

lemma small_exchange:
  assumes "cp_small cp" and "cp_wf cp" and "a < cp_size cp" and "b < cp_size cp" and "a \<noteq> b"
  shows "cp_small (cpudl_exchange cp a b)"
  using assms exchange_parts(1) [OF assms(2-5)] by (auto simp: cp_small_def swapped_def)

section \<open>Moving elements\<close>

definition down_ok :: "(nat \<Rightarrow> u64) \<Rightarrow> nat \<Rightarrow> nat \<Rightarrow> bool" where
  "down_ok k n h \<longleftrightarrow> (\<forall>i. 0 < i \<longrightarrow> i < n \<longrightarrow> parent i = h \<longrightarrow> k i \<le> k h)"

lemma hole_other: "hole_ok k n h \<Longrightarrow> 0 < i \<Longrightarrow> i < n \<Longrightarrow> i \<noteq> h \<Longrightarrow> parent i \<noteq> h \<Longrightarrow> k i \<le> k (parent i)"
  unfolding hole_ok_def by blast

lemma down_okI:
  assumes "\<And>i. 0 < i \<Longrightarrow> i < n \<Longrightarrow> parent i = h \<Longrightarrow> i \<noteq> h \<Longrightarrow> k i \<le> k h"
  shows "down_ok k n h"
  unfolding down_ok_def
proof (intro allI impI)
  fix i assume "0 < i" "i < n" "parent i = h"
  then show "k i \<le> k h" using assms [of i] parent_less [of i] by simp
qed

lemma down_ok_children:
  "(\<forall>i. 0 < i \<longrightarrow> i < n \<longrightarrow> parent i = h \<longrightarrow> P i) \<longleftrightarrow> (left_child h < n \<longrightarrow> P (left_child h)) \<and> (right_child h < n \<longrightarrow> P (right_child h))"
proof -
  have "0 < left_child h" "0 < right_child h" by (simp_all add: left_child_def right_child_def)
  then show ?thesis using parent_child [of _ h] by metis
qed

lemma small_before:
  "cp_small cp \<Longrightarrow> a < cp_size cp \<Longrightarrow> b < cp_size cp \<Longrightarrow> dl_time_before (cp_key cp a) (cp_key cp b) \<longleftrightarrow> cp_key cp a < cp_key cp b"
  by (simp add: cp_small_def dl_time_before_less)

lemma cpudl_largest_spec:
  assumes "cp_small cp" and "idx < cp_size cp"
  defines "l \<equiv> cpudl_largest cp idx"
  shows "l = idx \<and> down_ok (cp_key cp) (cp_size cp) idx \<or>
     0 < l \<and> l < cp_size cp \<and> parent l = idx \<and> cp_key cp idx < cp_key cp l \<and>
     (\<forall>i. 0 < i \<longrightarrow> i < cp_size cp \<longrightarrow> parent i = idx \<longrightarrow> cp_key cp i \<le> cp_key cp l)"
proof -
  have lr: "0 < left_child idx" "0 < right_child idx" "parent (left_child idx) = idx" "parent (right_child idx) = idx"
    by (simp_all add: parent_def left_child_def right_child_def)
  show ?thesis
    unfolding l_def down_ok_def down_ok_children using lr assms(1,2)
    by (auto simp: cpudl_largest_def Let_def small_before not_less)
qed

lemma heapify_ok:
  assumes "cp_wf cp" and "cp_small cp" and "idx < cp_size cp" and "hole_ok (cp_key cp) (cp_size cp) idx" and "up_ok (cp_key cp) idx"
  shows "cp_wf (cpudl_heapify cp idx) \<and> cp_same cp (cpudl_heapify cp idx) \<and> cp_small (cpudl_heapify cp idx) \<and>
     heap_ok (cp_key (cpudl_heapify cp idx)) (cp_size (cpudl_heapify cp idx))"
  using assms
proof (induction cp idx rule: cpudl_heapify.induct)
  case (1 cp idx)
  let ?l = "cpudl_largest cp idx"
  note spec = cpudl_largest_spec [OF 1(3,4)]
  show ?case
  proof (cases "?l = idx")
    case True
    then have "down_ok (cp_key cp) (cp_size cp) idx" using spec by auto
    then have "heap_ok (cp_key cp) (cp_size cp)" using hole_done [OF 1(5,6)] by (simp add: down_ok_def)
    moreover have "cpudl_heapify cp idx = cp" using True by (subst cpudl_heapify.simps) simp
    ultimately show ?thesis using 1(2,3) by simp
  next
    case False
    with spec have l: "0 < ?l" "?l < cp_size cp" "parent ?l = idx" "cp_key cp idx < cp_key cp ?l"
        "\<And>i. 0 < i \<Longrightarrow> i < cp_size cp \<Longrightarrow> parent i = idx \<Longrightarrow> cp_key cp i \<le> cp_key cp ?l"
      by blast+
    let ?e = "cpudl_exchange cp ?l idx"
    note x = exchange_keeps [OF 1(2) l(2) 1(4) False] exchange_parts(1) [OF 1(2) l(2) 1(4) False]
    have h: "hole_ok (cp_key ?e) (cp_size ?e) ?l" "up_ok (cp_key ?e) ?l"
      unfolding x(3) cp_size_exchange by (rule hole_down [OF 1(5,6) l(1-4)], rule l(5), assumption+)+
    have "cp_wf (cpudl_heapify ?e ?l) \<and> cp_same ?e (cpudl_heapify ?e ?l) \<and> cp_small (cpudl_heapify ?e ?l) \<and>
        heap_ok (cp_key (cpudl_heapify ?e ?l)) (cp_size (cpudl_heapify ?e ?l))"
      using 1(1) [OF refl False x(1) small_exchange [OF 1(3,2) l(2) 1(4) False] _ h] l(2) by simp
    moreover have "cpudl_heapify cp idx = cpudl_heapify ?e ?l" using False by (subst cpudl_heapify.simps) (simp add: Let_def)
    ultimately show ?thesis using cp_same_trans [OF x(2)] by simp
  qed
qed

lemma up_ok:
  assumes "cp_wf cp" and "cp_small cp" and "idx < cp_size cp" and "hole_ok (cp_key cp) (cp_size cp) idx"
    and "cpudl_up cp idx = (cp', idx')"
  shows "cp_wf cp' \<and> cp_same cp cp' \<and> cp_small cp' \<and> idx' < cp_size cp' \<and>
     hole_ok (cp_key cp') (cp_size cp') idx' \<and> up_ok (cp_key cp') idx' \<and>
     (down_ok (cp_key cp) (cp_size cp) idx \<longrightarrow> down_ok (cp_key cp') (cp_size cp') idx')"
  using assms
proof (induction cp idx rule: cpudl_up.induct)
  case (1 cp idx)
  show ?case
  proof (cases "0 < idx \<and> cp_key cp (parent idx) < cp_key cp idx")
    case True
    let ?p = "parent idx" and ?e = "cpudl_exchange cp idx (parent idx)"
    have p: "?p < idx" "?p < cp_size cp" "idx \<noteq> ?p" using True parent_less [of idx] 1(4) by auto
    then have b: "dl_time_before (cp_key cp ?p) (cp_key cp idx)" using True small_before [OF 1(3)] 1(4) by simp
    note x = exchange_keeps [OF 1(2,4) p(2,3)] exchange_parts(1) [OF 1(2,4) p(2,3)]
    have h: "hole_ok (cp_key ?e) (cp_size ?e) ?p" using hole_up [OF 1(5)] True 1(4) by (simp add: x(3))
    have "cp_key cp i \<le> cp_key cp idx" if "0 < i" "i < cp_size cp" "parent i = ?p" "i \<noteq> idx" for i
    proof -
      have "cp_key cp i \<le> cp_key cp ?p" using hole_other [OF 1(5) that(1,2,4)] that(3) p(3) by simp
      then show ?thesis using True by (auto intro: order_trans less_imp_le)
    qed
    then have d: "down_ok (swapped (cp_key cp) idx ?p) (cp_size cp) ?p"
      using True p(3) by (intro down_okI) (auto simp: swapped_def)
    have "cpudl_up ?e ?p = (cp', idx')" using 1(6) True b by (subst (asm) cpudl_up.simps) simp
    then have "cp_wf cp' \<and> cp_same ?e cp' \<and> cp_small cp' \<and> idx' < cp_size cp' \<and>
        hole_ok (cp_key cp') (cp_size cp') idx' \<and> up_ok (cp_key cp') idx' \<and>
        down_ok (cp_key cp') (cp_size cp') idx'"
      using d 1(1) [OF _ x(1) small_exchange [OF 1(3,2,4) p(2,3)] _ h] True b p(2) by (simp add: x(3))
    then show ?thesis using cp_same_trans [OF x(2)] by blast
  next
    case False
    then have "\<not> (0 < idx \<and> dl_time_before (cp_key cp (parent idx)) (cp_key cp idx))"
      using small_before [OF 1(3), of "parent idx" idx] parent_less [of idx] 1(4) by auto
    then have "cp' = cp" "idx' = idx" using 1(6) by (subst (asm) cpudl_up.simps; auto)+
    then show ?thesis using 1(2-5) False by (auto simp: up_ok_def not_less)
  qed
qed

lemma cp_wf_idx:
  assumes "cp_wf cp" and "c < length (cp_cpu_to_idx cp)" and "cp_cpu_to_idx cp ! c = Some i"
  shows "i < cp_size cp" and "cp_cpu cp i = c"
  using assms by (simp_all add: cp_wf_def)

lemma cp_wf_place:
  assumes "cp_wf cp" and "i < cp_size cp"
  shows "cp_cpu cp i < length (cp_cpu_to_idx cp)" and "cp_cpu_to_idx cp ! cp_cpu cp i = Some i"
    and "i < length (cp_elements cp)"
  using assms by (auto simp: cp_wf_def)

text \<open>A new key at one place.\<close>

lemma set_dl_parts [simp]:
  "cp_size (cpudl_set_dl cp idx x) = cp_size cp" "cp_cpu_to_idx (cpudl_set_dl cp idx x) = cp_cpu_to_idx cp"
  "cp_free_cpus (cpudl_set_dl cp idx x) = cp_free_cpus cp"
  "length (cp_elements (cpudl_set_dl cp idx x)) = length (cp_elements cp)"
  by (simp_all add: cpudl_set_dl_def)

lemma set_dl_ok:
  assumes "cp_wf cp" and "idx < cp_size cp"
  shows "cp_key (cpudl_set_dl cp idx x) = (cp_key cp)(idx := x)" and "cp_wf (cpudl_set_dl cp idx x)"
    and "cp_map (cpudl_set_dl cp idx x) = (cp_map cp)(cp_cpu cp idx \<mapsto> x)"
proof -
  note idx = cp_wf_place [OF assms]
  have cpu: "cp_cpu (cpudl_set_dl cp idx x) = cp_cpu cp" and
    key: "cp_key (cpudl_set_dl cp idx x) = (cp_key cp)(idx := x)"
    using idx(3) by (auto simp: cpudl_set_dl_def fun_eq_iff cp_key_def cp_cpu_def nth_list_update)
  show "cp_wf (cpudl_set_dl cp idx x)" using assms(1) by (simp add: cp_wf_def cpu)
  have "cp_map (cpudl_set_dl cp idx x) c = ((cp_map cp)(cp_cpu cp idx \<mapsto> x)) c" for c
  proof (cases "c = cp_cpu cp idx")
    case True
    then show ?thesis using idx(1,2) by (simp add: cp_map_def key)
  next
    case False
    then have "c < length (cp_cpu_to_idx cp) \<Longrightarrow> cp_cpu_to_idx cp ! c \<noteq> Some idx" using cp_wf_idx(2) [OF assms(1)] by blast
    then show ?thesis using False by (cases "cp_cpu_to_idx cp ! c") (auto simp: cp_map_def key)
  qed
  then show "cp_map (cpudl_set_dl cp idx x) = (cp_map cp)(cp_cpu cp idx \<mapsto> x)" by (simp add: fun_eq_iff)
qed (use cp_wf_place(3) [OF assms] in \<open>auto simp: cpudl_set_dl_def fun_eq_iff cp_key_def nth_list_update\<close>)

lemma change_key_heap:
  assumes "cp_wf cp" and "cp_small cp" and "heap_ok (cp_key cp) (cp_size cp)" and "idx < cp_size cp" and "new_dl < 2 ^ 63"
  defines "c \<equiv> cpudl_set_dl cp idx new_dl" and "r \<equiv> cpudl_change_key cp idx new_dl"
  shows "cp_wf r \<and> cp_same c r \<and> cp_small r \<and> heap_ok (cp_key r) (cp_size r)"
proof -
  have key: "cp_key c = (cp_key cp)(idx := new_dl)" and wf: "cp_wf c" and size: "cp_size c = cp_size cp"
    using set_dl_ok [OF assms(1,4)] by (simp_all add: c_def)
  have small: "cp_small c" using assms(2,5) by (simp add: cp_small_def key size)
  have idx: "idx < cp_size c" using assms(4) by (simp add: size)
  have hole: "hole_ok (cp_key c) (cp_size c) idx" using heap_hole [OF assms(3) order_refl assms(4)] by (simp add: key size)
  have "cp_key cp idx < 2 ^ 63" using assms(2,4) by (simp add: cp_small_def)
  then have b: "dl_time_before new_dl (cp_key cp idx) \<longleftrightarrow> new_dl < cp_key cp idx"
    using assms(5) by (simp add: dl_time_before_less)
  show ?thesis
  proof (cases "new_dl < cp_key cp idx")
    case True
    have "0 < idx \<Longrightarrow> cp_key cp idx \<le> cp_key cp (parent idx)" using assms(3,4) by (simp add: heap_ok_def)
    then have "up_ok (cp_key c) idx" using True parent_less [of idx] by (auto simp: up_ok_def key)
    moreover have "r = cpudl_heapify c idx" using True b by (simp add: r_def c_def cpudl_change_key_def)
    ultimately show ?thesis using heapify_ok [OF wf small idx hole] by simp
  next
    case False
    obtain cp' idx' where u: "cpudl_up c idx = (cp', idx')" by force
    have "cp_key cp i \<le> new_dl" if "0 < i" "i < cp_size cp" "parent i = idx" for i
    proof -
      have "cp_key cp i \<le> cp_key cp (parent i)" using assms(3) that(1,2) unfolding heap_ok_def by blast
      then show ?thesis using False that(3) by (simp add: not_less)
    qed
    then have "down_ok (cp_key c) (cp_size c) idx" unfolding key size by (intro down_okI) auto
    with up_ok [OF wf small idx hole u]
    have *: "cp_wf cp'" "cp_same c cp'" "cp_small cp'" "hole_ok (cp_key cp') (cp_size cp') idx'"
        "up_ok (cp_key cp') idx'" "down_ok (cp_key cp') (cp_size cp') idx'" by auto
    have "heap_ok (cp_key cp') (cp_size cp')" using hole_done [OF *(4,5)] *(6) by (simp add: down_ok_def)
    moreover have "r = cp'" using False b u by (simp add: r_def c_def cpudl_change_key_def)
    ultimately show ?thesis using * by simp
  qed
qed

lemma change_key_ok:
  assumes "cp_wf cp" and "cp_small cp" and "heap_ok (cp_key cp) (cp_size cp)" and "idx < cp_size cp" and "new_dl < 2 ^ 63"
  defines "r \<equiv> cpudl_change_key cp idx new_dl"
  shows "cp_wf r" and "cp_small r" and "heap_ok (cp_key r) (cp_size r)" and "cp_size r = cp_size cp"
    and "cp_free_cpus r = cp_free_cpus cp" and "length (cp_cpu_to_idx r) = length (cp_cpu_to_idx cp)"
    and "cp_map r = (cp_map cp)(cp_cpu cp idx \<mapsto> new_dl)"
  using change_key_heap [OF assms(1-5)] set_dl_ok(3) [OF assms(1,4)]
  by (auto simp: r_def cp_same_def)

section \<open>Updates\<close>

lemma cp_free_ok_map: "cp_free_ok cp \<longleftrightarrow> cp_free_cpus cp = {c. c < length (cp_cpu_to_idx cp) \<and> cp_map cp c = None}"
  by (auto simp: cp_free_ok_def cp_map_def)

lemma cp_invD:
  assumes "cp_inv cp"
  shows "cp_wf cp" and "cp_small cp" and "heap_ok (cp_key cp) (cp_size cp)"
    and "cp_free_cpus cp = {c. c < length (cp_cpu_to_idx cp) \<and> cp_map cp c = None}"
  using assms cp_free_ok_map by (auto simp: cp_inv_def)

lemma cp_invI:
  assumes "cp_wf cp" and "cp_small cp" and "heap_ok (cp_key cp) (cp_size cp)"
    and "cp_free_cpus cp = {c. c < length (cp_cpu_to_idx cp) \<and> cp_map cp c = None}"
  shows "cp_inv cp"
  using assms cp_free_ok_map by (simp add: cp_inv_def)

text \<open>Everything but the free processors is untouched when the mask changes.\<close>

lemma free_cpus_elements [simp]:
  "cp_key (cp\<lparr>cp_free_cpus := x\<rparr>) = cp_key cp" "cp_cpu (cp\<lparr>cp_free_cpus := x\<rparr>) = cp_cpu cp"
  by (simp_all add: cp_key_def cp_cpu_def fun_eq_iff)

lemma free_cpus_irrelevant [simp]:
  "cp_map (cp\<lparr>cp_free_cpus := x\<rparr>) = cp_map cp"
  "cp_wf (cp\<lparr>cp_free_cpus := x\<rparr>) = cp_wf cp" "cp_small (cp\<lparr>cp_free_cpus := x\<rparr>) = cp_small cp"
  by (simp_all add: cp_wf_def cp_small_def cp_map_def fun_eq_iff)

text \<open>A processor that is not in the heap leaves room for one more element.\<close>

lemma cp_room:
  assumes "cp_wf cp" and "cpu < length (cp_cpu_to_idx cp)" and "cp_cpu_to_idx cp ! cpu = None"
  shows "cp_size cp < length (cp_elements cp)"
proof -
  have inj: "inj_on (cp_cpu cp) {..<cp_size cp}" using cp_wf_cpu [OF assms(1)] by (auto intro: inj_onI)
  have sub: "cp_cpu cp ` {..<cp_size cp} \<subseteq> {..<length (cp_cpu_to_idx cp)} - {cpu}"
    using assms by (auto simp: cp_wf_def)
  have "card (cp_cpu cp ` {..<cp_size cp}) \<le> card ({..<length (cp_cpu_to_idx cp)} - {cpu})"
    by (rule card_mono [OF _ sub]) simp
  then have "cp_size cp \<le> length (cp_cpu_to_idx cp) - 1" using inj assms(2) by (simp add: card_image)
  then show ?thesis using assms(1,2) by (auto simp: cp_wf_def)
qed

lemma append_parts [simp]:
  "cp_size (cpudl_append cp cpu) = Suc (cp_size cp)" "cp_free_cpus (cpudl_append cp cpu) = cp_free_cpus cp"
  "cp_cpu_to_idx (cpudl_append cp cpu) = (cp_cpu_to_idx cp)[cpu := Some (cp_size cp)]"
  "length (cp_elements (cpudl_append cp cpu)) = length (cp_elements cp)"
  by (simp_all add: cpudl_append_def Let_def)

lemma append_ok:
  assumes "cp_wf cp" and "cpu < length (cp_cpu_to_idx cp)" and "cp_cpu_to_idx cp ! cpu = None"
  shows "cp_key (cpudl_append cp cpu) = (cp_key cp)(cp_size cp := 0)"
    and "cp_cpu (cpudl_append cp cpu) = (cp_cpu cp)(cp_size cp := cpu)"
    and "cp_wf (cpudl_append cp cpu)" and "cp_map (cpudl_append cp cpu) = (cp_map cp)(cpu \<mapsto> 0)"
proof -
  let ?n = "cp_size cp"
  note room = cp_room [OF assms]
  then show key: "cp_key (cpudl_append cp cpu) = (cp_key cp)(?n := 0)"
    and cpu: "cp_cpu (cpudl_append cp cpu) = (cp_cpu cp)(?n := cpu)"
    by (auto simp: cpudl_append_def Let_def fun_eq_iff cp_key_def cp_cpu_def nth_list_update)
  have ne: "cp_cpu cp i \<noteq> cpu" if "i < ?n" for i using cp_wf_place(2) [OF assms(1) that] assms(3) by auto
  show "cp_wf (cpudl_append cp cpu)"
    unfolding cp_wf_def append_parts length_list_update
  proof (intro conjI allI impI)
    fix i assume i: "i < Suc ?n"
    then show "cp_cpu (cpudl_append cp cpu) i < length (cp_cpu_to_idx cp)"
      using cp_wf_place(1) [OF assms(1), of i] assms(2) by (auto simp: cpu less_Suc_eq)
    show "(cp_cpu_to_idx cp)[cpu := Some ?n] ! cp_cpu (cpudl_append cp cpu) i = Some i"
      using i ne [of i] cp_wf_place(2) [OF assms(1), of i] assms(2) by (cases "i = ?n") (auto simp: cpu less_Suc_eq)
  next
    fix c i assume c: "c < length (cp_cpu_to_idx cp)" "(cp_cpu_to_idx cp)[cpu := Some ?n] ! c = Some i"
    show "i < Suc ?n" "cp_cpu (cpudl_append cp cpu) i = c"
      using c assms(2) cp_wf_idx [OF assms(1) c(1), of i] by (auto simp: cpu nth_list_update split: if_splits)
  qed (use assms(1) room in \<open>simp_all add: cp_wf_def\<close>)
  have "cp_map (cpudl_append cp cpu) c = ((cp_map cp)(cpu \<mapsto> 0)) c" for c
  proof -
    have "c < length (cp_cpu_to_idx cp) \<Longrightarrow> cp_cpu_to_idx cp ! c \<noteq> Some ?n" using cp_wf_idx(1) [OF assms(1)] by blast
    then show ?thesis using assms(2) by (cases "cp_cpu_to_idx cp ! c") (auto simp: cp_map_def key nth_list_update)
  qed
  then show "cp_map (cpudl_append cp cpu) = (cp_map cp)(cpu \<mapsto> 0)" by (simp add: fun_eq_iff)
qed

lemma insert_ok:
  assumes "cp_inv cp" and "cpu < length (cp_cpu_to_idx cp)" and "dl < 2 ^ 63"
  shows "cp_inv (cpudl_insert cp cpu dl)" and "cp_map (cpudl_insert cp cpu dl) = (cp_map cp)(cpu \<mapsto> dl)"
    and "length (cp_cpu_to_idx (cpudl_insert cp cpu dl)) = length (cp_cpu_to_idx cp)"
proof -
  note inv = cp_invD [OF assms(1)]
  obtain r where r: "cpudl_insert cp cpu dl = r" "cp_wf r" "cp_small r" "heap_ok (cp_key r) (cp_size r)"
    "cp_map r = (cp_map cp)(cpu \<mapsto> dl)" "length (cp_cpu_to_idx r) = length (cp_cpu_to_idx cp)"
    "cp_free_cpus r = cp_free_cpus cp - {cpu}"
  proof (cases "cp_cpu_to_idx cp ! cpu")
    case (Some i)
    note i = cp_wf_idx [OF inv(1) assms(2) Some]
    have "cpu \<notin> cp_free_cpus cp" using Some assms(2) by (simp add: inv(4) cp_map_def)
    then show ?thesis
      using that [of "cpudl_change_key cp i dl"] change_key_ok [OF inv(1-3) i(1) assms(3)] Some
      by (simp add: cpudl_insert_def i(2))
  next
    case None
    let ?c = "cpudl_append cp cpu" and ?n = "cp_size cp"
    note a = append_ok [OF inv(1) assms(2) None]
    have small: "cp_small ?c" using inv(2) by (auto simp: cp_small_def a(1) less_Suc_eq)
    have heap: "heap_ok (cp_key ?c) (cp_size ?c)"
      unfolding heap_ok_def
    proof (intro allI impI)
      fix i assume "0 < i" "i < cp_size ?c"
      with inv(3) parent_less [of i] show "cp_key ?c i \<le> cp_key ?c (parent i)"
        by (auto simp: heap_ok_def a(1) less_Suc_eq)
    qed
    have n: "?n < cp_size ?c" by simp
    note c = change_key_ok [OF a(3) small heap n assms(3)]
    let ?r = "cpudl_change_key ?c ?n dl"
    have "cpudl_insert cp cpu dl = ?r\<lparr>cp_free_cpus := cp_free_cpus ?r - {cpu}\<rparr>"
      using None by (simp add: cpudl_insert_def Let_def)
    then show ?thesis using c by (intro that [of "?r\<lparr>cp_free_cpus := cp_free_cpus ?r - {cpu}\<rparr>"]) (simp_all add: a(2,4))
  qed
  have "cp_inv r" using r(2-7) inv(4) by (intro cp_invI) auto
  with r show "cp_inv (cpudl_insert cp cpu dl)" "cp_map (cpudl_insert cp cpu dl) = (cp_map cp)(cpu \<mapsto> dl)"
    "length (cp_cpu_to_idx (cpudl_insert cp cpu dl)) = length (cp_cpu_to_idx cp)" by simp_all
qed

lemma move_last_parts [simp]:
  "cp_size (cpudl_move_last cp cpu old) = cp_size cp - 1"
  "cp_free_cpus (cpudl_move_last cp cpu old) = cp_free_cpus cp"
  "cp_cpu_to_idx (cpudl_move_last cp cpu old) =
     (cp_cpu_to_idx cp)[cp_cpu cp (cp_size cp - 1) := Some old, cpu := None]"
  "length (cp_elements (cpudl_move_last cp cpu old)) = length (cp_elements cp)"
  by (simp_all add: cpudl_move_last_def Let_def)

lemma move_last_ok:
  assumes "cp_wf cp" and "cpu < length (cp_cpu_to_idx cp)" and "cp_cpu_to_idx cp ! cpu = Some old"
  defines "z \<equiv> cp_size cp - 1" and "c \<equiv> cpudl_move_last cp cpu old"
  shows "cp_key c = (cp_key cp)(old := cp_key cp z)" and "cp_wf c" and "cp_map c = (cp_map cp)(cpu := None)"
proof -
  note old = cp_wf_idx [OF assms(1-3)]
  have z: "z < cp_size cp" "cp_size c = z" using old(1) by (auto simp: z_def c_def)
  note lp = cp_wf_place [OF assms(1) z(1)]
  have lens: "length (cp_cpu_to_idx c) = length (cp_cpu_to_idx cp)" "length (cp_elements c) = length (cp_elements cp)"
    by (simp_all add: c_def)
  have "old < length (cp_elements cp)" by (rule cp_wf_place(3) [OF assms(1) old(1)])
  then have key: "cp_key c = (cp_key cp)(old := cp_key cp z)" and cpu: "cp_cpu c = (cp_cpu cp)(old := cp_cpu cp z)"
    by (auto simp: c_def z_def cpudl_move_last_def Let_def fun_eq_iff cp_key_def cp_cpu_def nth_list_update)
  show "cp_key c = (cp_key cp)(old := cp_key cp z)" by (rule key)
  have idx: "cp_cpu_to_idx c ! d = (if d = cpu then None else if d = cp_cpu cp z then Some old else cp_cpu_to_idx cp ! d)"
    if "d < length (cp_cpu_to_idx cp)" for d
    using that lp(1) assms(2) by (simp add: c_def z_def nth_list_update)
  show "cp_wf c"
    unfolding cp_wf_def lens z(2)
  proof (intro conjI allI impI)
    fix i assume i: "i < z"
    then have i': "i < cp_size cp" using z(1) by simp
    note p = cp_wf_place [OF assms(1) i'] and ne = cp_wf_cpu [OF assms(1) i']
    show "cp_cpu c i < length (cp_cpu_to_idx cp)" using p lp by (simp add: cpu)
    have "old = i \<Longrightarrow> cp_cpu cp z \<noteq> cpu" using ne [OF z(1)] old(2) i by auto
    moreover have "old \<noteq> i \<Longrightarrow> cp_cpu cp i \<noteq> cpu" using ne [OF old(1)] old(2) by auto
    moreover have "cp_cpu cp i \<noteq> cp_cpu cp z" using ne [OF z(1)] i by simp
    ultimately show "cp_cpu_to_idx c ! cp_cpu c i = Some i" using p lp idx by (simp add: cpu)
  next
    fix d i assume d: "d < length (cp_cpu_to_idx cp)" "cp_cpu_to_idx c ! d = Some i"
    then have e: "d \<noteq> cpu" "d = cp_cpu cp z \<and> i = old \<or> d \<noteq> cp_cpu cp z \<and> cp_cpu_to_idx cp ! d = Some i"
      using idx [OF d(1)] by (auto split: if_splits)
    have "i < z \<and> cp_cpu c i = d" if "d = cp_cpu cp z" "i = old"
    proof -
      have "old \<noteq> z" using that e(1) old(2) by auto
      then show ?thesis using that old(1) z by (simp add: cpu z_def)
    qed
    moreover have "i < z \<and> cp_cpu c i = d" if "d \<noteq> cp_cpu cp z" "cp_cpu_to_idx cp ! d = Some i"
    proof -
      note w = cp_wf_idx [OF assms(1) d(1) that(2)]
      then have "i \<noteq> z" "i \<noteq> old" using that(1) e(1) old(2) by auto
      then show ?thesis using w by (simp add: cpu z_def)
    qed
    ultimately show "i < z" "cp_cpu c i = d" using e(2) by blast+
  qed (use assms(1) z(1) in \<open>auto simp: cp_wf_def\<close>)
  have "cp_map c d = ((cp_map cp)(cpu := None)) d" for d
  proof (cases "d < length (cp_cpu_to_idx cp)")
    case True
    have "cp_map c d = (if d = cpu then None else if d = cp_cpu cp z then Some (cp_key cp z)
        else map_option (cp_key c) (cp_cpu_to_idx cp ! d))"
      using True idx [OF True] by (simp add: cp_map_def lens key)
    moreover have "map_option (cp_key c) (cp_cpu_to_idx cp ! d) = map_option (cp_key cp) (cp_cpu_to_idx cp ! d)" if "d \<noteq> cpu"
    proof -
      have "cp_cpu_to_idx cp ! d \<noteq> Some old" using cp_wf_idx(2) [OF assms(1) True] old(2) that by blast
      then show ?thesis by (cases "cp_cpu_to_idx cp ! d") (auto simp: key)
    qed
    ultimately show ?thesis using True lp(2) by (auto simp: cp_map_def)
  qed (use assms(2) in \<open>auto simp: cp_map_def lens\<close>)
  then show "cp_map c = (cp_map cp)(cpu := None)" by (simp add: fun_eq_iff)
qed

text \<open>Removing the last element of the heap moves nothing.\<close>

lemma up_stays:
  assumes "up_ok (cp_key cp) idx" and "cp_key cp idx < 2 ^ 63" and "0 < idx \<Longrightarrow> cp_key cp (parent idx) < 2 ^ 63"
  shows "cpudl_up cp idx = (cp, idx)"
  using assms by (subst cpudl_up.simps) (auto simp: up_ok_def dl_time_before_less)

lemma heapify_stays: "cp_size cp \<le> idx \<Longrightarrow> cpudl_heapify cp idx = cp"
  by (subst cpudl_heapify.simps) (simp add: cpudl_largest_def left_child_def right_child_def)

lemma remove_heap:
  assumes "cp_inv cp" and "cpu < length (cp_cpu_to_idx cp)" and "cp_cpu_to_idx cp ! cpu = Some old"
  defines "c \<equiv> cpudl_move_last cp cpu old" and "r \<equiv> cpudl_remove cp cpu"
  shows "cp_wf r \<and> cp_small r \<and> heap_ok (cp_key r) (cp_size r) \<and>
     cp_same (c\<lparr>cp_free_cpus := insert cpu (cp_free_cpus cp)\<rparr>) r"
proof -
  note inv = cp_invD [OF assms(1)]
  note old = cp_wf_idx [OF inv(1) assms(2,3)]
  let ?last = "cp_size cp - 1"
  note m = move_last_ok [OF inv(1) assms(2,3), folded c_def]
  have size: "cp_size c = ?last" "cp_free_cpus c = cp_free_cpus cp" by (simp_all add: c_def)
  have small: "cp_small c" using inv(2) old(1) by (auto simp: cp_small_def m(1) size)
  have hole: "hole_ok (cp_key c) (cp_size c) old" using heap_hole [OF inv(3) _ old(1)] by (simp add: m(1) size)
  have rem: "r = (case cpudl_up c old of (cp', i) \<Rightarrow> cpudl_heapify (cp'\<lparr>cp_free_cpus := insert cpu (cp_free_cpus cp')\<rparr>) i)"
    using assms(3) by (simp add: r_def c_def cpudl_remove_def)
  show ?thesis
  proof (cases "old = ?last")
    case True
    let ?d = "c\<lparr>cp_free_cpus := insert cpu (cp_free_cpus cp)\<rparr>"
    have keys: "cp_key c = cp_key cp" using True by (simp add: m(1) fun_eq_iff)
    have heap: "heap_ok (cp_key cp) ?last" using inv(3) unfolding heap_ok_def by simp
    have "up_ok (cp_key c) old" using inv(3) old(1) unfolding keys up_ok_def heap_ok_def by blast
    then have "cpudl_up c old = (c, old)"
      using inv(2) old(1) parent_less [of old] by (intro up_stays) (auto simp: keys cp_small_def)
    then have "r = ?d"
      using heapify_stays [of ?d old] True by (simp add: rem size)
    then show ?thesis using m(2) small heap by (simp add: keys size)
  next
    case False
    obtain e i where u: "cpudl_up c old = (e, i)" by force
    have "old < cp_size c" using False old(1) size by simp
    from up_ok [OF m(2) small this hole u]
    have e: "cp_wf e" "cp_same c e" "cp_small e" "i < cp_size e" "hole_ok (cp_key e) (cp_size e) i" "up_ok (cp_key e) i" by auto
    let ?e = "e\<lparr>cp_free_cpus := insert cpu (cp_free_cpus e)\<rparr>"
    have "r = cpudl_heapify ?e i" using u by (simp add: rem)
    moreover have "cp_same (c\<lparr>cp_free_cpus := insert cpu (cp_free_cpus cp)\<rparr>) ?e"
      using e(2) by (simp add: cp_same_def size)
    ultimately show ?thesis using heapify_ok [of ?e i] e cp_same_trans by auto
  qed
qed

lemma remove_ok:
  assumes "cp_inv cp" and "cpu < length (cp_cpu_to_idx cp)"
  shows "cp_inv (cpudl_remove cp cpu) \<and> cp_map (cpudl_remove cp cpu) = (cp_map cp)(cpu := None) \<and>
     length (cp_cpu_to_idx (cpudl_remove cp cpu)) = length (cp_cpu_to_idx cp)"
proof (cases "cp_cpu_to_idx cp ! cpu")
  case None
  then have "cpudl_remove cp cpu = cp" "cp_map cp cpu = None" by (simp_all add: cpudl_remove_def cp_map_def)
  then show ?thesis using assms(1) by (simp add: fun_upd_idem)
next
  case (Some old)
  note inv = cp_invD [OF assms(1)]
  let ?r = "cpudl_remove cp cpu"
  have r: "cp_wf ?r" "cp_small ?r" "heap_ok (cp_key ?r) (cp_size ?r)" "cp_map ?r = (cp_map cp)(cpu := None)"
      "length (cp_cpu_to_idx ?r) = length (cp_cpu_to_idx cp)" "cp_free_cpus ?r = insert cpu (cp_free_cpus cp)"
    using remove_heap [OF assms Some] move_last_ok(3) [OF inv(1) assms(2) Some] by (auto simp: cp_same_def)
  then have "cp_inv ?r" using inv(4) assms(2) by (intro cp_invI) auto
  then show ?thesis using r(4,5) by simp
qed

lemma cpudl_set_ok:
  assumes "cp_inv cp" and "cpu < length (cp_cpu_to_idx cp)" and "is_valid \<Longrightarrow> dl < 2 ^ 63"
  shows "cp_inv (cpudl_set cp cpu dl is_valid)"
    and "cp_map (cpudl_set cp cpu dl is_valid) = (cp_map cp)(cpu := (if is_valid then Some dl else None))"
    and "length (cp_cpu_to_idx (cpudl_set cp cpu dl is_valid)) = length (cp_cpu_to_idx cp)"
  using assms insert_ok [OF assms(1,2)] remove_ok [OF assms(1,2)] by (auto simp: cpudl_set_def)

lemma cp_map_Some:
  assumes "cp_map cp c = Some d"
  obtains i where "c < length (cp_cpu_to_idx cp)" and "cp_cpu_to_idx cp ! c = Some i" and "cp_key cp i = d"
  using assms by (auto simp: cp_map_def split: if_splits)

lemma cp_map_place: "cp_wf cp \<Longrightarrow> i < cp_size cp \<Longrightarrow> cp_map cp (cp_cpu cp i) = Some (cp_key cp i)"
  using cp_wf_place by (simp add: cp_map_def)

lemma cp_top_latest:
  assumes "cp_inv cp" and "cp_map cp c = Some d"
  shows "cp_map cp (cpudl_maximum cp) = Some (cp_key cp 0) \<and> d \<le> cp_key cp 0"
proof -
  note inv = cp_invD [OF assms(1)]
  obtain i where i: "c < length (cp_cpu_to_idx cp)" "cp_cpu_to_idx cp ! c = Some i" "cp_key cp i = d"
    using assms(2) by (rule cp_map_Some)
  have "i < cp_size cp" by (rule cp_wf_idx(1) [OF inv(1) i(1,2)])
  then show ?thesis using heap_top [OF inv(3)] cp_map_place [OF inv(1), of 0] i(3) by (auto simp: cpudl_maximum_def)
qed

section \<open>A map with its latest entry\<close>

text \<open>
  What the scheduler relies on: the structure is a map from \<open>nr\<close> processors to deadlines, each
  update changes one entry of it, and the top has the latest deadline.
\<close>

locale latest_map =
  fixes nr :: nat
    and inv :: "'s \<Rightarrow> bool"
    and lookup :: "'s \<Rightarrow> nat \<rightharpoonup> u64"
    and update :: "'s \<Rightarrow> nat \<Rightarrow> u64 option \<Rightarrow> 's"
    and top :: "'s \<Rightarrow> nat"
  assumes inv_update: "inv s \<Longrightarrow> c < nr \<Longrightarrow> (\<And>x. d = Some x \<Longrightarrow> x < 2 ^ 63) \<Longrightarrow> inv (update s c d)"
    and lookup_update: "inv s \<Longrightarrow> c < nr \<Longrightarrow> (\<And>x. d = Some x \<Longrightarrow> x < 2 ^ 63) \<Longrightarrow>
          lookup (update s c d) = (lookup s)(c := d)"
    and top_latest: "inv s \<Longrightarrow> lookup s c = Some x \<Longrightarrow> \<exists>m. lookup s (top s) = Some m \<and> x \<le> m"
begin

definition updates_ok :: "(nat \<times> u64 option) list \<Rightarrow> bool" where
  "updates_ok us \<longleftrightarrow> (\<forall>(c, d) \<in> set us. c < nr \<and> (\<forall>x. d = Some x \<longrightarrow> x < 2 ^ 63))"

lemma updates:
  assumes "inv s" and "updates_ok us"
  shows "inv (fold (\<lambda>(c, d) s. update s c d) us s) \<and>
    lookup (fold (\<lambda>(c, d) s. update s c d) us s) = fold (\<lambda>(c, d) m. m(c := d)) us (lookup s)"
  using assms
proof (induction us arbitrary: s)
  case (Cons u us)
  obtain c d where u: "u = (c, d)" by force
  have ok: "c < nr" "\<And>x. d = Some x \<Longrightarrow> x < 2 ^ 63" "updates_ok us" using Cons.prems(2) u by (auto simp: updates_ok_def)
  show ?case
    using Cons.IH [OF inv_update [OF Cons.prems(1) ok(1,2)] ok(3)] lookup_update [OF Cons.prems(1) ok(1,2)] by (simp add: u)
qed simp

lemma updates_top:
  assumes "inv s" and "updates_ok us" and "fold (\<lambda>(c, d) m. m(c := d)) us (lookup s) c = Some d"
  shows "\<exists>m. fold (\<lambda>(c, d) m. m(c := d)) us (lookup s) (top (fold (\<lambda>(c, d) s. update s c d) us s)) = Some m \<and> d \<le> m"
  using updates [OF assms(1,2)] top_latest assms(3) by metis

end

definition cpudl_update :: "cpudl \<Rightarrow> nat \<Rightarrow> u64 option \<Rightarrow> cpudl" where
  "cpudl_update cp cpu d = (case d of None \<Rightarrow> cpudl_set cp cpu 0 False | Some dl \<Rightarrow> cpudl_set cp cpu dl True)"

definition cpudl_updates :: "(nat \<times> u64 option) list \<Rightarrow> cpudl \<Rightarrow> cpudl" where
  "cpudl_updates us cp = fold (\<lambda>(c, d) s. cpudl_update s c d) us cp"

interpretation push_heap: latest_map nr "\<lambda>cp. cp_inv cp \<and> length (cp_cpu_to_idx cp) = nr" cp_map cpudl_update cpudl_maximum
  for nr
proof (unfold_locales, goal_cases)
  case (1 cp c d)
  then show ?case using cpudl_set_ok [of cp c] by (auto simp: cpudl_update_def split: option.splits)
next
  case (2 cp c d)
  then show ?case using cpudl_set_ok(2) [of cp c] by (auto simp: cpudl_update_def split: option.splits)
next
  case (3 cp c d)
  then show ?case using cp_top_latest by blast
qed

lemma cpudl_init_ok:
  "cp_inv (snd (cpudl_init nr True)) \<and> length (cp_cpu_to_idx (snd (cpudl_init nr True))) = nr \<and>
   cp_map (snd (cpudl_init nr True)) = Map.empty"
  by (auto simp: cpudl_init_def cp_inv_def cp_wf_def cp_free_ok_def cp_small_def heap_ok_def cp_map_def fun_eq_iff)

section \<open>Properties\<close>

text \<open>
  C13. Refinement of a map: in a consistent push heap \<^verbatim>\<open>cpudl_set\<close> for an existing processor, with a
  deadline below \<open>2 ^ 63\<close>, leaves a consistent push heap - the array a heap with the latest
  deadline on top, the second array its inverse, the free mask the processors without an entry -
  and changes exactly this processor's entry: set when \<^verbatim>\<open>is_valid\<close>, gone otherwise.
\<close>

theorem cpudl_set_refines:
  assumes "cp_inv cp" and "cpu < length (cp_cpu_to_idx cp)" and "is_valid \<Longrightarrow> dl < 2 ^ 63"
  shows "cp_inv (cpudl_set cp cpu dl is_valid) \<and>
    cp_map (cpudl_set cp cpu dl is_valid) = (cp_map cp)(cpu := (if is_valid then Some dl else None))"
  using cpudl_set_ok [OF assms] by simp

theorem cpudl_set_refines_witness:
  "cp_inv (cpudl_set (snd (cpudl_init 4 True)) 2 100 True) \<and>
   cp_map (cpudl_set (snd (cpudl_init 4 True)) 2 100 True) 2 = Some 100"
  using cpudl_set_refines [of "snd (cpudl_init 4 True)" 2 True 100] cpudl_init_ok [of 4] by simp

text \<open>
  After \<^verbatim>\<open>cpudl_init\<close> and any sequence of updates the push heap holds what the sequence says, and
  as long as some processor has a deadline the processor on top has the latest of all.
\<close>

lemma cpudl_top_after_updates:
  assumes "\<forall>(c, d) \<in> set us. c < nr \<and> (\<forall>x. d = Some x \<longrightarrow> x < 2 ^ 63)"
    and "cp = cpudl_updates us (snd (cpudl_init nr True))"
  shows "cp_map cp = fold (\<lambda>(c, d) m. m(c := d)) us Map.empty \<and>
    (cp_map cp c = Some d \<longrightarrow> (\<exists>m. cp_map cp (cpudl_maximum cp) = Some m \<and> d \<le> m))"
proof -
  have ok: "push_heap.updates_ok nr us" using assms(1) by (simp add: push_heap.updates_ok_def)
  have init: "cp_inv (snd (cpudl_init nr True)) \<and> length (cp_cpu_to_idx (snd (cpudl_init nr True))) = nr"
    and empty: "cp_map (snd (cpudl_init nr True)) = Map.empty" using cpudl_init_ok by auto
  show ?thesis
    using push_heap.updates [OF init ok] push_heap.updates_top [OF init ok, of c d] assms(2)
    by (simp add: cpudl_updates_def empty)
qed

lemma cpudl_top_after_updates_witness:
  "let cp = cpudl_updates [(0, Some 10), (1, Some 30), (2, Some 20), (1, None)] (snd (cpudl_init 3 True)) in
   cp_map cp 2 = Some 20 \<and> cp_map cp 1 = None \<and> (\<exists>m. cp_map cp (cpudl_maximum cp) = Some m \<and> 20 \<le> m)"
proof -
  define us :: "(nat \<times> u64 option) list" where "us = [(0, Some 10), (1, Some 30), (2, Some 20), (1, None)]"
  have ok: "\<forall>(c, d) \<in> set us. c < 3 \<and> (\<forall>x. d = Some x \<longrightarrow> x < 2 ^ 63)" by (simp add: us_def)
  define cp where "cp = cpudl_updates us (snd (cpudl_init 3 True))"
  have m: "fold (\<lambda>(c, d) m. m(c := d)) us Map.empty = [0 \<mapsto> 10, 2 \<mapsto> 20]" by (simp add: us_def fun_eq_iff)
  have "cp_map cp 2 = Some 20 \<and> cp_map cp 1 = None \<and> (\<exists>m. cp_map cp (cpudl_maximum cp) = Some m \<and> 20 \<le> m)"
  proof -
    have 1: "cp_map cp = [0 \<mapsto> 10, 2 \<mapsto> 20]" and
      2: "cp_map cp 2 = Some 20 \<Longrightarrow> \<exists>m. cp_map cp (cpudl_maximum cp) = Some m \<and> 20 \<le> m"
      using cpudl_top_after_updates [OF ok cp_def, of 2 20] unfolding m by blast+
    have "cp_map cp 2 = Some 20" "cp_map cp 1 = None" by (simp_all add: 1)
    with 2 show ?thesis by blast
  qed
  then show ?thesis by (simp only: cp_def us_def Let_def)
qed

text \<open>
  \<^verbatim>\<open>cpudl_find\<close> on a consistent heap that is not empty: a processor it returns is one the task may
  run on and is either free and active or runs a deadline later than the task's; if it returns
  none, the top is not allowed or no processor has a later deadline.
\<close>

lemma cpudl_find_sound:
  assumes "cp_inv cp" and "0 < cp_size cp" and "deadline < 2 ^ 63" and "\<And>m. m \<noteq> {} \<Longrightarrow> any m \<in> m"
  shows "case fst (cpudl_find any active cp deadline allowed later_mask) of
     Some c \<Rightarrow> c \<in> allowed \<and> (c \<in> active \<and> cp_map cp c = None \<or> (\<exists>d. cp_map cp c = Some d \<and> deadline < d))
   | None \<Rightarrow> cpudl_maximum cp \<notin> allowed \<or> (\<forall>c d. cp_map cp c = Some d \<longrightarrow> d \<le> deadline)"
proof -
  note inv = cp_invD [OF assms(1)]
  have top: "cp_map cp (cpudl_maximum cp) = Some (cp_key cp 0)" "cp_key cp 0 < 2 ^ 63"
    using cp_map_place [OF inv(1) assms(2)] inv(2) assms(2) by (auto simp: cpudl_maximum_def cp_small_def)
  have b: "dl_time_before deadline (cp_key cp 0) \<longleftrightarrow> deadline < cp_key cp 0"
    using assms(3) top(2) by (rule dl_time_before_less)
  have le: "d \<le> deadline" if "\<not> deadline < cp_key cp 0" "cp_map cp c = Some d" for c d
    using cp_top_latest [OF assms(1) that(2)] that(1) by (meson leI order_trans)
  let ?m = "cp_free_cpus cp \<inter> allowed \<inter> active"
  have "(later_mask \<noteq> None \<and> cp_free_cpus cp \<inter> allowed \<noteq> {} \<and> ?m \<noteq> {}) = (later_mask \<noteq> None \<and> ?m \<noteq> {})" by auto
  then have find: "fst (cpudl_find any active cp deadline allowed later_mask) =
      (if later_mask \<noteq> None \<and> ?m \<noteq> {} then Some (any ?m)
       else if cpudl_maximum cp \<in> allowed \<and> deadline < cp_key cp 0 then Some (cpudl_maximum cp) else None)"
    unfolding cpudl_find_def by (simp add: Let_def b)
  show ?thesis
  proof (cases "later_mask \<noteq> None \<and> ?m \<noteq> {}")
    case True
    have "any ?m \<in> ?m" using conjunct2 [OF True] by (rule assms(4))
    moreover have "any ?m \<in> ?m \<Longrightarrow> cp_map cp (any ?m) = None" using inv(4) by blast
    moreover have "fst (cpudl_find any active cp deadline allowed later_mask) = Some (any ?m)"
      using True by (simp add: find)
    ultimately show ?thesis by simp
  next
    case False
    then have f: "fst (cpudl_find any active cp deadline allowed later_mask) =
        (if cpudl_maximum cp \<in> allowed \<and> deadline < cp_key cp 0 then Some (cpudl_maximum cp) else None)"
      by (simp only: find if_False)
    show ?thesis
    proof (cases "cpudl_maximum cp \<in> allowed \<and> deadline < cp_key cp 0")
      case True
      then show ?thesis using top(1) by (simp add: f)
    next
      case False
      then have "cpudl_maximum cp \<notin> allowed \<or> (\<forall>c d. cp_map cp c = Some d \<longrightarrow> d \<le> deadline)" using le by blast
      with False show ?thesis by (simp only: f if_False option.case)
    qed
  qed
qed

lemma cpudl_find_sound_witness:
  "let cp = cpudl_set (snd (cpudl_init 2 True)) 1 50 True in
   case fst (cpudl_find Inf {0, 1} cp 20 {1} (Some {})) of
     Some c \<Rightarrow> c \<in> {1} \<and> (c \<in> {0, 1} \<and> cp_map cp c = None \<or> (\<exists>d. cp_map cp c = Some d \<and> 20 < d))
   | None \<Rightarrow> cpudl_maximum cp \<notin> {1} \<or> (\<forall>c d. cp_map cp c = Some d \<longrightarrow> d \<le> 20)"
proof -
  let ?cp = "cpudl_set (snd (cpudl_init 2 True)) 1 50 True"
  have "cp_inv ?cp" using cpudl_set_ok(1) [of "snd (cpudl_init 2 True)" 1 True 50] cpudl_init_ok [of 2] by simp
  moreover have "0 < cp_size ?cp" by code_simp
  ultimately show ?thesis unfolding Let_def by (rule cpudl_find_sound) (simp_all add: Inf_nat_def1)
qed

text \<open>An empty heap keeps a stale top: a processor with no deadline task is chosen by the key it had.\<close>

lemma cpudl_find_stale_top:
  "let cp = cpudl_updates [(1, Some 50), (1, None)] (snd (cpudl_init 2 True)) in
   cp_size cp = 0 \<and> cp_map cp = Map.empty \<and> fst (cpudl_find any active cp 20 {1} None) = Some 1"
proof -
  define cp where "cp = cpudl_updates [(1, Some 50), (1, None)] (snd (cpudl_init 2 True))"
  have s: "cp_size cp = 0" "cp_cpu_to_idx cp = [None, None]" "cpudl_maximum cp = 1" "cp_key cp 0 = 50"
    unfolding cp_def by code_simp+
  have "cp_map cp = Map.empty" by (auto simp: fun_eq_iff cp_map_def s(2) less_Suc_eq)
  moreover have "dl_time_before 20 50" by code_simp
  ultimately have "cp_size cp = 0 \<and> cp_map cp = Map.empty \<and> fst (cpudl_find any active cp 20 {1} None) = Some 1"
    by (simp add: Let_def cpudl_find_def s)
  then show ?thesis by (simp only: cp_def Let_def)
qed

end
