(* ===== verification/Deadline_Runqueue.thy ===== *)
theory Deadline_Runqueue
  imports Cpu_Deadline Product_Tree
begin

text \<open>
  The run queues of the deadline class (\<^verbatim>\<open>kernel/sched/deadline.c\<close> of
  \<^verbatim>\<open>sched-dl/patch-dl/sched-add-sched_dl.patch\<close>): on every processor a tree of entities ordered by
  deadline with its leftmost node cached, the earliest deadlines and the migration counters kept
  beside it, and the push heap of the root domain, which every change of a queue updates. The
  rebalancing of the tree is the kernel's, as in \<open>Product_Tree\<close>.

  Shown: whatever is enqueued and dequeued, the next task picked on a processor is one with the
  earliest deadline queued there, and the push heap holds exactly these earliest deadlines.
\<close>

section \<open>State\<close>

text \<open>
  An entity on a queue: its task, its absolute deadline, which does not change while it is queued,
  and whether the task may run on more than one processor.
\<close>

record dl_node =
  n_task :: nat
  n_dl :: u64
  n_migr :: bool

record dl_rq =
  rb_root :: "dl_node tree"
  rb_leftmost :: "dl_node option"
  dl_nr_running :: nat
  earliest_curr :: u64
  earliest_next :: u64
  dl_nr_migratory :: nat
  dl_nr_total :: nat
  rq_overloaded :: bool

record root_domain =
  dlo_mask :: "nat set"
  dlo_count :: int
  rd_cpudl :: cpudl

definition init_dl_rq :: dl_rq where
  "init_dl_rq = \<lparr>rb_root = Leaf, rb_leftmost = None, dl_nr_running = 0, earliest_curr = 0, earliest_next = 0,
     dl_nr_migratory = 0, dl_nr_total = 0, rq_overloaded = False\<rparr>"

section \<open>Migration\<close>

text \<open>All processors are online.\<close>

definition dl_set_overload :: "nat \<Rightarrow> root_domain \<Rightarrow> root_domain" where
  "dl_set_overload cpu rd = rd\<lparr>dlo_mask := insert cpu (dlo_mask rd), dlo_count := dlo_count rd + 1\<rparr>"

definition dl_clear_overload :: "nat \<Rightarrow> root_domain \<Rightarrow> root_domain" where
  "dl_clear_overload cpu rd = rd\<lparr>dlo_count := dlo_count rd - 1, dlo_mask := dlo_mask rd - {cpu}\<rparr>"

definition update_dl_migration :: "nat \<Rightarrow> dl_rq \<times> root_domain \<Rightarrow> dl_rq \<times> root_domain" where
  "update_dl_migration cpu s =
     (case s of (q, rd) \<Rightarrow>
       if dl_nr_migratory q \<noteq> 0 \<and> dl_nr_total q > 1
       then if \<not> rq_overloaded q then (q\<lparr>rq_overloaded := True\<rparr>, dl_set_overload cpu rd) else (q, rd)
       else if rq_overloaded q then (q\<lparr>rq_overloaded := False\<rparr>, dl_clear_overload cpu rd) else (q, rd))"

definition inc_dl_migration :: "nat \<Rightarrow> dl_node \<Rightarrow> dl_rq \<times> root_domain \<Rightarrow> dl_rq \<times> root_domain" where
  "inc_dl_migration cpu n s =
     (case s of (q, rd) \<Rightarrow>
       update_dl_migration cpu
         (q\<lparr>dl_nr_total := dl_nr_total q + 1,
            dl_nr_migratory := (if n_migr n then dl_nr_migratory q + 1 else dl_nr_migratory q)\<rparr>, rd))"

definition dec_dl_migration :: "nat \<Rightarrow> dl_node \<Rightarrow> dl_rq \<times> root_domain \<Rightarrow> dl_rq \<times> root_domain" where
  "dec_dl_migration cpu n s =
     (case s of (q, rd) \<Rightarrow>
       update_dl_migration cpu
         (q\<lparr>dl_nr_total := dl_nr_total q - 1,
            dl_nr_migratory := (if n_migr n then dl_nr_migratory q - 1 else dl_nr_migratory q)\<rparr>, rd))"

section \<open>Earliest deadlines\<close>

text \<open>
  \<open>pick\<close> is \<^verbatim>\<open>pick_dl_task\<close> on this processor: the task is not running and may be moved. The loop follows
  \<^verbatim>\<open>rb_next\<close> from the leftmost node.
\<close>

definition pick_next_earliest_dl_task :: "(dl_node \<Rightarrow> bool) \<Rightarrow> dl_rq \<Rightarrow> dl_node option" where
  "pick_next_earliest_dl_task pick q =
     (case rb_leftmost q of
        None \<Rightarrow> None
      | Some l \<Rightarrow> find pick (tl (dropWhile (\<lambda>n. n \<noteq> l) (inorder (rb_root q)))))"

definition next_deadline :: "(dl_node \<Rightarrow> bool) \<Rightarrow> dl_rq \<Rightarrow> u64" where
  "next_deadline pick q = (case pick_next_earliest_dl_task pick q of Some n \<Rightarrow> n_dl n | None \<Rightarrow> 0)"

definition inc_dl_deadline :: "(dl_node \<Rightarrow> bool) \<Rightarrow> nat \<Rightarrow> u64 \<Rightarrow> dl_rq \<times> root_domain \<Rightarrow> dl_rq \<times> root_domain" where
  "inc_dl_deadline pick cpu d s =
     (case s of (q, rd) \<Rightarrow>
       if earliest_curr q = 0 \<or> dl_time_before d (earliest_curr q)
       then (q\<lparr>earliest_next := earliest_curr q, earliest_curr := d\<rparr>,
             rd\<lparr>rd_cpudl := cpudl_set (rd_cpudl rd) cpu d True\<rparr>)
       else if earliest_next q = 0 \<or> dl_time_before d (earliest_next q)
       then (q\<lparr>earliest_next := next_deadline pick q\<rparr>, rd)
       else (q, rd))"

text \<open>With no leftmost node the entry would be read through a null pointer; the count says there is one.\<close>

definition dec_dl_deadline :: "(dl_node \<Rightarrow> bool) \<Rightarrow> nat \<Rightarrow> dl_rq \<times> root_domain \<Rightarrow> (dl_rq \<times> root_domain) outcome" where
  "dec_dl_deadline pick cpu s =
     (case s of (q, rd) \<Rightarrow>
       if dl_nr_running q = 0
       then Returns (q\<lparr>earliest_curr := 0, earliest_next := 0\<rparr>, rd\<lparr>rd_cpudl := cpudl_set (rd_cpudl rd) cpu 0 False\<rparr>)
       else case rb_leftmost q of
         None \<Rightarrow> Fault
       | Some e \<Rightarrow> Returns (q\<lparr>earliest_curr := n_dl e, earliest_next := next_deadline pick q\<rparr>,
                            rd\<lparr>rd_cpudl := cpudl_set (rd_cpudl rd) cpu (n_dl e) True\<rparr>))"

section \<open>The tree\<close>

text \<open>The descent of \<^verbatim>\<open>__enqueue_dl_entity\<close> and the link at its end, with the flag \<^verbatim>\<open>leftmost\<close>.\<close>

fun dl_descend :: "dl_node \<Rightarrow> dl_node tree \<Rightarrow> bool \<Rightarrow> dl_node tree \<times> bool" where
  "dl_descend n Leaf lm = (Node Leaf n Leaf, lm)"
| "dl_descend n (Node l e r) lm =
     (if dl_time_before (n_dl n) (n_dl e)
      then (case dl_descend n l lm of (l', lm') \<Rightarrow> (Node l' e r, lm'))
      else (case dl_descend n r False of (r', lm') \<Rightarrow> (Node l e r', lm')))"

text \<open>The node of a task's entity on the queue, \<^term>\<open>None\<close> when \<^verbatim>\<open>RB_EMPTY_NODE\<close> holds of it.\<close>

definition on_dl_rq :: "nat \<Rightarrow> dl_rq \<Rightarrow> dl_node option" where
  "on_dl_rq task q = find (\<lambda>n. n_task n = task) (inorder (rb_root q))"

definition enqueue_entity ::
  "(dl_node tree \<Rightarrow> dl_node tree) \<Rightarrow> (dl_node \<Rightarrow> bool) \<Rightarrow> nat \<Rightarrow> dl_node \<Rightarrow> dl_rq \<times> root_domain \<Rightarrow> (dl_rq \<times> root_domain) outcome" where
  "enqueue_entity insert_color pick cpu n s =
     (case s of (q, rd) \<Rightarrow>
       if on_dl_rq (n_task n) q \<noteq> None then Fault
       else case dl_descend n (rb_root q) True of (t, leftmost) \<Rightarrow>
         let q1 = q\<lparr>rb_leftmost := (if leftmost then Some n else rb_leftmost q), rb_root := insert_color t,
                    dl_nr_running := dl_nr_running q + 1\<rparr> in
         Returns (inc_dl_migration cpu n (inc_dl_deadline pick cpu (n_dl n) (q1, rd))))"

definition dequeue_entity ::
  "(dl_node \<Rightarrow> dl_node tree \<Rightarrow> dl_node tree) \<Rightarrow> (dl_node \<Rightarrow> bool) \<Rightarrow> nat \<Rightarrow> nat \<Rightarrow> dl_rq \<times> root_domain \<Rightarrow> (dl_rq \<times> root_domain) outcome" where
  "dequeue_entity erase pick cpu task s =
     (case s of (q, rd) \<Rightarrow>
       case on_dl_rq task q of
         None \<Rightarrow> Returns (q, rd)
       | Some n \<Rightarrow>
         let q1 = q\<lparr>rb_leftmost := (if rb_leftmost q = Some n then succ_in n (inorder (rb_root q)) else rb_leftmost q),
                    rb_root := erase n (rb_root q), dl_nr_running := dl_nr_running q - 1\<rparr> in
         case dec_dl_deadline pick cpu (q1, rd) of
           Fault \<Rightarrow> Fault
         | Returns s' \<Rightarrow> Returns (dec_dl_migration cpu n s'))"

text \<open>\<^term>\<open>Returns None\<close> is the null pointer; the \<^verbatim>\<open>BUG_ON\<close> is a fault.\<close>

definition pick_next_task_dl :: "dl_rq \<Rightarrow> dl_node option outcome" where
  "pick_next_task_dl q =
     (if dl_nr_running q = 0 then Returns None
      else case rb_leftmost q of None \<Rightarrow> Fault | Some n \<Rightarrow> Returns (Some n))"

section \<open>All processors\<close>

record dl_sys =
  sys_rqs :: "dl_rq list"
  sys_rd :: root_domain

datatype dl_event = Enqueue nat dl_node | Dequeue nat nat

definition sys_put :: "nat \<Rightarrow> dl_sys \<Rightarrow> (dl_rq \<times> root_domain) outcome \<Rightarrow> dl_sys outcome" where
  "sys_put cpu s r = (case r of Fault \<Rightarrow> Fault | Returns (q, rd) \<Rightarrow> Returns \<lparr>sys_rqs = (sys_rqs s)[cpu := q], sys_rd = rd\<rparr>)"

fun dl_sys_step ::
  "(dl_node tree \<Rightarrow> dl_node tree) \<Rightarrow> (dl_node \<Rightarrow> dl_node tree \<Rightarrow> dl_node tree) \<Rightarrow> (dl_node \<Rightarrow> bool) \<Rightarrow>
   dl_event \<Rightarrow> dl_sys \<Rightarrow> dl_sys outcome" where
  "dl_sys_step ic er pick (Enqueue cpu n) s = sys_put cpu s (enqueue_entity ic pick cpu n (sys_rqs s ! cpu, sys_rd s))"
| "dl_sys_step ic er pick (Dequeue cpu task) s = sys_put cpu s (dequeue_entity er pick cpu task (sys_rqs s ! cpu, sys_rd s))"

fun dl_sys_run ::
  "(dl_node tree \<Rightarrow> dl_node tree) \<Rightarrow> (dl_node \<Rightarrow> dl_node tree \<Rightarrow> dl_node tree) \<Rightarrow> (dl_node \<Rightarrow> bool) \<Rightarrow>
   dl_event list \<Rightarrow> dl_sys \<Rightarrow> dl_sys outcome" where
  "dl_sys_run ic er pick [] s = Returns s"
| "dl_sys_run ic er pick (e # es) s =
     (case dl_sys_step ic er pick e s of Fault \<Rightarrow> Fault | Returns s' \<Rightarrow> dl_sys_run ic er pick es s')"

definition dl_sys_init :: "nat \<Rightarrow> dl_sys" where
  "dl_sys_init nr = \<lparr>sys_rqs = replicate nr init_dl_rq,
     sys_rd = \<lparr>dlo_mask = {}, dlo_count = 0, rd_cpudl = snd (cpudl_init nr True)\<rparr>\<rparr>"

section \<open>One queue\<close>

text \<open>The nodes in order, and the first of them.\<close>

abbreviation nodes :: "dl_rq \<Rightarrow> dl_node list" where
  "nodes q \<equiv> inorder (rb_root q)"

definition first :: "dl_node list \<Rightarrow> dl_node option" where
  "first ns = (case ns of [] \<Rightarrow> None | n # _ \<Rightarrow> Some n)"

definition dl_ok :: "dl_node \<Rightarrow> bool" where
  "dl_ok n \<longleftrightarrow> 0 < n_dl n \<and> n_dl n < 2 ^ 63"

definition counted :: "dl_rq \<Rightarrow> dl_node list \<Rightarrow> bool" where
  "counted q ns \<longleftrightarrow> dl_nr_total q = length ns \<and> dl_nr_migratory q = length (filter n_migr ns)"

definition load_of :: "dl_node list \<Rightarrow> bool" where
  "load_of ns \<longleftrightarrow> filter n_migr ns \<noteq> [] \<and> 1 < length ns"

definition rq_ok :: "dl_rq \<Rightarrow> bool" where
  "rq_ok q \<longleftrightarrow>
     sorted (map n_dl (nodes q)) \<and> distinct (map n_task (nodes q)) \<and> (\<forall>n \<in> set (nodes q). dl_ok n) \<and>
     rb_leftmost q = first (nodes q) \<and> dl_nr_running q = length (nodes q) \<and>
     earliest_curr q = (case first (nodes q) of None \<Rightarrow> 0 | Some n \<Rightarrow> n_dl n) \<and>
     counted q (nodes q) \<and> (rq_overloaded q \<longleftrightarrow> load_of (nodes q))"

text \<open>The descent puts the node behind all nodes that are not later.\<close>

definition put_in :: "dl_node \<Rightarrow> dl_node list \<Rightarrow> dl_node list" where
  "put_in n ns = filter (\<lambda>e. n_dl e \<le> n_dl n) ns @ n # filter (\<lambda>e. n_dl n < n_dl e) ns"

lemma dl_descend_result:
  assumes "sorted (map n_dl (inorder t))" and "\<forall>e \<in> set (inorder t). dl_ok e" and "dl_ok n"
  shows "inorder (fst (dl_descend n t lm)) = put_in n (inorder t) \<and>
    snd (dl_descend n t lm) = (lm \<and> (\<forall>e \<in> set (inorder t). n_dl n < n_dl e))"
  using assms
proof (induction t arbitrary: lm)
  case Leaf
  then show ?case by (simp add: put_in_def)
next
  case (Node l e r)
  have so: "sorted (map n_dl (inorder l))" "sorted (map n_dl (inorder r))"
      "\<forall>x \<in> set (inorder l). n_dl x \<le> n_dl e" "\<forall>x \<in> set (inorder r). n_dl e \<le> n_dl x"
    using Node.prems(1) by (auto simp: sorted_append)
  have b: "dl_time_before (n_dl n) (n_dl e) \<longleftrightarrow> n_dl n < n_dl e"
    using Node.prems(2,3) by (simp add: dl_ok_def dl_time_before_less)
  show ?case
  proof (cases "n_dl n < n_dl e")
    case True
    then have "\<forall>x \<in> set (inorder r). n_dl n < n_dl x" using so(4) by (auto intro: less_le_trans)
    then have r: "filter (\<lambda>x. n_dl x \<le> n_dl n) (inorder r) = []" "filter (\<lambda>x. n_dl n < n_dl x) (inorder r) = inorder r"
        "\<forall>x \<in> set (inorder r). n_dl n < n_dl x"
      by (auto simp: filter_empty_conv)
    show ?thesis using Node.IH(1) [OF so(1), of lm] Node.prems(2,3) True r
      by (auto simp: b put_in_def split: prod.splits)
  next
    case False
    then have l: "filter (\<lambda>x. n_dl x \<le> n_dl n) (inorder l) = inorder l" "filter (\<lambda>x. n_dl n < n_dl x) (inorder l) = []"
      using so(3) by (auto simp: filter_empty_conv filter_id_conv intro: order_trans)
    show ?thesis using Node.IH(2) [OF so(2), of False] Node.prems(2,3) False l
      by (auto simp: b put_in_def split: prod.splits)
  qed
qed

lemma mset_put_in: "mset (put_in n ns) = mset (n # ns)"
  unfolding put_in_def by (induction ns) auto

lemma put_in_sorted:
  assumes "sorted (map n_dl ns)"
  shows "sorted (map n_dl (put_in n ns))"
  using assms by (auto simp: put_in_def sorted_append sorted_map_same sorted_filter less_imp_le intro: order_trans less_imp_le)

lemma put_in_set [simp]: "set (put_in n ns) = insert n (set ns)"
  using mset_eq_setD [OF mset_put_in] by simp

lemma put_in_length [simp]: "length (put_in n ns) = Suc (length ns)"
  using mset_eq_length [OF mset_put_in] by simp

lemma put_in_migr: "length (filter n_migr (put_in n ns)) = (if n_migr n then length (filter n_migr ns) + 1 else length (filter n_migr ns))"
  using arg_cong [OF mset_put_in, of "\<lambda>m. size (filter_mset n_migr m)" n ns] by (simp flip: mset_filter)

lemma put_in_distinct:
  assumes "distinct (map n_task ns)" and "n_task n \<notin> n_task ` set ns"
  shows "distinct (map n_task (put_in n ns))"
proof -
  have "mset (map n_task (put_in n ns)) = mset (map n_task (n # ns))" by (simp only: mset_map mset_put_in)
  then show ?thesis using assms mset_eq_imp_distinct_iff by fastforce
qed

lemma put_in_first:
  assumes "sorted (map n_dl ns)"
  shows "first (put_in n ns) = (if \<forall>e \<in> set ns. n_dl n < n_dl e then Some n else first ns)"
proof (cases ns)
  case (Cons e es)
  have "\<forall>x \<in> set es. n_dl e \<le> n_dl x" using assms Cons by auto
  show ?thesis
  proof (cases "n_dl n < n_dl e")
    case True
    with \<open>\<forall>x \<in> set es. n_dl e \<le> n_dl x\<close> have "\<forall>x \<in> set ns. n_dl n < n_dl x" using Cons by (auto intro: less_le_trans)
    moreover from this have "filter (\<lambda>x. n_dl x \<le> n_dl n) ns = []" by (auto simp: filter_empty_conv)
    ultimately show ?thesis by (simp add: put_in_def first_def)
  next
    case False
    then show ?thesis using Cons by (auto simp: put_in_def first_def)
  qed
qed (simp add: put_in_def first_def)

text \<open>Migration touches the overload flag and the masks only.\<close>

definition load_set :: "nat \<Rightarrow> bool \<Rightarrow> root_domain \<Rightarrow> root_domain \<Rightarrow> bool" where
  "load_set cpu b rd rd' \<longleftrightarrow> rd_cpudl rd' = rd_cpudl rd \<and> dlo_mask rd' = (if b then insert cpu (dlo_mask rd) else dlo_mask rd - {cpu}) \<and>
     (finite (dlo_mask rd) \<longrightarrow> dlo_count rd = int (card (dlo_mask rd)) \<longrightarrow> dlo_count rd' = int (card (dlo_mask rd')))"

lemma update_dl_migration_result:
  assumes "rq_overloaded q \<longleftrightarrow> cpu \<in> dlo_mask rd"
  defines "b \<equiv> dl_nr_migratory q \<noteq> 0 \<and> dl_nr_total q > 1"
  obtains rd' where "update_dl_migration cpu (q, rd) = (q\<lparr>rq_overloaded := b\<rparr>, rd')" and "load_set cpu b rd rd'"
proof -
  have c: "int (card (dlo_mask rd) - Suc 0) = int (card (dlo_mask rd)) - 1" if "finite (dlo_mask rd)" "cpu \<in> dlo_mask rd"
  proof -
    have "0 < card (dlo_mask rd)" using that card_gt_0_iff by blast
    then show ?thesis by (simp add: of_nat_diff)
  qed
  show thesis
    using assms(1) c that [of "snd (update_dl_migration cpu (q, rd))"]
    by (cases "rq_overloaded q"; cases b)
       (auto simp: b_def update_dl_migration_def dl_set_overload_def dl_clear_overload_def load_set_def insert_absorb card_insert_if
         card_Diff_singleton)
qed

text \<open>
  What an operation on the queue of one processor leaves: the queue consistent, the push heap
  updated at this processor, the masks as the queue says.
\<close>

definition rq_step_ok :: "nat \<Rightarrow> dl_rq \<times> root_domain \<Rightarrow> dl_rq \<times> root_domain \<Rightarrow> bool" where
  "rq_step_ok cpu s s' \<longleftrightarrow> rq_ok (fst s') \<and> cp_inv (rd_cpudl (snd s')) \<and>
     length (cp_cpu_to_idx (rd_cpudl (snd s'))) = length (cp_cpu_to_idx (rd_cpudl (snd s))) \<and>
     cp_map (rd_cpudl (snd s')) = (cp_map (rd_cpudl (snd s)))(cpu := map_option n_dl (first (nodes (fst s')))) \<and>
     (\<exists>rd. dlo_mask rd = dlo_mask (snd s) \<and> dlo_count rd = dlo_count (snd s) \<and> load_set cpu (rq_overloaded (fst s')) rd (snd s'))"

lemma rq_okD:
  assumes "rq_ok q"
  shows "sorted (map n_dl (nodes q))" and "distinct (map n_task (nodes q))" and "\<And>n. n \<in> set (nodes q) \<Longrightarrow> dl_ok n"
    and "rb_leftmost q = first (nodes q)" and "dl_nr_running q = length (nodes q)"
    and "earliest_curr q = (case first (nodes q) of None \<Rightarrow> 0 | Some n \<Rightarrow> n_dl n)"
    and "counted q (nodes q)" and "rq_overloaded q \<longleftrightarrow> load_of (nodes q)"
  using assms by (auto simp: rq_ok_def)

lemma first_Some: "first ns = Some n \<Longrightarrow> n \<in> set ns"
  by (cases ns) (auto simp: first_def)

lemma first_earliest: "sorted (map n_dl ns) \<Longrightarrow> first ns = Some e \<Longrightarrow> x \<in> set ns \<Longrightarrow> n_dl e \<le> n_dl x"
  by (cases ns) (auto simp: first_def)

lemma on_dl_rq_None: "on_dl_rq task q = None \<longleftrightarrow> task \<notin> n_task ` set (nodes q)"
  by (auto simp: on_dl_rq_def find_None_iff)

lemma find_SomeD: "find P xs = Some x \<Longrightarrow> x \<in> set xs \<and> P x"
  by (induction xs) (auto split: if_splits)

lemma load_of_counted: "counted q ns \<Longrightarrow> (dl_nr_migratory q \<noteq> 0 \<and> dl_nr_total q > 1) = load_of ns"
  by (auto simp: counted_def load_of_def)

text \<open>The earliest deadline and the push heap follow the first node.\<close>

lemma inc_dl_deadline_result:
  assumes "sorted (map n_dl ns)" and "\<And>n. n \<in> set ns \<Longrightarrow> dl_ok n" and "dl_ok n"
    and "earliest_curr q = (case first ns of None \<Rightarrow> 0 | Some e \<Rightarrow> n_dl e)"
    and "cp_inv (rd_cpudl rd)" and "cpu < length (cp_cpu_to_idx (rd_cpudl rd))"
    and "cp_map (rd_cpudl rd) cpu = map_option n_dl (first ns)"
  obtains nx cp where "inc_dl_deadline pick cpu (n_dl n) (q, rd) =
      (q\<lparr>earliest_curr := (case first (put_in n ns) of None \<Rightarrow> 0 | Some e \<Rightarrow> n_dl e), earliest_next := nx\<rparr>, rd\<lparr>rd_cpudl := cp\<rparr>)"
    and "cp_inv cp" and "length (cp_cpu_to_idx cp) = length (cp_cpu_to_idx (rd_cpudl rd))"
    and "cp_map cp = (cp_map (rd_cpudl rd))(cpu := map_option n_dl (first (put_in n ns)))"
proof -
  have n: "0 < n_dl n" "n_dl n < 2 ^ 63" using assms(3) by (auto simp: dl_ok_def)
  show thesis
  proof (cases "earliest_curr q = 0 \<or> dl_time_before (n_dl n) (earliest_curr q)")
    case True
    have "n_dl n < n_dl e" if e: "e \<in> set ns" for e
    proof -
      obtain f where f: "first ns = Some f" using e by (cases ns) (auto simp: first_def)
      then have "dl_ok f" using first_Some assms(2) by blast
      then have "n_dl n < n_dl f" using True assms(4) f n by (auto simp: dl_ok_def dl_time_before_less)
      then show ?thesis using first_earliest [OF assms(1) f e] by simp
    qed
    then have f: "first (put_in n ns) = Some n" using put_in_first [OF assms(1)] by simp
    show thesis
      using that [of "earliest_curr q" "cpudl_set (rd_cpudl rd) cpu (n_dl n) True"] cpudl_set_ok [OF assms(5,6), of True "n_dl n"] True n
      by (simp add: f inc_dl_deadline_def)
  next
    case False
    then obtain e where e: "first ns = Some e" "earliest_curr q = n_dl e" using assms(4) by (cases "first ns") auto
    have "dl_ok e" using first_Some e(1) assms(2) by blast
    then have "\<not> n_dl n < n_dl e" using False e(2) n by (simp add: dl_ok_def dl_time_before_less)
    then have f: "first (put_in n ns) = Some e" using put_in_first [OF assms(1)] e(1) first_Some by auto
    have m: "cp_map (rd_cpudl rd) = (cp_map (rd_cpudl rd))(cpu \<mapsto> n_dl e)" using assms(7) e(1) by (simp add: fun_upd_idem)
    show thesis
      using that [of "if earliest_next q = 0 \<or> dl_time_before (n_dl n) (earliest_next q) then next_deadline pick q else earliest_next q" "rd_cpudl rd"]
        False e assms(5) m f by (auto simp: inc_dl_deadline_def)
  qed
qed

lemma enqueue_entity_ok:
  assumes ic: "rb_laws ic er" and ok: "rq_ok q" and n: "dl_ok n" and new: "n_task n \<notin> n_task ` set (nodes q)"
    and cp: "cp_inv (rd_cpudl rd)" and cpu: "cpu < length (cp_cpu_to_idx (rd_cpudl rd))"
    and m: "cp_map (rd_cpudl rd) cpu = map_option n_dl (first (nodes q))" and load: "rq_overloaded q \<longleftrightarrow> cpu \<in> dlo_mask rd"
  shows "\<exists>s'. enqueue_entity ic pick cpu n (q, rd) = Returns s' \<and> rq_step_ok cpu (q, rd) s' \<and> set (nodes (fst s')) = insert n (set (nodes q))"
proof -
  note q = rq_okD [OF ok]
  obtain t lm where d: "dl_descend n (rb_root q) True = (t, lm)" by force
  have t: "inorder t = put_in n (nodes q)" "lm \<longleftrightarrow> (\<forall>e \<in> set (nodes q). n_dl n < n_dl e)"
    using dl_descend_result [OF q(1) _ n, of True] q(3) d by auto
  define q1 where "q1 = q\<lparr>rb_leftmost := (if lm then Some n else rb_leftmost q), rb_root := ic t, dl_nr_running := dl_nr_running q + 1\<rparr>"
  have q1: "nodes q1 = put_in n (nodes q)" "rb_leftmost q1 = first (put_in n (nodes q))" "dl_nr_running q1 = length (put_in n (nodes q))"
      "earliest_curr q1 = earliest_curr q" "dl_nr_total q1 = dl_nr_total q" "dl_nr_migratory q1 = dl_nr_migratory q"
      "rq_overloaded q1 = rq_overloaded q"
    using rb_lawsD(1) [OF ic] t q(4,5) put_in_first [OF q(1)] by (simp_all add: q1_def)
  have e1: "earliest_curr q1 = (case first (nodes q) of None \<Rightarrow> 0 | Some e \<Rightarrow> n_dl e)" using q(6) q1(4) by simp
  obtain nx cp' where i: "inc_dl_deadline pick cpu (n_dl n) (q1, rd) =
      (q1\<lparr>earliest_curr := (case first (put_in n (nodes q)) of None \<Rightarrow> 0 | Some e \<Rightarrow> n_dl e), earliest_next := nx\<rparr>, rd\<lparr>rd_cpudl := cp'\<rparr>)"
    and cp': "cp_inv cp'" "length (cp_cpu_to_idx cp') = length (cp_cpu_to_idx (rd_cpudl rd))"
      "cp_map cp' = (cp_map (rd_cpudl rd))(cpu := map_option n_dl (first (put_in n (nodes q))))"
    by (rule inc_dl_deadline_result [OF q(1,3) n e1 cp cpu m])
  define q2 where "q2 = q1\<lparr>earliest_curr := (case first (put_in n (nodes q)) of None \<Rightarrow> 0 | Some e \<Rightarrow> n_dl e), earliest_next := nx,
      dl_nr_total := dl_nr_total q1 + 1, dl_nr_migratory := (if n_migr n then dl_nr_migratory q1 + 1 else dl_nr_migratory q1)\<rparr>"
  have q2: "counted q2 (put_in n (nodes q))" using q(7) by (simp add: q2_def counted_def put_in_migr q1(5,6))
  have "rq_overloaded q2 \<longleftrightarrow> cpu \<in> dlo_mask (rd\<lparr>rd_cpudl := cp'\<rparr>)" using load q1(7) by (simp add: q2_def)
  from update_dl_migration_result [OF this]
  obtain rd' where u: "update_dl_migration cpu (q2, rd\<lparr>rd_cpudl := cp'\<rparr>) = (q2\<lparr>rq_overloaded := load_of (put_in n (nodes q))\<rparr>, rd')"
      "load_set cpu (load_of (put_in n (nodes q))) (rd\<lparr>rd_cpudl := cp'\<rparr>) rd'"
    unfolding load_of_counted [OF q2] by blast
  let ?s = "(q2\<lparr>rq_overloaded := load_of (put_in n (nodes q))\<rparr>, rd')"
  have f: "nodes (fst ?s) = put_in n (nodes q)" using q1(1) by (simp add: q2_def)
  have "enqueue_entity ic pick cpu n (q, rd) = Returns (inc_dl_migration cpu n (inc_dl_deadline pick cpu (n_dl n) (q1, rd)))"
    using new d by (simp add: enqueue_entity_def on_dl_rq_None q1_def)
  also have "inc_dl_migration cpu n (inc_dl_deadline pick cpu (n_dl n) (q1, rd)) = ?s"
    unfolding i inc_dl_migration_def using u(1) by (cases "n_migr n") (simp_all add: q2_def)
  finally have "enqueue_entity ic pick cpu n (q, rd) = Returns ?s" .
  moreover have "rq_ok (fst ?s)"
    using q1 q2 q put_in_sorted [OF q(1)] put_in_distinct [OF q(2) new] n f
    by (simp add: rq_ok_def) (simp add: q2_def counted_def)
  then have "rq_step_ok cpu (q, rd) ?s"
    using cp' u(2) f by (auto simp: rq_step_ok_def load_set_def intro!: exI [of _ "rd\<lparr>rd_cpudl := cp'\<rparr>"])
  ultimately show ?thesis using f by (intro exI [of _ ?s]) simp
qed

text \<open>Taking a node out of the order.\<close>

lemma nodes_without:
  assumes "distinct (map n_task ns)" and "n \<in> set ns"
  shows "length (removeAll n ns) = length ns - 1"
    and "length (filter n_migr (removeAll n ns)) = (if n_migr n then length (filter n_migr ns) - 1 else length (filter n_migr ns))"
    and "first (removeAll n ns) = (if first ns = Some n then succ_in n ns else first ns)"
    and "distinct (map n_task (removeAll n ns))"
proof -
  have d: "distinct ns" using assms(1) by (simp add: distinct_map)
  obtain as bs where ns: "ns = as @ n # bs" using assms(2) split_list by metis
  have r: "removeAll n ns = as @ bs" "n \<notin> set as" "n \<notin> set bs" using d by (auto simp: ns)
  show "length (removeAll n ns) = length ns - 1" by (simp add: r(1)) (simp add: ns)
  show "length (filter n_migr (removeAll n ns)) = (if n_migr n then length (filter n_migr ns) - 1 else length (filter n_migr ns))"
    unfolding r(1) by (simp add: ns)
  show "distinct (map n_task (removeAll n ns))" unfolding r(1) using assms(1) by (auto simp: ns)
  have "succ_in n (n # bs) = first bs" by (cases bs) (auto simp: first_def)
  then show "first (removeAll n ns) = (if first ns = Some n then succ_in n ns else first ns)"
    unfolding r(1) using r(2) by (cases as) (auto simp: ns first_def)
qed

lemma dec_dl_deadline_result:
  assumes "\<And>n. n \<in> set ns \<Longrightarrow> dl_ok n" and "rb_leftmost q = first ns" and "dl_nr_running q = length ns"
    and "cp_inv (rd_cpudl rd)" and "cpu < length (cp_cpu_to_idx (rd_cpudl rd))"
  obtains nx cp where "dec_dl_deadline pick cpu (q, rd) =
      Returns (q\<lparr>earliest_curr := (case first ns of None \<Rightarrow> 0 | Some e \<Rightarrow> n_dl e), earliest_next := nx\<rparr>, rd\<lparr>rd_cpudl := cp\<rparr>)"
    and "cp_inv cp" and "length (cp_cpu_to_idx cp) = length (cp_cpu_to_idx (rd_cpudl rd))"
    and "cp_map cp = (cp_map (rd_cpudl rd))(cpu := map_option n_dl (first ns))"
proof (cases "first ns")
  case None
  then have "ns = []" by (cases ns) (auto simp: first_def)
  then show thesis
    using that [of 0 "cpudl_set (rd_cpudl rd) cpu 0 False"] cpudl_set_ok [OF assms(4,5), of False 0] assms(3) None
    by (simp add: dec_dl_deadline_def)
next
  case (Some e)
  then have "dl_ok e" "ns \<noteq> []" using first_Some assms(1) by (auto simp: first_def)
  then show thesis
    using that [of "next_deadline pick q" "cpudl_set (rd_cpudl rd) cpu (n_dl e) True"]
      cpudl_set_ok [OF assms(4,5), of True "n_dl e"] assms(2,3) Some
    by (simp add: dec_dl_deadline_def dl_ok_def)
qed

lemma dequeue_entity_ok:
  assumes er: "rb_laws ic er" and ok: "rq_ok q" and cp: "cp_inv (rd_cpudl rd)" and cpu: "cpu < length (cp_cpu_to_idx (rd_cpudl rd))"
    and m: "cp_map (rd_cpudl rd) cpu = map_option n_dl (first (nodes q))" and load: "rq_overloaded q \<longleftrightarrow> cpu \<in> dlo_mask rd"
  shows "\<exists>s'. dequeue_entity er pick cpu task (q, rd) = Returns s' \<and> rq_step_ok cpu (q, rd) s' \<and>
    set (nodes (fst s')) = {n \<in> set (nodes q). n_task n \<noteq> task}"
proof (cases "on_dl_rq task q")
  case None
  then have no: "{n \<in> set (nodes q). n_task n \<noteq> task} = set (nodes q)" by (auto simp: on_dl_rq_None)
  have "load_set cpu (rq_overloaded q) rd rd" using load by (auto simp: load_set_def insert_absorb)
  then have "rq_step_ok cpu (q, rd) (q, rd)"
    using ok cp m by (auto simp: rq_step_ok_def fun_upd_idem intro!: exI [of _ rd])
  then show ?thesis using None no by (simp add: dequeue_entity_def)
next
  case (Some n)
  note q = rq_okD [OF ok]
  have n: "n \<in> set (nodes q)" "n_task n = task" using find_SomeD Some unfolding on_dl_rq_def by fast+
  have d: "distinct (nodes q)" using q(2) by (simp add: distinct_map)
  note w = nodes_without [OF q(2) n(1)]
  let ?ns = "removeAll n (nodes q)"
  define q1 where "q1 = q\<lparr>rb_leftmost := (if rb_leftmost q = Some n then succ_in n (nodes q) else rb_leftmost q),
      rb_root := er n (rb_root q), dl_nr_running := dl_nr_running q - 1\<rparr>"
  have q1: "nodes q1 = ?ns" "rb_leftmost q1 = first ?ns" "dl_nr_running q1 = length ?ns" "dl_nr_total q1 = dl_nr_total q"
      "dl_nr_migratory q1 = dl_nr_migratory q" "rq_overloaded q1 = rq_overloaded q"
    using rb_lawsD(2) [OF er n(1) d] q(4,5) w by (simp_all add: q1_def)
  have ns: "\<And>e. e \<in> set ?ns \<Longrightarrow> dl_ok e" using q(3) by auto
  obtain nx cp' where i: "dec_dl_deadline pick cpu (q1, rd) =
      Returns (q1\<lparr>earliest_curr := (case first ?ns of None \<Rightarrow> 0 | Some e \<Rightarrow> n_dl e), earliest_next := nx\<rparr>, rd\<lparr>rd_cpudl := cp'\<rparr>)"
    and cp': "cp_inv cp'" "length (cp_cpu_to_idx cp') = length (cp_cpu_to_idx (rd_cpudl rd))"
      "cp_map cp' = (cp_map (rd_cpudl rd))(cpu := map_option n_dl (first ?ns))"
    by (rule dec_dl_deadline_result [OF ns q1(2,3) cp cpu])
  define q2 where "q2 = q1\<lparr>earliest_curr := (case first ?ns of None \<Rightarrow> 0 | Some e \<Rightarrow> n_dl e), earliest_next := nx,
      dl_nr_total := dl_nr_total q1 - 1, dl_nr_migratory := (if n_migr n then dl_nr_migratory q1 - 1 else dl_nr_migratory q1)\<rparr>"
  have q2: "counted q2 ?ns" using q(7) by (simp add: q2_def counted_def w(1,2) q1(4,5))
  have "rq_overloaded q2 \<longleftrightarrow> cpu \<in> dlo_mask (rd\<lparr>rd_cpudl := cp'\<rparr>)" using load q1(6) by (simp add: q2_def)
  from update_dl_migration_result [OF this]
  obtain rd' where u: "update_dl_migration cpu (q2, rd\<lparr>rd_cpudl := cp'\<rparr>) = (q2\<lparr>rq_overloaded := load_of ?ns\<rparr>, rd')"
      "load_set cpu (load_of ?ns) (rd\<lparr>rd_cpudl := cp'\<rparr>) rd'"
    unfolding load_of_counted [OF q2] by blast
  let ?s = "(q2\<lparr>rq_overloaded := load_of ?ns\<rparr>, rd')"
  have f: "nodes (fst ?s) = ?ns" using q1(1) by (simp add: q2_def)
  have "dec_dl_migration cpu n (q1\<lparr>earliest_curr := (case first ?ns of None \<Rightarrow> 0 | Some e \<Rightarrow> n_dl e), earliest_next := nx\<rparr>,
      rd\<lparr>rd_cpudl := cp'\<rparr>) = ?s"
    unfolding dec_dl_migration_def using u(1) by (cases "n_migr n") (simp_all add: q2_def)
  then have "dequeue_entity er pick cpu task (q, rd) = Returns ?s"
    using Some i by (simp add: dequeue_entity_def q1_def)
  moreover have "rq_ok (fst ?s)"
    using q1 q2 w(4) sorted_filter [OF q(1), of "(\<noteq>) n"] ns f by (simp add: rq_ok_def) (simp add: q2_def counted_def removeAll_filter_not_eq)
  then have "rq_step_ok cpu (q, rd) ?s"
    using cp' u(2) f by (auto simp: rq_step_ok_def load_set_def intro!: exI [of _ "rd\<lparr>rd_cpudl := cp'\<rparr>"])
  moreover have "set (nodes (fst ?s)) = {e \<in> set (nodes q). n_task e \<noteq> task}"
    unfolding f using n q(2) by (auto simp: distinct_map dest: inj_onD)
  ultimately show ?thesis by blast
qed

section \<open>All queues and the push heap\<close>

definition sys_inv :: "nat \<Rightarrow> dl_sys \<Rightarrow> bool" where
  "sys_inv nr s \<longleftrightarrow>
     length (sys_rqs s) = nr \<and> cp_inv (rd_cpudl (sys_rd s)) \<and> length (cp_cpu_to_idx (rd_cpudl (sys_rd s))) = nr \<and>
     (\<forall>c < nr. rq_ok (sys_rqs s ! c) \<and> cp_map (rd_cpudl (sys_rd s)) c = map_option n_dl (first (nodes (sys_rqs s ! c)))) \<and>
     dlo_mask (sys_rd s) = {c. c < nr \<and> rq_overloaded (sys_rqs s ! c)} \<and> dlo_count (sys_rd s) = int (card (dlo_mask (sys_rd s)))"

text \<open>What is queued where, as a specification: a set for every processor.\<close>

fun queued_step :: "dl_event \<Rightarrow> (nat \<Rightarrow> dl_node set) \<Rightarrow> nat \<Rightarrow> dl_node set" where
  "queued_step (Enqueue cpu n) m = m(cpu := insert n (m cpu))"
| "queued_step (Dequeue cpu task) m = m(cpu := {n \<in> m cpu. n_task n \<noteq> task})"

text \<open>Events the scheduler generates: a task is enqueued when it is not on the queue, with a deadline.\<close>

fun event_ok :: "nat \<Rightarrow> dl_event \<Rightarrow> (nat \<Rightarrow> dl_node set) \<Rightarrow> bool" where
  "event_ok nr (Enqueue cpu n) m \<longleftrightarrow> cpu < nr \<and> dl_ok n \<and> n_task n \<notin> n_task ` m cpu"
| "event_ok nr (Dequeue cpu task) m \<longleftrightarrow> cpu < nr"

fun events_ok :: "nat \<Rightarrow> dl_event list \<Rightarrow> (nat \<Rightarrow> dl_node set) \<Rightarrow> bool" where
  "events_ok nr [] m = True"
| "events_ok nr (e # es) m = (event_ok nr e m \<and> events_ok nr es (queued_step e m))"

definition queued :: "dl_sys \<Rightarrow> nat \<Rightarrow> dl_node set" where
  "queued s c = (if c < length (sys_rqs s) then set (nodes (sys_rqs s ! c)) else {})"

lemma sys_put_inv:
  assumes "sys_inv nr s" and "cpu < nr" and "rq_step_ok cpu (sys_rqs s ! cpu, sys_rd s) (q, rd)"
  shows "sys_inv nr \<lparr>sys_rqs = (sys_rqs s)[cpu := q], sys_rd = rd\<rparr>"
proof -
  let ?s = "\<lparr>sys_rqs = (sys_rqs s)[cpu := q], sys_rd = rd\<rparr>"
  have mask: "dlo_mask (sys_rd s) = {c. c < nr \<and> rq_overloaded (sys_rqs s ! c)}" "dlo_count (sys_rd s) = int (card (dlo_mask (sys_rd s)))"
      "length (sys_rqs s) = nr"
    using assms(1) by (auto simp: sys_inv_def)
  have "finite (dlo_mask (sys_rd s))" by (simp add: mask(1))
  then have m: "dlo_mask rd = (if rq_overloaded q then insert cpu (dlo_mask (sys_rd s)) else dlo_mask (sys_rd s) - {cpu})"
      "dlo_count rd = int (card (dlo_mask rd))"
    using assms(3) mask(2) by (auto simp: rq_step_ok_def load_set_def)
  have "{c. c < nr \<and> rq_overloaded ((sys_rqs s)[cpu := q] ! c)} = dlo_mask rd"
    unfolding m(1) mask(1) using assms(2) mask(3) by (auto simp: nth_list_update)
  moreover have "\<forall>c < nr. rq_ok ((sys_rqs s)[cpu := q] ! c) \<and>
      cp_map (rd_cpudl rd) c = map_option n_dl (first (nodes ((sys_rqs s)[cpu := q] ! c)))"
    using assms mask(3) by (auto simp: sys_inv_def rq_step_ok_def nth_list_update)
  moreover have "cp_inv (rd_cpudl rd)" "length (cp_cpu_to_idx (rd_cpudl rd)) = nr"
    using assms by (auto simp: sys_inv_def rq_step_ok_def)
  ultimately show ?thesis using m(2) mask(3) by (simp add: sys_inv_def)
qed

lemma sys_step_ok:
  assumes laws: "rb_laws ic er" and inv: "sys_inv nr s" and ev: "event_ok nr e (queued s)"
  shows "\<exists>s'. dl_sys_step ic er pick e s = Returns s' \<and> sys_inv nr s' \<and> queued s' = queued_step e (queued s)"
proof -
  define cpu where "cpu = (case e of Enqueue c n \<Rightarrow> c | Dequeue c t \<Rightarrow> c)"
  have cpu: "cpu < nr" using ev by (cases e) (auto simp: cpu_def)
  let ?q = "sys_rqs s ! cpu" and ?rd = "sys_rd s"
  have pre: "rq_ok ?q" "cp_inv (rd_cpudl ?rd)" "cpu < length (cp_cpu_to_idx (rd_cpudl ?rd))"
      "cp_map (rd_cpudl ?rd) cpu = map_option n_dl (first (nodes ?q))" "rq_overloaded ?q \<longleftrightarrow> cpu \<in> dlo_mask ?rd" "length (sys_rqs s) = nr"
    using inv cpu by (auto simp: sys_inv_def)
  have put: "\<exists>s'. sys_put cpu s (Returns (q, rd)) = Returns s' \<and> sys_inv nr s' \<and> queued s' = (queued s)(cpu := set (nodes q))"
    if "rq_step_ok cpu (?q, ?rd) (q, rd)" for q rd
    using sys_put_inv [OF inv cpu that] cpu pre(6) by (auto simp: sys_put_def queued_def fun_eq_iff)
  show ?thesis
  proof (cases e)
    case (Enqueue c n)
    then have c: "c = cpu" "dl_ok n" "n_task n \<notin> n_task ` set (nodes ?q)" using ev cpu pre(6) by (auto simp: cpu_def queued_def)
    obtain q rd where "enqueue_entity ic pick cpu n (?q, ?rd) = Returns (q, rd)" "rq_step_ok cpu (?q, ?rd) (q, rd)"
        "set (nodes q) = insert n (set (nodes ?q))"
      using enqueue_entity_ok [OF laws pre(1) c(2,3) pre(2-5), of pick] by auto
    then show ?thesis using put [of q rd] c(1) cpu pre(6) by (simp add: Enqueue queued_def)
  next
    case (Dequeue c task)
    then have c: "c = cpu" by (simp add: cpu_def)
    obtain q rd where "dequeue_entity er pick cpu task (?q, ?rd) = Returns (q, rd)" "rq_step_ok cpu (?q, ?rd) (q, rd)"
        "set (nodes q) = {n \<in> set (nodes ?q). n_task n \<noteq> task}"
      using dequeue_entity_ok [OF laws pre(1-5), of pick task] by auto
    then show ?thesis using put [of q rd] c cpu pre(6) by (simp add: Dequeue queued_def)
  qed
qed

lemma sys_init_inv: "sys_inv nr (dl_sys_init nr)" "queued (dl_sys_init nr) = (\<lambda>_. {})"
proof -
  have q: "rq_ok init_dl_rq" "nodes init_dl_rq = []" "\<not> rq_overloaded init_dl_rq"
    by (simp_all add: rq_ok_def init_dl_rq_def first_def counted_def load_of_def)
  show "sys_inv nr (dl_sys_init nr)" using cpudl_init_ok [of nr] q by (simp add: sys_inv_def dl_sys_init_def first_def)
  show "queued (dl_sys_init nr) = (\<lambda>_. {})" using q(2) by (simp add: queued_def dl_sys_init_def fun_eq_iff)
qed

lemma sys_run_ok:
  assumes "rb_laws ic er" and "sys_inv nr s" and "events_ok nr es (queued s)"
  shows "\<exists>s'. dl_sys_run ic er pick es s = Returns s' \<and> sys_inv nr s' \<and> queued s' = fold queued_step es (queued s)"
  using assms(2,3)
proof (induction es arbitrary: s)
  case (Cons e es)
  obtain s1 where s1: "dl_sys_step ic er pick e s = Returns s1" "sys_inv nr s1" "queued s1 = queued_step e (queued s)"
    using sys_step_ok [OF assms(1) Cons.prems(1)] Cons.prems(2) by auto
  then show ?case using Cons.IH [OF s1(2)] Cons.prems(2) by simp
qed simp

lemma sys_run_init:
  assumes "rb_laws ic er" and "events_ok nr es (\<lambda>_. {})"
  shows "\<exists>s. dl_sys_run ic er pick es (dl_sys_init nr) = Returns s \<and> sys_inv nr s \<and> queued s = fold queued_step es (\<lambda>_. {})"
  using sys_run_ok [OF assms(1) sys_init_inv(1), of nr es pick] assms(2) by (simp add: sys_init_inv(2))

lemma first_is_min:
  assumes "rq_ok q"
  shows "map_option n_dl (first (nodes q)) = (if set (nodes q) = {} then None else Some (Min (n_dl ` set (nodes q))))"
proof (cases "first (nodes q)")
  case None
  then have "nodes q = []" by (cases "nodes q") (auto simp: first_def)
  then show ?thesis using None by (simp add: set_inorder [symmetric] del: set_inorder)
next
  case (Some e)
  have "Min (n_dl ` set (nodes q)) = n_dl e"
    using first_Some [OF Some] first_earliest [OF rq_okD(1) [OF assms] Some] by (intro Min_eqI) auto
  then show ?thesis using Some first_Some [OF Some] by auto
qed

text \<open>
  C14. Earliest deadline first: after any sequence of enqueueings and dequeueings on \<open>nr\<close> processors, with
  any rebalancing of the trees, no assertion has failed, each queue holds exactly the tasks put on
  it and not taken off, and \<^verbatim>\<open>pick_next_task_dl\<close> returns a task with the earliest deadline on that
  queue, or none when the queue is empty.
\<close>

theorem next_task_is_earliest:
  assumes "rb_laws ic er" and "events_ok nr es (\<lambda>_. {})"
  shows "\<exists>s. dl_sys_run ic er pick es (dl_sys_init nr) = Returns s \<and>
    (\<forall>c < nr. queued s c = fold queued_step es (\<lambda>_. {}) c \<and>
      (case pick_next_task_dl (sys_rqs s ! c) of
         Fault \<Rightarrow> False
       | Returns None \<Rightarrow> queued s c = {}
       | Returns (Some n) \<Rightarrow> n \<in> queued s c \<and> (\<forall>m \<in> queued s c. n_dl n \<le> n_dl m)))"
proof -
  obtain s where s: "dl_sys_run ic er pick es (dl_sys_init nr) = Returns s" "sys_inv nr s" "queued s = fold queued_step es (\<lambda>_. {})"
    using sys_run_init [OF assms] by blast
  have "case pick_next_task_dl (sys_rqs s ! c) of Fault \<Rightarrow> False | Returns None \<Rightarrow> queued s c = {}
      | Returns (Some n) \<Rightarrow> n \<in> queued s c \<and> (\<forall>m \<in> queued s c. n_dl n \<le> n_dl m)" if c: "c < nr" for c
  proof -
    let ?q = "sys_rqs s ! c"
    have ok: "rq_ok ?q" and l: "queued s c = set (nodes ?q)" using s(2) c by (auto simp: sys_inv_def queued_def)
    note q = rq_okD [OF ok]
    show ?thesis
    proof (cases "first (nodes ?q)")
      case None
      then have "nodes ?q = []" by (cases "nodes ?q") (auto simp: first_def)
      then show ?thesis using q(5) unfolding l by (simp add: pick_next_task_dl_def)
    next
      case (Some n)
      then have "nodes ?q \<noteq> []" by (auto simp: first_def)
      then have "pick_next_task_dl ?q = Returns (Some n)" using q(4,5) Some by (simp add: pick_next_task_dl_def)
      then show ?thesis using first_Some [OF Some] first_earliest [OF q(1) Some] unfolding l by simp
    qed
  qed
  then show ?thesis using s(1,3) by auto
qed

theorem next_task_is_earliest_witness:
  "let n = \<lambda>t d. \<lparr>n_task = t, n_dl = d, n_migr = True\<rparr>;
       es = [Enqueue 0 (n 1 30), Enqueue 0 (n 2 20), Enqueue 1 (n 3 50), Dequeue 0 2] in
   \<exists>s. dl_sys_run id plain_erase (\<lambda>_. False) es (dl_sys_init 2) = Returns s \<and>
    (\<forall>c < 2. queued s c = fold queued_step es (\<lambda>_. {}) c \<and>
      (case pick_next_task_dl (sys_rqs s ! c) of
         Fault \<Rightarrow> False
       | Returns None \<Rightarrow> queued s c = {}
       | Returns (Some n) \<Rightarrow> n \<in> queued s c \<and> (\<forall>m \<in> queued s c. n_dl n \<le> n_dl m)))"
  unfolding Let_def by (rule next_task_is_earliest) (simp_all add: plain_rb_laws rb_laws_def inorder_plain_erase dl_ok_def)

text \<open>
  C15. The push heap follows the run queues: after any such sequence it holds for every processor the
  earliest deadline queued there, the processor on top is one whose earliest deadline is the latest
  of all, and the overload mask holds the processors with more than one task of which one may move.
\<close>

theorem push_heap_follows_queues:
  assumes "rb_laws ic er" and "events_ok nr es (\<lambda>_. {})"
  shows "\<exists>s. dl_sys_run ic er pick es (dl_sys_init nr) = Returns s \<and>
    (let cp = rd_cpudl (sys_rd s) in
     (\<forall>c < nr. cp_map cp c = (if queued s c = {} then None else Some (Min (n_dl ` queued s c))) \<and>
       (queued s c \<noteq> {} \<longrightarrow> queued s (cpudl_maximum cp) \<noteq> {} \<and>
          Min (n_dl ` queued s c) \<le> Min (n_dl ` queued s (cpudl_maximum cp)))) \<and>
     dlo_mask (sys_rd s) = {c. c < nr \<and> (\<exists>n \<in> queued s c. n_migr n) \<and> 1 < card (queued s c)} \<and>
     dlo_count (sys_rd s) = int (card (dlo_mask (sys_rd s))))"
proof -
  obtain s where s: "dl_sys_run ic er pick es (dl_sys_init nr) = Returns s" "sys_inv nr s"
    using sys_run_init [OF assms] by blast
  let ?cp = "rd_cpudl (sys_rd s)"
  have inv: "cp_inv ?cp" "length (sys_rqs s) = nr" "length (cp_cpu_to_idx ?cp) = nr"
      "\<And>c. c < nr \<Longrightarrow> rq_ok (sys_rqs s ! c)"
      "\<And>c. c < nr \<Longrightarrow> cp_map ?cp c = map_option n_dl (first (nodes (sys_rqs s ! c)))"
      "dlo_mask (sys_rd s) = {c. c < nr \<and> rq_overloaded (sys_rqs s ! c)}" "dlo_count (sys_rd s) = int (card (dlo_mask (sys_rd s)))"
    using s(2) by (auto simp: sys_inv_def)
  have q: "queued s c = set (nodes (sys_rqs s ! c))" if "c < nr" for c using that inv(2) by (simp add: queued_def)
  have m: "cp_map ?cp c = (if queued s c = {} then None else Some (Min (n_dl ` queued s c)))" if "c < nr" for c
    unfolding q [OF that] inv(5) [OF that] by (rule first_is_min [OF inv(4) [OF that]])
  have top: "queued s (cpudl_maximum ?cp) \<noteq> {} \<and> Min (n_dl ` queued s c) \<le> Min (n_dl ` queued s (cpudl_maximum ?cp))"
    if c: "c < nr" "queued s c \<noteq> {}" for c
  proof -
    have t: "cp_map ?cp (cpudl_maximum ?cp) = Some (cp_key ?cp 0)" "Min (n_dl ` queued s c) \<le> cp_key ?cp 0"
      using cp_top_latest [OF inv(1), of c] m [OF c(1)] c(2) by auto
    then have "cpudl_maximum ?cp < nr" using inv(3) by (auto simp: cp_map_def split: if_splits)
    from m [OF this] t show ?thesis by (auto split: if_splits)
  qed
  have load: "rq_overloaded (sys_rqs s ! c) \<longleftrightarrow> (\<exists>n \<in> queued s c. n_migr n) \<and> 1 < card (queued s c)" if c: "c < nr" for c
  proof -
    note o = rq_okD [OF inv(4) [OF c]]
    have "card (set (nodes (sys_rqs s ! c))) = length (nodes (sys_rqs s ! c))"
      using o(2) by (intro distinct_card) (simp add: distinct_map)
    then show ?thesis using o(8) unfolding q [OF c] load_of_def by (simp add: filter_empty_conv)
  qed
  have mask: "dlo_mask (sys_rd s) = {c. c < nr \<and> (\<exists>n \<in> queued s c. n_migr n) \<and> 1 < card (queued s c)}"
    unfolding inv(6) using load by blast
  show ?thesis unfolding Let_def by (intro exI [of _ s] conjI allI impI s(1) m top mask inv(7)) (use top in blast)+
qed

theorem push_heap_follows_queues_witness:
  "let n = \<lambda>t d. \<lparr>n_task = t, n_dl = d, n_migr = True\<rparr>;
       es = [Enqueue 0 (n 1 30), Enqueue 0 (n 2 20), Enqueue 1 (n 3 50)] in
   \<exists>s. dl_sys_run id plain_erase (\<lambda>_. False) es (dl_sys_init 2) = Returns s \<and>
    (let cp = rd_cpudl (sys_rd s) in
     (\<forall>c < 2. cp_map cp c = (if queued s c = {} then None else Some (Min (n_dl ` queued s c))) \<and>
       (queued s c \<noteq> {} \<longrightarrow> queued s (cpudl_maximum cp) \<noteq> {} \<and>
          Min (n_dl ` queued s c) \<le> Min (n_dl ` queued s (cpudl_maximum cp)))) \<and>
     dlo_mask (sys_rd s) = {c. c < 2 \<and> (\<exists>n \<in> queued s c. n_migr n) \<and> 1 < card (queued s c)} \<and>
     dlo_count (sys_rd s) = int (card (dlo_mask (sys_rd s))))"
  unfolding Let_def [of "\<lambda>t d. \<lparr>n_task = t, n_dl = d, n_migr = True\<rparr>"] Let_def [of "[_, _, _]"]
  by (rule push_heap_follows_queues) (simp_all add: rb_laws_def inorder_plain_erase dl_ok_def)

end
