(* ===== verification/Sched_Lab.thy ===== *)
theory Sched_Lab
  imports Kernel_Prelude
begin

text \<open>
  The three modules of \<^verbatim>\<open>sched-lab/\<close> that start something which runs later: a kernel thread
  (\<^verbatim>\<open>kthread_run.c\<close>), a work item (\<^verbatim>\<open>work_queue.c\<close>) and a tasklet (\<^verbatim>\<open>tasklet.c\<close>). Each is a step
  relation over the module's variables, the control point of the deferred function, how far
  the exit function got, and whether the module's code is still in memory: the kernel frees
  it some time after the exit function has returned.

  The locale \<open>joined_worker\<close> is the contract that makes unloading safe: when the code is gone
  nothing is inside it. The kernel thread keeps it, because \<^verbatim>\<open>kthread_stop\<close> waits; it is an
  interpretation. The work item and the tasklet do not.
\<close>

section \<open>The contract\<close>

locale joined_worker =
  fixes step :: "'s \<Rightarrow> 's \<Rightarrow> bool"
    and start :: 's
    and inside :: "'s \<Rightarrow> bool"      \<comment> \<open>the deferred function has not returned\<close>
    and gone :: "'s \<Rightarrow> bool"        \<comment> \<open>its code is no longer there\<close>
    and inv :: "'s \<Rightarrow> bool"
  assumes inv_start: "inv start"
    and inv_step: "inv s \<Longrightarrow> step s s' \<Longrightarrow> inv s'"
    and inv_joined: "inv s \<Longrightarrow> gone s \<Longrightarrow> \<not> inside s"
begin

lemma inv_reachable: "step\<^sup>*\<^sup>* start s \<Longrightarrow> inv s"
  by (induction rule: rtranclp_induct) (auto intro: inv_start inv_step)

lemma gone_not_inside: "step\<^sup>*\<^sup>* start s \<Longrightarrow> gone s \<Longrightarrow> \<not> inside s"
  using inv_reachable inv_joined by blast

end

text \<open>A bound on the steps left, by a measure that every step lowers.\<close>

lemma relpowp_measure:
  assumes "\<And>s s'. P s \<Longrightarrow> step s s' \<Longrightarrow> P s' \<and> f s' < (f s :: nat)"
  shows "(step ^^ n) s s' \<Longrightarrow> P s \<Longrightarrow> n + f s' \<le> f s"
proof (induction n arbitrary: s')
  case (Suc n)
  then obtain t where t: "(step ^^ n) s t" "step t s'" by auto
  have "P t" using t(1) Suc.prems(2)
  proof (induction n arbitrary: t)
    case (Suc n)
    then show ?case using assms by auto
  qed simp
  then show ?case using Suc.IH [OF t(1) Suc.prems(2)] assms [OF _ t(2)] by simp
qed simp

section \<open>kthread\_run.c\<close>

datatype kt_pc = KCreated | KTest | KBody | KReturned

datatype exit_pc = NotCalled | Waiting | Returned

record kt_state =
  kt_pc :: kt_pc
  kt_should_stop :: bool
  kt_exit :: exit_pc
  kt_loaded :: bool

text \<open>After \<^verbatim>\<open>my_init\<close>: the thread has been created.\<close>

definition kt_start :: kt_state where
  "kt_start = \<lparr>kt_pc = KCreated, kt_should_stop = False, kt_exit = NotCalled, kt_loaded = True\<rparr>"

text \<open>
  A thread that is stopped before it ran never calls its function. \<^verbatim>\<open>kthread_stop\<close> sets the
  flag and waits until the thread has returned.
\<close>

inductive kt_step :: "kt_state \<Rightarrow> kt_state \<Rightarrow> bool" where
  kt_enter: "kt_pc s = KCreated \<Longrightarrow> kt_step s (s\<lparr>kt_pc := if kt_should_stop s then KReturned else KTest\<rparr>)"
| kt_test: "kt_pc s = KTest \<Longrightarrow> kt_step s (s\<lparr>kt_pc := if kt_should_stop s then KReturned else KBody\<rparr>)"
| kt_body: "kt_pc s = KBody \<Longrightarrow> kt_step s (s\<lparr>kt_pc := KTest\<rparr>)"
| kt_stop: "kt_exit s = NotCalled \<Longrightarrow> kt_step s (s\<lparr>kt_exit := Waiting, kt_should_stop := True\<rparr>)"
| kt_join: "kt_exit s = Waiting \<Longrightarrow> kt_pc s = KReturned \<Longrightarrow> kt_step s (s\<lparr>kt_exit := Returned\<rparr>)"
| kt_free: "kt_exit s = Returned \<Longrightarrow> kt_loaded s \<Longrightarrow> kt_step s (s\<lparr>kt_loaded := False\<rparr>)"

inductive_cases kt_stepE: "kt_step s s'"

definition kt_inv :: "kt_state \<Rightarrow> bool" where
  "kt_inv s \<longleftrightarrow> (kt_exit s = Returned \<longrightarrow> kt_pc s = KReturned) \<and> (\<not> kt_loaded s \<longrightarrow> kt_exit s = Returned) \<and>
     (kt_exit s \<noteq> NotCalled \<longrightarrow> kt_should_stop s)"

interpretation kt: joined_worker kt_step kt_start "\<lambda>s. kt_pc s \<noteq> KReturned" "\<lambda>s. \<not> kt_loaded s" kt_inv
  by unfold_locales (auto simp: kt_inv_def kt_start_def elim!: kt_stepE)

text \<open>How many steps are left once the thread was asked to stop.\<close>

definition kt_left :: "kt_state \<Rightarrow> nat" where
  "kt_left s = (case kt_pc s of KCreated \<Rightarrow> 1 | KTest \<Rightarrow> 1 | KBody \<Rightarrow> 2 | KReturned \<Rightarrow> 0) +
     (case kt_exit s of Returned \<Rightarrow> 0 | _ \<Rightarrow> 1) + (if kt_loaded s then 1 else 0)"

lemma kt_left_decreases:
  "kt_inv s \<and> kt_exit s \<noteq> NotCalled \<Longrightarrow> kt_step s s' \<Longrightarrow>
   (kt_inv s' \<and> kt_exit s' \<noteq> NotCalled) \<and> kt_left s' < kt_left s"
  using kt.inv_step [of s s'] by (auto elim!: kt_step.cases simp: kt_left_def kt_inv_def)

lemma kt_stuck:
  assumes "kt_inv s" and "kt_exit s \<noteq> NotCalled" and "\<And>s'. \<not> kt_step s s'"
  shows "kt_pc s = KReturned \<and> kt_exit s = Returned \<and> \<not> kt_loaded s"
proof (cases "kt_pc s")
  case KReturned
  then show ?thesis using assms(2,3) kt_join kt_free by (cases "kt_exit s") blast+
qed (use assms(3) kt_enter kt_test kt_body in blast)+

section \<open>work\_queue.c\<close>

datatype wq_pc = WQueued | WTest | WBody | WReturned

record wq_state =
  wq_pc :: wq_pc
  wq_status :: int
  wq_num :: int
  wq_printed :: "int list"
  wq_exited :: bool
  wq_loaded :: bool

text \<open>After \<^verbatim>\<open>my_init\<close>: the number is set and the work item is queued.\<close>

definition wq_start :: wq_state where
  "wq_start = \<lparr>wq_pc = WQueued, wq_status = 1, wq_num = 90, wq_printed = [], wq_exited = False, wq_loaded = True\<rparr>"

text \<open>\<^verbatim>\<open>my_exit\<close> clears \<^verbatim>\<open>status\<close> and waits for nothing.\<close>

inductive wq_step :: "wq_state \<Rightarrow> wq_state \<Rightarrow> bool" where
  wq_enter: "wq_pc s = WQueued \<Longrightarrow> wq_step s (s\<lparr>wq_pc := WTest\<rparr>)"
| wq_test: "wq_pc s = WTest \<Longrightarrow> wq_step s (s\<lparr>wq_pc := if wq_status s \<noteq> 0 then WBody else WReturned\<rparr>)"
| wq_body: "wq_pc s = WBody \<Longrightarrow> wq_step s (s\<lparr>wq_pc := WTest, wq_printed := wq_printed s @ [wq_num s]\<rparr>)"
| wq_exit: "\<not> wq_exited s \<Longrightarrow> wq_step s (s\<lparr>wq_status := 0, wq_exited := True\<rparr>)"
| wq_free: "wq_exited s \<Longrightarrow> wq_loaded s \<Longrightarrow> wq_step s (s\<lparr>wq_loaded := False\<rparr>)"

inductive_cases wq_stepE: "wq_step s s'"

definition wq_inv :: "wq_state \<Rightarrow> bool" where
  "wq_inv s \<longleftrightarrow> wq_num s = 90 \<and> set (wq_printed s) \<subseteq> {90} \<and> wq_status s = (if wq_exited s then 0 else 1) \<and>
     (\<not> wq_loaded s \<longrightarrow> wq_exited s) \<and> (wq_pc s = WReturned \<longrightarrow> wq_exited s)"

lemma wq_inv_reachable: "wq_step\<^sup>*\<^sup>* wq_start s \<Longrightarrow> wq_inv s"
  by (induction rule: rtranclp_induct) (auto simp: wq_inv_def wq_start_def elim!: wq_stepE)

definition wq_left :: "wq_state \<Rightarrow> nat" where
  "wq_left s = (case wq_pc s of WQueued \<Rightarrow> 2 | WTest \<Rightarrow> 1 | WBody \<Rightarrow> 2 | WReturned \<Rightarrow> 0) + (if wq_loaded s then 1 else 0)"

text \<open>The lines printed and the line the function is about to print.\<close>

definition wq_lines :: "wq_state \<Rightarrow> nat" where
  "wq_lines s = length (wq_printed s) + (if wq_pc s = WBody then 1 else 0)"

lemma wq_left_decreases:
  "wq_inv s \<and> wq_exited s \<and> wq_lines s = n \<Longrightarrow> wq_step s s' \<Longrightarrow>
   (wq_inv s' \<and> wq_exited s' \<and> wq_lines s' = n) \<and> wq_left s' < wq_left s"
  by (erule wq_step.cases) (simp_all add: wq_left_def wq_inv_def wq_lines_def)

section \<open>tasklet.c\<close>

datatype tl_pc = TQueued | TFirst | TSecond | TReturned

record tl_state =
  tl_pc :: tl_pc
  tl_i :: int
  tl_j :: int
  tl_printed :: "int list"
  tl_exited :: bool
  tl_loaded :: bool

text \<open>\<^verbatim>\<open>my_init\<close> sets the data and schedules the tasklet; \<^verbatim>\<open>my_exit\<close> only prints.\<close>

definition tl_start :: tl_state where
  "tl_start = \<lparr>tl_pc = TQueued, tl_i = 100, tl_j = 200, tl_printed = [], tl_exited = False, tl_loaded = True\<rparr>"

inductive tl_step :: "tl_state \<Rightarrow> tl_state \<Rightarrow> bool" where
  tl_enter: "tl_pc s = TQueued \<Longrightarrow> tl_step s (s\<lparr>tl_pc := TFirst\<rparr>)"
| tl_first: "tl_pc s = TFirst \<Longrightarrow> tl_step s (s\<lparr>tl_pc := TSecond, tl_printed := tl_printed s @ [tl_i s]\<rparr>)"
| tl_second: "tl_pc s = TSecond \<Longrightarrow> tl_step s (s\<lparr>tl_pc := TReturned, tl_printed := tl_printed s @ [tl_j s]\<rparr>)"
| tl_exit: "\<not> tl_exited s \<Longrightarrow> tl_step s (s\<lparr>tl_exited := True\<rparr>)"
| tl_free: "tl_exited s \<Longrightarrow> tl_loaded s \<Longrightarrow> tl_step s (s\<lparr>tl_loaded := False\<rparr>)"

inductive_cases tl_stepE: "tl_step s s'"

definition tl_inv :: "tl_state \<Rightarrow> bool" where
  "tl_inv s \<longleftrightarrow> tl_i s = 100 \<and> tl_j s = 200 \<and>
     tl_printed s = (case tl_pc s of TQueued \<Rightarrow> [] | TFirst \<Rightarrow> [] | TSecond \<Rightarrow> [100] | TReturned \<Rightarrow> [100, 200])"

lemma tl_inv_reachable: "tl_step\<^sup>*\<^sup>* tl_start s \<Longrightarrow> tl_inv s"
  by (induction rule: rtranclp_induct) (auto simp: tl_inv_def tl_start_def elim!: tl_stepE)

section \<open>What the labs guarantee\<close>

text \<open>
  The kernel thread can be unloaded safely: in no reachable state is the module's code gone
  while the thread is in it. And unloading ends: after \<^verbatim>\<open>kthread_stop\<close> was called at most
  four more steps are possible, and when none is possible any more the thread has returned,
  so has the exit function, and the module is gone.
\<close>

lemma kthread_unload_safe:
  assumes "kt_step\<^sup>*\<^sup>* kt_start s"
  shows "(\<not> kt_loaded s \<longrightarrow> kt_pc s = KReturned) \<and>
     (kt_exit s \<noteq> NotCalled \<longrightarrow> (\<forall>n s'. (kt_step ^^ n) s s' \<longrightarrow> n \<le> 4)) \<and>
     (kt_exit s \<noteq> NotCalled \<longrightarrow> (\<forall>s'. \<not> kt_step s s') \<longrightarrow>
        kt_pc s = KReturned \<and> kt_exit s = Returned \<and> \<not> kt_loaded s)"
proof (intro conjI impI allI)
  show "kt_pc s = KReturned" if "\<not> kt_loaded s" using kt.gone_not_inside [OF assms] that by blast
next
  fix n s' assume "kt_exit s \<noteq> NotCalled" "(kt_step ^^ n) s s'"
  then have "n + kt_left s' \<le> kt_left s"
    using relpowp_measure [of _ kt_step kt_left, OF kt_left_decreases] kt.inv_reachable [OF assms] by blast
  moreover have "kt_left s \<le> 4" by (auto simp: kt_left_def split: kt_pc.splits exit_pc.splits)
  ultimately show "n \<le> 4" by simp
qed (use kt_stuck [OF kt.inv_reachable [OF assms]] in blast)+

text \<open>The thread is in its loop when the module is unloaded.\<close>

lemma kt_demo: "kt_step\<^sup>*\<^sup>* kt_start \<lparr>kt_pc = KTest, kt_should_stop = True, kt_exit = Waiting, kt_loaded = True\<rparr>"
proof -
  have "kt_step kt_start \<lparr>kt_pc = KTest, kt_should_stop = False, kt_exit = NotCalled, kt_loaded = True\<rparr>"
    using kt_enter [of kt_start] by (simp add: kt_start_def)
  moreover have "kt_step \<lparr>kt_pc = KTest, kt_should_stop = False, kt_exit = NotCalled, kt_loaded = True\<rparr>
      \<lparr>kt_pc = KTest, kt_should_stop = True, kt_exit = Waiting, kt_loaded = True\<rparr>"
    using kt_stop [of "\<lparr>kt_pc = KTest, kt_should_stop = False, kt_exit = NotCalled, kt_loaded = True\<rparr>"] by simp
  ultimately show ?thesis by (meson converse_rtranclp_into_rtranclp r_into_rtranclp)
qed

lemma kthread_unload_safe_witness:
  "\<exists>s. kt_step\<^sup>*\<^sup>* kt_start s \<and> kt_pc s = KTest \<and> (\<forall>n s'. (kt_step ^^ n) s s' \<longrightarrow> n \<le> 4)"
  using kt_demo kthread_unload_safe [OF kt_demo] by fastforce

text \<open>
  The work item stops after the exit function has cleared \<^verbatim>\<open>status\<close>: at most three more steps
  are possible, at most one more line is printed, and when no step is possible any more the
  function has returned. Every line it ever prints is the number 90.
\<close>

lemma work_queue_stops:
  assumes "wq_step\<^sup>*\<^sup>* wq_start s"
  shows "set (wq_printed s) \<subseteq> {90} \<and>
     (wq_exited s \<longrightarrow> (\<forall>n s'. (wq_step ^^ n) s s' \<longrightarrow>
        n \<le> 3 \<and> length (wq_printed s') \<le> length (wq_printed s) + 1)) \<and>
     ((\<forall>s'. \<not> wq_step s s') \<longrightarrow> wq_pc s = WReturned)"
proof (intro conjI impI allI)
  have inv: "wq_inv s" using assms by (rule wq_inv_reachable)
  then show "set (wq_printed s) \<subseteq> {90}" by (simp add: wq_inv_def)
  fix n s' assume e: "wq_exited s" and st: "(wq_step ^^ n) s s'"
  have P: "wq_inv s \<and> wq_exited s \<and> wq_lines s = wq_lines s" using inv e by simp
  have "n + wq_left s' \<le> wq_left s"
    using relpowp_measure [of "\<lambda>t. wq_inv t \<and> wq_exited t \<and> wq_lines t = wq_lines s" wq_step wq_left n s s']
      wq_left_decreases st P by blast
  moreover have "wq_left s \<le> 3" by (auto simp: wq_left_def split: wq_pc.splits)
  ultimately show "n \<le> 3" by simp
  have "wq_inv s' \<and> wq_exited s' \<and> wq_lines s' = wq_lines s" using st
  proof (induction n arbitrary: s')
    case (Suc n)
    then obtain t where "(wq_step ^^ n) s t" "wq_step t s'" by auto
    with Suc.IH [of t] show ?case using wq_left_decreases by blast
  qed (use P in simp)
  then show "length (wq_printed s') \<le> length (wq_printed s) + 1"
    by (auto simp: wq_lines_def split: if_splits)
next
  assume "\<forall>s'. \<not> wq_step s s'"
  then show "wq_pc s = WReturned" using wq_enter wq_test wq_body by (cases "wq_pc s") blast+
qed

text \<open>
  Until then the module's code may be gone: the work item can be queued or inside its function
  when the memory is freed.
\<close>

lemma work_queue_runs_freed:
  "\<exists>s. wq_step\<^sup>*\<^sup>* wq_start s \<and> \<not> wq_loaded s \<and> wq_pc s = WTest"
proof -
  let ?a = "wq_start\<lparr>wq_pc := WTest\<rparr>"
  let ?b = "?a\<lparr>wq_status := 0, wq_exited := True\<rparr>"
  have "wq_step\<^sup>*\<^sup>* wq_start ?a" by (rule r_into_rtranclp, rule wq_enter) (simp add: wq_start_def)
  then have "wq_step\<^sup>*\<^sup>* wq_start ?b" by (rule rtranclp.rtrancl_into_rtrancl, intro wq_exit) (simp add: wq_start_def)
  then have "wq_step\<^sup>*\<^sup>* wq_start (?b\<lparr>wq_loaded := False\<rparr>)"
    by (rule rtranclp.rtrancl_into_rtrancl, intro wq_free) (simp_all add: wq_start_def)
  then show ?thesis by (rule exI [of _ "?b\<lparr>wq_loaded := False\<rparr>", OF conjI]) simp
qed

lemma work_queue_stops_witness:
  "\<exists>s. wq_step\<^sup>*\<^sup>* wq_start s \<and> wq_exited s \<and> wq_pc s = WQueued \<and> (\<forall>n s'. (wq_step ^^ n) s s' \<longrightarrow> n \<le> 3)"
proof -
  let ?s = "wq_start\<lparr>wq_status := 0, wq_exited := True\<rparr>"
  have r: "wq_step\<^sup>*\<^sup>* wq_start ?s" by (rule r_into_rtranclp, rule wq_exit) (simp add: wq_start_def)
  have "wq_exited ?s" "wq_pc ?s = WQueued" by (simp_all add: wq_start_def)
  then show ?thesis using r work_queue_stops [OF r] by blast
qed

text \<open>The tasklet prints 100 and then 200, the values set before it was scheduled.\<close>

lemma tasklet_prints:
  assumes "tl_step\<^sup>*\<^sup>* tl_start s"
  shows "tl_pc s = TReturned \<Longrightarrow> tl_printed s = [100, 200]" and "\<exists>rest. tl_printed s @ rest = [100, 200]"
  using tl_inv_reachable [OF assms] by (auto simp: tl_inv_def split: tl_pc.splits)

text \<open>It is not killed on unloading, and may be scheduled when the code is gone.\<close>

lemma tasklet_runs_freed:
  "\<exists>s. tl_step\<^sup>*\<^sup>* tl_start s \<and> \<not> tl_loaded s \<and> tl_pc s = TQueued"
proof -
  let ?a = "tl_start\<lparr>tl_exited := True\<rparr>"
  have "tl_step\<^sup>*\<^sup>* tl_start ?a" by (rule r_into_rtranclp, rule tl_exit) (simp add: tl_start_def)
  then have "tl_step\<^sup>*\<^sup>* tl_start (?a\<lparr>tl_loaded := False\<rparr>)"
    by (rule rtranclp.rtrancl_into_rtrancl, intro tl_free) (simp_all add: tl_start_def)
  then show ?thesis by (rule exI [of _ "?a\<lparr>tl_loaded := False\<rparr>", OF conjI]) (simp add: tl_start_def)
qed

end
