(* ===== verification/Timer_Labs.thy ===== *)
theory Timer_Labs
  imports Sched_Lab
begin

text \<open>
  The timers of \<^verbatim>\<open>timer-labs/\<close> in time: \<^verbatim>\<open>timer.c\<close>, whose exit function deletes a timer that was
  never armed, and \<^verbatim>\<open>hrtimer.c\<close>, whose exit function cancels the right one and waits for a
  running callback. Each module is a step relation over the clock (jiffies for the first,
  nanoseconds for the second), the armed timer, the callback and the exit function; the
  kernel frees the module's code some time after the exit function has returned. What the
  modules acquire and release is in \<open>Small_Modules\<close>.
\<close>

section \<open>A module with one timer\<close>

datatype cb_pc = CIdle | CEntered | CReturned

record timer_state =
  tm_now :: nat
  tm_expires :: "nat option"      \<comment> \<open>armed, and for when\<close>
  tm_cb :: cb_pc
  tm_exit :: exit_pc
  tm_loaded :: bool
  tm_log :: "(nat \<times> string) list"     \<comment> \<open>what was printed, and at what time\<close>

definition say :: "string \<Rightarrow> timer_state \<Rightarrow> timer_state" where
  "say t s = s\<lparr>tm_log := tm_log s @ [(tm_now s, t)]\<rparr>"

text \<open>
  What both modules share: time passes, an armed timer fires once its time has come, and
  \<open>body\<close> is what the callback prints before it returns.
\<close>

inductive clock_step :: "string \<Rightarrow> timer_state \<Rightarrow> timer_state \<Rightarrow> bool" for body where
  tick: "clock_step body s (s\<lparr>tm_now := tm_now s + 1\<rparr>)"
| fire: "tm_expires s = Some e \<Longrightarrow> e \<le> tm_now s \<Longrightarrow>
    clock_step body s (s\<lparr>tm_expires := None, tm_cb := CEntered\<rparr>)"
| callback: "tm_cb s = CEntered \<Longrightarrow> clock_step body s ((say body s)\<lparr>tm_cb := CReturned\<rparr>)"
| unload: "tm_exit s = Returned \<Longrightarrow> tm_loaded s \<Longrightarrow> clock_step body s (s\<lparr>tm_loaded := False\<rparr>)"

inductive_cases clock_stepE: "clock_step body s s'"

section \<open>timer.c\<close>

text \<open>\<open>HZ\<close> is the kernel's; \<^verbatim>\<open>my_data.num\<close> is 89.\<close>

definition my_data_num :: nat where
  "my_data_num = 89"

definition thr_fun_text :: string where
  "thr_fun_text = ''starting timer '' @ dec_string my_data_num @ '' ''"

definition timer_my_init :: "nat \<Rightarrow> nat \<Rightarrow> timer_state" where
  "timer_my_init HZ jiffies =
     say ''add timer'' \<lparr>tm_now = jiffies, tm_expires = Some (jiffies + 4 * HZ), tm_cb = CIdle,
       tm_exit = NotCalled, tm_loaded = True, tm_log = []\<rparr>"

text \<open>\<^verbatim>\<open>del_timer(&my_timer)\<close> touches a timer that is not armed: nothing changes, and it does not wait.\<close>

definition timer_my_exit :: "timer_state \<Rightarrow> timer_state" where
  "timer_my_exit s = (say ''del timer'' s)\<lparr>tm_exit := Returned\<rparr>"

inductive tm_step :: "timer_state \<Rightarrow> timer_state \<Rightarrow> bool" where
  tm_clock: "clock_step thr_fun_text s s' \<Longrightarrow> tm_step s s'"
| tm_rmmod: "tm_exit s = NotCalled \<Longrightarrow> tm_step s (timer_my_exit s)"

section \<open>hrtimer.c\<close>

text \<open>\<^verbatim>\<open>MS_TO_NS(x)\<close> is \<^verbatim>\<open>x*1E6L\<close>, a floating-point expression that is exact for small numbers.\<close>

definition MS_TO_NS :: "nat \<Rightarrow> nat" where
  "MS_TO_NS x = x * 10 ^ 6"

definition hrtimer_my_init :: "nat \<Rightarrow> timer_state" where
  "hrtimer_my_init now =
     (let delay_in_ms = 200 in
      say (''Starting timer to fire in '' @ dec_string delay_in_ms @ ''ms'')
        (say ''HR Timer module installing''
          \<lparr>tm_now = now, tm_expires = Some (now + MS_TO_NS delay_in_ms), tm_cb = CIdle,
           tm_exit = NotCalled, tm_loaded = True, tm_log = []\<rparr>))"

definition hr_callback_text :: string where
  "hr_callback_text = ''my_hrtimer_callback called''"

definition hr_in_use :: string where
  "hr_in_use = ''The timer was still in use...''"

text \<open>
  \<^verbatim>\<open>hrtimer_cancel\<close> returns 1 when it took an armed timer out, and 0 when the timer was not
  active; while the callback runs it waits. The callback returns \<^verbatim>\<open>HRTIMER_NORESTART\<close>, so the
  timer is not armed again.
\<close>

definition hrtimer_my_exit :: "timer_state \<Rightarrow> timer_state" where
  "hrtimer_my_exit s =
     (let ret = (case tm_expires s of Some _ \<Rightarrow> 1 | None \<Rightarrow> (0 :: int));
          s = s\<lparr>tm_expires := None\<rparr>;
          s = (if ret \<noteq> 0 then say hr_in_use s else s) in
      (say ''HR Timer module uninstalling'' s)\<lparr>tm_exit := Returned\<rparr>)"

inductive hr_step :: "timer_state \<Rightarrow> timer_state \<Rightarrow> bool" where
  hr_clock: "clock_step hr_callback_text s s' \<Longrightarrow> hr_step s s'"
| hr_rmmod: "tm_exit s = NotCalled \<Longrightarrow> hr_step s (s\<lparr>tm_exit := Waiting\<rparr>)"
| hr_cancel: "tm_exit s = Waiting \<Longrightarrow> tm_cb s \<noteq> CEntered \<Longrightarrow> hr_step s (hrtimer_my_exit s)"

section \<open>Unloading hrtimer.c\<close>

lemmas say_simps [simp] = say_def

text \<open>The lines with a given text.\<close>

abbreviation "lines t s \<equiv> filter (\<lambda>l. snd l = t) (tm_log s)"

definition hr_inv :: "nat \<Rightarrow> timer_state \<Rightarrow> bool" where
  "hr_inv now s \<longleftrightarrow> now \<le> tm_now s \<and>
     (case tm_expires s of
        Some e \<Rightarrow> e = now + MS_TO_NS 200 \<and> tm_cb s = CIdle \<and> tm_exit s \<noteq> Returned \<and>
                  lines hr_callback_text s = [] \<and> lines hr_in_use s = []
      | None \<Rightarrow> (case tm_cb s of
            CIdle \<Rightarrow> tm_exit s = Returned \<and> lines hr_callback_text s = [] \<and> length (lines hr_in_use s) = 1
          | CEntered \<Rightarrow> tm_exit s \<noteq> Returned \<and> now + MS_TO_NS 200 \<le> tm_now s \<and>
                        lines hr_callback_text s = [] \<and> lines hr_in_use s = []
          | CReturned \<Rightarrow> (\<exists>t. lines hr_callback_text s = [(t, hr_callback_text)] \<and> now + MS_TO_NS 200 \<le> t) \<and>
                         lines hr_in_use s = [])) \<and>
     (\<not> tm_loaded s \<longrightarrow> tm_exit s = Returned)"

lemma hr_texts [simp]:
  "hr_callback_text \<noteq> hr_in_use" "hr_in_use \<noteq> hr_callback_text"
  "''HR Timer module uninstalling'' \<noteq> hr_callback_text" "''HR Timer module uninstalling'' \<noteq> hr_in_use"
  by (simp_all add: hr_callback_text_def hr_in_use_def)

lemma hr_inv_init: "hr_inv now (hrtimer_my_init now)"
  by (simp add: hr_inv_def hrtimer_my_init_def Let_def hr_callback_text_def hr_in_use_def)

lemma hr_inv_clock: "clock_step hr_callback_text s s' \<Longrightarrow> hr_inv now s \<Longrightarrow> hr_inv now s'"
proof (induction rule: clock_step.induct)
  case (callback s)
  then show ?case by (cases "tm_expires s") (auto simp: hr_inv_def)
next
  case (tick s)
  then show ?case by (cases "tm_expires s"; cases "tm_cb s") (auto simp: hr_inv_def)
next
  case (unload s)
  then show ?case by (cases "tm_expires s"; cases "tm_cb s") (auto simp: hr_inv_def)
qed (auto simp: hr_inv_def)

lemma hr_inv_step: "hr_step s s' \<Longrightarrow> hr_inv now s \<Longrightarrow> hr_inv now s'"
proof (induction rule: hr_step.induct)
  case (hr_rmmod s)
  then show ?case by (cases "tm_expires s"; cases "tm_cb s") (auto simp: hr_inv_def)
next
  case (hr_cancel s)
  then show ?case
    by (cases "tm_expires s"; cases "tm_cb s") (auto simp: hr_inv_def hrtimer_my_exit_def Let_def)
qed (rule hr_inv_clock)

lemma hr_inv_joined: "hr_inv now s \<Longrightarrow> \<not> tm_loaded s \<Longrightarrow> tm_cb s \<noteq> CEntered"
  by (cases "tm_expires s") (auto simp: hr_inv_def)

interpretation hr: joined_worker hr_step "hrtimer_my_init now" "\<lambda>s. tm_cb s = CEntered" "\<lambda>s. \<not> tm_loaded s"
  "hr_inv now" for now
  by unfold_locales (blast intro: hr_inv_init hr_inv_step dest: hr_inv_joined)+

text \<open>
  C32. \<^verbatim>\<open>hrtimer.c\<close> can be unloaded at any time: in every reachable state in which its code is gone
  the callback is not inside it. The callback prints at most one line, and not before 200
  milliseconds have passed since the module was loaded; and once the exit function has
  returned, it has said that the timer was still in use exactly when the callback never ran,
  and the timer is not armed any more.
\<close>

theorem hrtimer_unload_safe:
  assumes "hr_step\<^sup>*\<^sup>* (hrtimer_my_init now) s"
  shows "(\<not> tm_loaded s \<longrightarrow> tm_cb s \<noteq> CEntered) \<and> length (lines hr_callback_text s) \<le> 1 \<and>
    (\<forall>(t, l) \<in> set (tm_log s). l = hr_callback_text \<longrightarrow> now + 200000000 \<le> t) \<and>
    (tm_exit s = Returned \<longrightarrow> tm_expires s = None \<and>
       length (lines hr_in_use s) = (if lines hr_callback_text s = [] then 1 else 0))"
proof (intro conjI)
  have inv: "hr_inv now s" by (rule hr.inv_reachable [OF assms])
  show "\<not> tm_loaded s \<longrightarrow> tm_cb s \<noteq> CEntered" using hr.gone_not_inside [OF assms] by blast
  show "length (lines hr_callback_text s) \<le> 1"
    using inv by (cases "tm_expires s"; cases "tm_cb s") (auto simp: hr_inv_def)
  have "now + 200000000 \<le> t" if "(t, hr_callback_text) \<in> set (lines hr_callback_text s)" for t
    using inv that by (cases "tm_expires s"; cases "tm_cb s") (auto simp: hr_inv_def MS_TO_NS_def simp del: set_filter)
  then show "\<forall>(t, l) \<in> set (tm_log s). l = hr_callback_text \<longrightarrow> now + 200000000 \<le> t" by auto
  show "tm_exit s = Returned \<longrightarrow> tm_expires s = None \<and>
       length (lines hr_in_use s) = (if lines hr_callback_text s = [] then 1 else 0)"
    using inv by (cases "tm_expires s"; cases "tm_cb s") (auto simp: hr_inv_def)
qed

lemma hr_demo_run:
  "hr_step\<^sup>*\<^sup>* (hrtimer_my_init 5) (hrtimer_my_exit ((hrtimer_my_init 5)\<lparr>tm_exit := Waiting\<rparr>))"
proof -
  have "hr_step (hrtimer_my_init 5) ((hrtimer_my_init 5)\<lparr>tm_exit := Waiting\<rparr>)"
    by (rule hr_rmmod) (simp add: hrtimer_my_init_def)
  moreover have "hr_step \<dots> (hrtimer_my_exit ((hrtimer_my_init 5)\<lparr>tm_exit := Waiting\<rparr>))"
    by (rule hr_cancel) (simp_all add: hrtimer_my_init_def)
  ultimately show ?thesis by (meson r_into_rtranclp rtranclp.rtrancl_into_rtrancl)
qed

theorem hrtimer_unload_safe_witness:
  "length (lines hr_in_use (hrtimer_my_exit ((hrtimer_my_init 5)\<lparr>tm_exit := Waiting\<rparr>))) = 1 \<and>
   tm_expires (hrtimer_my_exit ((hrtimer_my_init 5)\<lparr>tm_exit := Waiting\<rparr>)) = None"
  using hrtimer_unload_safe [OF hr_demo_run]
  by (simp add: hrtimer_my_exit_def hrtimer_my_init_def Let_def hr_callback_text_def split: if_splits)

section \<open>Unloading timer.c\<close>

lemma tm_ticks: "tm_step\<^sup>*\<^sup>* s (s\<lparr>tm_now := tm_now s + n\<rparr>)"
proof (induction n)
  case (Suc n)
  have "tm_step (s\<lparr>tm_now := tm_now s + n\<rparr>) (s\<lparr>tm_now := tm_now s + Suc n\<rparr>)"
    using tm_clock [OF tick [of thr_fun_text "s\<lparr>tm_now := tm_now s + n\<rparr>"]] by simp
  with Suc show ?case by (rule rtranclp.rtrancl_into_rtrancl)
qed simp

text \<open>
  \<^verbatim>\<open>timer.c\<close> cannot be unloaded safely in the four seconds after it was loaded: whenever the
  exit function is called before the timer expires, the code can be freed and the timer,
  which is still armed, then calls the callback in the freed code.
\<close>

lemma timer_fires_after_unload:
  assumes "t < 4 * HZ"
  shows "\<exists>u v w. tm_step\<^sup>*\<^sup>* (timer_my_init HZ j) u \<and> tm_now u = j + t \<and> tm_exit u = NotCalled \<and>
     tm_step u (timer_my_exit u) \<and> tm_step (timer_my_exit u) v \<and> \<not> tm_loaded v \<and>
     tm_step\<^sup>*\<^sup>* v w \<and> \<not> tm_loaded w \<and> tm_cb w = CEntered \<and> tm_now w = j + 4 * HZ"
proof (intro exI conjI)
  let ?u = "(timer_my_init HZ j)\<lparr>tm_now := j + t\<rparr>"
  let ?v = "(timer_my_exit ?u)\<lparr>tm_loaded := False\<rparr>"
  let ?x = "?v\<lparr>tm_now := j + 4 * HZ\<rparr>"
  let ?w = "?x\<lparr>tm_expires := None, tm_cb := CEntered\<rparr>"
  show "tm_step\<^sup>*\<^sup>* (timer_my_init HZ j) ?u"
    using tm_ticks [of "timer_my_init HZ j" t] by (simp add: timer_my_init_def)
  show "tm_step ?u (timer_my_exit ?u)" by (rule tm_rmmod) (simp add: timer_my_init_def)
  show "tm_step (timer_my_exit ?u) ?v"
    by (rule tm_clock [OF unload]) (simp_all add: timer_my_exit_def timer_my_init_def)
  have "tm_step\<^sup>*\<^sup>* ?v ?x"
    using tm_ticks [of ?v "4 * HZ - t"] assms by (simp add: timer_my_exit_def timer_my_init_def)
  moreover have "tm_step ?x ?w"
    by (rule tm_clock [OF fire [where e = "j + 4 * HZ"]]) (simp_all add: timer_my_exit_def timer_my_init_def)
  ultimately show "tm_step\<^sup>*\<^sup>* ?v ?w" by (rule rtranclp.rtrancl_into_rtrancl)
qed (simp_all add: timer_my_init_def timer_my_exit_def)

lemma timer_fires_after_unload_witness:
  "\<exists>u v w. tm_step\<^sup>*\<^sup>* (timer_my_init 250 1000) u \<and> tm_now u = 1010 \<and> tm_step (timer_my_exit u) v \<and>
     \<not> tm_loaded v \<and> tm_step\<^sup>*\<^sup>* v w \<and> \<not> tm_loaded w \<and> tm_cb w = CEntered \<and> tm_now w = 2000"
  using timer_fires_after_unload [of 10 250 1000] by auto

end
