(* ===== verification/Deadline_Test.thy ===== *)
theory Deadline_Test
  imports Sched_Lab C_Layout
begin

text \<open>
  \<^verbatim>\<open>sched-dl/patch-dl/test-dl.c\<close>: a program whose second thread asks for the deadline scheduling
  class and then counts until the main thread, ten seconds later, tells it to stop. The
  attributes it asks for are a record with the fields of \<^verbatim>\<open>struct sched_attr\<close>; the system call's
  answer to them is a parameter. The two threads are a step relation; they share \<^verbatim>\<open>done\<close>.
\<close>

section \<open>The attributes\<close>

record sched_attr =
  sa_size :: u32
  sa_policy :: u32
  sa_flags :: u64
  sa_nice :: u32
  sa_priority :: u32
  sa_runtime :: u64
  sa_deadline :: u64
  sa_period :: u64

definition SCHED_DEADLINE :: u32 where
  "SCHED_DEADLINE = 6"

text \<open>The fields in order, each as its bytes, low byte first; none needs padding.\<close>

definition sched_attr_bytes :: "sched_attr \<Rightarrow> bytes" where
  "sched_attr_bytes a = le32 (sa_size a) @ le32 (sa_policy a) @ le64 (sa_flags a) @ le32 (sa_nice a) @
     le32 (sa_priority a) @ le64 (sa_runtime a) @ le64 (sa_deadline a) @ le64 (sa_period a)"

definition run_deadline_attr :: sched_attr where
  "run_deadline_attr = \<lparr>sa_size = 48, sa_policy = SCHED_DEADLINE, sa_flags = 0, sa_nice = 0, sa_priority = 0,
     sa_runtime = 10 * 1000 * 1000, sa_deadline = 30 * 1000 * 1000, sa_period = 30 * 1000 * 1000\<rparr>"

text \<open>
  \<^verbatim>\<open>attr\<close> is a local variable that nothing clears: its 48 bytes start with whatever the stack
  held. The assignments of \<^verbatim>\<open>run_deadline\<close> in the order of the code;
  \<^verbatim>\<open>attr.sched_period = attr.sched_deadline = x\<close> assigns the deadline first.
\<close>

definition run_deadline_stores :: "(designator list \<times> u64) list" where
  "run_deadline_stores =
     [([Fld ''size''], of_nat (csize sched_attr_t)), ([Fld ''sched_flags''], 0), ([Fld ''sched_nice''], 0),
      ([Fld ''sched_priority''], 0), ([Fld ''sched_policy''], ucast SCHED_DEADLINE),
      ([Fld ''sched_runtime''], 10 * 1000 * 1000),
      ([Fld ''sched_deadline''], 30 * 1000 * 1000), ([Fld ''sched_period''], 30 * 1000 * 1000)]"

text \<open>What \<^verbatim>\<open>sched_setattr(2)\<close> asks of a deadline task's parameters.\<close>

definition dl_params_ok :: "sched_attr \<Rightarrow> bool" where
  "dl_params_ok a \<longleftrightarrow> sa_policy a = SCHED_DEADLINE \<and> 1024 \<le> sa_runtime a \<and> sa_runtime a \<le> sa_deadline a \<and>
     sa_deadline a \<le> sa_period a \<and> sa_period a < 2 ^ 63"

section \<open>The two threads\<close>

datatype dl_main_pc = MSleep | MSetDone | MJoin | MReturned

datatype dl_thr_pc = DSetattr | DTest | DInc | DReturned

record dl_state =
  dl_done :: int
  dl_x :: u32
  dl_main :: dl_main_pc
  dl_thr :: dl_thr_pc
  dl_exit :: "int option"     \<comment> \<open>the status of the process, once it has ended\<close>
  dl_undefined :: bool        \<comment> \<open>a signed overflow has happened\<close>

text \<open>After \<^verbatim>\<open>pthread_create\<close>.\<close>

definition dl_start :: dl_state where
  "dl_start = \<lparr>dl_done = 0, dl_x = 0, dl_main = MSleep, dl_thr = DSetattr, dl_exit = None, dl_undefined = False\<rparr>"

text \<open>
  \<open>setattr\<close> is the system call's answer. \<^verbatim>\<open>exit(-1)\<close> ends the process with status 255.
\<close>

inductive dl_step :: "(sched_attr \<Rightarrow> int) \<Rightarrow> dl_state \<Rightarrow> dl_state \<Rightarrow> bool" for setattr where
  dl_refused: "dl_exit s = None \<Longrightarrow> dl_thr s = DSetattr \<Longrightarrow> setattr run_deadline_attr < 0 \<Longrightarrow>
     dl_step setattr s (s\<lparr>dl_done := 0, dl_exit := Some 255\<rparr>)"
| dl_granted: "dl_exit s = None \<Longrightarrow> dl_thr s = DSetattr \<Longrightarrow> 0 \<le> setattr run_deadline_attr \<Longrightarrow>
     dl_step setattr s (s\<lparr>dl_thr := DTest\<rparr>)"
| dl_test: "dl_exit s = None \<Longrightarrow> dl_thr s = DTest \<Longrightarrow>
     dl_step setattr s (s\<lparr>dl_thr := if dl_done s = 0 then DInc else DReturned\<rparr>)"
| dl_inc: "dl_exit s = None \<Longrightarrow> dl_thr s = DInc \<Longrightarrow>
     dl_step setattr s (s\<lparr>dl_thr := DTest, dl_x := dl_x s + 1,
       dl_undefined := dl_undefined s \<or> dl_x s = 0x7fffffff\<rparr>)"
| dl_sleep: "dl_exit s = None \<Longrightarrow> dl_main s = MSleep \<Longrightarrow> dl_step setattr s (s\<lparr>dl_main := MSetDone\<rparr>)"
| dl_set: "dl_exit s = None \<Longrightarrow> dl_main s = MSetDone \<Longrightarrow> dl_step setattr s (s\<lparr>dl_main := MJoin, dl_done := 1\<rparr>)"
| dl_join: "dl_exit s = None \<Longrightarrow> dl_main s = MJoin \<Longrightarrow> dl_thr s = DReturned \<Longrightarrow>
     dl_step setattr s (s\<lparr>dl_main := MReturned, dl_exit := Some 0\<rparr>)"

inductive_cases dl_stepE: "dl_step setattr s s'"

definition dl_inv :: "(sched_attr \<Rightarrow> int) \<Rightarrow> dl_state \<Rightarrow> bool" where
  "dl_inv setattr s \<longleftrightarrow>
     (case dl_exit s of
        None \<Rightarrow> dl_done s = (if dl_main s = MJoin then 1 else 0) \<and> dl_main s \<noteq> MReturned
      | Some r \<Rightarrow> if setattr run_deadline_attr < 0 then r = 255 \<and> dl_main s \<noteq> MReturned
                  else r = 0 \<and> dl_main s = MReturned) \<and>
     (dl_main s = MReturned \<longrightarrow> dl_thr s = DReturned) \<and>
     (dl_thr s \<noteq> DSetattr \<longrightarrow> 0 \<le> setattr run_deadline_attr)"

text \<open>
  The main thread returns only after the other one has: \<^verbatim>\<open>pthread_join\<close> makes the program an
  instance of the contract of \<^verbatim>\<open>kthread_stop\<close>.
\<close>

interpretation dl: joined_worker "dl_step setattr" dl_start "\<lambda>s. dl_thr s \<noteq> DReturned"
  "\<lambda>s. dl_main s = MReturned" "dl_inv setattr"
proof
  show "dl_inv setattr dl_start" by (simp add: dl_inv_def dl_start_def)
  show "dl_inv setattr s'" if "dl_inv setattr s" "dl_step setattr s s'" for s s'
    using that(2,1) by (cases rule: dl_step.cases) (simp_all add: dl_inv_def)
  show "\<not> dl_thr s \<noteq> DReturned" if "dl_inv setattr s" "dl_main s = MReturned" for s
    using that by (simp add: dl_inv_def)
qed

definition dl_left :: "dl_state \<Rightarrow> nat" where
  "dl_left s = (if dl_exit s = None then 1 else 0) +
     (case dl_thr s of DSetattr \<Rightarrow> 2 | DTest \<Rightarrow> 1 | DInc \<Rightarrow> 2 | DReturned \<Rightarrow> 0)"

lemma dl_left_decreases:
  "dl_inv setattr s \<and> (dl_main s = MJoin \<or> dl_exit s \<noteq> None) \<Longrightarrow> dl_step setattr s s' \<Longrightarrow>
   (dl_inv setattr s' \<and> (dl_main s' = MJoin \<or> dl_exit s' \<noteq> None)) \<and> dl_left s' < dl_left s"
  by (erule dl_step.cases) (auto simp: dl_left_def dl_inv_def)

section \<open>What the program guarantees\<close>

text \<open>The system call is given a structure of the size it names, with parameters it accepts.\<close>

lemma run_deadline_attr_ok:
  "length (sched_attr_bytes a) = 48" "unat (sa_size run_deadline_attr) = 48" "dl_params_ok run_deadline_attr"
  by (simp_all add: sched_attr_bytes_def run_deadline_attr_def dl_params_ok_def)

lemma dl_progress:
  assumes "dl_inv setattr s" and "dl_exit s = None"
  shows "\<exists>s'. dl_step setattr s s'"
proof (cases "dl_thr s")
  case DSetattr
  then show ?thesis using assms(2) dl_refused [of s setattr] dl_granted [of s setattr] by (metis not_less)
next
  case DTest
  then show ?thesis using assms(2) dl_test by blast
next
  case DInc
  then show ?thesis using assms(2) dl_inc by blast
next
  case DReturned
  then show ?thesis
    using assms dl_sleep [of s setattr] dl_set [of s setattr] dl_join [of s setattr]
    by (cases "dl_main s") (auto simp: dl_inv_def)
qed

text \<open>
  C28. The program ends, and only after its thread: in every interleaving, the process has status
  0 exactly when both threads have returned, and status 255 only when the kernel refused the
  attributes. Once the main thread has set \<^verbatim>\<open>done\<close> at most three more steps are possible,
  and while the process has not ended there always is a step.
\<close>

theorem deadline_program_ends:
  assumes "(dl_step setattr)\<^sup>*\<^sup>* dl_start s"
  shows "(dl_exit s = Some 0 \<longleftrightarrow> dl_main s = MReturned) \<and> (dl_main s = MReturned \<longrightarrow> dl_thr s = DReturned) \<and>
     (dl_exit s \<in> {None, Some 0, Some 255}) \<and> (dl_exit s = Some 255 \<longrightarrow> setattr run_deadline_attr < 0) \<and>
     (dl_main s = MJoin \<longrightarrow> (\<forall>n s'. (dl_step setattr ^^ n) s s' \<longrightarrow> n \<le> 3)) \<and>
     (dl_exit s = None \<longrightarrow> (\<exists>s'. dl_step setattr s s'))"
proof -
  have inv: "dl_inv setattr s" using assms by (rule dl.inv_reachable)
  have "n \<le> 3" if "dl_main s = MJoin" "(dl_step setattr ^^ n) s s'" for n s'
  proof -
    have "n + dl_left s' \<le> dl_left s"
      using inv that(1)
      by (intro relpowp_measure [where P = "\<lambda>t. dl_inv setattr t \<and> (dl_main t = MJoin \<or> dl_exit t \<noteq> None)",
            OF dl_left_decreases that(2)]) simp_all
    moreover have "dl_left s \<le> 3" by (auto simp: dl_left_def split: dl_thr_pc.splits)
    ultimately show ?thesis by simp
  qed
  moreover have "dl_main s = MReturned \<longrightarrow> dl_thr s = DReturned" using dl.gone_not_inside [OF assms] by blast
  moreover have "dl_exit s = None \<longrightarrow> (\<exists>s'. dl_step setattr s s')" using dl_progress [OF inv] by blast
  ultimately show ?thesis using inv by (auto simp: dl_inv_def split: option.splits if_splits)
qed

text \<open>The kernel grants the attributes; the main thread is done sleeping before the other one starts.\<close>

lemma dl_demo:
  "(dl_step (\<lambda>a. 0))\<^sup>*\<^sup>* dl_start (dl_start\<lparr>dl_thr := DTest, dl_main := MJoin, dl_done := 1\<rparr>)"
proof -
  have "(dl_step (\<lambda>a. 0))\<^sup>*\<^sup>* dl_start (dl_start\<lparr>dl_thr := DTest\<rparr>)"
    by (rule r_into_rtranclp, rule dl_granted) (simp_all add: dl_start_def)
  then have "(dl_step (\<lambda>a. 0))\<^sup>*\<^sup>* dl_start (dl_start\<lparr>dl_thr := DTest, dl_main := MSetDone\<rparr>)"
    by (rule rtranclp.rtrancl_into_rtrancl, intro dl_sleep) (simp_all add: dl_start_def)
  then have "(dl_step (\<lambda>a. 0))\<^sup>*\<^sup>* dl_start (dl_start\<lparr>dl_thr := DTest, dl_main := MSetDone\<rparr>\<lparr>dl_main := MJoin, dl_done := 1\<rparr>)"
    by (rule rtranclp.rtrancl_into_rtrancl, intro dl_set) (simp_all add: dl_start_def)
  then show ?thesis by simp
qed

theorem deadline_program_ends_witness:
  "\<exists>s. (dl_step (\<lambda>a. 0))\<^sup>*\<^sup>* dl_start s \<and> dl_main s = MJoin \<and> dl_exit s = None \<and>
     (\<forall>n s'. (dl_step (\<lambda>a. 0) ^^ n) s s' \<longrightarrow> n \<le> 3) \<and> (\<exists>s'. dl_step (\<lambda>a. 0) s s')"
proof -
  let ?s = "dl_start\<lparr>dl_thr := DTest, dl_main := MJoin, dl_done := 1\<rparr>"
  have "dl_main ?s = MJoin" "dl_exit ?s = None" by (simp_all add: dl_start_def)
  then show ?thesis using dl_demo deadline_program_ends [OF dl_demo] by blast
qed

text \<open>
  The counter is an \<^verbatim>\<open>int\<close> that nobody reads: after \<open>2 ^ 31\<close> turns within the ten seconds its
  increment is undefined.
\<close>

lemma dl_turns:
  assumes "n < 2 ^ 31"
  shows "(dl_step (\<lambda>a. 0))\<^sup>*\<^sup>* dl_start (dl_start\<lparr>dl_thr := DTest, dl_x := of_nat n\<rparr>)"
  using assms
proof (induction n)
  case 0
  show ?case
    using dl_granted [of dl_start "\<lambda>a. 0"] by (auto simp: dl_start_def)
next
  case (Suc n)
  let ?t = "dl_start\<lparr>dl_thr := DTest, dl_x := of_nat n\<rparr>"
  have x: "(of_nat n :: u32) \<noteq> 0x7fffffff"
  proof
    assume "(of_nat n :: u32) = 0x7fffffff"
    then have "unat (of_nat n :: u32) = unat (0x7fffffff :: u32)" by simp
    then show False using Suc.prems by (simp add: unat_of_nat)
  qed
  have "(dl_step (\<lambda>a. 0))\<^sup>*\<^sup>* dl_start ?t" using Suc by simp
  then have "(dl_step (\<lambda>a. 0))\<^sup>*\<^sup>* dl_start (?t\<lparr>dl_thr := if dl_done ?t = 0 then DInc else DReturned\<rparr>)"
    by (rule rtranclp.rtrancl_into_rtrancl, intro dl_test) (simp_all add: dl_start_def)
  then have "(dl_step (\<lambda>a. 0))\<^sup>*\<^sup>* dl_start (?t\<lparr>dl_thr := DInc\<rparr>)" by (simp add: dl_start_def)
  then have "(dl_step (\<lambda>a. 0))\<^sup>*\<^sup>* dl_start (?t\<lparr>dl_thr := DTest, dl_x := of_nat n + 1, dl_undefined := False \<or> of_nat n = (0x7fffffff :: u32)\<rparr>)"
    using dl_inc [where s = "?t\<lparr>dl_thr := DInc\<rparr>" and setattr = "\<lambda>a. 0"] by (auto simp: dl_start_def elim!: rtranclp.rtrancl_into_rtrancl)
  then show ?case using x by (simp add: dl_start_def add.commute)
qed

lemma dl_counter_overflows: "\<exists>s. (dl_step (\<lambda>a. 0))\<^sup>*\<^sup>* dl_start s \<and> dl_undefined s"
proof -
  let ?s = "dl_start\<lparr>dl_thr := DTest, dl_x := 0x7fffffff\<rparr>"
  have "(dl_step (\<lambda>a. 0))\<^sup>*\<^sup>* dl_start ?s" using dl_turns [of 2147483647] by simp
  then have "(dl_step (\<lambda>a. 0))\<^sup>*\<^sup>* dl_start (?s\<lparr>dl_thr := if dl_done ?s = 0 then DInc else DReturned\<rparr>)"
    by (rule rtranclp.rtrancl_into_rtrancl, intro dl_test) (simp_all add: dl_start_def)
  then have r: "(dl_step (\<lambda>a. 0))\<^sup>*\<^sup>* dl_start (?s\<lparr>dl_thr := DInc\<rparr>)" by (simp add: dl_start_def)
  have "\<exists>s'. dl_step (\<lambda>a. 0) (?s\<lparr>dl_thr := DInc\<rparr>) s' \<and> dl_undefined s'"
    by (intro exI conjI, rule dl_inc) (simp_all add: dl_start_def)
  then show ?thesis using r by (meson rtranclp.rtrancl_into_rtrancl)
qed

section \<open>The attributes in memory\<close>

text \<open>
  The structure that \<^verbatim>\<open>run_deadline\<close> hands to the kernel does not depend on what its
  memory held before: from any 48 bytes, the eight assignments succeed and leave the bytes
  of the attributes, with no padding, so that no byte of the stack reaches the kernel.
\<close>

lemma run_deadline_attr_initialised:
  assumes "length m = csize sched_attr_t"
  shows "c_stores sched_attr_t 0 run_deadline_stores m = Some (sched_attr_bytes run_deadline_attr)"
  using assms
  by (simp add: run_deadline_stores_def c_store_num num_bytes_le mem_splice_def min_def
      sched_attr_bytes_def run_deadline_attr_def SCHED_DEADLINE_def)

lemma run_deadline_attr_initialised_witness:
  "c_stores sched_attr_t 0 run_deadline_stores (replicate 48 0xaa) = Some (sched_attr_bytes run_deadline_attr)"
  by (rule run_deadline_attr_initialised) simp

end
