(* ===== verification/Deadline_Server.thy ===== *)
theory Deadline_Server
  imports Cpu_Deadline Deadline_Test
begin

text \<open>
  The deadline class of \<^verbatim>\<open>sched-dl/patch-dl/sched-add-sched_dl.patch\<close> for one task: the check and the
  admission of its parameters (\<^verbatim>\<open>kernel/sched/core.c\<close>) and the constant bandwidth server that
  gives it budget and deadlines (\<^verbatim>\<open>kernel/sched/deadline.c\<close>). Times are 64 bit words; the remaining
  runtime is the one that is read as signed.

  Shown: a parameter set that passes the check and stays below \<open>2 ^ 63\<close> always gets a positive
  budget and a deadline that is not in the past; the bandwidth check is the inequality of its
  comment; admission keeps the sum of the admitted bandwidths within the capacity as long as a
  period is given and no task returns with the bandwidth it left with. Three inputs where it goes
  wrong are shown too.
\<close>

section \<open>Parameters\<close>

record sched_param2 =
  sched_priority :: int
  sched_flags :: u32
  sched_runtime :: u64
  sched_deadline :: u64
  sched_period :: u64

text \<open>The node, the timer and the statistics are left out.\<close>

record sched_dl_entity =
  dl_runtime :: u64
  dl_deadline :: u64
  dl_period :: u64
  se_bw :: u64
  se_runtime :: u64
  se_deadline :: u64
  se_flags :: u32
  dl_throttled :: bool
  dl_new :: bool
  dl_boosted :: bool

definition DL_SCALE :: nat where
  "DL_SCALE = 10"

definition RUNTIME_INF :: u64 where
  "RUNTIME_INF = - 1"

definition checkparam_dl :: "sched_param2 \<Rightarrow> bool" where
  "checkparam_dl prm \<longleftrightarrow> sched_deadline prm \<noteq> 0 \<and>
     (sched_period prm = 0 \<or> 0 \<le> sint (sched_period prm - sched_deadline prm)) \<and>
     0 \<le> sint (sched_deadline prm - sched_runtime prm) \<and>
     push_bit (DL_SCALE - 1) 2 \<le> sched_runtime prm"

definition to_ratio :: "u64 \<Rightarrow> u64 \<Rightarrow> u64" where
  "to_ratio period runtime =
     (if runtime = RUNTIME_INF then push_bit 20 1 else if period = 0 then 0 else push_bit 20 runtime div period)"

definition setparam_dl :: "sched_dl_entity \<Rightarrow> sched_param2 \<Rightarrow> sched_dl_entity" where
  "setparam_dl dl_se prm =
     (let period = (if sched_period prm \<noteq> 0 then sched_period prm else sched_deadline prm) in
      dl_se\<lparr>dl_runtime := sched_runtime prm, dl_deadline := sched_deadline prm, dl_period := period,
        se_bw := to_ratio period (sched_runtime prm), se_flags := sched_flags prm,
        dl_throttled := False, dl_new := True\<rparr>)"

definition getparam_dl :: "int \<Rightarrow> sched_dl_entity \<Rightarrow> sched_param2" where
  "getparam_dl rt_priority dl_se =
     \<lparr>sched_priority = rt_priority, sched_flags = se_flags dl_se, sched_runtime = dl_runtime dl_se,
      sched_deadline = dl_deadline dl_se, sched_period = dl_period dl_se\<rparr>"

section \<open>Admission\<close>

record dl_bw =
  dlb_bw :: u64
  dlb_total :: u64

text \<open>A task, as far as admission looks at it: its class and its entity.\<close>

record dl_task =
  is_dl :: bool
  se :: sched_dl_entity

definition dl_clear :: "dl_bw \<Rightarrow> u64 \<Rightarrow> dl_bw" where
  "dl_clear dl_b tsk_bw = dl_b\<lparr>dlb_total := dlb_total dl_b - tsk_bw\<rparr>"

definition dl_add :: "dl_bw \<Rightarrow> u64 \<Rightarrow> dl_bw" where
  "dl_add dl_b tsk_bw = dl_b\<lparr>dlb_total := dlb_total dl_b + tsk_bw\<rparr>"

definition dl_overflow_bw :: "dl_bw \<Rightarrow> nat \<Rightarrow> u64 \<Rightarrow> u64 \<Rightarrow> bool" where
  "dl_overflow_bw dl_b cpus old_bw new_bw \<longleftrightarrow>
     dlb_bw dl_b \<noteq> - 1 \<and> dlb_bw dl_b * of_nat cpus < dlb_total dl_b - old_bw + new_bw"

text \<open>\<open>to_dl\<close> is \<^verbatim>\<open>dl_policy(policy)\<close>.\<close>

definition dl_overflow :: "nat \<Rightarrow> dl_task \<Rightarrow> bool \<Rightarrow> sched_param2 \<Rightarrow> dl_bw \<Rightarrow> int \<times> dl_bw" where
  "dl_overflow cpus p to_dl prm dl_b =
     (let new_bw = (if to_dl then to_ratio (sched_period prm) (sched_runtime prm) else 0);
          old = se_bw (se p) in
      if new_bw = old then (0, dl_b)
      else if to_dl \<and> \<not> is_dl p \<and> \<not> dl_overflow_bw dl_b cpus 0 new_bw then (0, dl_add dl_b new_bw)
      else if to_dl \<and> is_dl p \<and> \<not> dl_overflow_bw dl_b cpus old new_bw then (0, dl_add (dl_clear dl_b old) new_bw)
      else if \<not> to_dl \<and> is_dl p then (0, dl_clear dl_b old)
      else (- 1, dl_b))"

text \<open>
  What the patch adds to \<^verbatim>\<open>__sched_setscheduler\<close>, called for a user: the check, the affinity test,
  the admission, the new parameters. \<open>enabled\<close> is \<^verbatim>\<open>dl_bandwidth_enabled()\<close>, \<open>spans\<close> says that the task may
  run on the whole root domain. The other permission checks and the real-time priorities are the
  kernel's.
\<close>

definition setscheduler_dl ::
  "nat \<Rightarrow> bool \<Rightarrow> bool \<Rightarrow> dl_task \<Rightarrow> bool \<Rightarrow> sched_param2 \<Rightarrow> dl_bw \<Rightarrow> int \<times> dl_task \<times> dl_bw" where
  "setscheduler_dl cpus enabled spans p to_dl prm dl_b =
     (if to_dl \<and> \<not> checkparam_dl prm then (- EINVAL, p, dl_b)
      else if \<not> to_dl \<and> \<not> is_dl p then (0, p, dl_b)
      else if enabled \<and> to_dl \<and> (\<not> spans \<or> dlb_bw dl_b = 0) then (- EPERM, p, dl_b)
      else case dl_overflow cpus p to_dl prm dl_b of (err, dl_b') \<Rightarrow>
        if err \<noteq> 0 then (- EBUSY, p, dl_b')
        else (0, p\<lparr>is_dl := to_dl, se := (if to_dl then setparam_dl (se p) prm else se p)\<rparr>, dl_b'))"

definition task_dead_dl :: "dl_task \<Rightarrow> dl_bw \<Rightarrow> dl_bw" where
  "task_dead_dl p dl_b = dl_b\<lparr>dlb_total := dlb_total dl_b - se_bw (se p)\<rparr>"

section \<open>The server\<close>

definition setup_new_dl_entity :: "u64 \<Rightarrow> sched_dl_entity \<Rightarrow> sched_dl_entity \<Rightarrow> sched_dl_entity" where
  "setup_new_dl_entity clock dl_se pi_se =
     dl_se\<lparr>se_deadline := clock + dl_deadline pi_se, se_runtime := dl_runtime pi_se, dl_new := False\<rparr>"

definition reset_dl_entity :: "u64 \<Rightarrow> sched_dl_entity \<Rightarrow> sched_dl_entity \<Rightarrow> sched_dl_entity" where
  "reset_dl_entity clock dl_se pi_se = dl_se\<lparr>se_deadline := clock + dl_deadline pi_se, se_runtime := dl_runtime pi_se\<rparr>"

text \<open>The loop may run for ever, which is \<^term>\<open>None\<close>.\<close>

partial_function (option) replenish_loop :: "sched_dl_entity \<Rightarrow> sched_dl_entity \<Rightarrow> sched_dl_entity option" where
  "replenish_loop pi_se dl_se =
     (if sint (se_runtime dl_se) \<le> 0
      then replenish_loop pi_se (dl_se\<lparr>se_deadline := se_deadline dl_se + dl_period pi_se, se_runtime := se_runtime dl_se + dl_runtime pi_se\<rparr>)
      else Some dl_se)"

definition replenish_dl_entity :: "u64 \<Rightarrow> sched_dl_entity \<Rightarrow> sched_dl_entity \<Rightarrow> sched_dl_entity outcome option" where
  "replenish_dl_entity clock dl_se pi_se =
     (if dl_runtime pi_se = 0 then Some Fault
      else case replenish_loop pi_se (if dl_deadline dl_se = 0 then reset_dl_entity clock dl_se pi_se else dl_se) of
        None \<Rightarrow> None
      | Some d \<Rightarrow> Some (Returns (if dl_time_before (se_deadline d) clock then reset_dl_entity clock d pi_se else d)))"

definition dl_entity_overflow :: "sched_dl_entity \<Rightarrow> sched_dl_entity \<Rightarrow> u64 \<Rightarrow> bool" where
  "dl_entity_overflow dl_se pi_se t =
     (let left = drop_bit DL_SCALE (dl_period pi_se) * signed_drop_bit DL_SCALE (se_runtime dl_se);
          right = drop_bit DL_SCALE (se_deadline dl_se - t) * drop_bit DL_SCALE (dl_runtime pi_se) in
      dl_time_before right left)"

definition update_dl_entity :: "u64 \<Rightarrow> sched_dl_entity \<Rightarrow> sched_dl_entity \<Rightarrow> sched_dl_entity" where
  "update_dl_entity clock dl_se pi_se =
     (if dl_new dl_se then setup_new_dl_entity clock dl_se pi_se
      else if dl_time_before (se_deadline dl_se) clock \<or> dl_entity_overflow dl_se pi_se clock
      then reset_dl_entity clock dl_se pi_se else dl_se)"

text \<open>The result of \<^verbatim>\<open>dl_runtime_exceeded\<close> and the entity it leaves.\<close>

definition dl_runtime_exceeded :: "u64 \<Rightarrow> sched_dl_entity \<Rightarrow> bool \<times> sched_dl_entity" where
  "dl_runtime_exceeded clock dl_se =
     (let dmiss = dl_time_before (se_deadline dl_se) clock; rorun = (sint (se_runtime dl_se) \<le> 0) in
      if \<not> rorun \<and> \<not> dmiss then (False, dl_se)
      else (True, if dmiss
                  then dl_se\<lparr>se_runtime := (if rorun then se_runtime dl_se else 0) - (clock - se_deadline dl_se)\<rparr>
                  else dl_se))"

text \<open>\<^verbatim>\<open>enqueue_dl_entity\<close> before the tree: \<open>replenish\<close> is \<^verbatim>\<open>flags & ENQUEUE_REPLENISH\<close>.\<close>

definition enqueue_dl_entity :: "u64 \<Rightarrow> sched_dl_entity \<Rightarrow> sched_dl_entity \<Rightarrow> bool \<Rightarrow> sched_dl_entity outcome option" where
  "enqueue_dl_entity clock dl_se pi_se replenish =
     (if \<not> dl_new dl_se \<and> replenish then replenish_dl_entity clock dl_se pi_se
      else Some (Returns (update_dl_entity clock dl_se pi_se)))"

text \<open>
  \<^verbatim>\<open>enqueue_task_dl\<close> for the entity: \<open>pi\<close> is the entity of the top waiter when that is a deadline task.
  A throttled entity is left to its timer.
\<close>

definition enqueue_task_dl :: "u64 \<Rightarrow> sched_dl_entity option \<Rightarrow> sched_dl_entity \<Rightarrow> bool \<Rightarrow> sched_dl_entity outcome option" where
  "enqueue_task_dl clock pi dl_se replenish =
     (let pi_se = (case pi of Some w \<Rightarrow> if dl_boosted dl_se then w else dl_se | None \<Rightarrow> dl_se) in
      if dl_throttled dl_se then Some (Returns dl_se) else enqueue_dl_entity clock dl_se pi_se replenish)"

text \<open>
  \<^verbatim>\<open>start_dl_timer\<close>: the expiry is the deadline moved to the timer's clock, so it lies as far from
  now as the deadline from the run queue's clock. \<open>to_us\<close> is \<^verbatim>\<open>ktime_to_us\<close>, \<open>active\<close> what \<^verbatim>\<open>hrtimer_active\<close>
  says after the start.
\<close>

definition start_dl_timer :: "(int \<Rightarrow> int) \<Rightarrow> u64 \<Rightarrow> bool \<Rightarrow> sched_dl_entity \<Rightarrow> bool" where
  "start_dl_timer to_us clock active dl_se \<longleftrightarrow>
     \<not> dl_boosted dl_se \<and> \<not> to_us (sint (se_deadline dl_se - clock)) < 0 \<and> active"

text \<open>
  \<^verbatim>\<open>update_curr_dl\<close> for the entity of the running task: \<open>delta\<close> is charged; when the budget is gone
  the task is throttled if the timer starts and replenished at once otherwise.
\<close>

definition update_curr_dl :: "(int \<Rightarrow> int) \<Rightarrow> u64 \<Rightarrow> u64 \<Rightarrow> bool \<Rightarrow> sched_dl_entity option \<Rightarrow> sched_dl_entity \<Rightarrow> sched_dl_entity outcome option" where
  "update_curr_dl to_us clock delta active pi dl_se =
     (let delta_exec = (if sint delta < 0 then 0 else delta);
          (exceeded, d) = dl_runtime_exceeded clock (dl_se\<lparr>se_runtime := se_runtime dl_se - delta_exec\<rparr>) in
      if \<not> exceeded then Some (Returns d)
      else if start_dl_timer to_us clock active d then Some (Returns (d\<lparr>dl_throttled := True\<rparr>))
      else enqueue_task_dl clock pi d True)"

text \<open>\<^verbatim>\<open>dl_task_timer\<close> for a task that is still of the class: \<open>on_rq\<close> is the task's field.\<close>

definition dl_task_timer :: "u64 \<Rightarrow> bool \<Rightarrow> sched_dl_entity option \<Rightarrow> sched_dl_entity \<Rightarrow> sched_dl_entity outcome option" where
  "dl_task_timer clock on_rq pi dl_se =
     (if dl_new dl_se then Some (Returns dl_se)
      else let d = dl_se\<lparr>dl_throttled := False\<rparr> in
        if on_rq then enqueue_task_dl clock pi d True else Some (Returns d))"

text \<open>\<^verbatim>\<open>yield_task_dl\<close>.\<close>

definition yield_task_dl :: "(int \<Rightarrow> int) \<Rightarrow> u64 \<Rightarrow> u64 \<Rightarrow> bool \<Rightarrow> sched_dl_entity option \<Rightarrow> sched_dl_entity \<Rightarrow> sched_dl_entity outcome option" where
  "yield_task_dl to_us clock delta active pi dl_se =
     update_curr_dl to_us clock delta active pi
       (if 0 < sint (se_runtime dl_se) then dl_se\<lparr>dl_new := True, se_runtime := 0\<rparr> else dl_se)"

section \<open>Signed times\<close>

lemma sint_below: "x < 2 ^ 63 \<Longrightarrow> sint (x :: u64) = uint x"
proof -
  assume "x < 2 ^ 63"
  then have "uint x < 2 ^ 63" by (simp add: word_less_def)
  moreover have "- (2 ^ 63) \<le> uint x" by (rule order_trans [of _ 0]) simp_all
  ultimately have "signed_take_bit 63 (uint x) = uint x" by (intro signed_take_bit_int_eq_self)
  then show ?thesis by (simp add: sint_uint)
qed

lemma sint_add:
  assumes "- (2 ^ 63) \<le> sint a + sint (b :: u64)" and "sint a + sint b < 2 ^ 63"
  shows "sint (a + b) = sint a + sint b"
  using assms by (simp add: sint_word_ariths signed_take_bit_int_eq_self)

lemma sint_range: "- (2 ^ 63) \<le> sint (a :: u64)" "sint (a :: u64) < 2 ^ 63"
  using sint_ge [of a] sint_lt [of a] by simp_all

text \<open>A time that is less than \<open>2 ^ 63\<close> ahead is not before.\<close>

lemma not_before_ahead: "x < 2 ^ 63 \<Longrightarrow> \<not> dl_time_before (c + x) c"
  by (simp add: dl_time_before_iff word_less_nat_alt)

section \<open>Replenishment\<close>

text \<open>How often the loop adds a budget of \<open>q\<close> to a remainder of \<open>r\<close>.\<close>

definition replenish_steps :: "int \<Rightarrow> int \<Rightarrow> nat" where
  "replenish_steps r q = (if r \<le> 0 then nat (- r div q) + 1 else 0)"

lemma replenish_steps_next:
  assumes "0 < q" and "r \<le> 0"
  shows "replenish_steps r q = Suc (replenish_steps (r + q) q)"
proof (cases "r + q \<le> 0")
  case True
  have "- r div q = - (r + q) div q + 1" using div_add_self2 [of q "- (r + q)"] assms(1) by simp
  moreover have "0 \<le> - (r + q) div q" using True assms(1) by (simp add: pos_imp_zdiv_nonneg_iff)
  ultimately show ?thesis using True assms(2) by (simp add: replenish_steps_def)
next
  case False
  then have "- r div q = 0" using assms by (simp add: div_pos_pos_trivial)
  then show ?thesis using False assms(2) by (simp add: replenish_steps_def)
qed

lemma replenish_loop_result:
  assumes "0 < sint (dl_runtime pi_se)"
  defines "q \<equiv> sint (dl_runtime pi_se)"
  shows "n = replenish_steps (sint (se_runtime d)) q \<Longrightarrow> \<exists>d'. replenish_loop pi_se d = Some d' \<and>
     se_deadline d' = se_deadline d + of_nat n * dl_period pi_se \<and>
     sint (se_runtime d') = sint (se_runtime d) + int n * q \<and>
     0 < sint (se_runtime d') \<and> (sint (se_runtime d) \<le> q \<longrightarrow> sint (se_runtime d') \<le> q)"
proof (induction n arbitrary: d)
  case 0
  then have "0 < sint (se_runtime d)" by (auto simp: replenish_steps_def split: if_splits)
  then show ?case by (subst replenish_loop.simps) auto
next
  case (Suc n)
  let ?d = "d\<lparr>se_deadline := se_deadline d + dl_period pi_se, se_runtime := se_runtime d + dl_runtime pi_se\<rparr>"
  have r: "sint (se_runtime d) \<le> 0" using Suc.prems by (auto simp: replenish_steps_def split: if_splits)
  have s: "sint (se_runtime ?d) = sint (se_runtime d) + q"
    using r assms sint_range [of "se_runtime d"] sint_range [of "dl_runtime pi_se"] by (simp add: sint_add)
  have "n = replenish_steps (sint (se_runtime ?d)) q"
    using Suc.prems replenish_steps_next [OF _ r, of q] assms unfolding s by simp
  then obtain d' where d': "replenish_loop pi_se ?d = Some d'"
      "se_deadline d' = se_deadline ?d + of_nat n * dl_period pi_se" "sint (se_runtime d') = sint (se_runtime ?d) + int n * q"
      "0 < sint (se_runtime d')" "sint (se_runtime ?d) \<le> q \<longrightarrow> sint (se_runtime d') \<le> q"
    using Suc.IH [of ?d] by blast
  have "replenish_loop pi_se d = Some d'" using r d'(1) by (subst replenish_loop.simps) simp
  moreover have "sint (se_runtime ?d) \<le> q" using r s by simp
  ultimately show ?case using d' s by (intro exI [of _ d']) (auto simp: algebra_simps)
qed

lemma replenish_loop_frame:
  assumes "replenish_loop pi_se d = Some d'"
  shows "\<exists>x y. d' = d\<lparr>se_deadline := x, se_runtime := y\<rparr>"
proof (rule replenish_loop.raw_induct [where P = "\<lambda>_ d d'. \<exists>x y. d' = d\<lparr>se_deadline := x, se_runtime := y\<rparr>", OF _ assms])
  fix f :: "sched_dl_entity \<Rightarrow> sched_dl_entity \<Rightarrow> sched_dl_entity option" and p d d'
  assume IH: "\<And>p d d'. f p d = Some d' \<Longrightarrow> \<exists>x y. d' = d\<lparr>se_deadline := x, se_runtime := y\<rparr>"
    and eq: "(if sint (se_runtime d) \<le> 0
      then f p (d\<lparr>se_deadline := se_deadline d + dl_period p, se_runtime := se_runtime d + dl_runtime p\<rparr>) else Some d) = Some d'"
  show "\<exists>x y. d' = d\<lparr>se_deadline := x, se_runtime := y\<rparr>"
  proof (cases "sint (se_runtime d) \<le> 0")
    case True
    then show ?thesis using IH eq by fastforce
  next
    case False
    then have "d' = d\<lparr>se_deadline := se_deadline d, se_runtime := se_runtime d\<rparr>" using eq by simp
    then show ?thesis by blast
  qed
qed

text \<open>
  With a budget and a relative deadline below \<open>2 ^ 63\<close>, \<^verbatim>\<open>replenish_dl_entity\<close> returns however large
  the overrun is; the entity then has a positive budget, not more than one full budget unless it
  had more before, and a deadline that is not in the past.
\<close>

lemma replenish_gives_budget:
  assumes "0 < dl_runtime pi_se" and "dl_runtime pi_se < 2 ^ 63" and "dl_deadline pi_se < 2 ^ 63"
  shows "\<exists>d. replenish_dl_entity clock dl_se pi_se = Some (Returns d) \<and> 0 < sint (se_runtime d) \<and>
    (sint (se_runtime dl_se) \<le> uint (dl_runtime pi_se) \<longrightarrow> sint (se_runtime d) \<le> uint (dl_runtime pi_se)) \<and>
    \<not> dl_time_before (se_deadline d) clock"
proof -
  have q: "sint (dl_runtime pi_se) = uint (dl_runtime pi_se)" by (rule sint_below [OF assms(2)])
  have pos: "0 < uint (dl_runtime pi_se)" using assms(1) by (simp add: word_less_def)
  let ?s = "if dl_deadline dl_se = 0 then reset_dl_entity clock dl_se pi_se else dl_se"
  have s: "sint (se_runtime dl_se) \<le> uint (dl_runtime pi_se) \<longrightarrow> sint (se_runtime ?s) \<le> uint (dl_runtime pi_se)"
    by (simp add: reset_dl_entity_def q)
  obtain d where d: "replenish_loop pi_se ?s = Some d" "0 < sint (se_runtime d)"
      "sint (se_runtime ?s) \<le> uint (dl_runtime pi_se) \<longrightarrow> sint (se_runtime d) \<le> uint (dl_runtime pi_se)"
    using replenish_loop_result [of pi_se _ ?s] pos unfolding q by blast
  let ?r = "if dl_time_before (se_deadline d) clock then reset_dl_entity clock d pi_se else d"
  have "replenish_dl_entity clock dl_se pi_se = Some (Returns ?r)"
    using assms(1) d(1) by (simp add: replenish_dl_entity_def)
  then show ?thesis
    using d(2,3) s pos not_before_ahead [OF assms(3)] by (intro exI [of _ ?r]) (auto simp: reset_dl_entity_def q)
qed

lemma replenish_gives_budget_witness:
  "let e = \<lparr>dl_runtime = 10, dl_deadline = 30, dl_period = 40, se_bw = 0, se_runtime = - 25, se_deadline = 100,
            se_flags = 0, dl_throttled = False, dl_new = False, dl_boosted = False\<rparr> in
   (\<exists>d. replenish_dl_entity 120 e e = Some (Returns d) \<and> 0 < sint (se_runtime d) \<and>
     (sint (se_runtime e) \<le> uint (dl_runtime e) \<longrightarrow> sint (se_runtime d) \<le> uint (dl_runtime e)) \<and>
     \<not> dl_time_before (se_deadline d) 120)"
  unfolding Let_def by (rule replenish_gives_budget) simp_all

section \<open>The bandwidth check\<close>

text \<open>
  The inequality of the comment on \<^verbatim>\<open>dl_entity_overflow\<close>, \<open>runtime / left > dl_runtime / period\<close>,
  without division.
\<close>

definition exceeds_bandwidth :: "nat \<Rightarrow> nat \<Rightarrow> nat \<Rightarrow> nat \<Rightarrow> bool" where
  "exceeds_bandwidth r left q period \<longleftrightarrow> left * q < period * r"

lemma unat_drop_bit: "unat (drop_bit n (a :: u64)) = unat a div 2 ^ n"
  by (simp only: unat_drop_bit_eq) (simp only: drop_bit_eq_div)

lemma scaled_product:
  assumes "unat a < 2 ^ 41" and "unat b < 2 ^ 41"
  shows "unat (drop_bit 10 a * drop_bit 10 (b :: u64)) = (unat a div 1024) * (unat b div 1024)"
    and "drop_bit 10 a * drop_bit 10 (b :: u64) < 2 ^ 63"
proof -
  have u: "unat (drop_bit 10 a) = unat a div 1024" "unat (drop_bit 10 b) = unat b div 1024"
    by (simp_all add: unat_drop_bit)
  have "(unat a div 1024) * (unat b div 1024) < 2 ^ 31 * 2 ^ 31"
    using assms by (intro mult_strict_mono) (simp_all add: div_less_iff_less_mult)
  then have l: "(unat a div 1024) * (unat b div 1024) < 2 ^ 62" by simp
  show e: "unat (drop_bit 10 a * drop_bit 10 b) = (unat a div 1024) * (unat b div 1024)"
    by (subst unat_mult_lem [THEN iffD1]) (use l in \<open>simp_all add: u\<close>)
  show "drop_bit 10 a * drop_bit 10 b < 2 ^ 63" using l e by (simp add: word_less_nat_alt)
qed

lemma signed_drop_small:
  assumes "x < 2 ^ 63"
  shows "signed_drop_bit n x = drop_bit n (x :: u64)"
proof -
  have "sint (signed_drop_bit n x) = drop_bit n (uint x)" by (simp add: sint_signed_drop_bit_eq sint_below [OF assms])
  moreover have "unat (drop_bit n x) \<le> unat x" by (simp add: unat_drop_bit)
  then have "drop_bit n x < 2 ^ 63" using assms by (simp add: word_less_nat_alt)
  then have "sint (drop_bit n x) = drop_bit n (uint x)"
    by (simp only: sint_below uint_nat unat_drop_bit) (simp only: drop_bit_eq_div zdiv_int of_nat_power of_nat_numeral)
  ultimately have "sint (signed_drop_bit n x) = sint (drop_bit n x)" by simp
  then have "(of_int (sint (signed_drop_bit n x)) :: u64) = of_int (sint (drop_bit n x))" by (rule arg_cong)
  then show ?thesis by simp
qed

text \<open>
  For times below \<open>2 ^ 41\<close> nanoseconds (36 minutes) \<^verbatim>\<open>dl_entity_overflow\<close> is equivalent to the inequality
  \<open>runtime / (deadline - t) > dl_runtime / dl_period\<close> of its comment on the values in units of
  1024 nanoseconds: neither product wraps and the signed comparison is the order.
\<close>

lemma dl_entity_overflow_scaled:
  assumes "unat (dl_period pi_se) < 2 ^ 41" and "unat (dl_runtime pi_se) < 2 ^ 41"
    and "unat (se_runtime dl_se) < 2 ^ 41" and "unat (se_deadline dl_se - t) < 2 ^ 41"
  shows "dl_entity_overflow dl_se pi_se t \<longleftrightarrow>
    exceeds_bandwidth (unat (se_runtime dl_se) div 1024) (unat (se_deadline dl_se - t) div 1024)
      (unat (dl_runtime pi_se) div 1024) (unat (dl_period pi_se) div 1024)"
proof -
  have "se_runtime dl_se < 2 ^ 63" using assms(3) by (simp add: word_less_nat_alt)
  then have "dl_entity_overflow dl_se pi_se t \<longleftrightarrow>
      dl_time_before (drop_bit 10 (se_deadline dl_se - t) * drop_bit 10 (dl_runtime pi_se))
        (drop_bit 10 (dl_period pi_se) * drop_bit 10 (se_runtime dl_se))"
    by (simp add: dl_entity_overflow_def DL_SCALE_def signed_drop_small)
  also have "\<dots> \<longleftrightarrow> drop_bit 10 (se_deadline dl_se - t) * drop_bit 10 (dl_runtime pi_se)
      < drop_bit 10 (dl_period pi_se) * drop_bit 10 (se_runtime dl_se)"
    by (rule dl_time_before_less) (rule scaled_product(2) [OF assms(4,2)], rule scaled_product(2) [OF assms(1,3)])
  finally show ?thesis
    by (simp add: word_less_nat_alt scaled_product(1) [OF assms(4,2)] scaled_product(1) [OF assms(1,3)]
        exceeds_bandwidth_def)
qed

lemma dl_entity_overflow_scaled_witness:
  "let e = \<lparr>dl_runtime = 10240, dl_deadline = 30720, dl_period = 30720, se_bw = 0, se_runtime = 9216, se_deadline = 50000,
            se_flags = 0, dl_throttled = False, dl_new = False, dl_boosted = False\<rparr> in
   dl_entity_overflow e e 40000 = exceeds_bandwidth 9 9 10 30"
proof -
  define e where "e = \<lparr>dl_runtime = 10240, dl_deadline = 30720, dl_period = 30720, se_bw = 0, se_runtime = 9216,
    se_deadline = 50000, se_flags = 0, dl_throttled = False, dl_new = False, dl_boosted = False\<rparr>"
  have "dl_entity_overflow e e 40000 = exceeds_bandwidth 9 9 10 30"
    by (subst dl_entity_overflow_scaled) (simp_all add: e_def)
  then show ?thesis by (simp add: e_def)
qed

section \<open>Admission within the capacity\<close>

definition admitted :: "dl_task \<Rightarrow> nat" where
  "admitted p = (if is_dl p then unat (se_bw (se p)) else 0)"

definition bw_inv :: "nat \<Rightarrow> dl_bw \<Rightarrow> dl_task list \<Rightarrow> bool" where
  "bw_inv cpus dl_b ps \<longleftrightarrow> dlb_bw dl_b \<noteq> - 1 \<and> unat (dlb_bw dl_b) * cpus < 2 ^ 63 \<and>
     unat (dlb_total dl_b) = sum_list (map admitted ps) \<and> sum_list (map admitted ps) \<le> unat (dlb_bw dl_b) * cpus"

text \<open>Parameters with a period, all below \<open>2 ^ 44\<close> nanoseconds (about five hours).\<close>

definition plain_params :: "sched_param2 \<Rightarrow> bool" where
  "plain_params prm \<longleftrightarrow> sched_period prm \<noteq> 0 \<and> unat (sched_period prm) < 2 ^ 44 \<and>
     unat (sched_deadline prm) < 2 ^ 44 \<and> unat (sched_runtime prm) < 2 ^ 44"

lemma signed_order:
  assumes "a < 2 ^ 63" and "b < 2 ^ 63"
  shows "0 \<le> sint (b - a) \<longleftrightarrow> a \<le> (b :: u64)"
  using dl_time_before_less [OF assms(2,1)] by (simp add: dl_time_before_def not_less not_le [symmetric])

lemma to_ratio_plain:
  assumes "unat q < 2 ^ 44" and "period \<noteq> 0"
  shows "unat (to_ratio period q) = unat q * 2 ^ 20 div unat period"
proof -
  have "unat RUNTIME_INF = 18446744073709551615" by (simp add: RUNTIME_INF_def unsigned_minus_1_eq_mask mask_eq_exp_minus_1)
  then have "q \<noteq> RUNTIME_INF" using assms(1) by auto
  moreover have "unat (push_bit 20 q) = unat q * 2 ^ 20"
  proof -
    have "unat q * 2 ^ 20 < 2 ^ 64" using assms(1) by simp
    then show ?thesis by (simp add: push_bit_eq_mult unat_word_ariths mult.commute)
  qed
  ultimately show ?thesis using assms(2) by (simp add: to_ratio_def unat_div)
qed

lemma to_ratio_at_most_one:
  assumes "checkparam_dl prm" and "plain_params prm"
  shows "unat (to_ratio (sched_period prm) (sched_runtime prm)) \<le> 2 ^ 20"
proof -
  have l: "sched_period prm < 2 ^ 63" "sched_deadline prm < 2 ^ 63" "sched_runtime prm < 2 ^ 63"
    using assms(2) by (simp_all add: plain_params_def word_less_nat_alt)
  then have "sched_runtime prm \<le> sched_period prm"
    using assms by (auto simp: checkparam_dl_def plain_params_def signed_order intro: order_trans)
  then have "unat (sched_runtime prm) * 2 ^ 20 \<le> unat (sched_period prm) * 2 ^ 20" by (simp add: word_le_nat_alt)
  then have "unat (sched_runtime prm) * 2 ^ 20 div unat (sched_period prm) \<le> 2 ^ 20"
    by (metis div_le_mono div_mult_self1_is_m le0 le_neq_implies_less div_by_0)
  then show ?thesis using assms(2) by (simp add: to_ratio_plain plain_params_def)
qed

lemma sum_list_replace:
  "i < length xs \<Longrightarrow> sum_list (map f (xs[i := y])) + f (xs ! i) = sum_list (map f xs) + (f y :: nat)"
  by (induction xs arbitrary: i) (auto split: nat.splits)

text \<open>The test on words is the test on numbers as long as nothing wraps.\<close>

lemma dl_overflow_bw_iff:
  assumes "bw_inv cpus dl_b ps" and "unat old_bw \<le> unat (dlb_total dl_b)" and "unat new_bw \<le> 2 ^ 20"
  shows "dl_overflow_bw dl_b cpus old_bw new_bw \<longleftrightarrow>
      unat (dlb_bw dl_b) * cpus < unat (dlb_total dl_b) - unat old_bw + unat new_bw"
    and "unat (dlb_total dl_b - old_bw + new_bw) = unat (dlb_total dl_b) - unat old_bw + unat new_bw"
proof -
  have cap: "unat (dlb_bw dl_b) * cpus < 2 ^ 63" "unat (dlb_total dl_b) \<le> unat (dlb_bw dl_b) * cpus" "dlb_bw dl_b \<noteq> - 1"
    using assms(1) by (auto simp: bw_inv_def)
  have m: "unat (dlb_bw dl_b * of_nat cpus) = unat (dlb_bw dl_b) * cpus"
    using cap(1) by (simp add: unat_word_ariths unat_of_nat mod_mult_right_eq)
  have d: "unat (dlb_total dl_b - old_bw) = unat (dlb_total dl_b) - unat old_bw"
    using assms(2) by (intro unat_sub) (simp add: word_le_nat_alt)
  show e: "unat (dlb_total dl_b - old_bw + new_bw) = unat (dlb_total dl_b) - unat old_bw + unat new_bw"
    using cap assms(3) by (simp add: unat_word_ariths d)
  show "dl_overflow_bw dl_b cpus old_bw new_bw \<longleftrightarrow>
      unat (dlb_bw dl_b) * cpus < unat (dlb_total dl_b) - unat old_bw + unat new_bw"
    unfolding dl_overflow_bw_def word_less_nat_alt m e using cap(3) by simp
qed

lemma bw_inv_replace:
  assumes "bw_inv cpus dl_b ps" and "i < length ps" and "dlb_bw dl_b' = dlb_bw dl_b"
    and "unat (dlb_total dl_b') = unat (dlb_total dl_b) - admitted (ps ! i) + admitted p"
    and "unat (dlb_total dl_b') \<le> unat (dlb_bw dl_b) * cpus"
  shows "bw_inv cpus dl_b' (ps[i := p])"
proof -
  have "admitted (ps ! i) \<le> sum_list (map admitted ps)" using assms(2) by (intro member_le_sum_list) auto
  moreover have "sum_list (map admitted (ps[i := p])) + admitted (ps ! i) = sum_list (map admitted ps) + admitted p"
    by (rule sum_list_replace [OF assms(2)])
  ultimately have "sum_list (map admitted (ps[i := p])) = sum_list (map admitted ps) - admitted (ps ! i) + admitted p" by arith
  then show ?thesis using assms by (simp add: bw_inv_def)
qed

lemma admitted_le_total:
  assumes "bw_inv cpus dl_b ps" and "i < length ps"
  shows "admitted (ps ! i) \<le> unat (dlb_total dl_b)" and "unat (dlb_total dl_b) \<le> unat (dlb_bw dl_b) * cpus"
proof -
  have "admitted (ps ! i) \<le> sum_list (map admitted ps)" using assms(2) by (intro member_le_sum_list) auto
  then show "admitted (ps ! i) \<le> unat (dlb_total dl_b)" "unat (dlb_total dl_b) \<le> unat (dlb_bw dl_b) * cpus"
    using assms(1) by (auto simp: bw_inv_def)
qed

text \<open>A task leaves the class, or never was in it.\<close>

lemma setscheduler_leave:
  assumes "bw_inv cpus dl_b ps" and "i < length ps"
    and "setscheduler_dl cpus enabled spans (ps ! i) False prm dl_b = (r, p, dl_b')"
  shows "bw_inv cpus dl_b' (ps[i := p]) \<and> r = 0"
proof -
  let ?p = "ps ! i"
  note total = admitted_le_total [OF assms(1,2)]
  have same: "bw_inv cpus dl_b (ps[i := ?p])" using assms(1) by simp
  show ?thesis
  proof (cases "is_dl ?p \<and> se_bw (se ?p) \<noteq> 0")
    case True
    have "unat (dlb_total dl_b - se_bw (se ?p)) = unat (dlb_total dl_b) - unat (se_bw (se ?p))"
      using total(1) True by (intro unat_sub) (simp add: admitted_def word_le_nat_alt)
    then have "bw_inv cpus (dl_clear dl_b (se_bw (se ?p))) (ps[i := ?p\<lparr>is_dl := False\<rparr>])"
      using True total(2) by (intro bw_inv_replace [OF assms(1,2)]) (auto simp: dl_clear_def admitted_def)
    then show ?thesis using assms(3) True by (auto simp: setscheduler_dl_def dl_overflow_def Let_def)
  next
    case False
    have "bw_inv cpus dl_b (ps[i := ?p\<lparr>is_dl := False\<rparr>])"
      using False total(2) by (intro bw_inv_replace [OF assms(1,2)]) (auto simp: admitted_def)
    then show ?thesis using assms(3) False same by (auto simp: setscheduler_dl_def dl_overflow_def Let_def split: if_splits)
  qed
qed

text \<open>A task enters the class or changes its parameters.\<close>

lemma setscheduler_enter:
  assumes "bw_inv cpus dl_b ps" and "i < length ps" and "checkparam_dl prm" and "plain_params prm"
  defines "p \<equiv> ps ! i" and "new_bw \<equiv> to_ratio (sched_period prm) (sched_runtime prm)"
  assumes "\<not> is_dl p \<Longrightarrow> se_bw (se p) = new_bw \<Longrightarrow> new_bw = 0"
    and "setscheduler_dl cpus enabled spans p True prm dl_b = (r, p', dl_b')"
  shows "bw_inv cpus dl_b' (ps[i := p']) \<and> (r = 0 \<or> p' = p \<and> dl_b' = dl_b)"
proof -
  note total = admitted_le_total [OF assms(1,2), folded p_def]
  let ?q = "p\<lparr>is_dl := True, se := setparam_dl (se p) prm\<rparr>"
  define old where "old = (if is_dl p then se_bw (se p) else 0)"
  have same: "bw_inv cpus dl_b (ps[i := p])" using assms(1) by (simp add: p_def)
  have small: "unat new_bw \<le> 2 ^ 20" unfolding new_bw_def by (rule to_ratio_at_most_one [OF assms(3,4)])
  have new: "admitted ?q = unat new_bw" using assms(4) by (simp add: admitted_def setparam_dl_def plain_params_def Let_def new_bw_def)
  have old: "admitted p = unat old" by (simp add: old_def admitted_def)
  note ov = dl_overflow_bw_iff [OF assms(1) _ small, of old]
  have res: "setscheduler_dl cpus enabled spans p True prm dl_b =
      (if enabled \<and> (\<not> spans \<or> dlb_bw dl_b = 0) then (- EPERM, p, dl_b)
       else if new_bw = se_bw (se p) then (0, ?q, dl_b)
       else if dl_overflow_bw dl_b cpus old new_bw then (- EBUSY, p, dl_b)
       else (0, ?q, dl_b\<lparr>dlb_total := dlb_total dl_b - old + new_bw\<rparr>))"
    using assms(3) by (auto simp: setscheduler_dl_def dl_overflow_def old_def dl_add_def dl_clear_def Let_def new_bw_def)
  have "bw_inv cpus dl_b (ps[i := ?q])" if "new_bw = se_bw (se p)"
  proof (rule bw_inv_replace [OF assms(1,2) refl _ total(2)])
    have "admitted p = unat new_bw" using that assms(7) by (auto simp: admitted_def)
    then show "unat (dlb_total dl_b) = unat (dlb_total dl_b) - admitted (ps ! i) + admitted ?q"
      using total(1) new by (simp add: p_def [symmetric])
  qed
  moreover have "bw_inv cpus (dl_b\<lparr>dlb_total := dlb_total dl_b - old + new_bw\<rparr>) (ps[i := ?q])"
    if "\<not> dl_overflow_bw dl_b cpus old new_bw"
    using that ov total(1) old by (intro bw_inv_replace [OF assms(1,2)]) (simp_all add: new p_def [symmetric])
  ultimately show ?thesis using assms(8) same unfolding res by (auto split: if_splits)
qed


definition fresh_task :: dl_task where
  "fresh_task = \<lparr>is_dl = False, se = \<lparr>dl_runtime = 0, dl_deadline = 0, dl_period = 0, se_bw = 0, se_runtime = 0,
     se_deadline = 0, se_flags = 0, dl_throttled = False, dl_new = False, dl_boosted = False\<rparr>\<rparr>"

text \<open>The parameters \<^verbatim>\<open>test-dl.c\<close> asks for, as the system call of the patch takes them.\<close>

definition test_dl_param :: sched_param2 where
  "test_dl_param = \<lparr>sched_priority = 0, sched_flags = 0, sched_runtime = sa_runtime run_deadline_attr,
     sched_deadline = sa_deadline run_deadline_attr, sched_period = sa_period run_deadline_attr\<rparr>"

lemma test_dl_param_ok: "checkparam_dl test_dl_param \<and> plain_params test_dl_param \<and>
    to_ratio (sched_period test_dl_param) (sched_runtime test_dl_param) = 349525"
proof -
  have v: "sched_runtime test_dl_param = 10000000" "sched_deadline test_dl_param = 30000000" "sched_period test_dl_param = 30000000"
    by (simp_all add: test_dl_param_def run_deadline_attr_def)
  have "push_bit (10 - 1) (2 :: u64) = 1024" by code_simp
  then show ?thesis by (simp add: checkparam_dl_def plain_params_def to_ratio_def v DL_SCALE_def RUNTIME_INF_def push_bit_eq_mult signed_order)
qed


section \<open>Parameters that escape the check\<close>

lemma replenish_loop_stuck:
  assumes "dl_runtime pi_se = 2 ^ 63" and "se_runtime d = 0 \<or> se_runtime d = 2 ^ 63"
  shows "replenish_loop pi_se d = None"
proof -
  have "dl_runtime pi_se = 2 ^ 63 \<longrightarrow> se_runtime d \<noteq> 0 \<and> se_runtime d \<noteq> 2 ^ 63" if "replenish_loop pi_se d = Some r" for r
  proof (rule replenish_loop.raw_induct [OF _ that])
    fix loop :: "sched_dl_entity \<Rightarrow> sched_dl_entity \<Rightarrow> sched_dl_entity option" and pi_se d r :: sched_dl_entity
    let ?d = "d\<lparr>se_deadline := se_deadline d + dl_period pi_se, se_runtime := se_runtime d + dl_runtime pi_se\<rparr>"
    assume IH: "\<And>pi_se d r. loop pi_se d = Some r \<Longrightarrow>
        dl_runtime pi_se = 2 ^ 63 \<longrightarrow> se_runtime d \<noteq> 0 \<and> se_runtime d \<noteq> 2 ^ 63"
      and run: "(if sint (se_runtime d) \<le> 0 then loop pi_se ?d else Some d) = Some r"
    have "sint (2 ^ 63 :: u64) < 0" by simp
    then show "dl_runtime pi_se = 2 ^ 63 \<longrightarrow> se_runtime d \<noteq> 0 \<and> se_runtime d \<noteq> 2 ^ 63"
      using run IH [of pi_se ?d r] by (auto split: if_splits)
  qed
  then show ?thesis using assms by (cases "replenish_loop pi_se d") auto
qed

definition hang_param :: sched_param2 where
  "hang_param = \<lparr>sched_priority = 0, sched_flags = 0, sched_runtime = 2 ^ 63, sched_deadline = 2 ^ 63, sched_period = 2 ^ 63\<rparr>"

text \<open>
  C17. Parameters that hang the processor: with runtime, deadline and period \<open>2 ^ 63\<close> the check passes and
  the admission takes the task in with bandwidth 0, whatever is allocated already; when the clock
  has not moved since the first instance was set up, \<^verbatim>\<open>update_curr_dl\<close> finds the budget gone and the
  deadline missed, and the loop of \<^verbatim>\<open>replenish_dl_entity\<close> never ends.
\<close>

theorem deadline_params_can_hang:
  assumes "\<And>x. x \<le> - 1000 \<Longrightarrow> to_us x < 0" and "enabled \<Longrightarrow> spans \<and> dlb_bw dl_b \<noteq> 0"
  shows "setscheduler_dl cpus enabled spans fresh_task True hang_param dl_b = (0, \<lparr>is_dl = True, se = setparam_dl (se fresh_task) hang_param\<rparr>, dl_b) \<and>
   (let e = setparam_dl (se fresh_task) hang_param in
    update_curr_dl to_us clock 0 active pi (update_dl_entity clock e e) = None)"
proof
  have "push_bit 20 (2 ^ 63 :: u64) = 0" by code_simp
  then have r: "to_ratio (2 ^ 63) (2 ^ 63) = 0" by (simp add: to_ratio_def RUNTIME_INF_def)
  have "push_bit 9 (2 :: u64) = 1024" by code_simp
  then show "setscheduler_dl cpus enabled spans fresh_task True hang_param dl_b =
      (0, \<lparr>is_dl = True, se = setparam_dl (se fresh_task) hang_param\<rparr>, dl_b)"
    using r assms(2) by (simp add: setscheduler_dl_def checkparam_dl_def hang_param_def DL_SCALE_def dl_overflow_def fresh_task_def)
  define e where "e = setparam_dl (se fresh_task) hang_param"
  define d where "d = (update_dl_entity clock e e)\<lparr>se_runtime := 0\<rparr>"
  have s: "sint (2 ^ 63 :: u64) < 0" by simp
  have us: "to_us (sint (2 ^ 63 :: u64)) < 0" by (rule assms(1)) simp
  have "dl_time_before (clock + 2 ^ 63) clock" by (simp add: dl_time_before_def)
  then have "dl_runtime_exceeded clock ((update_dl_entity clock e e)\<lparr>se_runtime := se_runtime (update_dl_entity clock e e) - 0\<rparr>) = (True, d)"
    by (simp add: dl_runtime_exceeded_def d_def e_def update_dl_entity_def setup_new_dl_entity_def setparam_dl_def hang_param_def Let_def)
  then have "update_curr_dl to_us clock 0 active pi (update_dl_entity clock e e) = enqueue_task_dl clock pi d True"
    using us by (simp add: update_curr_dl_def start_dl_timer_def d_def e_def update_dl_entity_def setup_new_dl_entity_def setparam_dl_def hang_param_def Let_def)
  moreover have "enqueue_task_dl clock pi d True = None"
    using replenish_loop_stuck [of d d]
    by (simp add: enqueue_task_dl_def enqueue_dl_entity_def replenish_dl_entity_def d_def e_def update_dl_entity_def
        setup_new_dl_entity_def setparam_dl_def hang_param_def fresh_task_def Let_def split: option.splits)
  ultimately show "let e = setparam_dl (se fresh_task) hang_param in
    update_curr_dl to_us clock 0 active pi (update_dl_entity clock e e) = None"
    by (simp add: e_def)
qed

theorem deadline_params_can_hang_witness:
  "setscheduler_dl 4 True True fresh_task True hang_param \<lparr>dlb_bw = 398458, dlb_total = 0\<rparr> =
     (0, \<lparr>is_dl = True, se = setparam_dl (se fresh_task) hang_param\<rparr>, \<lparr>dlb_bw = 398458, dlb_total = 0\<rparr>) \<and>
   (let e = setparam_dl (se fresh_task) hang_param in
    update_curr_dl (\<lambda>x. x div 1000) 12345 0 True None (update_dl_entity 12345 e e) = None)"
  by (rule deadline_params_can_hang) simp_all

text \<open>
  A period of 0 stands for the deadline, but the admission divides by it: the task is taken in for
  nothing, and what its death gives back was never taken.
\<close>

lemma zero_period_escapes_admission:
  defines "p \<equiv> fresh_task\<lparr>is_dl := True, se := setparam_dl (se fresh_task) (test_dl_param\<lparr>sched_period := 0\<rparr>)\<rparr>"
  shows "(enabled \<Longrightarrow> spans \<and> dlb_bw dl_b \<noteq> 0) \<Longrightarrow>
      setscheduler_dl cpus enabled spans fresh_task True (test_dl_param\<lparr>sched_period := 0\<rparr>) dl_b = (0, p, dl_b)"
    and "se_bw (se p) = 349525" and "dlb_total (task_dead_dl p dl_b) = dlb_total dl_b - 349525"
proof -
  have ok: "checkparam_dl (test_dl_param\<lparr>sched_period := 0\<rparr>)" using test_dl_param_ok by (simp add: checkparam_dl_def)
  have z: "to_ratio 0 (sched_runtime test_dl_param) = 0"
    by (simp add: to_ratio_def test_dl_param_def run_deadline_attr_def RUNTIME_INF_def)
  show "setscheduler_dl cpus enabled spans fresh_task True (test_dl_param\<lparr>sched_period := 0\<rparr>) dl_b = (0, p, dl_b)"
    if "enabled \<Longrightarrow> spans \<and> dlb_bw dl_b \<noteq> 0"
    using that ok z by (simp add: setscheduler_dl_def dl_overflow_def fresh_task_def p_def)
  have "sched_deadline test_dl_param = sched_period test_dl_param" by (simp add: test_dl_param_def run_deadline_attr_def)
  then show b: "se_bw (se p) = 349525" using test_dl_param_ok by (simp add: p_def setparam_dl_def Let_def)
  show "dlb_total (task_dead_dl p dl_b) = dlb_total dl_b - 349525" by (simp add: task_dead_dl_def b)
qed

text \<open>
  A task that leaves the class keeps its old bandwidth in its entity; when it returns with the same
  parameters the admission takes this for no change, and the total no longer counts it.
\<close>

lemma returning_task_not_counted:
  assumes "\<not> is_dl p" and "se_bw (se p) = to_ratio (sched_period prm) (sched_runtime prm)" and "checkparam_dl prm"
    and "enabled \<Longrightarrow> spans \<and> dlb_bw dl_b \<noteq> 0"
  shows "setscheduler_dl cpus enabled spans p True prm dl_b = (0, p\<lparr>is_dl := True, se := setparam_dl (se p) prm\<rparr>, dl_b)"
  using assms by (simp add: setscheduler_dl_def dl_overflow_def)

lemma leaving_keeps_bandwidth:
  assumes "is_dl p"
  shows "\<exists>b. setscheduler_dl cpus enabled spans p False prm dl_b = (0, p\<lparr>is_dl := False\<rparr>, b) \<and> dlb_total b = dlb_total dl_b - se_bw (se p)"
  using assms by (simp add: setscheduler_dl_def dl_overflow_def dl_clear_def Let_def)

text \<open>What \<^verbatim>\<open>__getparam_dl\<close> reports is what was set, with the period filled in.\<close>

lemma getparam_setparam:
  "getparam_dl (sched_priority prm) (setparam_dl dl_se prm) =
     (if sched_period prm = 0 then prm\<lparr>sched_period := sched_deadline prm\<rparr> else prm)"
  by (cases prm) (simp add: getparam_dl_def setparam_dl_def Let_def)

section \<open>Yielding\<close>

text \<open>
  After \<^verbatim>\<open>yield_task_dl\<close> by a task with budget left, and with the timer started, the task is
  throttled for good: the timer's function leaves an entity with \<^verbatim>\<open>dl_new\<close> as it is, and
  \<^verbatim>\<open>enqueue_task_dl\<close> leaves a throttled one as it is, at any later time.
\<close>

lemma yield_is_never_replenished:
  assumes "0 < sint (se_runtime dl_se)" and "\<not> dl_boosted dl_se" and "\<not> dl_time_before (se_deadline dl_se) clock"
    and "\<And>x. 0 \<le> x \<Longrightarrow> 0 \<le> to_us x"
  shows "\<exists>d. yield_task_dl to_us clock 0 True pi dl_se = Some (Returns d) \<and> dl_throttled d \<and> se_runtime d = 0 \<and>
    (\<forall>clock' on_rq pi'. dl_task_timer clock' on_rq pi' d = Some (Returns d)) \<and>
    (\<forall>clock' pi' replenish. enqueue_task_dl clock' pi' d replenish = Some (Returns d))"
proof -
  let ?d = "dl_se\<lparr>dl_new := True, se_runtime := 0, dl_throttled := True\<rparr>"
  have "\<not> to_us (sint (se_deadline dl_se - clock)) < 0" using assms(3,4) by (simp add: dl_time_before_def not_less)
  then have "yield_task_dl to_us clock 0 True pi dl_se = Some (Returns ?d)"
    using assms by (simp add: yield_task_dl_def update_curr_dl_def dl_runtime_exceeded_def start_dl_timer_def Let_def)
  then show ?thesis by (intro exI [of _ ?d]) (simp add: dl_task_timer_def enqueue_task_dl_def)
qed

lemma yield_is_never_replenished_witness:
  "let e = \<lparr>dl_runtime = 10, dl_deadline = 30, dl_period = 40, se_bw = 0, se_runtime = 5, se_deadline = 100,
            se_flags = 0, dl_throttled = False, dl_new = False, dl_boosted = False\<rparr> in
   (\<exists>d. yield_task_dl (\<lambda>x. x div 1000) 80 0 True None e = Some (Returns d) \<and> dl_throttled d \<and> se_runtime d = 0 \<and>
     (\<forall>clock' on_rq pi'. dl_task_timer clock' on_rq pi' d = Some (Returns d)) \<and>
     (\<forall>clock' pi' replenish. enqueue_task_dl clock' pi' d replenish = Some (Returns d)))"
  unfolding Let_def by (rule yield_is_never_replenished) (simp_all add: dl_time_before_less)

end
