(* ===== verification/Deadline_Sysctl.thy ===== *)
theory Deadline_Sysctl
  imports Deadline_Server
begin

text \<open>
  The system-wide bandwidth settings of \<^verbatim>\<open>sched-dl/patch-dl/sched-add-sched_dl.patch\<close>
  (\<^verbatim>\<open>kernel/sched/core.c\<close> and \<^verbatim>\<open>deadline.c\<close>): the share of the processors that deadline tasks may use,
  how it is computed from the two sysctl values, and the handlers that change them. The state
  is the three sysctl values, the cached runtime \<^verbatim>\<open>def_dl_bandwidth.dl_runtime\<close>, and the root
  domains with the processors' map into them. What \<^verbatim>\<open>proc_dointvec\<close> read is the handlers' argument;
  a read of the file is \<^term>\<open>None\<close>. The locks are left out: each handler runs under its mutex.
\<close>

section \<open>Values\<close>

record dl_sysctl =
  rt_period_us :: u32           \<comment> \<open>\<^verbatim>\<open>sysctl_sched_rt_period\<close>, unsigned\<close>
  rt_runtime_us :: u32          \<comment> \<open>\<^verbatim>\<open>sysctl_sched_rt_runtime\<close>, signed\<close>
  dl_runtime_us :: u32          \<comment> \<open>\<^verbatim>\<open>sysctl_sched_dl_runtime\<close>, signed\<close>
  def_dl_runtime :: u64
  possible_cpus :: "nat list"
  rd_of :: "nat \<Rightarrow> nat"
  rd_dl_bw :: "nat \<Rightarrow> dl_bw"

definition global_rt_period :: "dl_sysctl \<Rightarrow> u64" where
  "global_rt_period g = ucast (rt_period_us g) * 1000"

definition global_rt_runtime :: "dl_sysctl \<Rightarrow> u64" where
  "global_rt_runtime g = (if sint (rt_runtime_us g) < 0 then RUNTIME_INF else scast (rt_runtime_us g) * 1000)"

definition global_dl_runtime :: "dl_sysctl \<Rightarrow> u64" where
  "global_dl_runtime g = (if sint (dl_runtime_us g) < 0 then RUNTIME_INF else scast (dl_runtime_us g) * 1000)"

definition dl_bandwidth_enabled :: "dl_sysctl \<Rightarrow> bool" where
  "dl_bandwidth_enabled g \<longleftrightarrow> 0 \<le> sint (dl_runtime_us g)"

definition actual_dl_runtime :: "dl_sysctl \<Rightarrow> u64" where
  "actual_dl_runtime g =
     (let dl_runtime = global_dl_runtime g; rt_runtime = global_rt_runtime g; period = global_rt_period g in
      if dl_runtime = RUNTIME_INF then RUNTIME_INF else dl_runtime * rt_runtime div period)"

definition dl_bw_of :: "dl_sysctl \<Rightarrow> nat \<Rightarrow> dl_bw" where
  "dl_bw_of g i = rd_dl_bw g (rd_of g i)"

section \<open>Start\<close>

definition init_dl_bw :: "dl_sysctl \<Rightarrow> dl_bw" where
  "init_dl_bw g =
     \<lparr>dlb_bw = (if global_dl_runtime g = RUNTIME_INF then - 1
                else to_ratio (global_rt_period g) (global_dl_runtime g)), dlb_total = 0\<rparr>"

definition init_dl_bandwidth :: "u64 \<Rightarrow> dl_sysctl \<Rightarrow> dl_sysctl" where
  "init_dl_bandwidth runtime g = g\<lparr>def_dl_runtime := runtime\<rparr>"

text \<open>
  What \<^verbatim>\<open>sched_init\<close> leaves, with the defaults of a period of one second, 95 percent of it for real-time
  tasks, and 40 percent of that for deadline tasks.
\<close>

definition sysctl_start :: "nat list \<Rightarrow> (nat \<Rightarrow> nat) \<Rightarrow> dl_sysctl" where
  "sysctl_start cpus rd =
     (let g = \<lparr>rt_period_us = 1000000, rt_runtime_us = 950000, dl_runtime_us = 400000, def_dl_runtime = 0,
               possible_cpus = cpus, rd_of = rd, rd_dl_bw = (\<lambda>_. \<lparr>dlb_bw = 0, dlb_total = 0\<rparr>)\<rparr>;
          g = init_dl_bandwidth (actual_dl_runtime g) g in
      g\<lparr>rd_dl_bw := (\<lambda>_. init_dl_bw g)\<rparr>)"

section \<open>The handlers\<close>

text \<open>The loop of \<^verbatim>\<open>check_dl_bw\<close> over the processors still to do.\<close>

fun check_dl_cpus :: "dl_sysctl \<Rightarrow> u64 \<Rightarrow> nat list \<Rightarrow> int" where
  "check_dl_cpus g new_bw [] = 0"
| "check_dl_cpus g new_bw (i # is) =
     (if new_bw < dlb_total (dl_bw_of g i) then - EBUSY else check_dl_cpus g new_bw is)"

definition check_dl_bw :: "dl_sysctl \<Rightarrow> int" where
  "check_dl_bw g = check_dl_cpus g (to_ratio (global_rt_period g) (def_dl_runtime g)) (possible_cpus g)"

fun set_dl_cpus :: "u64 \<Rightarrow> nat list \<Rightarrow> dl_sysctl \<Rightarrow> dl_sysctl" where
  "set_dl_cpus new_bw [] g = g"
| "set_dl_cpus new_bw (i # is) g =
     set_dl_cpus new_bw is (g\<lparr>rd_dl_bw := (rd_dl_bw g)(rd_of g i := (dl_bw_of g i)\<lparr>dlb_bw := new_bw\<rparr>)\<rparr>)"

definition update_dl_bw :: "dl_sysctl \<Rightarrow> dl_sysctl" where
  "update_dl_bw g =
     (let g = g\<lparr>def_dl_runtime := actual_dl_runtime g\<rparr>;
          new_bw = (if def_dl_runtime g = RUNTIME_INF \<or> global_rt_runtime g = RUNTIME_INF then - 1
                    else to_ratio (global_rt_period g) (def_dl_runtime g)) in
      set_dl_cpus new_bw (possible_cpus g) g)"

text \<open>The function returns \<^verbatim>\<open>bool\<close>, so its \<^verbatim>\<open>-EINVAL\<close> becomes 1.\<close>

definition sched_dl_global_constraints_bool :: "u64 \<Rightarrow> u64 \<Rightarrow> int" where
  "sched_dl_global_constraints_bool runtime period =
     (if period = 0 \<or> runtime \<noteq> RUNTIME_INF \<and> period < runtime then 1 else 0)"

definition sched_dl_global_constraints :: "dl_sysctl \<Rightarrow> int" where
  "sched_dl_global_constraints g =
     (let ret = sched_dl_global_constraints_bool (def_dl_runtime g) (global_rt_period g) in
      if ret \<noteq> 0 then ret else check_dl_bw g)"

definition sched_dl_handler :: "u32 option \<Rightarrow> dl_sysctl \<Rightarrow> int \<times> dl_sysctl" where
  "sched_dl_handler write g =
     (case write of
        None \<Rightarrow> (0, g)
      | Some v \<Rightarrow>
          let old_runtime = dl_runtime_us g; g = g\<lparr>dl_runtime_us := v\<rparr>; ret = sched_dl_global_constraints g in
          if ret \<noteq> 0 then (ret, g\<lparr>dl_runtime_us := old_runtime\<rparr>) else (0, update_dl_bw g))"

text \<open>Without real-time groups; the real-time run queues it sets are the kernel's.\<close>

definition sched_rt_global_constraints :: "dl_sysctl \<Rightarrow> int" where
  "sched_rt_global_constraints g =
     (if rt_period_us g = 0 then - EINVAL else if rt_runtime_us g = 0 then - EBUSY else check_dl_bw g)"

text \<open>The two files of the real-time class share one handler: the new period or the new runtime.\<close>

definition sched_rt_handler :: "(u32 + u32) option \<Rightarrow> dl_sysctl \<Rightarrow> int \<times> dl_sysctl" where
  "sched_rt_handler write g =
     (case write of
        None \<Rightarrow> (0, g)
      | Some v \<Rightarrow>
          let old_period = rt_period_us g; old_runtime = rt_runtime_us g;
              g = (case v of Inl p \<Rightarrow> g\<lparr>rt_period_us := p\<rparr> | Inr r \<Rightarrow> g\<lparr>rt_runtime_us := r\<rparr>);
              ret = sched_rt_global_constraints g in
          if ret \<noteq> 0 then (ret, g\<lparr>rt_period_us := old_period, rt_runtime_us := old_runtime\<rparr>)
          else (0, update_dl_bw g))"

section \<open>Lemmas\<close>

lemma check_dl_cpus_iff: "check_dl_cpus g b is = (if \<exists>i \<in> set is. b < dlb_total (dl_bw_of g i) then - EBUSY else 0)"
  by (induction "is") auto

lemma set_dl_cpus_fields [simp]:
  "rt_period_us (set_dl_cpus b is g) = rt_period_us g" "rt_runtime_us (set_dl_cpus b is g) = rt_runtime_us g"
  "dl_runtime_us (set_dl_cpus b is g) = dl_runtime_us g" "def_dl_runtime (set_dl_cpus b is g) = def_dl_runtime g"
  "possible_cpus (set_dl_cpus b is g) = possible_cpus g" "rd_of (set_dl_cpus b is g) = rd_of g"
  by (induction b "is" g rule: set_dl_cpus.induct) simp_all

lemma set_dl_cpus_bw:
  "rd_dl_bw (set_dl_cpus b is g) d = (if d \<in> rd_of g ` set is then (rd_dl_bw g d)\<lparr>dlb_bw := b\<rparr> else rd_dl_bw g d)"
  by (induction b "is" g rule: set_dl_cpus.induct) (auto simp: dl_bw_of_def)

lemmas global_defs = global_rt_period_def global_rt_runtime_def global_dl_runtime_def

lemma actual_dl_runtime_cong:
  "rt_period_us g = rt_period_us h \<Longrightarrow> rt_runtime_us g = rt_runtime_us h \<Longrightarrow> dl_runtime_us g = dl_runtime_us h \<Longrightarrow>
   actual_dl_runtime g = actual_dl_runtime h"
  by (simp add: actual_dl_runtime_def global_defs Let_def cong: if_cong)

text \<open>The bandwidth that the values of a state stand for.\<close>

definition settled_bw :: "dl_sysctl \<Rightarrow> u64" where
  "settled_bw g =
     (if actual_dl_runtime g = RUNTIME_INF \<or> global_rt_runtime g = RUNTIME_INF then - 1
      else to_ratio (global_rt_period g) (actual_dl_runtime g))"

lemma update_dl_bw_result:
  "def_dl_runtime (update_dl_bw g) = actual_dl_runtime g" "actual_dl_runtime (update_dl_bw g) = actual_dl_runtime g"
  "settled_bw (update_dl_bw g) = settled_bw g" "possible_cpus (update_dl_bw g) = possible_cpus g"
  "rd_of (update_dl_bw g) = rd_of g" "dl_runtime_us (update_dl_bw g) = dl_runtime_us g"
  "i \<in> set (possible_cpus g) \<Longrightarrow> dl_bw_of (update_dl_bw g) i = (dl_bw_of g i)\<lparr>dlb_bw := settled_bw g\<rparr>"
  by (simp_all add: update_dl_bw_def settled_bw_def actual_dl_runtime_def global_defs Let_def dl_bw_of_def set_dl_cpus_bw)

text \<open>The defaults: 38 percent are 398458, 40 percent are 419430.\<close>

lemma sysctl_ratio: "to_ratio 1000000000 380000000 = 398458" "to_ratio 1000000000 400000000 = 419430"
  by (simp_all add: to_ratio_def RUNTIME_INF_def)

lemma sysctl_values:
  "rt_period_us g = 1000000 \<Longrightarrow> rt_runtime_us g = 950000 \<Longrightarrow> dl_runtime_us g = 400000 \<Longrightarrow>
   actual_dl_runtime g = 380000000"
  by (simp add: actual_dl_runtime_def global_defs RUNTIME_INF_def)

lemma sysctl_start_values [simp]:
  "rt_period_us (sysctl_start cpus rd) = 1000000" "rt_runtime_us (sysctl_start cpus rd) = 950000"
  "dl_runtime_us (sysctl_start cpus rd) = 400000" "def_dl_runtime (sysctl_start cpus rd) = 380000000"
  "possible_cpus (sysctl_start cpus rd) = cpus" "dl_bw_of (sysctl_start cpus rd) i = \<lparr>dlb_bw = 419430, dlb_total = 0\<rparr>"
  by (simp_all add: sysctl_start_def Let_def init_dl_bandwidth_def sysctl_values dl_bw_of_def init_dl_bw_def
      global_rt_period_def global_dl_runtime_def RUNTIME_INF_def sysctl_ratio)

section \<open>The handlers keep the values consistent\<close>

text \<open>
  A run of the handlers from the start: the values written to the three files, in order; the
  admission and the end of tasks in between change the totals only.
\<close>

inductive sysctl_step :: "dl_sysctl \<Rightarrow> dl_sysctl \<Rightarrow> bool" where
  dl_write: "sysctl_step g (snd (sched_dl_handler v g))"
| rt_write: "sysctl_step g (snd (sched_rt_handler w g))"
| totals: "(\<And>d. dlb_bw (f d) = dlb_bw (rd_dl_bw g d)) \<Longrightarrow> sysctl_step g (g\<lparr>rd_dl_bw := f\<rparr>)"

definition sysctl_inv :: "dl_sysctl \<Rightarrow> bool" where
  "sysctl_inv g \<longleftrightarrow> rt_period_us g \<noteq> 0 \<and> def_dl_runtime g = actual_dl_runtime g \<and>
     ((\<forall>i \<in> set (possible_cpus g). dlb_bw (dl_bw_of g i) = settled_bw g) \<or>
      (\<forall>i \<in> set (possible_cpus g). dlb_bw (dl_bw_of g i) = dlb_bw (init_dl_bw (sysctl_start [] id))) \<and>
        rt_period_us g = 1000000 \<and> rt_runtime_us g = 950000 \<and> dl_runtime_us g = 400000)"

lemma sysctl_inv_start: "sysctl_inv (sysctl_start cpus rd)"
  by (simp add: sysctl_inv_def sysctl_values init_dl_bw_def global_rt_period_def global_dl_runtime_def RUNTIME_INF_def
      sysctl_ratio)

lemma sysctl_inv_update:
  "rt_period_us g \<noteq> 0 \<Longrightarrow> sysctl_inv (update_dl_bw g)"
  by (simp add: sysctl_inv_def update_dl_bw_result) (simp add: update_dl_bw_def Let_def)

lemma sysctl_inv_step: "sysctl_step g g' \<Longrightarrow> sysctl_inv g \<Longrightarrow> sysctl_inv g'"
proof (induction rule: sysctl_step.induct)
  case (dl_write g v)
  then show ?case
    by (auto simp: sched_dl_handler_def Let_def sysctl_inv_def [of g] intro!: sysctl_inv_update split: option.splits)
next
  case (rt_write g w)
  have "rt_period_us h \<noteq> 0" if "sched_rt_global_constraints h = 0" for h
    using that by (auto simp: sched_rt_global_constraints_def split: if_splits)
  then show ?case using rt_write
    by (auto simp: sched_rt_handler_def Let_def intro!: sysctl_inv_update split: option.splits sum.splits)
next
  case (totals f g)
  have "actual_dl_runtime (g\<lparr>rd_dl_bw := f\<rparr>) = actual_dl_runtime g" by (rule actual_dl_runtime_cong) simp_all
  then show ?case using totals by (auto simp: sysctl_inv_def settled_bw_def global_defs dl_bw_of_def)
qed

lemma sysctl_inv_reachable: "sysctl_step\<^sup>*\<^sup>* (sysctl_start cpus rd) g \<Longrightarrow> sysctl_inv g"
  by (induction rule: rtranclp_induct) (auto intro: sysctl_inv_start sysctl_inv_step)

lemma global_rt_period_nonzero: "rt_period_us g \<noteq> 0 \<Longrightarrow> global_rt_period g \<noteq> 0"
proof -
  assume "rt_period_us g \<noteq> 0"
  then have "0 < unat (rt_period_us g)" by (simp add: unat_gt_0)
  moreover have "unat (global_rt_period g) = unat (rt_period_us g) * 1000"
    using unat_less_pow_32 [of "rt_period_us g"] by (simp add: global_rt_period_def unat_word_ariths)
  ultimately show ?thesis by auto
qed

lemma sched_dl_handler_accepts:
  "fst (sched_dl_handler (Some v) g) = 0 \<Longrightarrow> snd (sched_dl_handler (Some v) g) = update_dl_bw (g\<lparr>dl_runtime_us := v\<rparr>)"
  by (auto simp: sched_dl_handler_def Let_def split: if_splits)

lemma sched_dl_handler_result: "fst (sched_dl_handler (Some v) g) = sched_dl_global_constraints g"
proof -
  have "sched_dl_global_constraints (g\<lparr>dl_runtime_us := v\<rparr>) = sched_dl_global_constraints g"
    by (simp add: sched_dl_global_constraints_def check_dl_bw_def check_dl_cpus_iff global_rt_period_def dl_bw_of_def Let_def)
  then show ?thesis by (simp add: sched_dl_handler_def Let_def)
qed

lemma sched_dl_handler_rejects:
  "fst (sched_dl_handler (Some v) g) \<noteq> 0 \<Longrightarrow> snd (sched_dl_handler (Some v) g) = g"
  by (auto simp: sched_dl_handler_def Let_def split: if_splits)

section \<open>Properties\<close>



text \<open>
  The check of a new \<^verbatim>\<open>sched_dl_runtime_us\<close> looks at the old value: whether a write succeeds
  does not depend on what is written. So as soon as any write succeeds, writing 0 does too, and
  leaves the bandwidth at 0 below what is allocated; and as soon as one root domain has more
  allocated than one processor's share, which admission allows when it has several
  processors, every write fails, also one that would raise the share or lift the limit.
\<close>

lemma dl_sysctl_checks_old_value:
  assumes "i \<in> set (possible_cpus g)"
  shows "fst (sched_dl_handler (Some v) g) = fst (sched_dl_handler (Some u) g) \<and>
    (fst (sched_dl_handler (Some v) g) = 0 \<and> global_rt_runtime g \<noteq> RUNTIME_INF \<longrightarrow>
       dl_bw_of (snd (sched_dl_handler (Some 0) g)) i = (dl_bw_of g i)\<lparr>dlb_bw := 0\<rparr>) \<and>
    (to_ratio (global_rt_period g) (def_dl_runtime g) < dlb_total (dl_bw_of g i) \<longrightarrow>
       fst (sched_dl_handler (Some v) g) \<noteq> 0 \<and> snd (sched_dl_handler (Some v) g) = g)"
proof (intro conjI impI)
  show "fst (sched_dl_handler (Some v) g) = fst (sched_dl_handler (Some u) g)"
    by (simp add: sched_dl_handler_result)
  assume a: "fst (sched_dl_handler (Some v) g) = 0 \<and> global_rt_runtime g \<noteq> RUNTIME_INF"
  then have "snd (sched_dl_handler (Some 0) g) = update_dl_bw (g\<lparr>dl_runtime_us := 0\<rparr>)"
    by (intro sched_dl_handler_accepts) (simp add: sched_dl_handler_result)
  moreover have "settled_bw (g\<lparr>dl_runtime_us := 0\<rparr>) = 0"
  proof -
    have "global_rt_runtime (g\<lparr>dl_runtime_us := 0\<rparr>) = global_rt_runtime g" "global_dl_runtime (g\<lparr>dl_runtime_us := 0\<rparr>) = 0"
      by (simp_all add: global_rt_runtime_def global_dl_runtime_def)
    with a show ?thesis by (simp add: settled_bw_def actual_dl_runtime_def to_ratio_def RUNTIME_INF_def Let_def)
  qed
  ultimately show "dl_bw_of (snd (sched_dl_handler (Some 0) g)) i = (dl_bw_of g i)\<lparr>dlb_bw := 0\<rparr>"
    using update_dl_bw_result(7) [of i "g\<lparr>dl_runtime_us := 0\<rparr>"] assms by (simp add: dl_bw_of_def)
next
  assume "to_ratio (global_rt_period g) (def_dl_runtime g) < dlb_total (dl_bw_of g i)"
  then show ne: "fst (sched_dl_handler (Some v) g) \<noteq> 0"
    using assms by (auto simp: sched_dl_handler_result sched_dl_global_constraints_def check_dl_bw_def check_dl_cpus_iff Let_def)
  then show "snd (sched_dl_handler (Some v) g) = g" by (rule sched_dl_handler_rejects)
qed

text \<open>A root domain of two processors with 57 percent of one of them allocated, and one with 29 percent.\<close>

definition sysctl_demo :: "u64 \<Rightarrow> dl_sysctl" where
  "sysctl_demo tot = (sysctl_start [0, 1] (\<lambda>_. 0))\<lparr>rd_dl_bw := (\<lambda>_. \<lparr>dlb_bw = 398458, dlb_total = tot\<rparr>)\<rparr>"

lemma sysctl_demo_values [simp]:
  "global_rt_period (sysctl_demo t) = 1000000000" "global_rt_runtime (sysctl_demo t) = 950000000"
  "def_dl_runtime (sysctl_demo t) = 380000000" "possible_cpus (sysctl_demo t) = [0, 1]"
  "dl_bw_of (sysctl_demo t) i = \<lparr>dlb_bw = 398458, dlb_total = t\<rparr>"
  by (simp_all add: sysctl_demo_def sysctl_values init_dl_bandwidth_def global_rt_period_def global_rt_runtime_def
      dl_bw_of_def sysctl_start_def [of "[0, 1]"] Let_def)

lemma dl_sysctl_checks_old_value_witness:
  "fst (sched_dl_handler (Some (- 1)) (sysctl_demo 600000)) \<noteq> 0 \<and>
   dl_bw_of (snd (sched_dl_handler (Some 0) (sysctl_demo 300000))) 1 = \<lparr>dlb_bw = 0, dlb_total = 300000\<rparr>"
proof (intro conjI)
  show "fst (sched_dl_handler (Some (- 1)) (sysctl_demo 600000)) \<noteq> 0"
    using dl_sysctl_checks_old_value [of 1 "sysctl_demo 600000" "- 1"] by (simp add: sysctl_ratio)
  have "fst (sched_dl_handler (Some 0) (sysctl_demo 300000)) = 0"
    by (simp add: sched_dl_handler_result sched_dl_global_constraints_def sched_dl_global_constraints_bool_def
        check_dl_bw_def check_dl_cpus_iff sysctl_ratio Let_def)
  then show "dl_bw_of (snd (sched_dl_handler (Some 0) (sysctl_demo 300000))) 1 = \<lparr>dlb_bw = 0, dlb_total = 300000\<rparr>"
    using dl_sysctl_checks_old_value [of 1 "sysctl_demo 300000" 0 0] by (simp add: RUNTIME_INF_def)
qed

lemma unat_scast_nonneg:
  assumes "0 \<le> sint (x :: u32)"
  shows "unat (scast x :: u64) = unat x" "unat x < 2 ^ 31"
proof -
  show lt: "unat x < 2 ^ 31"
  proof (rule ccontr)
    assume "\<not> unat x < 2 ^ 31"
    then have "sint x = int (unat x) - 2 ^ 32" by (intro sint_large) simp
    then show False using assms uint_bounded [of x] by simp
  qed
  show "unat (scast x :: u64) = unat x" using ulong_of_int_nonneg [OF lt] by (simp add: ulong_of_int_def)
qed

text \<open>
  For a period of at most four seconds of which the real-time share and the deadline share are
  parts, no step of the computation overflows: the runtime is the product of the two shares
  of the period, rounded down, the bandwidth is its ratio to the period in units of
  \<open>2 ^ -20\<close>, rounded down, and it is at most the share of the real-time tasks.
\<close>

lemma sysctl_bandwidth_exact:
  assumes p: "0 < unat (rt_period_us g)" "unat (rt_period_us g) \<le> 4000000"
    and rt: "0 \<le> sint (rt_runtime_us g)" "unat (rt_runtime_us g) \<le> unat (rt_period_us g)"
    and dl: "0 \<le> sint (dl_runtime_us g)" "unat (dl_runtime_us g) \<le> unat (rt_period_us g)"
  shows "let P = unat (rt_period_us g) * 1000; R = unat (rt_runtime_us g) * 1000; D = unat (dl_runtime_us g) * 1000 in
     unat (actual_dl_runtime g) = D * R div P \<and>
     unat (settled_bw g) = D * R div P * 2 ^ 20 div P \<and> unat (settled_bw g) \<le> R * 2 ^ 20 div P"
proof -
  define P R D where "P = unat (rt_period_us g) * 1000" "R = unat (rt_runtime_us g) * 1000" "D = unat (dl_runtime_us g) * 1000"
  have le: "D \<le> P" "R \<le> P" "0 < P" "P \<le> 4000000000" using assms by (simp_all add: P_R_D_def)
  have P: "unat (global_rt_period g) = P" using p by (simp add: global_rt_period_def unat_word_ariths P_R_D_def)
  have R: "unat (global_rt_runtime g) = R"
    using rt p unat_scast_nonneg [OF rt(1)] by (simp add: global_rt_runtime_def unat_word_ariths P_R_D_def)
  have D: "unat (global_dl_runtime g) = D"
    using dl p unat_scast_nonneg [OF dl(1)] by (simp add: global_dl_runtime_def unat_word_ariths P_R_D_def)
  have inf: "unat RUNTIME_INF = 2 ^ 64 - 1" by (simp add: RUNTIME_INF_def unsigned_minus_1_eq_mask mask_eq_exp_minus_1)
  have "D * R \<le> 4000000000 * 4000000000" using le by (intro mult_le_mono) simp_all
  then have DR: "unat (global_dl_runtime g * global_rt_runtime g) = D * R" by (simp add: unat_word_ariths D R)
  have noinf: "global_dl_runtime g \<noteq> RUNTIME_INF" "global_rt_runtime g \<noteq> RUNTIME_INF"
    using D R inf le by auto
  then have act: "unat (actual_dl_runtime g) = D * R div P"
    by (simp add: actual_dl_runtime_def Let_def unat_div DR P)
  have "D * R div P \<le> P * R div P" using le by (intro div_le_mono mult_le_mono) simp_all
  then have leR: "D * R div P \<le> R" using le by simp
  then have noinf': "actual_dl_runtime g \<noteq> RUNTIME_INF" using act inf le by auto
  have "D * R div P * 2 ^ 20 \<le> 4000000000 * 2 ^ 20" using leR le by (intro mult_le_mono) simp_all
  then have "unat (push_bit 20 (actual_dl_runtime g)) = D * R div P * 2 ^ 20"
    by (simp add: push_bit_eq_mult unat_word_ariths act)
  moreover have "global_rt_period g \<noteq> 0" using P le by auto
  ultimately have "unat (settled_bw g) = D * R div P * 2 ^ 20 div P"
    using noinf noinf' by (simp add: settled_bw_def to_ratio_def unat_div P)
  moreover have "D * R div P * 2 ^ 20 div P \<le> R * 2 ^ 20 div P" using leR by (intro div_le_mono mult_le_mono) simp_all
  ultimately show ?thesis using act unfolding P_R_D_def [symmetric] Let_def by simp
qed

lemma sysctl_bandwidth_exact_witness:
  "unat (settled_bw (sysctl_start [0] id)) = 400000000 * 950000000 div 1000000000 * 2 ^ 20 div 1000000000"
  using sysctl_bandwidth_exact [of "sysctl_start [0] id"] by (simp add: Let_def)

text \<open>
  At the start the root domains have 40 percent of a processor, not the 38 percent that the first
  write to any of the files, even of the same value, gives them.
\<close>

lemma sysctl_start_bw:
  "dlb_bw (dl_bw_of (sysctl_start [0, 1] id) 0) = 419430" "settled_bw (sysctl_start [0, 1] id) = 398458"
  by (simp_all add: settled_bw_def sysctl_values global_rt_period_def global_rt_runtime_def RUNTIME_INF_def sysctl_ratio)

end
