(* ===== verification/Deadline_Budget.thy ===== *)
theory Deadline_Budget
  imports Deadline_Server
begin

text \<open>
  Temporal isolation, the promise of the constant bandwidth server: over any sequence of the
  events that touch the entity of one task (the clock tick that charges it, the bandwidth timer,
  a wake-up) the time it is charged for is paid for by the movement of its deadline. Two gaps are
  shown with it: a task whose deadline is before its period gets more than its share by sleeping
  often, and a task that blocks while throttled loses its debt.
\<close>

section \<open>Paying from a potential\<close>

text \<open>The events in order: the last state, what was used and what was allowed beyond the potential.\<close>

fun pay_run :: "('e \<Rightarrow> 's \<Rightarrow> 's option) \<Rightarrow> ('e \<Rightarrow> int) \<Rightarrow> ('e \<Rightarrow> 's \<Rightarrow> int) \<Rightarrow> 'e list \<Rightarrow> 's \<Rightarrow> ('s \<times> int \<times> int) option" where
  "pay_run exec used allowance [] s = Some (s, 0, 0)"
| "pay_run exec used allowance (e # es) s = (case exec e s of None \<Rightarrow> None
    | Some s1 \<Rightarrow> (case pay_run exec used allowance es s1 of None \<Rightarrow> None
      | Some (s', u, a) \<Rightarrow> Some (s', used e + u, allowance e s + a)))"

fun all_ok :: "('e \<Rightarrow> 's \<Rightarrow> 's option) \<Rightarrow> ('e \<Rightarrow> 's \<Rightarrow> bool) \<Rightarrow> 'e list \<Rightarrow> 's \<Rightarrow> bool" where
  "all_ok exec ok [] s = True"
| "all_ok exec ok (e # es) s = (ok e s \<and> (case exec e s of None \<Rightarrow> False | Some s1 \<Rightarrow> all_ok exec ok es s1))"

text \<open>
  A state has a potential; what an event uses, at a given price, is paid for by the growth of the
  potential and by an allowance of the event.
\<close>

locale potential =
  fixes exec :: "'e \<Rightarrow> 's \<Rightarrow> 's option"
    and ok :: "'e \<Rightarrow> 's \<Rightarrow> bool"
    and inv :: "'s \<Rightarrow> bool"
    and pot :: "'s \<Rightarrow> int"
    and price :: int
    and used :: "'e \<Rightarrow> int"
    and allowance :: "'e \<Rightarrow> 's \<Rightarrow> int"
  assumes pays: "\<lbrakk>inv s; ok e s\<rbrakk> \<Longrightarrow>
    \<exists>s'. exec e s = Some s' \<and> inv s' \<and> price * used e \<le> pot s' - pot s + price * allowance e s"
begin

lemma run_pays:
  assumes "inv s" and "all_ok exec ok es s"
  shows "\<exists>s' u a. pay_run exec used allowance es s = Some (s', u, a) \<and> inv s' \<and> price * u \<le> pot s' - pot s + price * a"
  using assms
proof (induction es arbitrary: s)
  case (Cons e es)
  obtain s1 where s1: "exec e s = Some s1" "inv s1" "price * used e \<le> pot s1 - pot s + price * allowance e s"
    using pays [OF Cons.prems(1)] Cons.prems(2) by auto
  then obtain s' u a where "pay_run exec used allowance es s1 = Some (s', u, a)" "inv s'"
      "price * u \<le> pot s' - pot s1 + price * a"
    using Cons.IH [OF s1(2)] Cons.prems(2) by auto
  then show ?case using s1 by (auto simp: distrib_left)
qed simp

end

section \<open>The events of a task\<close>

text \<open>
  \<^verbatim>\<open>update_curr_dl\<close> with the clock, the time since the last charge and what \<^verbatim>\<open>hrtimer_active\<close> says,
  \<^verbatim>\<open>dl_task_timer\<close> with the clock and \<^verbatim>\<open>on_rq\<close>, and \<^verbatim>\<open>enqueue_task_dl\<close> of a wake-up.
\<close>

datatype budget_event = Charged u64 u64 bool | TimerFired u64 bool | WokenUp u64

definition dl_returned :: "'a outcome option \<Rightarrow> 'a option" where
  "dl_returned r = (case r of Some (Returns d) \<Rightarrow> Some d | _ \<Rightarrow> None)"

definition budget_exec :: "(int \<Rightarrow> int) \<Rightarrow> budget_event \<Rightarrow> sched_dl_entity \<Rightarrow> sched_dl_entity option" where
  "budget_exec to_us e d = dl_returned (case e of
     Charged clock delta active \<Rightarrow> update_curr_dl to_us clock delta active None d
   | TimerFired clock on_rq \<Rightarrow> dl_task_timer clock on_rq None d
   | WokenUp clock \<Rightarrow> enqueue_task_dl clock None d False)"

definition delta_charged :: "u64 \<Rightarrow> int" where
  "delta_charged delta = (if sint delta < 0 then 0 else uint delta)"

fun event_time :: "budget_event \<Rightarrow> int" where
  "event_time (Charged _ delta _) = delta_charged delta"
| "event_time _ = 0"

text \<open>
  What a wake-up gives away: the debt of a task that blocked while it was throttled, or the two
  units of 1024 nanoseconds by which the scaled comparison may be off.
\<close>

fun event_gift :: "budget_event \<Rightarrow> sched_dl_entity \<Rightarrow> int" where
  "event_gift (WokenUp clock) d =
     (if dl_throttled d then 0
      else if dl_time_before (se_deadline d) clock then max 0 (- sint (se_runtime d))
      else if dl_entity_overflow d d clock then 2048 else 0)"
| "event_gift _ d = 0"

text \<open>
  No time wraps: clock and deadline stay below \<open>2 ^ 61\<close> (73 years), a charge with a missed deadline
  leaves a debt of at most \<open>2 ^ 18\<close> budgets, and a task that wakes up is within 36 minutes of its
  deadline and of its budget.
\<close>

definition times_fit :: "u64 \<Rightarrow> sched_dl_entity \<Rightarrow> bool" where
  "times_fit clock d \<longleftrightarrow> uint clock < 2 ^ 61 \<and> uint (se_deadline d) < 2 ^ 61"

fun event_fits :: "budget_event \<Rightarrow> sched_dl_entity \<Rightarrow> bool" where
  "event_fits (Charged clock delta _) d \<longleftrightarrow> times_fit clock d \<and>
     max 0 (delta_charged delta - sint (se_runtime d)) + max 0 (uint clock - uint (se_deadline d)) \<le> 2 ^ 18 * uint (dl_runtime d)"
| "event_fits (TimerFired clock _) d \<longleftrightarrow> times_fit clock d"
| "event_fits (WokenUp clock) d \<longleftrightarrow> times_fit clock d \<and> uint (se_deadline d) - uint clock < 2 ^ 41 \<and> - (2 ^ 41) < sint (se_runtime d)"

text \<open>A task with the period as its deadline, past its first activation.\<close>

definition budget_inv :: "int \<Rightarrow> int \<Rightarrow> sched_dl_entity \<Rightarrow> bool" where
  "budget_inv Q P d \<longleftrightarrow> uint (dl_runtime d) = Q \<and> uint (dl_period d) = P \<and> dl_deadline d = dl_period d \<and>
     \<not> dl_new d \<and> \<not> dl_boosted d \<and> 1024 \<le> Q \<and> Q \<le> P \<and> P < 2 ^ 41 \<and>
     - (2 ^ 18 * Q) \<le> sint (se_runtime d) \<and> sint (se_runtime d) \<le> Q"

definition budget_pot :: "int \<Rightarrow> int \<Rightarrow> sched_dl_entity \<Rightarrow> int" where
  "budget_pot Q P d = Q * uint (se_deadline d) - P * sint (se_runtime d)"

section \<open>Each event pays\<close>

lemma before_uint:
  assumes "uint a < 2 ^ 63" and "uint b < 2 ^ 63"
  shows "dl_time_before a b \<longleftrightarrow> uint a < uint b"
  using assms dl_time_before_less [of a b] by (simp add: word_less_def)

lemma uint_add_small: "uint a + uint (b :: u64) < 2 ^ 64 \<Longrightarrow> uint (a + b) = uint a + uint b"
  by (simp add: uint_plus_if')

lemma sint_diff_small:
  assumes "- (2 ^ 63) \<le> sint a - sint (b :: u64)" and "sint a - sint b < 2 ^ 63"
  shows "sint (a - b) = sint a - sint b"
  using assms by (simp add: sint_word_ariths signed_take_bit_int_eq_self)

lemma sint_uint_small: "uint (x :: u64) < 2 ^ 63 \<Longrightarrow> sint x = uint x"
  using sint_below [of x] by (simp add: word_less_def)

lemma sint_mult_small:
  assumes "- (2 ^ 63) \<le> sint a * sint (b :: u64)" and "sint a * sint b < 2 ^ 63"
  shows "sint (a * b) = sint a * sint b"
  using assms by (simp add: sint_word_ariths signed_take_bit_int_eq_self)

lemma sint_drop_small:
  assumes "uint (x :: u64) < 2 ^ 41"
  shows "0 \<le> sint (drop_bit 10 x) \<and> sint (drop_bit 10 x) < 2 ^ 31"
proof -
  have u: "uint (drop_bit 10 x) = uint x div 1024" by (simp only: uint_nat unat_drop_bit zdiv_int) simp
  then have "uint (drop_bit 10 x) < 2 ^ 31" using assms by simp
  moreover from this have "sint (drop_bit 10 x) = uint (drop_bit 10 x)" by (intro sint_uint_small) simp
  ultimately show ?thesis by simp
qed

lemma sint_nonneg_uint: "0 \<le> sint (x :: u64) \<Longrightarrow> sint x = uint x"
  using uint_sint [of x] sint_range [of x] by (simp add: take_bit_int_eq_self)

text \<open>A full budget until one period from now has the potential of now.\<close>

lemma pot_reset:
  assumes "uint (dl_runtime d) = Q" and "uint (dl_period d) = P" and "dl_deadline d = dl_period d"
    and "Q < 2 ^ 41" and "P < 2 ^ 41" and "uint clock < 2 ^ 62"
  shows "budget_pot Q P (reset_dl_entity clock d d) = Q * uint clock"
proof -
  have "sint (dl_runtime d) = Q" using assms by (simp add: sint_uint_small)
  moreover have "uint (clock + dl_deadline d) = uint clock + P" using assms by (simp add: uint_add_small)
  ultimately show ?thesis by (simp add: budget_pot_def reset_dl_entity_def algebra_simps)
qed

lemma inv_reset:
  assumes "budget_inv Q P d"
  shows "budget_inv Q P (reset_dl_entity clock d d)"
proof -
  have "sint (dl_runtime d) = Q" using assms by (simp add: budget_inv_def sint_uint_small)
  then show ?thesis using assms by (simp add: budget_inv_def reset_dl_entity_def)
qed

text \<open>The loop adds budgets and periods in step, so it keeps the potential.\<close>

lemma replenish_loop_pot:
  assumes d: "budget_inv Q P d" and "uint (se_deadline d) < 2 ^ 61"
  shows "\<exists>d'. replenish_loop d d = Some d' \<and> budget_inv Q P d' \<and> budget_pot Q P d' = budget_pot Q P d \<and>
    0 < sint (se_runtime d') \<and> uint (se_deadline d') < 2 ^ 62"
proof -
  have q: "sint (dl_runtime d) = Q" using d by (simp add: budget_inv_def sint_uint_small)
  have pos: "0 < Q" using d by (simp add: budget_inv_def)
  define n where "n = replenish_steps (sint (se_runtime d)) Q"
  obtain d' where d': "replenish_loop d d = Some d'" "se_deadline d' = se_deadline d + of_nat n * dl_period d"
      "sint (se_runtime d') = sint (se_runtime d) + int n * Q" "0 < sint (se_runtime d')"
      "sint (se_runtime d) \<le> Q \<longrightarrow> sint (se_runtime d') \<le> Q"
    using replenish_loop_result [of d n d] pos n_def unfolding q by blast
  obtain x y where fr: "d' = d\<lparr>se_deadline := x, se_runtime := y\<rparr>" using replenish_loop_frame [OF d'(1)] by blast
  have r: "- (2 ^ 18 * Q) \<le> sint (se_runtime d)" "sint (se_runtime d) \<le> Q" using d by (simp_all add: budget_inv_def)
  have "int n * Q \<le> (2 ^ 18 + 1) * Q" using r(1) d'(3) d'(5) [rule_format, OF r(2)] unfolding distrib_right by linarith
  then have n: "int n \<le> 2 ^ 18 + 1" using pos by simp
  have P: "0 \<le> P" "P < 2 ^ 41" using d by (simp_all add: budget_inv_def)
  have "int n * P \<le> (2 ^ 18 + 1) * 2 ^ 41" using n P by (intro mult_mono) simp_all
  then have np: "int n * P < 2 ^ 60" by simp
  have "uint (of_nat n * dl_period d) = int n * P"
  proof -
    have "n < 2 ^ 64" using n by simp
    then have "uint (of_nat n :: u64) = int n" by (simp add: uint_nat unat_of_nat)
    then show ?thesis using np d by (subst uint_mult_lem [THEN iffD1]) (simp_all add: budget_inv_def)
  qed
  then have dd: "uint (se_deadline d') = uint (se_deadline d) + int n * P"
    using d'(2) np assms(2) by (simp add: uint_add_small)
  have "budget_inv Q P d'" using d d'(4,5) pos unfolding fr by (simp add: budget_inv_def)
  moreover have "budget_pot Q P d' = budget_pot Q P d" by (simp add: budget_pot_def dd d'(3) algebra_simps)
  moreover have "uint (se_deadline d') < 2 ^ 62" using dd np assms(2) by simp
  ultimately show ?thesis using d'(1,4) by blast
qed

lemma replenish_pays:
  assumes d: "budget_inv Q P d" and "times_fit clock d"
  shows "\<exists>d'. replenish_dl_entity clock d d = Some (Returns d') \<and> budget_inv Q P d' \<and> budget_pot Q P d \<le> budget_pot Q P d'"
proof -
  have nz: "dl_runtime d \<noteq> 0" "dl_deadline d \<noteq> 0" "0 \<le> P" using d by (auto simp: budget_inv_def)
  obtain d1 where d1: "replenish_loop d d = Some d1" "budget_inv Q P d1" "budget_pot Q P d1 = budget_pot Q P d"
      "0 < sint (se_runtime d1)" "uint (se_deadline d1) < 2 ^ 62"
    using replenish_loop_pot [OF d] assms(2) by (auto simp: times_fit_def)
  have same: "reset_dl_entity clock d1 d = reset_dl_entity clock d1 d1"
    using replenish_loop_frame [OF d1(1)] by (auto simp: reset_dl_entity_def)
  let ?r = "if dl_time_before (se_deadline d1) clock then reset_dl_entity clock d1 d1 else d1"
  have "replenish_dl_entity clock d d = Some (Returns ?r)"
    using nz(1,2) d1(1) same by (simp add: replenish_dl_entity_def)
  moreover have "budget_inv Q P ?r" using d1(2) inv_reset by simp
  moreover have "budget_pot Q P d1 \<le> budget_pot Q P ?r"
  proof (cases "dl_time_before (se_deadline d1) clock")
    case True
    have c: "uint clock < 2 ^ 61" using assms(2) by (simp add: times_fit_def)
    then have "uint (se_deadline d1) < uint clock" using True d1(5) by (simp add: before_uint)
    moreover have "0 \<le> Q" using d by (simp add: budget_inv_def)
    ultimately have "Q * uint (se_deadline d1) \<le> Q * uint clock" by (intro mult_left_mono) simp_all
    moreover have "0 \<le> P * sint (se_runtime d1)" using nz(3) d1(4) by simp
    moreover have "budget_pot Q P (reset_dl_entity clock d1 d1) = Q * uint clock"
      by (rule pot_reset) (use d1(2) c in \<open>simp_all add: budget_inv_def\<close>)
    ultimately show ?thesis using True by (simp add: budget_pot_def)
  qed simp
  ultimately show ?thesis using d1(3) by (intro exI [of _ ?r]) simp
qed

text \<open>Neither the throttled bit nor a lower budget costs potential.\<close>

lemma inv_throttled [simp]: "budget_inv Q P (d\<lparr>dl_throttled := b\<rparr>) = budget_inv Q P d"
  by (simp add: budget_inv_def)

lemma pot_throttled [simp]: "budget_pot Q P (d\<lparr>dl_throttled := b\<rparr>) = budget_pot Q P d"
  by (simp add: budget_pot_def)

lemma fit_throttled [simp]: "times_fit clock (d\<lparr>dl_throttled := b\<rparr>) = times_fit clock d"
  by (simp add: times_fit_def)

lemma enqueue_replenish_pays:
  assumes d: "budget_inv Q P d" and "times_fit clock d"
  shows "\<exists>d'. enqueue_task_dl clock None d True = Some (Returns d') \<and> budget_inv Q P d' \<and> budget_pot Q P d \<le> budget_pot Q P d'"
proof (cases "dl_throttled d")
  case True
  then show ?thesis using d by (simp add: enqueue_task_dl_def)
next
  case False
  moreover have "\<not> dl_new d" using d by (simp add: budget_inv_def)
  ultimately show ?thesis using replenish_pays [OF assms] by (simp add: enqueue_task_dl_def enqueue_dl_entity_def)
qed

text \<open>The charge: the time leaves the budget, a missed deadline takes the delay in addition.\<close>

lemma exceeded_pays:
  assumes d: "budget_inv Q P d" and f: "event_fits (Charged clock delta b) d"
  defines "d1 \<equiv> d\<lparr>se_runtime := se_runtime d - (if sint delta < 0 then 0 else delta)\<rparr>"
  shows "budget_inv Q P (snd (dl_runtime_exceeded clock d1)) \<and> times_fit clock (snd (dl_runtime_exceeded clock d1)) \<and>
    budget_pot Q P d + P * delta_charged delta \<le> budget_pot Q P (snd (dl_runtime_exceeded clock d1))"
proof -
  let ?x = "delta_charged delta" and ?late = "max 0 (uint clock - uint (se_deadline d))" and ?r = "sint (se_runtime d)"
  have r: "- (2 ^ 18 * Q) \<le> ?r" "?r \<le> Q" and Q: "2 ^ 18 * Q < 2 ^ 59" and P: "0 \<le> P"
    using d by (auto simp: budget_inv_def)
  have debt: "max 0 (?x - ?r) + ?late \<le> 2 ^ 18 * Q" using f d by (simp add: budget_inv_def)
  have fit: "uint clock < 2 ^ 61" "uint (se_deadline d) < 2 ^ 61" using f by (simp_all add: times_fit_def)
  have x: "0 \<le> ?x" "sint (if sint delta < 0 then 0 else delta) = ?x"
    using sint_nonneg_uint [of delta] by (auto simp: delta_charged_def)
  have r1: "sint (se_runtime d1) = ?r - ?x"
  proof -
    have "sint (se_runtime d - (if sint delta < 0 then 0 else delta)) = ?r - sint (if sint delta < 0 then 0 else delta)"
      by (rule sint_diff_small; unfold x(2); use x(1) r Q debt in \<open>simp add: max_def split: if_splits\<close>)
    then show ?thesis by (simp add: d1_def x(2))
  qed
  have same: "se_deadline d1 = se_deadline d" by (simp add: d1_def)
  have late: "sint (clock - se_deadline d) = ?late" if "dl_time_before (se_deadline d) clock"
  proof -
    have "uint (se_deadline d) < uint clock" using that fit by (simp add: before_uint)
    then have "uint (clock - se_deadline d) = ?late" by (simp add: uint_sub_if')
    moreover have "?late \<le> uint clock" by simp
    then have "?late < 2 ^ 63" by (rule le_less_trans) (use fit(1) in simp)
    ultimately show ?thesis using sint_uint_small [of "clock - se_deadline d"] by simp
  qed
  obtain y where y: "snd (dl_runtime_exceeded clock d1) = d\<lparr>se_runtime := y\<rparr>"
      "- (2 ^ 18 * Q) \<le> sint y" "sint y \<le> ?r - ?x"
  proof (cases "dl_time_before (se_deadline d) clock")
    case True
    let ?b = "if sint (se_runtime d1) \<le> 0 then se_runtime d1 else 0"
    have b: "sint ?b = min 0 (?r - ?x)" using r1 by (simp add: min_def)
    have "sint (?b - (clock - se_deadline d)) = sint ?b - sint (clock - se_deadline d)"
      by (rule sint_diff_small; unfold b late [OF True]; use Q debt in \<open>simp add: max_def min_def split: if_splits\<close>)
    then show ?thesis
      using b late [OF True] debt that [of "?b - (clock - se_deadline d)"] True
      by (simp add: dl_runtime_exceeded_def same Let_def) (simp add: d1_def)
  next
    case False
    then show ?thesis using r1 debt that [of "se_runtime d1"] by (simp add: dl_runtime_exceeded_def same Let_def) (simp add: d1_def)
  qed
  have "budget_inv Q P (d\<lparr>se_runtime := y\<rparr>)" using d y(2,3) x(1) r(2) by (simp add: budget_inv_def)
  moreover have "P * sint y \<le> P * (?r - ?x)" using y(3) P by (rule mult_left_mono)
  ultimately show ?thesis using fit by (simp add: y(1) times_fit_def budget_pot_def right_diff_distrib)
qed


lemma charge_pays:
  assumes d: "budget_inv Q P d" and f: "event_fits (Charged clock delta active) d"
  shows "\<exists>d'. update_curr_dl to_us clock delta active None d = Some (Returns d') \<and> budget_inv Q P d' \<and>
    P * delta_charged delta \<le> budget_pot Q P d' - budget_pot Q P d"
proof -
  define d1 where "d1 = d\<lparr>se_runtime := se_runtime d - (if sint delta < 0 then 0 else delta)\<rparr>"
  obtain x e where xe: "dl_runtime_exceeded clock d1 = (x, e)" by fastforce
  have e: "budget_inv Q P e" "times_fit clock e" "budget_pot Q P d + P * delta_charged delta \<le> budget_pot Q P e"
    using exceeded_pays [OF assms] xe unfolding d1_def by simp_all
  obtain e' where e': "enqueue_task_dl clock None e True = Some (Returns e')" "budget_inv Q P e'" "budget_pot Q P e \<le> budget_pot Q P e'"
    using enqueue_replenish_pays [OF e(1,2)] by blast
  have "update_curr_dl to_us clock delta active None d =
      (if \<not> x then Some (Returns e) else if start_dl_timer to_us clock active e then Some (Returns (e\<lparr>dl_throttled := True\<rparr>))
       else enqueue_task_dl clock None e True)"
    using xe by (simp add: update_curr_dl_def d1_def)
  then show ?thesis using e(1,3) e' by (cases x; cases "start_dl_timer to_us clock active e") simp_all
qed

lemma timer_pays:
  assumes d: "budget_inv Q P d" and "times_fit clock d"
  shows "\<exists>d'. dl_task_timer clock on_rq None d = Some (Returns d') \<and> budget_inv Q P d' \<and> budget_pot Q P d \<le> budget_pot Q P d'"
proof -
  have "\<not> dl_new d" using d by (simp add: budget_inv_def)
  then show ?thesis using enqueue_replenish_pays [of Q P "d\<lparr>dl_throttled := False\<rparr>" clock] assms
    by (cases on_rq) (simp_all add: dl_task_timer_def)
qed

text \<open>
  The wake-up. When the scaled comparison finds more budget left than the bandwidth allows until
  the deadline, the values themselves are at most two units per period apart from that.
\<close>

lemma scaled_excess:
  fixes p r t q :: nat
  assumes "(t div 1024) * (q div 1024) < (p div 1024) * (r div 1024)" and "r \<le> q" and "q \<le> p"
  shows "t * q \<le> p * r + 2048 * p"
proof -
  let ?t = "t div 1024" and ?q = "q div 1024" and ?p = "p div 1024" and ?r = "r div 1024"
  have "?t * ?q < ?p * ?q" using assms(1) mult_le_mono2 [OF div_le_mono [OF assms(2)], of ?p 1024] by (rule less_le_trans)
  then have tp: "?t < ?p" by simp
  have qp: "?q \<le> ?p" using assms(3) by (rule div_le_mono)
  have "x \<le> 1024 * (x div 1024) + 1023" for x :: nat
    using mult_div_mod_eq [of 1024 x] mod_less_divisor [of 1024 x] by linarith
  then have "t \<le> 1024 * ?t + 1023" "q \<le> 1024 * ?q + 1023" by blast+
  then have "t * q \<le> (1024 * ?t + 1023) * (1024 * ?q + 1023)" by (rule mult_le_mono)
  also have "\<dots> \<le> 1024 * 1024 * (?t * ?q + ?t + ?q + 1)" by (simp add: algebra_simps)
  also have "\<dots> \<le> 1024 * 1024 * (?p * ?r + 2 * ?p)" using assms(1) tp qp by simp
  also have "\<dots> = (1024 * ?p) * (1024 * ?r) + 2048 * (1024 * ?p)" by (simp add: algebra_simps)
  also have "\<dots> \<le> p * r + 2048 * p" by (intro add_mono mult_le_mono) simp_all
  finally show ?thesis .
qed


lemma overflow_gift:
  assumes d: "budget_inv Q P d" and f: "event_fits (WokenUp clock) d" and "\<not> dl_time_before (se_deadline d) clock"
    and "dl_entity_overflow d d clock" and "0 \<le> sint (se_runtime d)"
  shows "budget_pot Q P d \<le> Q * uint clock + P * 2048"
proof -
  have fit: "uint clock \<le> uint (se_deadline d)" "uint (se_deadline d) - uint clock < 2 ^ 41"
    using f assms(3) by (simp_all add: times_fit_def before_uint)
  have t: "int (unat (se_deadline d - clock)) = uint (se_deadline d) - uint clock" using fit by (simp add: uint_sub_if')
  have r: "int (unat (se_runtime d)) = sint (se_runtime d)" using assms(5) by (simp add: sint_nonneg_uint)
  have qp: "int (unat (dl_runtime d)) = Q" "int (unat (dl_period d)) = P" "sint (se_runtime d) \<le> Q" "Q \<le> P" "P < 2 ^ 41"
    using d by (simp_all add: budget_inv_def)
  have below: "n < 2 ^ 41" if "int n < 2 ^ 41" for n :: nat using that by simp
  have small: "unat (dl_period d) < 2 ^ 41" "unat (dl_runtime d) < 2 ^ 41" "unat (se_runtime d) < 2 ^ 41" "unat (se_deadline d - clock) < 2 ^ 41"
    by (rule below; use qp r t fit(2) in linarith)+
  have "unat (se_deadline d - clock) div 1024 * (unat (dl_runtime d) div 1024) < unat (dl_period d) div 1024 * (unat (se_runtime d) div 1024)"
    using assms(4) unfolding dl_entity_overflow_scaled [OF small] exceeds_bandwidth_def .
  then have "unat (se_deadline d - clock) * unat (dl_runtime d) \<le> unat (dl_period d) * unat (se_runtime d) + 2048 * unat (dl_period d)"
    by (rule scaled_excess) (use qp r in linarith)+
  then have "int (unat (se_deadline d - clock) * unat (dl_runtime d)) \<le> int (unat (dl_period d) * unat (se_runtime d) + 2048 * unat (dl_period d))"
    by (rule of_nat_mono)
  then have "(uint (se_deadline d) - uint clock) * Q \<le> P * sint (se_runtime d) + 2048 * P"
    unfolding of_nat_mult of_nat_add t r qp(1,2) by simp
  then show ?thesis by (simp add: budget_pot_def algebra_simps)
qed


text \<open>A task with a debt is never found to have too much budget.\<close>

lemma debt_no_overflow:
  assumes d: "budget_inv Q P d" and f: "event_fits (WokenUp clock) d" and b: "\<not> dl_time_before (se_deadline d) clock"
    and neg: "sint (se_runtime d) < 0"
  shows "\<not> dl_entity_overflow d d clock"
proof -
  let ?t = "drop_bit 10 (se_deadline d - clock)" and ?q = "drop_bit 10 (dl_runtime d)" and ?p = "drop_bit 10 (dl_period d)"
    and ?r = "signed_drop_bit 10 (se_runtime d)"
  have fit: "uint clock \<le> uint (se_deadline d)" "uint (se_deadline d) - uint clock < 2 ^ 41" "- (2 ^ 41) < sint (se_runtime d)"
    using f b by (simp_all add: times_fit_def before_uint)
  have "uint (se_deadline d - clock) < 2 ^ 41" using fit by (simp add: uint_sub_if')
  then have t: "0 \<le> sint ?t" "sint ?t < 2 ^ 31" using sint_drop_small by blast+
  have q: "0 \<le> sint ?q" "sint ?q < 2 ^ 31" using sint_drop_small [of "dl_runtime d"] d by (simp_all add: budget_inv_def)
  have p: "0 \<le> sint ?p" "sint ?p < 2 ^ 31" using sint_drop_small [of "dl_period d"] d by (simp_all add: budget_inv_def)
  have r: "sint ?r \<le> 0" "- (2 ^ 31) \<le> sint ?r"
    using neg zdiv_mono1 [of "- (2 ^ 41)" "sint (se_runtime d)" 1024] fit(3)
    by (simp_all add: sint_signed_drop_bit_eq drop_bit_eq_div div_nonpos_pos_le0)
  have "sint ?t * sint ?q \<le> 2 ^ 31 * (2 ^ 31 - 1)" using t q by (intro mult_mono) simp_all
  then have m: "sint ?t * sint ?q < 2 ^ 62" "0 \<le> sint ?t * sint ?q" using t q by simp_all
  have "sint ?p * (- sint ?r) \<le> 2 ^ 31 * 2 ^ 31" using p r by (intro mult_mono) auto
  then have n: "- (2 ^ 62) \<le> sint ?p * sint ?r" "sint ?p * sint ?r \<le> 0" using p r by (simp_all add: mult_nonneg_nonpos)
  have "sint (?t * ?q) = sint ?t * sint ?q" "sint (?p * ?r) = sint ?p * sint ?r" using m n by (simp_all add: sint_mult_small)
  then have "sint (?t * ?q - ?p * ?r) = sint ?t * sint ?q - sint ?p * sint ?r"
    using sint_diff_small [of "?t * ?q" "?p * ?r"] m n by simp
  then show ?thesis using m(2) n(2) by (simp add: dl_entity_overflow_def DL_SCALE_def dl_time_before_def)
qed

lemma wakeup_pays:
  assumes d: "budget_inv Q P d" and f: "event_fits (WokenUp clock) d"
  shows "\<exists>d'. enqueue_task_dl clock None d False = Some (Returns d') \<and> budget_inv Q P d' \<and>
    0 \<le> budget_pot Q P d' - budget_pot Q P d + P * event_gift (WokenUp clock) d"
proof (cases "dl_throttled d")
  case True
  then show ?thesis using d by (simp add: enqueue_task_dl_def)
next
  case False
  have new: "\<not> dl_new d" and P: "0 \<le> P" "0 \<le> Q" using d by (simp_all add: budget_inv_def)
  have c: "uint clock < 2 ^ 61" "uint (se_deadline d) < 2 ^ 61" using f by (simp_all add: times_fit_def)
  have pot: "budget_pot Q P (reset_dl_entity clock d d) = Q * uint clock"
    by (rule pot_reset) (use d c in \<open>simp_all add: budget_inv_def\<close>)
  let ?d = "update_dl_entity clock d d"
  have "enqueue_task_dl clock None d False = Some (Returns ?d)"
    using False by (simp add: enqueue_task_dl_def enqueue_dl_entity_def)
  moreover have "budget_inv Q P ?d" using d inv_reset [OF d] new by (simp add: update_dl_entity_def)
  moreover have "budget_pot Q P d \<le> budget_pot Q P ?d + P * event_gift (WokenUp clock) d"
  proof (cases "dl_time_before (se_deadline d) clock")
    case True
    then have "Q * uint (se_deadline d) \<le> Q * uint clock" using c P by (intro mult_left_mono) (simp_all add: before_uint)
    moreover have "P * (- sint (se_runtime d)) \<le> P * max 0 (- sint (se_runtime d))" using P(1) by (intro mult_left_mono) simp_all
    ultimately show ?thesis using True False new pot by (simp add: update_dl_entity_def budget_pot_def)
  next
    case b: False
    then show ?thesis
      using overflow_gift [OF d f b] debt_no_overflow [OF d f b] False new pot
      by (cases "dl_entity_overflow d d clock"; cases "sint (se_runtime d) < 0") (simp_all add: update_dl_entity_def)
  qed
  ultimately show ?thesis by (intro exI [of _ ?d]) simp
qed

interpretation cbs: potential "budget_exec to_us" event_fits "budget_inv Q P" "budget_pot Q P" P event_time event_gift
proof
  fix d e
  assume a: "budget_inv Q P d" "event_fits e d"
  show "\<exists>d'. budget_exec to_us e d = Some d' \<and> budget_inv Q P d' \<and>
      P * event_time e \<le> budget_pot Q P d' - budget_pot Q P d + P * event_gift e d"
  proof (cases e)
    case (Charged clock delta active)
    then show ?thesis using charge_pays [of Q P d clock delta active to_us] a
      by (auto simp: budget_exec_def dl_returned_def simp del: event_fits.simps)
  next
    case (TimerFired clock on_rq)
    then show ?thesis using timer_pays [of Q P d clock on_rq] a by (auto simp: budget_exec_def dl_returned_def)
  next
    case (WokenUp clock)
    then obtain d' where "enqueue_task_dl clock None d False = Some (Returns d')" "budget_inv Q P d'"
        "0 \<le> budget_pot Q P d' - budget_pot Q P d + P * event_gift e d"
      using wakeup_pays [of Q P d clock] a by blast
    then show ?thesis using WokenUp by (intro exI [of _ d']) (simp add: budget_exec_def dl_returned_def)
  qed
qed

section \<open>Temporal isolation\<close>

text \<open>The first activation gives a full budget until one period from now.\<close>

lemma activation_budget:
  assumes "checkparam_dl prm" and "uint (sched_runtime prm) < 2 ^ 41" and "uint (sched_deadline prm) < 2 ^ 41"
    and "sched_period prm = 0 \<or> sched_period prm = sched_deadline prm" and "\<not> dl_boosted e" and "uint t0 < 2 ^ 61"
    and "enqueue_task_dl t0 None (setparam_dl e prm) False = Some (Returns d0)"
  shows "budget_inv (uint (sched_runtime prm)) (uint (sched_deadline prm)) d0 \<and>
    budget_pot (uint (sched_runtime prm)) (uint (sched_deadline prm)) d0 = uint (sched_runtime prm) * uint t0"
proof -
  let ?e = "setparam_dl e prm" and ?Q = "uint (sched_runtime prm)" and ?P = "uint (sched_deadline prm)"
  have "dl_new ?e" "\<not> dl_throttled ?e" by (simp_all add: setparam_dl_def Let_def)
  then have d0: "d0 = setup_new_dl_entity t0 ?e ?e"
    using assms(7) by (simp add: enqueue_task_dl_def enqueue_dl_entity_def update_dl_entity_def)
  have "sched_runtime prm < 2 ^ 63" "sched_deadline prm < 2 ^ 63" using assms(2,3) by (simp_all add: word_less_def)
  then have o: "?Q \<le> ?P" using assms(1) signed_order by (simp add: checkparam_dl_def word_le_def)
  have "push_bit 9 (2 :: u64) = 1024" by code_simp
  then have k: "1024 \<le> ?Q" using assms(1) by (simp add: checkparam_dl_def DL_SCALE_def word_le_def)
  have s: "sint (sched_runtime prm) = ?Q" using assms(2) by (simp add: sint_uint_small)
  have "uint (t0 + sched_deadline prm) = uint t0 + ?P" using assms(3,6) by (simp add: uint_add_small)
  then show ?thesis
    using o k s assms(3,4,5) by (auto simp: d0 setup_new_dl_entity_def setparam_dl_def budget_inv_def budget_pot_def algebra_simps Let_def)
qed



text \<open>
  The entity of the test program from its activation at 1 ms: it runs 10.5 ms and is throttled,
  the timer renews it at its deadline of 31 ms, it runs 4 ms, sleeps and wakes up at 58 ms with too
  much budget for the 3 ms left.
\<close>

definition demo_events :: "budget_event list" where
  "demo_events = [Charged 11500000 10500000 True, TimerFired 31000000 True, Charged 35000000 4000000 True, WokenUp 58000000]"

definition demo_server :: sched_dl_entity where
  "demo_server = \<lparr>dl_runtime = 10000000, dl_deadline = 30000000, dl_period = 30000000, se_bw = 349525, se_runtime = 10000000,
     se_deadline = 31000000, se_flags = 0, dl_throttled = False, dl_new = False, dl_boosted = False\<rparr>"

declare replenish_loop.simps [code]

lemma demo_fits: "all_ok (budget_exec (\<lambda>x. x div 1000)) event_fits demo_events demo_server"
  by code_simp

lemma demo_run: "pay_run (budget_exec (\<lambda>x. x div 1000)) event_time event_gift demo_events demo_server =
    Some (demo_server\<lparr>se_deadline := 88000000\<rparr>, 14500000, 2048)"
  by code_simp


lemma demo_activation: "enqueue_task_dl 1000000 None (setparam_dl (se fresh_task) test_dl_param) False = Some (Returns demo_server)"
  by code_simp


section \<open>A deadline before the period\<close>

text \<open>
  A task with a budget of 10 ms every 100 ms and a deadline of 20 ms, admitted with a tenth of a
  processor. In turns it runs 5 ms and sleeps 1 ms.
\<close>

definition constrained_entity :: "u64 \<Rightarrow> sched_dl_entity" where
  "constrained_entity clock = \<lparr>dl_runtime = 10000000, dl_deadline = 20000000, dl_period = 100000000, se_bw = 104857, se_runtime = 10000000,
     se_deadline = clock + 20000000, se_flags = 0, dl_throttled = False, dl_new = False, dl_boosted = False\<rparr>"

definition run_and_sleep :: "u64 \<Rightarrow> budget_event list" where
  "run_and_sleep clock = [Charged (clock + 5000000) 5000000 True, WokenUp (clock + 6000000)]"

lemma pay_run_append:
  "pay_run exec used allowance (es @ fs) s = (case pay_run exec used allowance es s of None \<Rightarrow> None
    | Some (s1, u, a) \<Rightarrow> (case pay_run exec used allowance fs s1 of None \<Rightarrow> None
      | Some (s', v, b) \<Rightarrow> Some (s', u + v, a + b)))"
  by (induction es arbitrary: s) (auto split: option.splits)

lemma constrained_turn:
  "budget_exec to_us (Charged (clock + 5000000) 5000000 True) (constrained_entity clock) =
     Some (constrained_entity clock\<lparr>se_runtime := 5000000\<rparr>)"
  "budget_exec to_us (WokenUp (clock + 6000000)) (constrained_entity clock\<lparr>se_runtime := 5000000\<rparr>) =
     Some (constrained_entity (clock + 6000000))"
proof -
  have b: "\<not> dl_time_before (clock + 20000000) (clock + 5000000)" "\<not> dl_time_before (clock + 20000000) (clock + 6000000)"
    by (simp_all add: dl_time_before_def)
  have o: "dl_entity_overflow (constrained_entity clock\<lparr>se_runtime := 5000000\<rparr>) (constrained_entity clock\<lparr>se_runtime := 5000000\<rparr>) (clock + 6000000)"
    by (subst dl_entity_overflow_scaled) (simp_all add: constrained_entity_def exceeds_bandwidth_def)
  show "budget_exec to_us (Charged (clock + 5000000) 5000000 True) (constrained_entity clock) =
     Some (constrained_entity clock\<lparr>se_runtime := 5000000\<rparr>)"
    using b(1) by (simp add: budget_exec_def dl_returned_def update_curr_dl_def dl_runtime_exceeded_def constrained_entity_def)
  show "budget_exec to_us (WokenUp (clock + 6000000)) (constrained_entity clock\<lparr>se_runtime := 5000000\<rparr>) =
     Some (constrained_entity (clock + 6000000))"
    using o by (simp add: budget_exec_def dl_returned_def enqueue_task_dl_def enqueue_dl_entity_def update_dl_entity_def
        constrained_entity_def reset_dl_entity_def)
qed

definition constrained_param :: sched_param2 where
  "constrained_param = \<lparr>sched_priority = 0, sched_flags = 0, sched_runtime = 10000000, sched_deadline = 20000000, sched_period = 100000000\<rparr>"

lemma constrained_activation:
  "enqueue_task_dl clock None (setparam_dl (se fresh_task) constrained_param) False = Some (Returns (constrained_entity clock))"
proof -
  have "to_ratio 100000000 10000000 = 104857" by code_simp
  then show ?thesis
    by (simp add: enqueue_task_dl_def enqueue_dl_entity_def update_dl_entity_def setup_new_dl_entity_def
        setparam_dl_def constrained_param_def fresh_task_def constrained_entity_def)
qed

text \<open>
  The check of a wake-up compares with the bandwidth over the period, but the budget it renews is
  for the deadline. The parameters above pass \<^verbatim>\<open>__checkparam_dl\<close> and count as a tenth of a processor;
  in any number of turns, at any clock, every wake-up renews the budget and the task is never
  throttled: it gets five sixths of the processor.
\<close>

lemma constrained_deadline_escapes:
  "checkparam_dl constrained_param \<and>
   enqueue_task_dl clock None (setparam_dl (se fresh_task) constrained_param) False = Some (Returns (constrained_entity clock)) \<and>
   pay_run (budget_exec to_us) event_time (\<lambda>_ _. 0) (concat (map (\<lambda>i. run_and_sleep (clock + 6000000 * of_nat i)) [0..<n]))
     (constrained_entity clock) = Some (constrained_entity (clock + 6000000 * of_nat n), 5000000 * int n, 0)"
proof (intro conjI)
  show "checkparam_dl constrained_param" by code_simp
  show "pay_run (budget_exec to_us) event_time (\<lambda>_ _. 0) (concat (map (\<lambda>i. run_and_sleep (clock + 6000000 * of_nat i)) [0..<n]))
     (constrained_entity clock) = Some (constrained_entity (clock + 6000000 * of_nat n), 5000000 * int n, 0)"
  proof (induction n)
    case (Suc n)
    let ?c = "clock + 6000000 * of_nat n"
    have "pay_run (budget_exec to_us) event_time (\<lambda>_ _. 0) (run_and_sleep ?c) (constrained_entity ?c) =
        Some (constrained_entity (?c + 6000000), 5000000, 0)"
      by (simp add: run_and_sleep_def constrained_turn delta_charged_def)
    then show ?case using Suc.IH by (simp add: pay_run_append algebra_simps)
  qed simp
qed (rule constrained_activation)

text \<open>
  A throttled task that blocks loses its debt: the timer only takes the throttled bit from it, and
  the wake-up after the deadline gives it a full budget.
\<close>

lemma blocked_debt_forgiven:
  assumes "\<not> dl_new d" and "\<not> dl_boosted d" and "dl_time_before (se_deadline d) clock'"
  shows "dl_task_timer clock False None d = Some (Returns (d\<lparr>dl_throttled := False\<rparr>)) \<and>
    enqueue_task_dl clock' None (d\<lparr>dl_throttled := False\<rparr>) False =
      Some (Returns (d\<lparr>dl_throttled := False, se_deadline := clock' + dl_deadline d, se_runtime := dl_runtime d\<rparr>))"
  using assms by (simp add: dl_task_timer_def enqueue_task_dl_def enqueue_dl_entity_def update_dl_entity_def reset_dl_entity_def)

end
