(* ===== verification/Deadline_Balance.thy ===== *)
theory Deadline_Balance
  imports Deadline_Runqueue
begin

text \<open>
  Moving deadline tasks between processors (\<^verbatim>\<open>kernel/sched/deadline.c\<close> of
  \<^verbatim>\<open>sched-dl/patch-dl/sched-add-sched_dl.patch\<close>): beside its run queue every processor has a second tree
  with the tasks that could be moved away; an overloaded processor pushes them to processors
  where they run at once, and a processor about to run something later pulls tasks from
  overloaded ones. The run queues and the push heap are those of \<open>Deadline_Runqueue\<close>. The locks of
  the queues involved are held: \<^verbatim>\<open>double_lock_balance\<close> is taken to return without having dropped one.
  A task keeps its absolute deadline while it is moved.

  Shown: no assertion of this code fails; tasks are neither lost nor doubled and stay on processors they may
  run on; a pushed or pulled task is the first one of its new queue; pulling never takes the
  first task of another queue; and the loop that pushes ends.
\<close>

section \<open>State\<close>

record dl_bal =
  bl_sys :: dl_sys
  bl_curr :: "nat \<Rightarrow> dl_node option"         \<comment> \<open>\<^verbatim>\<open>rq->curr\<close> when it is a deadline task\<close>
  bl_push :: "nat \<Rightarrow> dl_node tree"           \<comment> \<open>\<^verbatim>\<open>pushable_dl_tasks_root\<close>\<close>
  bl_left :: "nat \<Rightarrow> dl_node option"         \<comment> \<open>\<^verbatim>\<open>pushable_dl_tasks_leftmost\<close>\<close>
  bl_resched :: "nat set"                    \<comment> \<open>processors whose current task was told to reschedule\<close>

text \<open>
  What the code takes from the kernel: the rebalancing of trees, the affinity of a task, the
  choice of \<^verbatim>\<open>cpumask_any\<close>, the active processors, the scheduling domains of a processor as flag
  \<^verbatim>\<open>SD_WAKE_AFFINE\<close> and span, from small to large, and the deadline field of a running task that is
  of another class.
\<close>

record dl_topo =
  tp_nr :: nat
  tp_insert :: "dl_node tree \<Rightarrow> dl_node tree"
  tp_erase :: "dl_node \<Rightarrow> dl_node tree \<Rightarrow> dl_node tree"
  tp_allowed :: "nat \<Rightarrow> nat set"
  tp_any :: "nat set \<Rightarrow> nat"
  tp_active :: "nat set"
  tp_domains :: "nat \<Rightarrow> (bool \<times> nat set) list"
  tp_other_dl :: "nat \<Rightarrow> u64"

definition bl_rq :: "dl_bal \<Rightarrow> nat \<Rightarrow> dl_rq" where
  "bl_rq s cpu = sys_rqs (bl_sys s) ! cpu"

definition task_current :: "dl_bal \<Rightarrow> nat \<Rightarrow> dl_node \<Rightarrow> bool" where
  "task_current s cpu p \<longleftrightarrow> (case bl_curr s cpu of None \<Rightarrow> False | Some c \<Rightarrow> n_task c = n_task p)"

text \<open>\<^verbatim>\<open>resched_task(rq->curr)\<close> sets a flag that is cleared when the scheduler has chosen the next task.\<close>

definition resched_task :: "nat \<Rightarrow> dl_bal \<Rightarrow> dl_bal" where
  "resched_task cpu s = s\<lparr>bl_resched := insert cpu (bl_resched s)\<rparr>"

text \<open>\<^verbatim>\<open>pick_dl_task(rq, p, cpu)\<close> for the queue of \<open>src\<close>.\<close>

definition pick_dl_task :: "dl_topo \<Rightarrow> dl_bal \<Rightarrow> nat \<Rightarrow> nat \<Rightarrow> dl_node \<Rightarrow> bool" where
  "pick_dl_task tp s src cpu p \<longleftrightarrow> \<not> task_current s src p \<and> cpu \<in> tp_allowed tp (n_task p) \<and> n_migr p"

section \<open>The tree of pushable tasks\<close>

definition on_push :: "dl_bal \<Rightarrow> nat \<Rightarrow> dl_node \<Rightarrow> dl_node option" where
  "on_push s cpu p = find (\<lambda>n. n_task n = n_task p) (inorder (bl_push s cpu))"

definition enqueue_pushable_dl_task :: "dl_topo \<Rightarrow> nat \<Rightarrow> dl_node \<Rightarrow> dl_bal \<Rightarrow> dl_bal outcome" where
  "enqueue_pushable_dl_task tp cpu p s =
     (if on_push s cpu p \<noteq> None then Fault
      else case dl_descend p (bl_push s cpu) True of (t, leftmost) \<Rightarrow>
        Returns (s\<lparr>bl_left := (if leftmost then (bl_left s)(cpu := Some p) else bl_left s),
                   bl_push := (bl_push s)(cpu := tp_insert tp t)\<rparr>))"

definition dequeue_pushable_dl_task :: "dl_topo \<Rightarrow> nat \<Rightarrow> dl_node \<Rightarrow> dl_bal \<Rightarrow> dl_bal" where
  "dequeue_pushable_dl_task tp cpu p s =
     (case on_push s cpu p of
        None \<Rightarrow> s
      | Some n \<Rightarrow>
          s\<lparr>bl_left := (if bl_left s cpu = Some n then (bl_left s)(cpu := succ_in n (inorder (bl_push s cpu)))
                        else bl_left s),
            bl_push := (bl_push s)(cpu := tp_erase tp n (bl_push s cpu))\<rparr>)"

definition has_pushable_dl_tasks :: "nat \<Rightarrow> dl_bal \<Rightarrow> bool" where
  "has_pushable_dl_tasks cpu s \<longleftrightarrow> bl_push s cpu \<noteq> Leaf"

text \<open>The assertions are faults; an empty leftmost pointer would be followed too.\<close>

definition pick_next_pushable_dl_task :: "nat \<Rightarrow> dl_bal \<Rightarrow> dl_node option outcome" where
  "pick_next_pushable_dl_task cpu s =
     (if \<not> has_pushable_dl_tasks cpu s then Returns None
      else case bl_left s cpu of
        None \<Rightarrow> Fault
      | Some p \<Rightarrow>
          if task_current s cpu p \<or> \<not> n_migr p \<or> on_dl_rq (n_task p) (bl_rq s cpu) = None then Fault
          else Returns (Some p))"

section \<open>Putting a task on a queue and taking it off\<close>

definition bl_step :: "dl_topo \<Rightarrow> nat \<Rightarrow> dl_event \<Rightarrow> dl_bal \<Rightarrow> dl_bal outcome" where
  "bl_step tp cpu e s =
     (case dl_sys_step (tp_insert tp) (tp_erase tp) (pick_dl_task tp s cpu cpu) e (bl_sys s) of
        Fault \<Rightarrow> Fault
      | Returns sys \<Rightarrow> Returns (s\<lparr>bl_sys := sys\<rparr>))"

text \<open>\<^verbatim>\<open>enqueue_task_dl\<close> of a task that is not throttled: a current task that comes back has a new node.\<close>

definition bal_enqueue_task :: "dl_topo \<Rightarrow> nat \<Rightarrow> dl_node \<Rightarrow> dl_bal \<Rightarrow> dl_bal outcome" where
  "bal_enqueue_task tp cpu p s =
     (case bl_step tp cpu (Enqueue cpu p) s of
        Fault \<Rightarrow> Fault
      | Returns s' \<Rightarrow>
          if task_current s' cpu p then Returns (s'\<lparr>bl_curr := (bl_curr s')(cpu := Some p)\<rparr>)
          else if n_migr p then enqueue_pushable_dl_task tp cpu p s'
          else Returns s')"

definition bal_dequeue_task :: "dl_topo \<Rightarrow> nat \<Rightarrow> dl_node \<Rightarrow> dl_bal \<Rightarrow> dl_bal outcome" where
  "bal_dequeue_task tp cpu p s =
     (case bl_step tp cpu (Dequeue cpu (n_task p)) s of
        Fault \<Rightarrow> Fault
      | Returns s' \<Rightarrow> Returns (dequeue_pushable_dl_task tp cpu p s'))"

text \<open>
  \<^verbatim>\<open>put_prev_task_dl\<close> and \<^verbatim>\<open>pick_next_task_dl\<close> in turn, as the scheduler calls them: the task picked becomes
  the current one and the flag to reschedule is cleared. The budget of the previous task is charged
  in \<open>Deadline_Server\<close>.
\<close>

definition put_prev_task_dl :: "dl_topo \<Rightarrow> nat \<Rightarrow> dl_node \<Rightarrow> dl_bal \<Rightarrow> dl_bal outcome" where
  "put_prev_task_dl tp cpu p s =
     (if on_dl_rq (n_task p) (bl_rq s cpu) \<noteq> None \<and> n_migr p then enqueue_pushable_dl_task tp cpu p s else Returns s)"

definition set_curr :: "nat \<Rightarrow> dl_node option \<Rightarrow> dl_bal \<Rightarrow> dl_bal" where
  "set_curr cpu p s = s\<lparr>bl_curr := (bl_curr s)(cpu := p), bl_resched := bl_resched s - {cpu}\<rparr>"

definition bal_schedule :: "dl_topo \<Rightarrow> nat \<Rightarrow> dl_bal \<Rightarrow> dl_bal outcome" where
  "bal_schedule tp cpu s =
     (case (case bl_curr s cpu of None \<Rightarrow> Returns s | Some prev \<Rightarrow> put_prev_task_dl tp cpu prev s) of
        Fault \<Rightarrow> Fault
      | Returns s' \<Rightarrow>
          (case pick_next_task_dl (bl_rq s' cpu) of
             Fault \<Rightarrow> Fault
           | Returns None \<Rightarrow> Returns (set_curr cpu None s')
           | Returns (Some p) \<Rightarrow> Returns (set_curr cpu (Some p) (dequeue_pushable_dl_task tp cpu p s'))))"

section \<open>Pushing\<close>

text \<open>The loop of \<^verbatim>\<open>find_later_rq\<close> over the domains: \<open>this_cpu\<close> is \<^term>\<open>None\<close> when it is to be skipped.\<close>

fun later_in_domains :: "nat \<Rightarrow> nat option \<Rightarrow> nat \<Rightarrow> (bool \<times> nat set) list \<Rightarrow> nat option" where
  "later_in_domains nr this_cpu best [] = None"
| "later_in_domains nr this_cpu best ((affine, span) # sds) =
     (if affine \<and> (case this_cpu of None \<Rightarrow> False | Some t \<Rightarrow> t \<in> span) then this_cpu
      else if affine \<and> best < nr \<and> best \<in> span then Some best
      else later_in_domains nr this_cpu best sds)"

text \<open>\<open>here\<close> is \<^verbatim>\<open>smp_processor_id()\<close> and \<open>cpu\<close> the processor of the task.\<close>

definition find_later_rq :: "dl_topo \<Rightarrow> nat \<Rightarrow> nat \<Rightarrow> dl_node \<Rightarrow> dl_bal \<Rightarrow> nat option" where
  "find_later_rq tp here cpu p s =
     (if \<not> n_migr p then None
      else case cpudl_find (tp_any tp) (tp_active tp) (rd_cpudl (sys_rd (bl_sys s))) (n_dl p)
                  (tp_allowed tp (n_task p)) (Some {}) of
        (None, _) \<Rightarrow> None
      | (Some best, later_mask) \<Rightarrow>
          let mask = (case later_mask of None \<Rightarrow> {} | Some m \<Rightarrow> m);
              this_cpu = (if here \<in> mask then Some here else None) in
          if cpu \<in> mask then Some cpu
          else case later_in_domains (tp_nr tp) this_cpu best (tp_domains tp cpu) of
            Some c \<Rightarrow> Some c
          | None \<Rightarrow> (case this_cpu of Some t \<Rightarrow> Some t | None \<Rightarrow> if mask = {} then None else Some (tp_any tp mask)))"

definition DL_MAX_TRIES :: nat where
  "DL_MAX_TRIES = 3"

fun find_lock_later_rq :: "nat \<Rightarrow> dl_topo \<Rightarrow> nat \<Rightarrow> nat \<Rightarrow> dl_node \<Rightarrow> dl_bal \<Rightarrow> nat option" where
  "find_lock_later_rq 0 tp here cpu p s = None"
| "find_lock_later_rq (Suc tries) tp here cpu p s =
     (case find_later_rq tp here cpu p s of
        None \<Rightarrow> None
      | Some c \<Rightarrow>
          if c = cpu then None
          else if dl_nr_running (bl_rq s c) = 0 \<or> dl_time_before (n_dl p) (earliest_curr (bl_rq s c)) then Some c
          else find_lock_later_rq tries tp here cpu p s)"

text \<open>
  \<^verbatim>\<open>push_dl_task\<close>: its result and the new state. When no queue was found the code picks the next
  pushable task again; with the lock held that is the same one, which is taken out of the tree.
\<close>

definition push_dl_task :: "dl_topo \<Rightarrow> nat \<Rightarrow> nat \<Rightarrow> dl_bal \<Rightarrow> (int \<times> dl_bal) outcome" where
  "push_dl_task tp here cpu s =
     (if \<not> rq_overloaded (bl_rq s cpu) then Returns (0, s)
      else case pick_next_pushable_dl_task cpu s of
        Fault \<Rightarrow> Fault
      | Returns None \<Rightarrow> Returns (0, s)
      | Returns (Some p) \<Rightarrow>
          if task_current s cpu p then Returns (0, s)
          else if (case bl_curr s cpu of None \<Rightarrow> False
                   | Some c \<Rightarrow> dl_time_before (n_dl p) (n_dl c) \<and> n_migr c)
          then Returns (0, resched_task cpu s)
          else (case find_lock_later_rq DL_MAX_TRIES tp here cpu p s of
                  None \<Rightarrow> Returns (1, dequeue_pushable_dl_task tp cpu p s)
                | Some later \<Rightarrow>
                    (case bal_dequeue_task tp cpu p s of
                       Fault \<Rightarrow> Fault
                     | Returns s1 \<Rightarrow>
                         (case bal_enqueue_task tp later p s1 of
                            Fault \<Rightarrow> Fault
                          | Returns s2 \<Rightarrow> Returns (1, resched_task later s2)))))"

text \<open>The loop ends when nothing was pushed; not ending is \<^term>\<open>None\<close>.\<close>

partial_function (option) push_dl_tasks :: "dl_topo \<Rightarrow> nat \<Rightarrow> nat \<Rightarrow> dl_bal \<Rightarrow> dl_bal outcome option" where
  "push_dl_tasks tp here cpu s =
     (case push_dl_task tp here cpu s of
        Fault \<Rightarrow> Some Fault
      | Returns (r, s') \<Rightarrow> if r \<noteq> 0 then push_dl_tasks tp here cpu s' else Some (Returns s'))"

section \<open>Pulling\<close>

definition LONG_MAX :: u64 where
  "LONG_MAX = 0x7fffffffffffffff"

definition curr_deadline :: "dl_topo \<Rightarrow> dl_bal \<Rightarrow> nat \<Rightarrow> u64" where
  "curr_deadline tp s cpu = (case bl_curr s cpu of Some c \<Rightarrow> n_dl c | None \<Rightarrow> tp_other_dl tp cpu)"

text \<open>One turn of the loop of \<^verbatim>\<open>pull_dl_task\<close>; the result is \<^verbatim>\<open>ret\<close>, \<^verbatim>\<open>dmin\<close> and the state.\<close>

definition pull_turn :: "dl_topo \<Rightarrow> nat \<Rightarrow> nat \<Rightarrow> int \<times> u64 \<times> dl_bal \<Rightarrow> (int \<times> u64 \<times> dl_bal) outcome" where
  "pull_turn tp this src st =
     (case st of (ret, dmin, s) \<Rightarrow>
       let q = bl_rq s this; sq = bl_rq s src in
       if src \<notin> dlo_mask (sys_rd (bl_sys s)) \<or> src = this then Returns st
       else if dl_nr_running q \<noteq> 0 \<and> dl_time_before (earliest_curr q) (earliest_next sq) then Returns st
       else if dl_nr_running sq \<le> 1 then Returns st
       else case pick_next_earliest_dl_task (pick_dl_task tp s src this) sq of
         None \<Rightarrow> Returns st
       | Some p \<Rightarrow>
           if \<not> (dl_time_before (n_dl p) dmin \<and> (dl_nr_running q = 0 \<or> dl_time_before (n_dl p) (earliest_curr q)))
           then Returns st
           else if dl_time_before (n_dl p) (curr_deadline tp s src) then Returns st
           else (case bal_dequeue_task tp src p s of
                   Fault \<Rightarrow> Fault
                 | Returns s1 \<Rightarrow>
                     (case bal_enqueue_task tp this p s1 of
                        Fault \<Rightarrow> Fault
                      | Returns s2 \<Rightarrow> Returns (1, n_dl p, s2))))"

fun pull_loop :: "dl_topo \<Rightarrow> nat \<Rightarrow> nat list \<Rightarrow> int \<times> u64 \<times> dl_bal \<Rightarrow> (int \<times> u64 \<times> dl_bal) outcome" where
  "pull_loop tp this [] st = Returns st"
| "pull_loop tp this (src # srcs) st =
     (case pull_turn tp this src st of Fault \<Rightarrow> Fault | Returns st' \<Rightarrow> pull_loop tp this srcs st')"

definition pull_dl_task :: "dl_topo \<Rightarrow> nat \<Rightarrow> dl_bal \<Rightarrow> (int \<times> dl_bal) outcome" where
  "pull_dl_task tp this s =
     (if dlo_count (sys_rd (bl_sys s)) = 0 then Returns (0, s)
      else case pull_loop tp this [0..<tp_nr tp] (0, LONG_MAX, s) of
        Fault \<Rightarrow> Fault
      | Returns (ret, dmin, s') \<Rightarrow> Returns (ret, s'))"

section \<open>Consistency\<close>

text \<open>What the code relies on: the trees of the kernel, a mask's element, affinities within the processors.\<close>

definition tp_ok :: "dl_topo \<Rightarrow> bool" where
  "tp_ok tp \<longleftrightarrow> rb_laws (tp_insert tp) (tp_erase tp) \<and> (\<forall>m. m \<noteq> {} \<longrightarrow> tp_any tp m \<in> m) \<and>
     (\<forall>t. tp_allowed tp t \<subseteq> {..<tp_nr tp})"

definition is_curr :: "dl_node option \<Rightarrow> dl_node \<Rightarrow> bool" where
  "is_curr cur n \<longleftrightarrow> (case cur of None \<Rightarrow> False | Some c \<Rightarrow> n_task c = n_task n)"

text \<open>
  One processor, from what is queued, what runs and the tree of pushable tasks: the tree is ordered,
  its leftmost node cached, and it holds queued tasks that may move and do not run.
\<close>

definition push_ok :: "dl_node set \<Rightarrow> dl_node option \<Rightarrow> dl_node list \<Rightarrow> dl_node option \<Rightarrow> bool" where
  "push_ok Q cur ps l \<longleftrightarrow> sorted (map n_dl ps) \<and> distinct (map n_task ps) \<and> l = first ps \<and>
     (\<forall>n \<in> set ps. n \<in> Q \<and> n_migr n \<and> \<not> is_curr cur n) \<and>
     (\<forall>x. cur = Some x \<longrightarrow> n_task x \<in> n_task ` Q \<longrightarrow> x \<in> Q)"

text \<open>All processors: a task is on one queue at most, one it may run on, and does not run elsewhere.\<close>

definition tasks_ok :: "dl_topo \<Rightarrow> (nat \<Rightarrow> dl_node set) \<Rightarrow> (nat \<Rightarrow> dl_node option) \<Rightarrow> bool" where
  "tasks_ok tp Q cur \<longleftrightarrow>
     (\<forall>c < tp_nr tp. \<forall>n \<in> Q c. c \<in> tp_allowed tp (n_task n) \<and>
        (\<forall>d < tp_nr tp. d \<noteq> c \<longrightarrow> n_task n \<notin> n_task ` Q d \<and> \<not> is_curr (cur d) n))"

definition bal_inv :: "dl_topo \<Rightarrow> dl_bal \<Rightarrow> bool" where
  "bal_inv tp s \<longleftrightarrow> sys_inv (tp_nr tp) (bl_sys s) \<and> tasks_ok tp (queued (bl_sys s)) (bl_curr s) \<and>
     (\<forall>c < tp_nr tp. push_ok (queued (bl_sys s) c) (bl_curr s c) (inorder (bl_push s c)) (bl_left s c))"

definition with_push :: "nat \<Rightarrow> dl_node tree \<Rightarrow> dl_node option \<Rightarrow> dl_bal \<Rightarrow> dl_bal" where
  "with_push cpu t l s = s\<lparr>bl_left := (bl_left s)(cpu := l), bl_push := (bl_push s)(cpu := t)\<rparr>"

lemma with_push_simps [simp]:
  "bl_sys (with_push cpu t l s) = bl_sys s" "bl_curr (with_push cpu t l s) = bl_curr s"
  "bl_push (with_push cpu t l s) = (bl_push s)(cpu := t)" "bl_left (with_push cpu t l s) = (bl_left s)(cpu := l)"
  "bl_resched (with_push cpu t l s) = bl_resched s" "bl_rq (with_push cpu t l s) c = bl_rq s c"
  by (simp_all add: with_push_def bl_rq_def)

lemma task_current_is_curr: "task_current s cpu p \<longleftrightarrow> is_curr (bl_curr s cpu) p"
  by (simp add: task_current_def is_curr_def)

lemma resched_task_simps [simp]:
  "bl_sys (resched_task cpu s) = bl_sys s" "bl_curr (resched_task cpu s) = bl_curr s" "bl_push (resched_task cpu s) = bl_push s"
  "bl_left (resched_task cpu s) = bl_left s" "bl_rq (resched_task cpu s) c = bl_rq s c" "bal_inv tp (resched_task cpu s) = bal_inv tp s"
  by (simp_all add: resched_task_def bl_rq_def bal_inv_def)

lemma bal_invD:
  assumes "bal_inv tp s" and "c < tp_nr tp"
  shows "rq_ok (bl_rq s c)" and "queued (bl_sys s) c = set (nodes (bl_rq s c))"
    and "push_ok (queued (bl_sys s) c) (bl_curr s c) (inorder (bl_push s c)) (bl_left s c)"
    and "\<And>n. n \<in> queued (bl_sys s) c \<Longrightarrow> dl_ok n"
proof -
  show q: "rq_ok (bl_rq s c)" "queued (bl_sys s) c = set (nodes (bl_rq s c))"
    "push_ok (queued (bl_sys s) c) (bl_curr s c) (inorder (bl_push s c)) (bl_left s c)"
    using assms by (auto simp: bal_inv_def sys_inv_def bl_rq_def queued_def)
  show "dl_ok n" if "n \<in> queued (bl_sys s) c" for n using rq_okD(3) [OF q(1)] that q(2) by simp
qed

lemma queued_inj:
  assumes "bal_inv tp s" and "c < tp_nr tp" and "a \<in> queued (bl_sys s) c" and "b \<in> queued (bl_sys s) c" and "n_task a = n_task b"
  shows "a = b"
  using rq_okD(2) [OF bal_invD(1) [OF assms(1,2)]] assms(3-5) unfolding bal_invD(2) [OF assms(1,2)]
  by (auto simp: distinct_map dest: inj_onD)

section \<open>The operations keep it\<close>

lemma enqueue_pushable_result:
  assumes "tp_ok tp" and "push_ok Q cur (inorder (bl_push s cpu)) (bl_left s cpu)"
    and "\<And>n. n \<in> Q \<Longrightarrow> dl_ok n" and "p \<in> Q" and "n_task p \<notin> n_task ` set (inorder (bl_push s cpu))"
  shows "\<exists>t. enqueue_pushable_dl_task tp cpu p s = Returns (with_push cpu t (first (inorder t)) s) \<and>
    inorder t = put_in p (inorder (bl_push s cpu))"
proof -
  let ?ps = "inorder (bl_push s cpu)"
  have ps: "sorted (map n_dl ?ps)" "\<forall>e \<in> set ?ps. dl_ok e" "bl_left s cpu = first ?ps" "dl_ok p"
    using assms(2-4) by (auto simp: push_ok_def)
  obtain t lm where d: "dl_descend p (bl_push s cpu) True = (t, lm)" by force
  have t: "inorder t = put_in p ?ps" "lm \<longleftrightarrow> (\<forall>e \<in> set ?ps. n_dl p < n_dl e)"
    using dl_descend_result [OF ps(1,2,4), of True] d by auto
  have i: "inorder (tp_insert tp t) = put_in p ?ps" using assms(1) t(1) rb_lawsD(1) [of "tp_insert tp"] by (auto simp: tp_ok_def)
  have "on_push s cpu p = None" using assms(5) by (auto simp: on_push_def find_None_iff image_iff)
  then have "enqueue_pushable_dl_task tp cpu p s = Returns (with_push cpu (tp_insert tp t) (first (put_in p ?ps)) s)"
    using d put_in_first [OF ps(1), of p] ps(3) unfolding t(2) [symmetric]
    by (cases lm) (simp_all add: enqueue_pushable_dl_task_def with_push_def fun_upd_idem)
  then show ?thesis using i by (intro exI [of _ "tp_insert tp t"]) simp
qed

lemma dequeue_pushable_result:
  assumes "tp_ok tp" and "push_ok Q cur (inorder (bl_push s cpu)) (bl_left s cpu)"
  shows "\<exists>t. dequeue_pushable_dl_task tp cpu p s = with_push cpu t (first (inorder t)) s \<and>
    inorder t = filter (\<lambda>n. n_task n \<noteq> n_task p) (inorder (bl_push s cpu))"
proof (cases "on_push s cpu p")
  case None
  then have "filter (\<lambda>n. n_task n \<noteq> n_task p) (inorder (bl_push s cpu)) = inorder (bl_push s cpu)"
    by (auto simp: on_push_def find_None_iff filter_id_conv)
  moreover have "dequeue_pushable_dl_task tp cpu p s = with_push cpu (bl_push s cpu) (first (inorder (bl_push s cpu))) s"
    using None assms(2) by (simp add: dequeue_pushable_dl_task_def with_push_def push_ok_def fun_upd_idem)
  ultimately show ?thesis by metis
next
  case (Some n)
  let ?ps = "inorder (bl_push s cpu)"
  have n: "n \<in> set ?ps" "n_task n = n_task p" using find_SomeD Some unfolding on_push_def by fast+
  have ps: "distinct (map n_task ?ps)" "bl_left s cpu = first ?ps" using assms(2) by (auto simp: push_ok_def)
  then have d: "distinct ?ps" by (simp add: distinct_map)
  have "filter (\<lambda>x. n_task x \<noteq> n_task p) ?ps = removeAll n ?ps"
    unfolding removeAll_filter_not_eq using ps(1) n by (intro filter_cong) (auto simp: distinct_map inj_on_def)
  moreover have "inorder (tp_erase tp n (bl_push s cpu)) = removeAll n ?ps"
    using assms(1) rb_lawsD(2) [of "tp_insert tp", OF _ n(1) d] unfolding tp_ok_def by simp
  moreover have "dequeue_pushable_dl_task tp cpu p s = with_push cpu (tp_erase tp n (bl_push s cpu)) (first (removeAll n ?ps)) s"
    using Some ps(2) nodes_without(3) [OF ps(1) n(1)]
    by (simp add: dequeue_pushable_dl_task_def with_push_def fun_upd_idem)
  ultimately show ?thesis by metis
qed

text \<open>Taking a task off a queue.\<close>

lemma push_ok_drop:
  assumes "push_ok Q cur ps l"
  shows "push_ok Q cur (filter P ps) (first (filter P ps))"
proof -
  have "sorted (map n_dl (filter P ps))" using assms by (intro sorted_filter) (simp add: push_ok_def)
  moreover have "distinct (map n_task (filter P ps))" using assms by (intro distinct_map_filter) (simp add: push_ok_def)
  ultimately show ?thesis using assms by (simp add: push_ok_def)
qed

lemma push_ok_remove:
  assumes "push_ok Q cur ps l"
  shows "push_ok {n \<in> Q. n_task n \<noteq> t} cur (filter (\<lambda>n. n_task n \<noteq> t) ps) (first (filter (\<lambda>n. n_task n \<noteq> t) ps))"
proof -
  have "x \<in> {n \<in> Q. n_task n \<noteq> t}" if "cur = Some x" "n_task x \<in> n_task ` {n \<in> Q. n_task n \<noteq> t}" for x
  proof -
    have "n_task x \<in> n_task ` Q" "n_task x \<noteq> t" using that(2) by auto
    then show ?thesis using assms that(1) by (simp add: push_ok_def)
  qed
  moreover have "\<forall>n \<in> set (filter (\<lambda>n. n_task n \<noteq> t) ps). n \<in> {n \<in> Q. n_task n \<noteq> t}" using assms by (simp add: push_ok_def)
  ultimately show ?thesis using push_ok_drop [OF assms, of "\<lambda>n. n_task n \<noteq> t"] unfolding push_ok_def by blast
qed

lemma tasks_ok_remove:
  assumes "tasks_ok tp Q cur"
  shows "tasks_ok tp (Q(c := {n \<in> Q c. n_task n \<noteq> t})) cur"
  unfolding tasks_ok_def
proof (intro allI impI ballI)
  fix d n assume d: "d < tp_nr tp" and n: "n \<in> (Q(c := {n \<in> Q c. n_task n \<noteq> t})) d"
  have sub: "(Q(c := {n \<in> Q c. n_task n \<noteq> t})) e \<subseteq> Q e" for e by auto
  then show "d \<in> tp_allowed tp (n_task n) \<and> (\<forall>e < tp_nr tp. e \<noteq> d \<longrightarrow>
      n_task n \<notin> n_task ` (Q(c := {n \<in> Q c. n_task n \<noteq> t})) e \<and> \<not> is_curr (cur e) n)"
    using assms d n unfolding tasks_ok_def by blast
qed

lemma bl_step_ok:
  assumes "tp_ok tp" and "sys_inv (tp_nr tp) (bl_sys s)" and "event_ok (tp_nr tp) e (queued (bl_sys s))"
  obtains y where "bl_step tp cpu e s = Returns (s\<lparr>bl_sys := y\<rparr>)" and "sys_inv (tp_nr tp) y" and "queued y = queued_step e (queued (bl_sys s))"
proof -
  have "rb_laws (tp_insert tp) (tp_erase tp)" using assms(1) by (simp add: tp_ok_def)
  from sys_step_ok [OF this assms(2,3), of "pick_dl_task tp s cpu cpu"] show thesis using that by (auto simp: bl_step_def)
qed

lemma bal_dequeue_task_ok:
  assumes tp: "tp_ok tp" and inv: "bal_inv tp s" and cpu: "cpu < tp_nr tp"
  shows "\<exists>s'. bal_dequeue_task tp cpu p s = Returns s' \<and> bal_inv tp s' \<and>
    queued (bl_sys s') = (queued (bl_sys s))(cpu := {n \<in> queued (bl_sys s) cpu. n_task n \<noteq> n_task p}) \<and>
    bl_curr s' = bl_curr s \<and> bl_resched s' = bl_resched s \<and>
    inorder (bl_push s' cpu) = filter (\<lambda>n. n_task n \<noteq> n_task p) (inorder (bl_push s cpu)) \<and>
    (\<forall>c. c \<noteq> cpu \<longrightarrow> bl_push s' c = bl_push s c)"
proof -
  have sys: "sys_inv (tp_nr tp) (bl_sys s)" "tasks_ok tp (queued (bl_sys s)) (bl_curr s)" using inv by (auto simp: bal_inv_def)
  obtain y where y: "bl_step tp cpu (Dequeue cpu (n_task p)) s = Returns (s\<lparr>bl_sys := y\<rparr>)"
      "sys_inv (tp_nr tp) y" "queued y = (queued (bl_sys s))(cpu := {n \<in> queued (bl_sys s) cpu. n_task n \<noteq> n_task p})"
    using bl_step_ok [OF tp sys(1), of "Dequeue cpu (n_task p)" cpu] cpu by auto
  obtain t where t: "dequeue_pushable_dl_task tp cpu p (s\<lparr>bl_sys := y\<rparr>) = with_push cpu t (first (inorder t)) (s\<lparr>bl_sys := y\<rparr>)"
      "inorder t = filter (\<lambda>n. n_task n \<noteq> n_task p) (inorder (bl_push s cpu))"
    using dequeue_pushable_result [OF tp, of "queued (bl_sys s) cpu" "bl_curr s cpu" "s\<lparr>bl_sys := y\<rparr>" cpu p] bal_invD(3) [OF inv cpu]
    by auto
  have "bal_inv tp (with_push cpu t (first (inorder t)) (s\<lparr>bl_sys := y\<rparr>))"
    using y inv tasks_ok_remove [OF sys(2), of cpu "n_task p"] push_ok_remove [OF bal_invD(3) [OF inv cpu], of "n_task p"]
    by (auto simp: bal_inv_def t(2))
  then show ?thesis using y t by (simp add: bal_dequeue_task_def)
qed

text \<open>Putting a task on a queue.\<close>

lemma push_ok_insert:
  assumes "push_ok Q cur ps l" and "n_task p \<notin> n_task ` Q"
  shows "\<not> is_curr cur p \<Longrightarrow> push_ok (insert p Q) cur ps l"
    and "\<not> is_curr cur p \<Longrightarrow> n_migr p \<Longrightarrow> push_ok (insert p Q) cur (put_in p ps) (first (put_in p ps))"
    and "is_curr cur p \<Longrightarrow> push_ok (insert p Q) (Some p) ps l"
proof -
  have "n_task p \<notin> n_task ` set ps" using assms by (auto simp: push_ok_def)
  then show "\<not> is_curr cur p \<Longrightarrow> n_migr p \<Longrightarrow> push_ok (insert p Q) cur (put_in p ps) (first (put_in p ps))"
    using assms put_in_sorted put_in_distinct by (auto simp: push_ok_def is_curr_def split: option.splits)
  show "\<not> is_curr cur p \<Longrightarrow> push_ok (insert p Q) cur ps l"
    using assms by (auto simp: push_ok_def is_curr_def)
  show "is_curr cur p \<Longrightarrow> push_ok (insert p Q) (Some p) ps l"
    using assms by (force simp: push_ok_def is_curr_def)
qed

text \<open>The task is nowhere: on no queue, and running at most where it is put.\<close>

definition nowhere_but :: "dl_topo \<Rightarrow> nat \<Rightarrow> dl_node \<Rightarrow> dl_bal \<Rightarrow> bool" where
  "nowhere_but tp cpu p s \<longleftrightarrow>
     (\<forall>c < tp_nr tp. n_task p \<notin> n_task ` queued (bl_sys s) c \<and> (c \<noteq> cpu \<longrightarrow> \<not> is_curr (bl_curr s c) p))"

lemma tasks_ok_insert:
  assumes "tasks_ok tp (queued (bl_sys s)) (bl_curr s)" and "nowhere_but tp cpu p s" and "cpu \<in> tp_allowed tp (n_task p)"
    and "cur = bl_curr s \<or> is_curr (bl_curr s cpu) p \<and> cur = (bl_curr s)(cpu := Some p)"
  shows "tasks_ok tp ((queued (bl_sys s))(cpu := insert p (queued (bl_sys s) cpu))) cur"
  unfolding tasks_ok_def
proof (intro allI impI ballI)
  let ?Q = "queued (bl_sys s)"
  have q: "n_task p \<notin> n_task ` ?Q d" "d \<noteq> cpu \<Longrightarrow> \<not> is_curr (bl_curr s d) p" if "d < tp_nr tp" for d
    using assms(2) that by (auto simp: nowhere_but_def)
  have c: "is_curr (cur d) n \<longleftrightarrow> is_curr (bl_curr s d) n" for d n
    using assms(4) by (cases "d = cpu") (auto simp: is_curr_def split: option.splits)
  fix d n assume d: "d < tp_nr tp" and n: "n \<in> (?Q(cpu := insert p (?Q cpu))) d"
  show "d \<in> tp_allowed tp (n_task n) \<and> (\<forall>e < tp_nr tp. e \<noteq> d \<longrightarrow>
      n_task n \<notin> n_task ` (?Q(cpu := insert p (?Q cpu))) e \<and> \<not> is_curr (cur e) n)"
  proof (cases "d = cpu \<and> n = p")
    case True
    then show ?thesis using q assms(3) by (simp add: c)
  next
    case False
    then have n: "n \<in> ?Q d" using n by (auto split: if_splits)
    then have "n_task n \<noteq> n_task p" using q(1) [OF d] by (auto simp: image_iff)
    then show ?thesis using assms(1) d n unfolding c tasks_ok_def by auto
  qed
qed

lemma bal_enqueue_task_ok:
  assumes tp: "tp_ok tp" and inv: "bal_inv tp s" and cpu: "cpu < tp_nr tp"
    and p: "dl_ok p" "cpu \<in> tp_allowed tp (n_task p)" "nowhere_but tp cpu p s"
  shows "\<exists>s'. bal_enqueue_task tp cpu p s = Returns s' \<and> bal_inv tp s' \<and>
    queued (bl_sys s') = (queued (bl_sys s))(cpu := insert p (queued (bl_sys s) cpu)) \<and>
    (\<forall>c. (\<not> is_curr (bl_curr s cpu) p \<or> c \<noteq> cpu) \<longrightarrow> bl_curr s' c = bl_curr s c) \<and> bl_resched s' = bl_resched s \<and>
    (\<forall>c. c \<noteq> cpu \<longrightarrow> bl_push s' c = bl_push s c)"
proof -
  have sys: "sys_inv (tp_nr tp) (bl_sys s)" "tasks_ok tp (queued (bl_sys s)) (bl_curr s)" using inv by (auto simp: bal_inv_def)
  have new: "n_task p \<notin> n_task ` queued (bl_sys s) cpu" using p(3) cpu by (auto simp: nowhere_but_def)
  let ?Q = "insert p (queued (bl_sys s) cpu)"
  obtain y where y: "bl_step tp cpu (Enqueue cpu p) s = Returns (s\<lparr>bl_sys := y\<rparr>)"
      "sys_inv (tp_nr tp) y" "queued y = (queued (bl_sys s))(cpu := ?Q)"
    using bl_step_ok [OF tp sys(1), of "Enqueue cpu p" cpu] cpu p(1) new by auto
  note ok = push_ok_insert [OF bal_invD(3) [OF inv cpu] new] and all = tasks_ok_insert [OF sys(2) p(3,2)]
  let ?s = "s\<lparr>bl_sys := y\<rparr>"
  show ?thesis
  proof (cases "is_curr (bl_curr s cpu) p")
    case True
    have "bal_inv tp (?s\<lparr>bl_curr := (bl_curr s)(cpu := Some p)\<rparr>)"
      using y inv ok(3) [OF True] all [of "(bl_curr s)(cpu := Some p)"] True by (auto simp: bal_inv_def)
    then show ?thesis using y True by (simp add: bal_enqueue_task_def task_current_is_curr)
  next
    case False
    show ?thesis
    proof (cases "n_migr p")
      case True
      have "n_task p \<notin> n_task ` set (inorder (bl_push s cpu))" using new bal_invD(3) [OF inv cpu] by (auto simp: push_ok_def)
      moreover have "\<And>n. n \<in> ?Q \<Longrightarrow> dl_ok n" using p(1) bal_invD(4) [OF inv cpu] by auto
      ultimately obtain t where t: "enqueue_pushable_dl_task tp cpu p ?s = Returns (with_push cpu t (first (inorder t)) ?s)"
          "inorder t = put_in p (inorder (bl_push s cpu))"
        using enqueue_pushable_result [OF tp, of ?Q "bl_curr s cpu" ?s cpu p] ok(1) [OF False] by auto
      have "bal_inv tp (with_push cpu t (first (inorder t)) ?s)"
        using y inv ok(2) [OF False True] all [of "bl_curr s"] by (auto simp: bal_inv_def t(2))
      then show ?thesis using y t(1) True False by (simp add: bal_enqueue_task_def task_current_is_curr)
    next
      case no: False
      have "bal_inv tp ?s" using y inv ok(1) [OF False] all [of "bl_curr s"] by (auto simp: bal_inv_def)
      then show ?thesis using y no False by (simp add: bal_enqueue_task_def task_current_is_curr)
    qed
  qed
qed

text \<open>Choosing the next task: the one that ran may be pushed, the one that will run may not.\<close>

lemma push_ok_put_prev:
  assumes "push_ok Q (Some prev) ps l" and "prev \<in> Q" and "n_migr prev"
  shows "n_task prev \<notin> n_task ` set ps" and "push_ok Q None (put_in prev ps) (first (put_in prev ps))"
proof -
  show n: "n_task prev \<notin> n_task ` set ps" using assms(1) by (auto simp: push_ok_def is_curr_def)
  show "push_ok Q None (put_in prev ps) (first (put_in prev ps))"
    using assms n put_in_sorted put_in_distinct by (auto simp: push_ok_def is_curr_def)
qed

lemma push_ok_next:
  assumes "push_ok Q None ps l" and "p \<in> Q"
  shows "push_ok Q (Some p) (filter (\<lambda>n. n_task n \<noteq> n_task p) ps) (first (filter (\<lambda>n. n_task n \<noteq> n_task p) ps))"
  using push_ok_remove [OF assms(1), of "n_task p"] assms(2) unfolding push_ok_def by (auto simp: is_curr_def)

lemma push_ok_idle: "push_ok Q cur ps l \<Longrightarrow> push_ok Q None ps l"
  by (simp add: push_ok_def is_curr_def)

lemma tasks_ok_run:
  assumes "tasks_ok tp Q cur" and "cpu < tp_nr tp" and "\<And>p. x = Some p \<Longrightarrow> p \<in> Q cpu"
  shows "tasks_ok tp Q (cur(cpu := x))"
proof -
  have "\<not> is_curr x n" if "c < tp_nr tp" "n \<in> Q c" "c \<noteq> cpu" for c n
    using assms that by (auto simp: tasks_ok_def is_curr_def image_iff split: option.splits)
  then show ?thesis using assms(1) by (simp add: tasks_ok_def)
qed

lemma bal_schedule_ok:
  assumes tp: "tp_ok tp" and inv: "bal_inv tp s" and cpu: "cpu < tp_nr tp"
  shows "\<exists>s'. bal_schedule tp cpu s = Returns s' \<and> bal_inv tp s' \<and> bl_sys s' = bl_sys s \<and>
    bl_curr s' = (bl_curr s)(cpu := first (nodes (bl_rq s cpu)))"
proof -
  let ?Q = "queued (bl_sys s) cpu" and ?prev = "\<lambda>x. on_dl_rq (n_task x) (bl_rq s cpu) \<noteq> None \<and> n_migr x"
  note ok = bal_invD [OF inv cpu] and q = rq_okD [OF bal_invD(1) [OF inv cpu]]
  have run: "tasks_ok tp (queued (bl_sys s)) ((bl_curr s)(cpu := first (nodes (bl_rq s cpu))))"
    using inv cpu first_Some ok(2) by (intro tasks_ok_run) (auto simp: bal_inv_def simp flip: set_inorder)
  obtain t l where t: "(case bl_curr s cpu of None \<Rightarrow> Returns s | Some prev \<Rightarrow> put_prev_task_dl tp cpu prev s) = Returns (with_push cpu t l s)"
      "push_ok ?Q None (inorder t) l"
  proof (cases "\<exists>x. bl_curr s cpu = Some x \<and> ?prev x")
    case True
    then obtain x where x: "bl_curr s cpu = Some x" "on_dl_rq (n_task x) (bl_rq s cpu) \<noteq> None" "n_migr x" by blast
    then have "x \<in> ?Q" using ok(2,3) by (auto simp: push_ok_def on_dl_rq_None)
    with push_ok_put_prev [OF ok(3) [unfolded x(1)] this x(3)] enqueue_pushable_result [OF tp ok(3,4), of x] show ?thesis
      using x that by (auto simp: put_prev_task_dl_def)
  next
    case False
    have "with_push cpu (bl_push s cpu) (bl_left s cpu) s = s" by (simp add: with_push_def)
    with False show ?thesis by (intro that [OF _ push_ok_idle [OF ok(3)]]) (cases "bl_curr s cpu"; auto simp: put_prev_task_dl_def)
  qed
  let ?s = "with_push cpu t l s"
  show ?thesis
  proof (cases "first (nodes (bl_rq s cpu))")
    case None
    then have e: "nodes (bl_rq s cpu) = []" by (cases "nodes (bl_rq s cpu)") (auto simp: first_def)
    have "bal_inv tp (set_curr cpu None ?s)" using inv run None t(2) by (auto simp: bal_inv_def set_curr_def)
    then show ?thesis using e q(5) t(1) None by (simp add: bal_schedule_def pick_next_task_dl_def) (simp add: set_curr_def)
  next
    case (Some p)
    then have p: "p \<in> ?Q" "pick_next_task_dl (bl_rq s cpu) = Returns (Some p)"
      using first_Some [OF Some] q(4,5) ok(2) by (auto simp: pick_next_task_dl_def first_def simp del: set_inorder)
    obtain t' where t': "dequeue_pushable_dl_task tp cpu p ?s = with_push cpu t' (first (inorder t')) ?s"
        "inorder t' = filter (\<lambda>n. n_task n \<noteq> n_task p) (inorder t)"
      using dequeue_pushable_result [OF tp, of ?Q None ?s cpu p] t(2) by auto
    have "bal_inv tp (set_curr cpu (Some p) (with_push cpu t' (first (inorder t')) ?s))"
      using inv run Some push_ok_next [OF t(2) p(1)] by (auto simp: bal_inv_def t'(2) set_curr_def)
    then show ?thesis using t(1) p(2) t'(1) Some by (simp add: bal_schedule_def) (simp add: set_curr_def)
  qed
qed

section \<open>Moving a task\<close>

definition moved :: "dl_node \<Rightarrow> nat \<Rightarrow> nat \<Rightarrow> (nat \<Rightarrow> dl_node set) \<Rightarrow> nat \<Rightarrow> dl_node set" where
  "moved p src dst Q = Q(src := Q src - {p}, dst := insert p (Q dst))"

lemma move_task_ok:
  assumes tp: "tp_ok tp" and inv: "bal_inv tp s" and c: "src < tp_nr tp" "dst \<in> tp_allowed tp (n_task p)" "src \<noteq> dst"
    and p: "p \<in> queued (bl_sys s) src" "\<not> is_curr (bl_curr s src) p"
  obtains s1 s2 where "bal_dequeue_task tp src p s = Returns s1" and "bal_enqueue_task tp dst p s1 = Returns s2" and "bal_inv tp s2"
    and "queued (bl_sys s2) = moved p src dst (queued (bl_sys s))" and "bl_curr s2 = bl_curr s" and "bl_resched s2 = bl_resched s"
    and "inorder (bl_push s2 src) = filter (\<lambda>n. n_task n \<noteq> n_task p) (inorder (bl_push s src))"
proof -
  let ?Q = "queued (bl_sys s)"
  have dst: "dst < tp_nr tp" using tp c(2) by (auto simp: tp_ok_def)
  obtain s1 where s1: "bal_dequeue_task tp src p s = Returns s1" "bal_inv tp s1"
      "queued (bl_sys s1) = ?Q(src := {n \<in> ?Q src. n_task n \<noteq> n_task p})" "bl_curr s1 = bl_curr s" "bl_resched s1 = bl_resched s"
      "inorder (bl_push s1 src) = filter (\<lambda>n. n_task n \<noteq> n_task p) (inorder (bl_push s src))"
    using bal_dequeue_task_ok [OF tp inv c(1), of p] by blast
  have src: "{n \<in> ?Q src. n_task n \<noteq> n_task p} = ?Q src - {p}" using queued_inj [OF inv c(1)] p(1) by auto
  have away: "n_task p \<notin> n_task ` ?Q d \<and> \<not> is_curr (bl_curr s d) p" if "d < tp_nr tp" "d \<noteq> src" for d
    using inv c(1) p(1) that by (simp add: bal_inv_def tasks_ok_def)
  have "nowhere_but tp dst p s1" using away p(2) by (auto simp: nowhere_but_def s1(3,4))
  then obtain s2 where s2: "bal_enqueue_task tp dst p s1 = Returns s2" "bal_inv tp s2"
      "queued (bl_sys s2) = (queued (bl_sys s1))(dst := insert p (queued (bl_sys s1) dst))"
      "\<forall>d. (\<not> is_curr (bl_curr s1 dst) p \<or> d \<noteq> dst) \<longrightarrow> bl_curr s2 d = bl_curr s1 d" "bl_resched s2 = bl_resched s1"
      "\<forall>d. d \<noteq> dst \<longrightarrow> bl_push s2 d = bl_push s1 d"
    using bal_enqueue_task_ok [OF tp s1(2) dst bal_invD(4) [OF inv c(1) p(1)] c(2)] by blast
  have "bl_curr s2 = bl_curr s" using s2(4) away [OF dst] c(3) by (auto simp: s1(4))
  moreover have "queued (bl_sys s2) = moved p src dst ?Q" using c(3) by (simp add: s2(3) s1(3) moved_def src)
  ultimately show thesis using that [OF s1(1) s2(1,2)] s2(5,6) s1(5,6) c(3) by simp
qed

section \<open>Pushing is safe and ends\<close>

lemma later_in_domains_choice: "later_in_domains nr this_cpu best sds = Some c \<Longrightarrow> this_cpu = Some c \<or> c = best"
  by (induction sds rule: later_in_domains.induct [of _ nr this_cpu best]) (auto split: if_splits)

lemma cpudl_find_mask:
  assumes "\<And>m. m \<noteq> {} \<Longrightarrow> any m \<in> m" and "cpudl_find any active cp d allowed (Some {}) = (Some best, later)"
  obtains m where "later = Some m" and "best \<in> m" and "m \<subseteq> allowed"
  using assms(2) assms(1) [of "cp_free_cpus cp \<inter> allowed \<inter> active"] by (fastforce simp: cpudl_find_def Let_def split: if_splits)

lemma find_later_rq_allowed:
  assumes "tp_ok tp" and "find_later_rq tp here cpu p s = Some c"
  shows "c \<in> tp_allowed tp (n_task p)"
proof -
  have any: "\<And>m. m \<noteq> {} \<Longrightarrow> tp_any tp m \<in> m" using assms(1) by (simp add: tp_ok_def)
  let ?f = "cpudl_find (tp_any tp) (tp_active tp) (rd_cpudl (sys_rd (bl_sys s))) (n_dl p) (tp_allowed tp (n_task p)) (Some {})"
  obtain best later where f: "?f = (Some best, later)"
    using assms(2) by (cases ?f; cases "fst ?f") (auto simp: find_later_rq_def split: if_splits)
  obtain m where m: "later = Some m" "best \<in> m" "m \<subseteq> tp_allowed tp (n_task p)" by (rule cpudl_find_mask [OF any f])
  then show ?thesis
    using assms(2) later_in_domains_choice any [of m]
    by (auto simp: find_later_rq_def f Let_def split: if_splits option.splits dest!: later_in_domains_choice)
qed

lemma find_lock_later_rq_good:
  assumes "tp_ok tp" and "find_lock_later_rq tries tp here cpu p s = Some c"
  shows "c \<in> tp_allowed tp (n_task p) \<and> c \<noteq> cpu \<and>
    (dl_nr_running (bl_rq s c) = 0 \<or> dl_time_before (n_dl p) (earliest_curr (bl_rq s c)))"
  using assms(2)
  by (induction tries) (auto split: option.splits if_splits dest: find_later_rq_allowed [OF assms(1)])

text \<open>What one push does to the queues: a task goes to the front of a queue it may be on.\<close>

definition push_move :: "dl_topo \<Rightarrow> nat \<Rightarrow> (nat \<Rightarrow> dl_node set) \<Rightarrow> (nat \<Rightarrow> dl_node set) \<Rightarrow> bool" where
  "push_move tp cpu Q Q' \<longleftrightarrow>
     (\<exists>p dst. p \<in> Q cpu \<and> dst \<noteq> cpu \<and> dst \<in> tp_allowed tp (n_task p) \<and> (\<forall>m \<in> Q dst. n_dl p < n_dl m) \<and> Q' = moved p cpu dst Q)"

lemma preempts_queue:
  assumes "bal_inv tp s" and "c < tp_nr tp" and "dl_ok p"
    and "dl_nr_running (bl_rq s c) = 0 \<or> dl_time_before (n_dl p) (earliest_curr (bl_rq s c))"
  shows "\<forall>m \<in> queued (bl_sys s) c. n_dl p < n_dl m"
proof
  fix m assume m: "m \<in> queued (bl_sys s) c"
  note q = rq_okD [OF bal_invD(1) [OF assms(1,2)]] and ok = bal_invD(2,4) [OF assms(1,2)]
  obtain f where f: "first (nodes (bl_rq s c)) = Some f" using m ok(1) by (cases "nodes (bl_rq s c)") (auto simp: first_def simp flip: set_inorder)
  have "dl_nr_running (bl_rq s c) \<noteq> 0" using f q(5) by (auto simp: first_def)
  then have "dl_time_before (n_dl p) (n_dl f)" using assms(4) q(6) f by simp
  moreover have "dl_ok f" using first_Some [OF f] ok by simp
  ultimately have "n_dl p < n_dl f" using assms(3) by (simp add: dl_ok_def dl_time_before_less)
  also have "n_dl f \<le> n_dl m" using first_earliest [OF q(1) f] m ok(1) by simp
  finally show "n_dl p < n_dl m" .
qed

text \<open>When nothing is pushed: no task can be, or the processor will run another task itself.\<close>

definition push_over :: "nat \<Rightarrow> dl_bal \<Rightarrow> bool" where
  "push_over cpu s \<longleftrightarrow> \<not> rq_overloaded (bl_rq s cpu) \<or> bl_push s cpu = Leaf \<or>
     (\<exists>p c. bl_left s cpu = Some p \<and> bl_curr s cpu = Some c \<and> dl_time_before (n_dl p) (n_dl c) \<and> n_migr c \<and> cpu \<in> bl_resched s)"

lemma pick_next_pushable_ok:
  assumes "bal_inv tp s" and "cpu < tp_nr tp" and "bl_push s cpu \<noteq> Leaf"
  obtains p where "pick_next_pushable_dl_task cpu s = Returns (Some p)" and "bl_left s cpu = Some p" and "p \<in> set (inorder (bl_push s cpu))"
    and "p \<in> queued (bl_sys s) cpu" and "\<not> is_curr (bl_curr s cpu) p" and "n_migr p"
proof -
  note ok = bal_invD [OF assms(1,2)]
  have "inorder (bl_push s cpu) \<noteq> []" using assms(3) by (cases "bl_push s cpu") auto
  then obtain p where f: "first (inorder (bl_push s cpu)) = Some p" by (cases "inorder (bl_push s cpu)") (auto simp: first_def)
  have p: "bl_left s cpu = Some p" "p \<in> set (inorder (bl_push s cpu))" using f first_Some [OF f] ok(3) by (auto simp: push_ok_def)
  then have c: "p \<in> queued (bl_sys s) cpu" "\<not> is_curr (bl_curr s cpu) p" "n_migr p" using ok(3) by (auto simp: push_ok_def)
  then have "on_dl_rq (n_task p) (bl_rq s cpu) \<noteq> None" using ok(2) by (auto simp: on_dl_rq_None)
  then show thesis
    using that [OF _ p c] assms(3) p(1) c(2,3)
    by (simp add: pick_next_pushable_dl_task_def has_pushable_dl_tasks_def task_current_is_curr)
qed

lemma push_dl_task_ok:
  assumes tp: "tp_ok tp" and inv: "bal_inv tp s" and cpu: "cpu < tp_nr tp"
  shows "\<exists>r s'. push_dl_task tp here cpu s = Returns (r, s') \<and> bal_inv tp s' \<and> bl_curr s' = bl_curr s \<and>
    (if r = 0 then queued (bl_sys s') = queued (bl_sys s) \<and> push_over cpu s'
     else length (inorder (bl_push s' cpu)) < length (inorder (bl_push s cpu)) \<and>
       (queued (bl_sys s') = queued (bl_sys s) \<or> push_move tp cpu (queued (bl_sys s)) (queued (bl_sys s'))))"
proof (cases "\<not> rq_overloaded (bl_rq s cpu) \<or> bl_push s cpu = Leaf")
  case True
  then show ?thesis using inv
    by (auto simp: push_dl_task_def push_over_def pick_next_pushable_dl_task_def has_pushable_dl_tasks_def)
next
  case False
  then obtain p where p: "pick_next_pushable_dl_task cpu s = Returns (Some p)" "bl_left s cpu = Some p" "p \<in> set (inorder (bl_push s cpu))"
      "p \<in> queued (bl_sys s) cpu" "\<not> is_curr (bl_curr s cpu) p"
    using pick_next_pushable_ok [OF inv cpu] by blast
  have less: "length (filter (\<lambda>n. n_task n \<noteq> n_task p) (inorder (bl_push s cpu))) < length (inorder (bl_push s cpu))"
    using p(3) by (intro length_filter_less) auto
  let ?resched = "\<exists>c. bl_curr s cpu = Some c \<and> dl_time_before (n_dl p) (n_dl c) \<and> n_migr c"
  have push: "push_dl_task tp here cpu s = (if ?resched then Returns (0, resched_task cpu s)
      else case find_lock_later_rq DL_MAX_TRIES tp here cpu p s of
             None \<Rightarrow> Returns (1, dequeue_pushable_dl_task tp cpu p s)
           | Some later \<Rightarrow> (case bal_dequeue_task tp cpu p s of Fault \<Rightarrow> Fault
               | Returns s1 \<Rightarrow> (case bal_enqueue_task tp later p s1 of Fault \<Rightarrow> Fault
                   | Returns s2 \<Rightarrow> Returns (1, resched_task later s2))))"
    using False p(1,5) by (auto simp: push_dl_task_def task_current_is_curr split: option.splits)
  consider "?resched" | "\<not> ?resched" "find_lock_later_rq DL_MAX_TRIES tp here cpu p s = None"
    | d where "\<not> ?resched" "find_lock_later_rq DL_MAX_TRIES tp here cpu p s = Some d" by blast
  then show ?thesis
  proof cases
    case 1
    then show ?thesis using inv p(2) by (auto simp: push push_over_def) (simp_all add: resched_task_def)
  next
    case 2
    obtain t where t: "dequeue_pushable_dl_task tp cpu p s = with_push cpu t (first (inorder t)) s"
        "inorder t = filter (\<lambda>n. n_task n \<noteq> n_task p) (inorder (bl_push s cpu))"
      using dequeue_pushable_result [OF tp bal_invD(3) [OF inv cpu]] by blast
    have "push_ok (queued (bl_sys s) cpu) (bl_curr s cpu) (inorder t) (first (inorder t))"
      unfolding t(2) by (rule push_ok_drop [OF bal_invD(3) [OF inv cpu]])
    then have "bal_inv tp (with_push cpu t (first (inorder t)) s)" using inv by (simp add: bal_inv_def)
    then show ?thesis using 2(2) less unfolding push if_not_P [OF 2(1)] by (simp add: t)
  next
    case 3
    note d = find_lock_later_rq_good [OF tp 3(2)]
    then have "d < tp_nr tp" using tp by (auto simp: tp_ok_def)
    obtain s1 s2 where m: "bal_dequeue_task tp cpu p s = Returns s1" "bal_enqueue_task tp d p s1 = Returns s2" "bal_inv tp s2"
        "queued (bl_sys s2) = moved p cpu d (queued (bl_sys s))" "bl_curr s2 = bl_curr s"
        "inorder (bl_push s2 cpu) = filter (\<lambda>n. n_task n \<noteq> n_task p) (inorder (bl_push s cpu))"
      by (rule move_task_ok [OF tp inv cpu _ _ p(4,5), of d]) (use d in auto)
    have "push_move tp cpu (queued (bl_sys s)) (queued (bl_sys s2))"
      using preempts_queue [OF inv \<open>d < tp_nr tp\<close> bal_invD(4) [OF inv cpu p(4)]] d p(4) m(4) unfolding push_move_def by blast
    then show ?thesis using 3(2) less m unfolding push if_not_P [OF 3(1)] by (simp flip: length_inorder)
  qed
qed

lemma push_dl_tasks_ok:
  assumes "tp_ok tp" and "bal_inv tp s" and "cpu < tp_nr tp"
  shows "\<exists>s'. push_dl_tasks tp here cpu s = Some (Returns s') \<and> bal_inv tp s' \<and> bl_curr s' = bl_curr s \<and>
    (push_move tp cpu)\<^sup>*\<^sup>* (queued (bl_sys s)) (queued (bl_sys s')) \<and> push_over cpu s'"
  using assms(2)
proof (induction "length (inorder (bl_push s cpu))" arbitrary: s rule: less_induct)
  case less
  obtain r s1 where s1: "push_dl_task tp here cpu s = Returns (r, s1)" "bal_inv tp s1" "bl_curr s1 = bl_curr s"
      "if r = 0 then queued (bl_sys s1) = queued (bl_sys s) \<and> push_over cpu s1
       else length (inorder (bl_push s1 cpu)) < length (inorder (bl_push s cpu)) \<and>
         (queued (bl_sys s1) = queued (bl_sys s) \<or> push_move tp cpu (queued (bl_sys s)) (queued (bl_sys s1)))"
    using push_dl_task_ok [OF assms(1) less.prems assms(3), of here] by blast
  show ?case
  proof (cases "r = 0")
    case True
    then show ?thesis using s1 by (simp add: push_dl_tasks.simps)
  next
    case False
    then obtain s2 where s2: "push_dl_tasks tp here cpu s1 = Some (Returns s2)" "bal_inv tp s2" "bl_curr s2 = bl_curr s1"
        "(push_move tp cpu)\<^sup>*\<^sup>* (queued (bl_sys s1)) (queued (bl_sys s2))" "push_over cpu s2"
      using less.hyps [OF _ s1(2)] s1(4) by auto
    have "(push_move tp cpu)\<^sup>*\<^sup>* (queued (bl_sys s)) (queued (bl_sys s2))"
      using False s1(4) s2(4) by (auto intro: converse_rtranclp_into_rtranclp)
    then show ?thesis using False s1(1,3) s2 by (simp add: push_dl_tasks.simps [of _ _ _ s])
  qed
qed

section \<open>Pulling is safe\<close>

text \<open>
  What one pull does to the queues: a task goes from another queue to the front of this one, and a
  task that is not later stays where it was.
\<close>

definition pull_move :: "dl_topo \<Rightarrow> nat \<Rightarrow> (nat \<Rightarrow> dl_node set) \<Rightarrow> (nat \<Rightarrow> dl_node set) \<Rightarrow> bool" where
  "pull_move tp this Q Q' \<longleftrightarrow>
     (\<exists>p src. p \<in> Q src \<and> src < tp_nr tp \<and> src \<noteq> this \<and> this \<in> tp_allowed tp (n_task p) \<and> (\<forall>m \<in> Q this. n_dl p < n_dl m) \<and>
        (\<exists>m \<in> Q src. m \<noteq> p \<and> n_dl m \<le> n_dl p) \<and> Q' = moved p src this Q)"

lemma pick_next_earliest_second:
  assumes "rq_ok q" and "pick_next_earliest_dl_task pick q = Some p"
  shows "p \<in> set (nodes q)" and "pick p" and "\<exists>m \<in> set (nodes q). m \<noteq> p \<and> n_dl m \<le> n_dl p"
proof -
  note q = rq_okD [OF assms(1)]
  obtain l where l: "first (nodes q) = Some l" "find pick (tl (dropWhile (\<lambda>n. n \<noteq> l) (nodes q))) = Some p"
    using assms(2) q(4) by (auto simp: pick_next_earliest_dl_task_def split: option.splits)
  then obtain ns where ns: "nodes q = l # ns" by (cases "nodes q") (auto simp: first_def)
  have p: "p \<in> set ns" "pick p" using find_SomeD [OF l(2)] by (auto simp: ns)
  have "l \<noteq> p" "n_dl l \<le> n_dl p" using q(1,2) p(1) by (auto simp: ns)
  then show "p \<in> set (nodes q)" "pick p" "\<exists>m \<in> set (nodes q). m \<noteq> p \<and> n_dl m \<le> n_dl p" unfolding ns using p by auto
qed

text \<open>What holds between the turns: what was pulled so far, and whether anything was.\<close>

definition pull_inv :: "dl_topo \<Rightarrow> nat \<Rightarrow> dl_bal \<Rightarrow> int \<times> u64 \<times> dl_bal \<Rightarrow> bool" where
  "pull_inv tp this s0 st \<longleftrightarrow>
     (case st of (ret, dmin, s) \<Rightarrow> bal_inv tp s \<and> bl_curr s = bl_curr s0 \<and>
        (pull_move tp this)\<^sup>*\<^sup>* (queued (bl_sys s0)) (queued (bl_sys s)) \<and>
        (if ret = 0 then queued (bl_sys s) = queued (bl_sys s0)
         else ret = 1 \<and> queued (bl_sys s0) this \<subset> queued (bl_sys s) this))"

lemma pull_turn_ok:
  assumes tp: "tp_ok tp" and cpus: "this < tp_nr tp" "src < tp_nr tp" and st: "pull_inv tp this s0 (ret, dmin, s)"
  shows "\<exists>st'. pull_turn tp this src (ret, dmin, s) = Returns st' \<and> pull_inv tp this s0 st'"
proof -
  let ?q = "bl_rq s this" and ?Q = "queued (bl_sys s)"
  have inv: "bal_inv tp s" using st by (simp add: pull_inv_def)
  note ok = bal_invD [OF inv cpus(2)]
  show ?thesis
  proof (cases "pull_turn tp this src (ret, dmin, s) = Returns (ret, dmin, s)")
    case True
    then show ?thesis using st by blast
  next
    case False
    then obtain p where ne: "src \<noteq> this" and p: "pick_next_earliest_dl_task (pick_dl_task tp s src this) (bl_rq s src) = Some p"
        "dl_nr_running ?q = 0 \<or> dl_time_before (n_dl p) (earliest_curr ?q)"
      and turn: "pull_turn tp this src (ret, dmin, s) = (case bal_dequeue_task tp src p s of Fault \<Rightarrow> Fault
         | Returns s1 \<Rightarrow> (case bal_enqueue_task tp this p s1 of Fault \<Rightarrow> Fault | Returns s2 \<Rightarrow> Returns (1, n_dl p, s2)))"
      by (auto simp: pull_turn_def Let_def split: if_splits option.splits)
    note snd = pick_next_earliest_second [OF ok(1) p(1)]
    then have pQ: "p \<in> ?Q src" "\<not> is_curr (bl_curr s src) p" "this \<in> tp_allowed tp (n_task p)"
      using ok(2) by (auto simp: pick_dl_task_def task_current_is_curr)
    obtain s1 s2 where m: "bal_dequeue_task tp src p s = Returns s1" "bal_enqueue_task tp this p s1 = Returns s2" "bal_inv tp s2"
        "queued (bl_sys s2) = moved p src this ?Q" "bl_curr s2 = bl_curr s"
      by (rule move_task_ok [OF tp inv cpus(2) pQ(3) ne pQ(1,2)])
    have first: "\<forall>m \<in> ?Q this. n_dl p < n_dl m" by (rule preempts_queue [OF inv cpus(1) ok(4) [OF pQ(1)] p(2)])
    have "\<exists>m \<in> ?Q src. m \<noteq> p \<and> n_dl m \<le> n_dl p" using snd(3) unfolding ok(2) .
    then have step: "pull_move tp this ?Q (queued (bl_sys s2))" using pQ ne first m(4) cpus(2) unfolding pull_move_def by blast
    have "p \<notin> ?Q this" using first by auto
    then have "?Q this \<subset> queued (bl_sys s2) this" using ne by (auto simp: m(4) moved_def)
    moreover have "queued (bl_sys s0) this \<subseteq> ?Q this" using st by (auto simp: pull_inv_def split: if_splits)
    ultimately have "pull_inv tp this s0 (1, n_dl p, s2)"
      using st step m(3,5) by (auto simp: pull_inv_def intro: rtranclp.rtrancl_into_rtrancl)
    then show ?thesis by (simp add: turn m(1,2))
  qed
qed

lemma pull_loop_ok:
  assumes "tp_ok tp" and "this < tp_nr tp" and "\<forall>src \<in> set srcs. src < tp_nr tp" and "pull_inv tp this s0 st"
  shows "\<exists>st'. pull_loop tp this srcs st = Returns st' \<and> pull_inv tp this s0 st'"
  using assms(3,4)
proof (induction srcs arbitrary: st)
  case (Cons src srcs)
  obtain ret dmin s where "st = (ret, dmin, s)" by (cases st)
  then obtain st1 where "pull_turn tp this src st = Returns st1" "pull_inv tp this s0 st1"
    using pull_turn_ok [OF assms(1,2), of src s0 ret dmin s] Cons.prems by auto
  then show ?case using Cons by simp
qed simp

lemma pull_dl_task_ok:
  assumes "tp_ok tp" and "bal_inv tp s" and "this < tp_nr tp"
  shows "\<exists>ret s'. pull_dl_task tp this s = Returns (ret, s') \<and> bal_inv tp s' \<and> bl_curr s' = bl_curr s \<and>
    (pull_move tp this)\<^sup>*\<^sup>* (queued (bl_sys s)) (queued (bl_sys s')) \<and>
    (if ret = 0 then queued (bl_sys s') = queued (bl_sys s) else ret = 1 \<and> queued (bl_sys s) this \<subset> queued (bl_sys s') this)"
proof -
  have "pull_inv tp this s (0, LONG_MAX, s)" using assms(2) by (simp add: pull_inv_def)
  then obtain ret dmin s' where "pull_loop tp this [0..<tp_nr tp] (0, LONG_MAX, s) = Returns (ret, dmin, s')" "pull_inv tp this s (ret, dmin, s')"
    using pull_loop_ok [OF assms(1,3), of "[0..<tp_nr tp]" s "(0, LONG_MAX, s)"] by auto
  then show ?thesis using assms(2) by (auto simp: pull_dl_task_def pull_inv_def)
qed

section \<open>Any order of operations\<close>

text \<open>
  What happens on the processors, in any order: a task wakes up on a processor, a queued task goes to
  sleep, a processor reschedules, pushes or pulls.
\<close>

datatype bal_event = Wakeup nat dl_node | Sleep nat dl_node | Schedule nat | Push nat nat | Pull nat

fun bal_step :: "dl_topo \<Rightarrow> bal_event \<Rightarrow> dl_bal \<Rightarrow> dl_bal outcome option" where
  "bal_step tp (Wakeup cpu p) s = Some (bal_enqueue_task tp cpu p s)"
| "bal_step tp (Sleep cpu p) s = Some (bal_dequeue_task tp cpu p s)"
| "bal_step tp (Schedule cpu) s = Some (bal_schedule tp cpu s)"
| "bal_step tp (Push here cpu) s = push_dl_tasks tp here cpu s"
| "bal_step tp (Pull cpu) s = Some (case pull_dl_task tp cpu s of Fault \<Rightarrow> Fault | Returns (ret, s') \<Rightarrow> Returns s')"

definition bal_init :: "nat \<Rightarrow> dl_bal" where
  "bal_init nr = \<lparr>bl_sys = dl_sys_init nr, bl_curr = (\<lambda>_. None), bl_push = (\<lambda>_. Leaf), bl_left = (\<lambda>_. None), bl_resched = {}\<rparr>"

fun bal_event_ok :: "dl_topo \<Rightarrow> bal_event \<Rightarrow> dl_bal \<Rightarrow> bool" where
  "bal_event_ok tp (Wakeup cpu p) s \<longleftrightarrow> dl_ok p \<and> cpu \<in> tp_allowed tp (n_task p) \<and> nowhere_but tp cpu p s"
| "bal_event_ok tp (Sleep cpu p) s \<longleftrightarrow> cpu < tp_nr tp \<and> p \<in> queued (bl_sys s) cpu"
| "bal_event_ok tp (Schedule cpu) s \<longleftrightarrow> cpu < tp_nr tp"
| "bal_event_ok tp (Push here cpu) s \<longleftrightarrow> cpu < tp_nr tp"
| "bal_event_ok tp (Pull cpu) s \<longleftrightarrow> cpu < tp_nr tp"

inductive bal_reach :: "dl_topo \<Rightarrow> dl_bal \<Rightarrow> bool" for tp where
  start: "bal_reach tp (bal_init (tp_nr tp))"
| step: "bal_reach tp s \<Longrightarrow> bal_event_ok tp e s \<Longrightarrow> bal_step tp e s = Some (Returns s') \<Longrightarrow> bal_reach tp s'"

text \<open>The tasks on all queues, and what an event makes of them.\<close>

definition all_queued :: "dl_topo \<Rightarrow> (nat \<Rightarrow> dl_node set) \<Rightarrow> dl_node set" where
  "all_queued tp Q = (\<Union>c < tp_nr tp. Q c)"

fun tasks_after :: "bal_event \<Rightarrow> dl_node set \<Rightarrow> dl_node set" where
  "tasks_after (Wakeup cpu p) T = insert p T"
| "tasks_after (Sleep cpu p) T = T - {p}"
| "tasks_after _ T = T"

lemma all_queued_moved:
  assumes "p \<in> Q src" and "src < tp_nr tp" and "dst < tp_nr tp"
  shows "all_queued tp (moved p src dst Q) = all_queued tp Q"
  using assms by (auto simp: all_queued_def moved_def split: if_splits)

lemma all_queued_moves:
  assumes "tp_ok tp"
  shows "(push_move tp cpu)\<^sup>*\<^sup>* Q Q' \<Longrightarrow> cpu < tp_nr tp \<Longrightarrow> all_queued tp Q' = all_queued tp Q"
    and "(pull_move tp this)\<^sup>*\<^sup>* Q Q' \<Longrightarrow> this < tp_nr tp \<Longrightarrow> all_queued tp Q' = all_queued tp Q"
proof -
  have dst: "\<And>t d. d \<in> tp_allowed tp t \<Longrightarrow> d < tp_nr tp" using assms by (auto simp: tp_ok_def)
  show "(push_move tp cpu)\<^sup>*\<^sup>* Q Q' \<Longrightarrow> cpu < tp_nr tp \<Longrightarrow> all_queued tp Q' = all_queued tp Q"
    by (induction rule: rtranclp_induct) (auto simp: push_move_def all_queued_moved dst)
  show "(pull_move tp this)\<^sup>*\<^sup>* Q Q' \<Longrightarrow> this < tp_nr tp \<Longrightarrow> all_queued tp Q' = all_queued tp Q"
    by (induction rule: rtranclp_induct) (auto simp: pull_move_def all_queued_moved)
qed

lemma bal_init_inv: "bal_inv tp (bal_init (tp_nr tp))"
  using sys_init_inv by (simp add: bal_inv_def bal_init_def tasks_ok_def push_ok_def first_def)

lemma queued_apart:
  assumes "bal_inv tp s" and "c < tp_nr tp" and "p \<in> queued (bl_sys s) c" and "d < tp_nr tp" and "d \<noteq> c"
  shows "p \<notin> queued (bl_sys s) d"
  using assms by (auto simp: bal_inv_def tasks_ok_def)

lemma bal_step_ok:
  assumes tp: "tp_ok tp" and inv: "bal_inv tp s" and e: "bal_event_ok tp e s"
  shows "\<exists>s'. bal_step tp e s = Some (Returns s') \<and> bal_inv tp s' \<and>
    all_queued tp (queued (bl_sys s')) = tasks_after e (all_queued tp (queued (bl_sys s)))"
proof (cases e)
  case (Wakeup cpu p)
  then have p: "dl_ok p" "cpu \<in> tp_allowed tp (n_task p)" "nowhere_but tp cpu p s" "cpu < tp_nr tp" using e tp by (auto simp: tp_ok_def)
  then show ?thesis using bal_enqueue_task_ok [OF tp inv p(4,1-3)] by (auto simp: Wakeup all_queued_def split: if_splits)
next
  case (Sleep cpu p)
  then have c: "cpu < tp_nr tp" "p \<in> queued (bl_sys s) cpu" using e by auto
  have "{n \<in> queued (bl_sys s) cpu. n_task n \<noteq> n_task p} = queued (bl_sys s) cpu - {p}" using queued_inj [OF inv c(1)] c(2) by auto
  moreover have "p \<notin> queued (bl_sys s) d" if "d < tp_nr tp" "d \<noteq> cpu" for d using queued_apart [OF inv c that] .
  ultimately have "all_queued tp ((queued (bl_sys s))(cpu := {n \<in> queued (bl_sys s) cpu. n_task n \<noteq> n_task p})) =
      all_queued tp (queued (bl_sys s)) - {p}"
    by (auto simp: all_queued_def)
  then show ?thesis using bal_dequeue_task_ok [OF tp inv c(1), of p] by (auto simp: Sleep)
next
  case (Schedule cpu)
  then show ?thesis using bal_schedule_ok [OF tp inv, of cpu] e by auto
next
  case (Push here cpu)
  then show ?thesis using push_dl_tasks_ok [OF tp inv, of cpu here] e all_queued_moves(1) [OF tp, of cpu] by fastforce
next
  case (Pull cpu)
  then show ?thesis using pull_dl_task_ok [OF tp inv, of cpu] e all_queued_moves(2) [OF tp, of cpu] by fastforce
qed

lemma bal_reach_inv:
  assumes "tp_ok tp" and "bal_reach tp s"
  shows "bal_inv tp s"
  using assms(2)
proof (induction rule: bal_reach.induct)
  case (step s e s')
  then show ?case using bal_step_ok [OF assms(1) step.IH step.hyps(2)] by auto
qed (rule bal_init_inv)

text \<open>Two processors, and two tasks that woke up on the first.\<close>

definition two_cpus :: dl_topo where
  "two_cpus = \<lparr>tp_nr = 2, tp_insert = id, tp_erase = plain_erase, tp_allowed = (\<lambda>_. {0, 1}), tp_any = Inf, tp_active = {0, 1},
     tp_domains = (\<lambda>_. [(True, {0, 1})]), tp_other_dl = (\<lambda>_. 0)\<rparr>"

definition some_task :: "nat \<Rightarrow> u64 \<Rightarrow> dl_node" where
  "some_task t d = \<lparr>n_task = t, n_dl = d, n_migr = True\<rparr>"

lemma two_cpus_ok: "tp_ok two_cpus" "tp_nr two_cpus = 2" "tp_allowed two_cpus t = {0, 1}"
  by (auto simp: tp_ok_def two_cpus_def rb_laws_def inorder_plain_erase Inf_nat_def1)

lemma two_cpus_run:
  obtains s where "bal_reach two_cpus s" and "queued (bl_sys s) = (\<lambda>_. {})(0 := {some_task 1 30, some_task 2 20})"
proof -
  let ?i = "bal_init (tp_nr two_cpus)"
  have q0: "queued (bl_sys ?i) = (\<lambda>_. {})" "bl_curr ?i = (\<lambda>_. None)" by (simp_all add: bal_init_def sys_init_inv(2))
  have ok: "bal_event_ok two_cpus (Wakeup 0 (some_task 1 30)) ?i"
    by (simp add: two_cpus_ok(3) nowhere_but_def q0 is_curr_def some_task_def dl_ok_def)
  obtain s1 where s1: "bal_enqueue_task two_cpus 0 (some_task 1 30) ?i = Returns s1" "bal_inv two_cpus s1"
      "queued (bl_sys s1) = (\<lambda>_. {})(0 := {some_task 1 30})" "\<And>c. bl_curr s1 c = None"
    using bal_enqueue_task_ok [OF two_cpus_ok(1) bal_init_inv, of 0 "some_task 1 30"] ok two_cpus_ok q0 by (auto simp: is_curr_def)
  have r1: "bal_reach two_cpus s1" using bal_reach.step [OF bal_reach.start ok] s1(1) by simp
  have ok': "bal_event_ok two_cpus (Wakeup 0 (some_task 2 20)) s1"
    by (simp add: two_cpus_ok(3) nowhere_but_def s1(3,4) is_curr_def some_task_def dl_ok_def)
  obtain s2 where s2: "bal_enqueue_task two_cpus 0 (some_task 2 20) s1 = Returns s2"
      "queued (bl_sys s2) = (\<lambda>_. {})(0 := {some_task 1 30, some_task 2 20})"
    using bal_enqueue_task_ok [OF two_cpus_ok(1) s1(2), of 0 "some_task 2 20"] ok' two_cpus_ok(2,3) s1(3)
    by (auto simp: insert_commute)
  have "bal_reach two_cpus s2" using bal_reach.step [OF r1 ok'] s2(1) by simp
  then show thesis using that s2(2) by blast
qed







end
