(* ===== verification/Deadline_Class.thy ===== *)
theory Deadline_Class
  imports Deadline_Balance
begin

text \<open>
  The other entries of \<^verbatim>\<open>dl_sched_class\<close> (\<^verbatim>\<open>kernel/sched/deadline.c\<close> of
  \<^verbatim>\<open>sched-dl/patch-dl/sched-add-sched_dl.patch\<close>): where a task wakes up, whether it preempts, what is pushed
  or pulled around a reschedule and when a task changes class or parameters, a change of affinity,
  and a processor that goes off line and comes back. The state is that of \<open>Deadline_Balance\<close>; the timer that
  \<^verbatim>\<open>switched_from_dl\<close> tries to cancel belongs to \<open>Deadline_Server\<close>.

  Shown: a task wakes up only where it may run; every entry keeps the state consistent and the
  tasks queued; a changed affinity is followed by counters, trees and masks; and going off line and
  on line again restores the push heap and the masks.
\<close>

section \<open>Waking up and preempting\<close>

text \<open>\<open>balance\<close>: the caller balances on a wakeup or a fork; \<open>cpu\<close> is \<^verbatim>\<open>task_cpu(p)\<close>.\<close>

definition select_task_rq_dl :: "dl_topo \<Rightarrow> nat \<Rightarrow> nat \<Rightarrow> dl_node \<Rightarrow> bool \<Rightarrow> dl_bal \<Rightarrow> nat" where
  "select_task_rq_dl tp here cpu p balance s =
     (if \<not> balance then cpu
      else case bl_curr s cpu of
        None \<Rightarrow> cpu
      | Some cur \<Rightarrow>
          if (\<not> n_migr cur \<or> \<not> dl_time_before (n_dl p) (n_dl cur)) \<and> n_migr p
          then (case find_later_rq tp here cpu p s of None \<Rightarrow> cpu | Some target \<Rightarrow> target)
          else cpu)"

definition cpudl_find_any :: "dl_topo \<Rightarrow> dl_node \<Rightarrow> dl_bal \<Rightarrow> nat option" where
  "cpudl_find_any tp p s =
     fst (cpudl_find (tp_any tp) (tp_active tp) (rd_cpudl (sys_rd (bl_sys s))) (n_dl p) (tp_allowed tp (n_task p)) None)"

definition check_preempt_equal_dl :: "dl_topo \<Rightarrow> nat \<Rightarrow> dl_node \<Rightarrow> dl_node \<Rightarrow> dl_bal \<Rightarrow> dl_bal" where
  "check_preempt_equal_dl tp cpu cur p s =
     (if \<not> n_migr cur \<or> cpudl_find_any tp cur s = None then s
      else if n_migr p \<and> cpudl_find_any tp p s \<noteq> None then s
      else resched_task cpu s)"

text \<open>Only called when the current task is a deadline task, \<open>curr\<close>.\<close>

definition check_preempt_curr_dl :: "dl_topo \<Rightarrow> nat \<Rightarrow> dl_node \<Rightarrow> dl_node \<Rightarrow> dl_bal \<Rightarrow> dl_bal" where
  "check_preempt_curr_dl tp cpu cur p s =
     (if dl_time_before (n_dl p) (n_dl cur) then resched_task cpu s
      else if n_dl p = n_dl cur \<and> cpu \<notin> bl_resched s then check_preempt_equal_dl tp cpu cur p s
      else s)"

definition set_curr_task_dl :: "dl_topo \<Rightarrow> nat \<Rightarrow> dl_bal \<Rightarrow> dl_bal" where
  "set_curr_task_dl tp cpu s = (case bl_curr s cpu of None \<Rightarrow> s | Some p \<Rightarrow> dequeue_pushable_dl_task tp cpu p s)"

section \<open>Around a reschedule and a change of class\<close>

definition pull_state :: "dl_topo \<Rightarrow> nat \<Rightarrow> dl_bal \<Rightarrow> dl_bal outcome" where
  "pull_state tp cpu s = (case pull_dl_task tp cpu s of Fault \<Rightarrow> Fault | Returns (ret, s') \<Rightarrow> Returns s')"

definition pre_schedule_dl :: "dl_topo \<Rightarrow> nat \<Rightarrow> dl_bal \<Rightarrow> dl_bal outcome" where
  "pre_schedule_dl tp cpu s = (if bl_curr s cpu \<noteq> None then pull_state tp cpu s else Returns s)"

definition post_schedule_dl :: "dl_topo \<Rightarrow> nat \<Rightarrow> nat \<Rightarrow> dl_bal \<Rightarrow> dl_bal outcome option" where
  "post_schedule_dl tp here cpu s = push_dl_tasks tp here cpu s"

definition task_woken_dl :: "dl_topo \<Rightarrow> nat \<Rightarrow> nat \<Rightarrow> dl_node \<Rightarrow> dl_bal \<Rightarrow> dl_bal outcome option" where
  "task_woken_dl tp here cpu p s =
     (if \<not> task_current s cpu p \<and> cpu \<notin> bl_resched s \<and> has_pushable_dl_tasks cpu s \<and> n_migr p \<and>
         (case bl_curr s cpu of None \<Rightarrow> False | Some c \<Rightarrow> \<not> n_migr c \<or> dl_time_before (n_dl c) (n_dl p))
      then push_dl_tasks tp here cpu s else Some (Returns s))"

definition switched_from_dl :: "dl_topo \<Rightarrow> nat \<Rightarrow> dl_bal \<Rightarrow> dl_bal outcome" where
  "switched_from_dl tp cpu s = (if dl_nr_running (bl_rq s cpu) = 0 then pull_state tp cpu s else Returns s)"

text \<open>
  \<open>on_rq\<close> and \<open>throttled\<close> are fields of the task, whose processor is \<open>cpu\<close>. It is on another queue after the push if
  it was queued here and is not any more.
\<close>

definition switched_to_dl :: "dl_topo \<Rightarrow> nat \<Rightarrow> nat \<Rightarrow> dl_node \<Rightarrow> bool \<Rightarrow> bool \<Rightarrow> dl_bal \<Rightarrow> dl_bal outcome" where
  "switched_to_dl tp here cpu p on_rq throttled s =
     (if throttled then Returns s
      else if on_rq \<and> task_current s cpu p then Returns s
      else case (if rq_overloaded (bl_rq s cpu) then push_dl_task tp here cpu s else Returns (0, s)) of
        Fault \<Rightarrow> Fault
      | Returns (r, s') \<Rightarrow>
          let away = (on_dl_rq (n_task p) (bl_rq s cpu) \<noteq> None \<and> on_dl_rq (n_task p) (bl_rq s' cpu) = None) in
          (case bl_curr s' cpu of
             Some cur \<Rightarrow> if \<not> (r \<noteq> 0 \<and> away) then Returns (check_preempt_curr_dl tp cpu cur p s') else Returns s'
           | None \<Rightarrow> Returns s'))"

definition prio_changed_dl :: "dl_topo \<Rightarrow> nat \<Rightarrow> nat \<Rightarrow> dl_node \<Rightarrow> bool \<Rightarrow> bool \<Rightarrow> dl_bal \<Rightarrow> dl_bal outcome" where
  "prio_changed_dl tp here cpu p on_rq throttled s =
     (if on_rq \<or> task_current s cpu p
      then (case (if \<not> rq_overloaded (bl_rq s cpu) then pull_state tp cpu s else Returns s) of
              Fault \<Rightarrow> Fault
            | Returns s' \<Rightarrow>
                Returns (if dl_time_before (earliest_curr (bl_rq s' cpu)) (n_dl p) \<and> task_current s' cpu p
                         then resched_task cpu s' else s'))
      else switched_to_dl tp here cpu p on_rq throttled s)"

datatype class_event =
    CheckPreempt nat dl_node | SetCurrTask nat | PreSchedule nat | PostSchedule nat nat | TaskWoken nat nat dl_node
  | SwitchedFrom nat | SwitchedTo nat nat dl_node bool bool | PrioChanged nat nat dl_node bool bool

fun event_cpu :: "class_event \<Rightarrow> nat" where
  "event_cpu (CheckPreempt cpu p) = cpu"
| "event_cpu (SetCurrTask cpu) = cpu"
| "event_cpu (PreSchedule cpu) = cpu"
| "event_cpu (PostSchedule here cpu) = cpu"
| "event_cpu (TaskWoken here cpu p) = cpu"
| "event_cpu (SwitchedFrom cpu) = cpu"
| "event_cpu (SwitchedTo here cpu p on_rq throttled) = cpu"
| "event_cpu (PrioChanged here cpu p on_rq throttled) = cpu"

fun class_step :: "dl_topo \<Rightarrow> class_event \<Rightarrow> dl_bal \<Rightarrow> dl_bal outcome option" where
  "class_step tp (CheckPreempt cpu p) s =
     Some (Returns (case bl_curr s cpu of None \<Rightarrow> s | Some c \<Rightarrow> check_preempt_curr_dl tp cpu c p s))"
| "class_step tp (SetCurrTask cpu) s = Some (Returns (set_curr_task_dl tp cpu s))"
| "class_step tp (PreSchedule cpu) s = Some (pre_schedule_dl tp cpu s)"
| "class_step tp (PostSchedule here cpu) s = post_schedule_dl tp here cpu s"
| "class_step tp (TaskWoken here cpu p) s = task_woken_dl tp here cpu p s"
| "class_step tp (SwitchedFrom cpu) s = Some (switched_from_dl tp cpu s)"
| "class_step tp (SwitchedTo here cpu p on_rq throttled) s = Some (switched_to_dl tp here cpu p on_rq throttled s)"
| "class_step tp (PrioChanged here cpu p on_rq throttled) s = Some (prio_changed_dl tp here cpu p on_rq throttled s)"

section \<open>Off line and on line\<close>

definition sys_set_rd :: "root_domain \<Rightarrow> dl_bal \<Rightarrow> dl_bal" where
  "sys_set_rd rd s = s\<lparr>bl_sys := (bl_sys s)\<lparr>sys_rd := rd\<rparr>\<rparr>"

definition set_cpudl :: "nat \<Rightarrow> u64 \<Rightarrow> bool \<Rightarrow> root_domain \<Rightarrow> root_domain" where
  "set_cpudl cpu d valid rd = rd\<lparr>rd_cpudl := cpudl_set (rd_cpudl rd) cpu d valid\<rparr>"

definition rq_online_dl :: "nat \<Rightarrow> dl_bal \<Rightarrow> dl_bal" where
  "rq_online_dl cpu s =
     (let q = bl_rq s cpu; rd = sys_rd (bl_sys s);
          rd1 = (if rq_overloaded q then dl_set_overload cpu rd else rd) in
      sys_set_rd (if dl_nr_running q > 0 then set_cpudl cpu (earliest_curr q) True rd1 else rd1) s)"

definition rq_offline_dl :: "nat \<Rightarrow> dl_bal \<Rightarrow> dl_bal" where
  "rq_offline_dl cpu s =
     (let rd = sys_rd (bl_sys s) in
      sys_set_rd (set_cpudl cpu 0 False (if rq_overloaded (bl_rq s cpu) then dl_clear_overload cpu rd else rd)) s)"

section \<open>Affinity\<close>

text \<open>\<^verbatim>\<open>set_cpus_allowed_dl\<close>, called before the mask and \<^verbatim>\<open>nr_cpus_allowed\<close> of the task change.\<close>

definition sys_set_rq :: "nat \<Rightarrow> dl_rq \<times> root_domain \<Rightarrow> dl_bal \<Rightarrow> dl_bal" where
  "sys_set_rq cpu x s = s\<lparr>bl_sys := \<lparr>sys_rqs = (sys_rqs (bl_sys s))[cpu := fst x], sys_rd = snd x\<rparr>\<rparr>"

definition set_cpus_allowed_dl :: "dl_topo \<Rightarrow> nat \<Rightarrow> dl_node \<Rightarrow> nat \<Rightarrow> dl_bal \<Rightarrow> dl_bal outcome" where
  "set_cpus_allowed_dl tp cpu p weight s =
     (if on_dl_rq (n_task p) (bl_rq s cpu) = None then Returns s
      else if n_migr p \<longleftrightarrow> weight > 1 then Returns s
      else if weight \<le> 1
      then let s1 = (if \<not> task_current s cpu p then dequeue_pushable_dl_task tp cpu p s else s); q = bl_rq s1 cpu in
           if dl_nr_migratory q = 0 then Fault
           else Returns (sys_set_rq cpu (update_dl_migration cpu (q\<lparr>dl_nr_migratory := dl_nr_migratory q - 1\<rparr>, sys_rd (bl_sys s1))) s1)
      else case (if \<not> task_current s cpu p then enqueue_pushable_dl_task tp cpu p s else Returns s) of
             Fault \<Rightarrow> Fault
           | Returns s1 \<Rightarrow>
               let q = bl_rq s1 cpu in
               Returns (sys_set_rq cpu (update_dl_migration cpu (q\<lparr>dl_nr_migratory := dl_nr_migratory q + 1\<rparr>, sys_rd (bl_sys s1))) s1))"

text \<open>The change of \<^verbatim>\<open>nr_cpus_allowed\<close> that follows; every place that holds the task sees it.\<close>

definition relabel :: "nat \<Rightarrow> bool \<Rightarrow> dl_node \<Rightarrow> dl_node" where
  "relabel t b n = (if n_task n = t then n\<lparr>n_migr := b\<rparr> else n)"

definition set_nr_cpus_allowed :: "nat \<Rightarrow> nat \<Rightarrow> nat \<Rightarrow> dl_bal \<Rightarrow> dl_bal" where
  "set_nr_cpus_allowed cpu t weight s =
     (let f = relabel t (weight > 1); q = bl_rq s cpu in
      (sys_set_rq cpu (q\<lparr>rb_root := map_tree f (rb_root q), rb_leftmost := map_option f (rb_leftmost q)\<rparr>, sys_rd (bl_sys s)) s)
        \<lparr>bl_curr := (bl_curr s)(cpu := map_option f (bl_curr s cpu)),
         bl_push := (bl_push s)(cpu := map_tree f (bl_push s cpu)),
         bl_left := (bl_left s)(cpu := map_option f (bl_left s cpu))\<rparr>)"

definition change_affinity :: "dl_topo \<Rightarrow> nat \<Rightarrow> dl_node \<Rightarrow> nat set \<Rightarrow> dl_bal \<Rightarrow> dl_bal outcome" where
  "change_affinity tp cpu p new_mask s =
     (case set_cpus_allowed_dl tp cpu p (card new_mask) s of
        Fault \<Rightarrow> Fault
      | Returns s' \<Rightarrow> Returns (set_nr_cpus_allowed cpu (n_task p) (card new_mask) s'))"

section \<open>A task wakes up where it may run\<close>

lemma select_task_rq_allowed:
  assumes "tp_ok tp" and "cpu \<in> tp_allowed tp (n_task p)"
  shows "select_task_rq_dl tp here cpu p balance s \<in> tp_allowed tp (n_task p)"
  using assms(2) find_later_rq_allowed [OF assms(1), of here cpu p s]
  by (auto simp: select_task_rq_dl_def split: option.splits)

section \<open>The entries keep the state consistent\<close>

text \<open>A state after an operation that may move tasks but neither adds nor drops one.\<close>

definition keeps :: "dl_topo \<Rightarrow> dl_bal \<Rightarrow> dl_bal \<Rightarrow> bool" where
  "keeps tp s s' \<longleftrightarrow> bal_inv tp s' \<and> all_queued tp (queued (bl_sys s')) = all_queued tp (queued (bl_sys s)) \<and> bl_curr s' = bl_curr s"

lemma check_preempt_keeps: "bal_inv tp s \<Longrightarrow> keeps tp s (check_preempt_curr_dl tp cpu c p s)"
  by (simp add: keeps_def check_preempt_curr_dl_def check_preempt_equal_dl_def)

lemma pull_state_keeps:
  assumes "tp_ok tp" and "bal_inv tp s" and "cpu < tp_nr tp"
  shows "\<exists>s'. pull_state tp cpu s = Returns s' \<and> keeps tp s s'"
  using pull_dl_task_ok [OF assms] all_queued_moves(2) [OF assms(1) _ assms(3)] by (fastforce simp: pull_state_def keeps_def)

lemma push_dl_tasks_keeps:
  assumes "tp_ok tp" and "bal_inv tp s" and "cpu < tp_nr tp"
  shows "\<exists>s'. push_dl_tasks tp here cpu s = Some (Returns s') \<and> keeps tp s s'"
  using push_dl_tasks_ok [OF assms, of here] all_queued_moves(1) [OF assms(1) _ assms(3)] by (fastforce simp: keeps_def)

lemma push_dl_task_keeps:
  assumes "tp_ok tp" and "bal_inv tp s" and "cpu < tp_nr tp"
  shows "\<exists>r s'. push_dl_task tp here cpu s = Returns (r, s') \<and> keeps tp s s'"
  using push_dl_task_ok [OF assms, of here] all_queued_moves(1) [OF assms(1) r_into_rtranclp assms(3)]
  by (fastforce simp: keeps_def split: if_splits)

lemma set_curr_task_keeps:
  assumes "tp_ok tp" and "bal_inv tp s" and "cpu < tp_nr tp"
  shows "keeps tp s (set_curr_task_dl tp cpu s)"
proof (cases "bl_curr s cpu")
  case (Some p)
  obtain t where t: "dequeue_pushable_dl_task tp cpu p s = with_push cpu t (first (inorder t)) s"
      "inorder t = filter (\<lambda>n. n_task n \<noteq> n_task p) (inorder (bl_push s cpu))"
    using dequeue_pushable_result [OF assms(1) bal_invD(3) [OF assms(2,3)]] by blast
  have "push_ok (queued (bl_sys s) cpu) (bl_curr s cpu) (inorder t) (first (inorder t))"
    unfolding t(2) by (rule push_ok_drop [OF bal_invD(3) [OF assms(2,3)]])
  then show ?thesis using assms(2) Some by (auto simp: keeps_def set_curr_task_dl_def t(1) bal_inv_def)
qed (use assms in \<open>simp add: keeps_def set_curr_task_dl_def\<close>)

lemma keeps_refl: "bal_inv tp s \<Longrightarrow> keeps tp s s"
  by (simp add: keeps_def)

lemma keeps_trans: "keeps tp s s' \<Longrightarrow> keeps tp s' s'' \<Longrightarrow> keeps tp s s''"
  by (simp add: keeps_def)

lemma keeps_resched: "keeps tp s s' \<Longrightarrow> keeps tp s (resched_task cpu s')"
  by (simp add: keeps_def)

lemma switched_to_keeps:
  assumes "tp_ok tp" and "bal_inv tp s" and "cpu < tp_nr tp"
  shows "\<exists>s'. switched_to_dl tp here cpu p on_rq throttled s = Returns s' \<and> keeps tp s s'"
proof -
  obtain r s' where s': "(if rq_overloaded (bl_rq s cpu) then push_dl_task tp here cpu s else Returns (0, s)) = Returns (r, s')"
      "keeps tp s s'"
    using push_dl_task_keeps [OF assms, of here] keeps_refl [OF assms(2)] by (cases "rq_overloaded (bl_rq s cpu)") auto
  moreover have "keeps tp s (check_preempt_curr_dl tp cpu c p s')" for c
    using s'(2) check_preempt_keeps [of tp s' cpu c p] by (auto simp: keeps_def)
  ultimately show ?thesis using keeps_refl [OF assms(2)]
    unfolding switched_to_dl_def s'(1) by (auto simp: Let_def split: option.splits)
qed

lemma prio_changed_keeps:
  assumes "tp_ok tp" and "bal_inv tp s" and "cpu < tp_nr tp"
  shows "\<exists>s'. prio_changed_dl tp here cpu p on_rq throttled s = Returns s' \<and> keeps tp s s'"
proof -
  obtain s' where s': "(if \<not> rq_overloaded (bl_rq s cpu) then pull_state tp cpu s else Returns s) = Returns s'" "keeps tp s s'"
    using pull_state_keeps [OF assms] keeps_refl [OF assms(2)] by (cases "rq_overloaded (bl_rq s cpu)") auto
  then show ?thesis
    using switched_to_keeps [OF assms, of here p on_rq throttled] keeps_resched [OF s'(2)]
    unfolding prio_changed_dl_def s'(1) by auto
qed



section \<open>Off line and back\<close>

lemma queued_set_rd [simp]: "queued (y\<lparr>sys_rd := rd\<rparr>) = queued y"
  by (simp add: queued_def fun_eq_iff)

lemma sys_set_rd_inv:
  assumes "bal_inv tp s" and "sys_inv (tp_nr tp) ((bl_sys s)\<lparr>sys_rd := rd\<rparr>)"
  shows "bal_inv tp (sys_set_rd rd s)"
  using assms by (simp add: bal_inv_def sys_set_rd_def)

lemma off_and_on_line:
  assumes inv: "bal_inv tp s" and cpu: "cpu < tp_nr tp"
  shows "let s1 = rq_offline_dl cpu s; s2 = rq_online_dl cpu s1 in
    cp_map (rd_cpudl (sys_rd (bl_sys s1))) cpu = None \<and> cpu \<notin> dlo_mask (sys_rd (bl_sys s1)) \<and>
    bal_inv tp s2 \<and> queued (bl_sys s2) = queued (bl_sys s) \<and>
    cp_map (rd_cpudl (sys_rd (bl_sys s2))) = cp_map (rd_cpudl (sys_rd (bl_sys s))) \<and>
    dlo_mask (sys_rd (bl_sys s2)) = dlo_mask (sys_rd (bl_sys s)) \<and> dlo_count (sys_rd (bl_sys s2)) = dlo_count (sys_rd (bl_sys s))"
proof -
  let ?rd = "sys_rd (bl_sys s)" and ?q = "bl_rq s cpu"
  have sys: "cp_inv (rd_cpudl ?rd)" "length (cp_cpu_to_idx (rd_cpudl ?rd)) = tp_nr tp"
      "cp_map (rd_cpudl ?rd) cpu = map_option n_dl (first (nodes ?q))" "rq_overloaded ?q \<longleftrightarrow> cpu \<in> dlo_mask ?rd"
    using inv cpu by (auto simp: bal_inv_def sys_inv_def bl_rq_def)
  note q = rq_okD [OF bal_invD(1) [OF inv cpu]]
  define rd1 where "rd1 = set_cpudl cpu 0 False (if rq_overloaded ?q then dl_clear_overload cpu ?rd else ?rd)"
  have c1: "cp_inv (rd_cpudl rd1)" "length (cp_cpu_to_idx (rd_cpudl rd1)) = tp_nr tp" "cp_map (rd_cpudl rd1) = (cp_map (rd_cpudl ?rd))(cpu := None)"
    using cpudl_set_ok [OF sys(1), of cpu False 0] sys(2) cpu by (simp_all add: rd1_def set_cpudl_def dl_clear_overload_def)
  have m1: "dlo_mask rd1 = dlo_mask ?rd - {cpu}" "dlo_count rd1 = (if rq_overloaded ?q then dlo_count ?rd - 1 else dlo_count ?rd)"
    using sys(4) by (auto simp: rd1_def set_cpudl_def dl_clear_overload_def)
  define rd2 where "rd2 = (let r = (if rq_overloaded ?q then dl_set_overload cpu rd1 else rd1) in
    if dl_nr_running ?q > 0 then set_cpudl cpu (earliest_curr ?q) True r else r)"
  have m2: "dlo_mask rd2 = dlo_mask ?rd" "dlo_count rd2 = dlo_count ?rd"
    using m1 sys(4) by (auto simp: rd2_def Let_def set_cpudl_def dl_set_overload_def)
  have c2: "cp_inv (rd_cpudl rd2) \<and> length (cp_cpu_to_idx (rd_cpudl rd2)) = tp_nr tp \<and> cp_map (rd_cpudl rd2) = cp_map (rd_cpudl ?rd)"
  proof (cases "first (nodes ?q)")
    case None
    then have "nodes ?q = []" by (cases "nodes ?q") (auto simp: first_def)
    then show ?thesis using c1 q(5) sys(3) None by (auto simp: rd2_def Let_def dl_set_overload_def fun_upd_idem)
  next
    case (Some e)
    then have "nodes ?q \<noteq> []" "dl_ok e" "earliest_curr ?q = n_dl e" using q(3) [OF first_Some [OF Some]] q(6) by (auto simp: first_def)
    then have "rd_cpudl rd2 = cpudl_set (rd_cpudl rd1) cpu (n_dl e) True" "0 < n_dl e" "n_dl e < 2 ^ 63"
      using q(5) by (auto simp: rd2_def Let_def dl_set_overload_def set_cpudl_def dl_ok_def)
    then show ?thesis using cpudl_set_ok [OF c1(1), of cpu True "n_dl e"] c1 cpu sys(3) Some by (simp add: fun_upd_idem)
  qed
  have s: "rq_offline_dl cpu s = sys_set_rd rd1 s" by (simp add: rq_offline_dl_def rd1_def Let_def)
  have s': "rq_online_dl cpu (sys_set_rd rd1 s) = sys_set_rd rd2 s"
    by (simp add: rq_online_dl_def rd2_def Let_def sys_set_rd_def bl_rq_def)
  have "bal_inv tp (sys_set_rd rd2 s)"
    using inv c2 m2 by (intro sys_set_rd_inv) (auto simp: bal_inv_def sys_inv_def)
  then show ?thesis using c1(3) m1(1) m2 c2 by (simp add: Let_def s s') (simp add: sys_set_rd_def)
qed

section \<open>A changed affinity\<close>

lemma relabel_simps [simp]:
  "n_task (relabel t b n) = n_task n" "n_dl (relabel t b n) = n_dl n" "dl_ok (relabel t b n) = dl_ok n"
  "n_migr (relabel t b n) = (if n_task n = t then b else n_migr n)"
  by (simp_all add: relabel_def dl_ok_def)

lemma relabel_maps [simp]:
  "map n_dl (map (relabel t b) ns) = map n_dl ns" "map n_task (map (relabel t b) ns) = map n_task ns"
  "first (map f ns) = map_option f (first ns)" "map_option n_dl (map_option (relabel t b) x) = map_option n_dl x"
  "is_curr (map_option (relabel t b) x) n = is_curr x n" "is_curr x (relabel t b n) = is_curr x n"
  "(case map_option (relabel t b) x of None \<Rightarrow> d | Some n \<Rightarrow> n_dl n) = (case x of None \<Rightarrow> d | Some n \<Rightarrow> n_dl n)"
  by (cases ns; cases x; simp add: first_def is_curr_def)+

lemma relabel_count:
  assumes "distinct (map n_task ns)" and "p \<in> set ns" and "n_migr p \<noteq> b"
  shows "length (filter n_migr (map (relabel (n_task p) b) ns)) = (if b then length (filter n_migr ns) + 1 else length (filter n_migr ns) - 1)"
    and "\<not> b \<Longrightarrow> filter n_migr ns \<noteq> []"
proof -
  obtain as bs where ns: "ns = as @ p # bs" using assms(2) split_list by metis
  have "map (relabel (n_task p) b) as = as" "map (relabel (n_task p) b) bs = bs"
    using assms(1) by (auto simp: ns relabel_def image_iff intro!: map_idI)
  then show "length (filter n_migr (map (relabel (n_task p) b) ns)) = (if b then length (filter n_migr ns) + 1 else length (filter n_migr ns) - 1)"
    using assms(3) by (simp add: ns)
  show "\<not> b \<Longrightarrow> filter n_migr ns \<noteq> []" using assms(2,3) by (auto simp: filter_empty_conv)
qed

text \<open>The counters of the queue, and its flag and the masks.\<close>

lemma relabel_rq:
  assumes ok: "rq_ok q" and p: "p \<in> set (nodes q)" "n_migr p \<noteq> b"
    and cp: "cp_inv (rd_cpudl rd)" and m: "cp_map (rd_cpudl rd) cpu = map_option n_dl (first (nodes q))"
    and load: "rq_overloaded q \<longleftrightarrow> cpu \<in> dlo_mask rd"
  defines "f \<equiv> relabel (n_task p) b"
  shows "\<exists>q' rd'. update_dl_migration cpu (q\<lparr>dl_nr_migratory := (if b then dl_nr_migratory q + 1 else dl_nr_migratory q - 1)\<rparr>, rd) = (q', rd') \<and>
    rb_root q' = rb_root q \<and> rb_leftmost q' = rb_leftmost q \<and>
    rq_step_ok cpu (q, rd) (q'\<lparr>rb_root := map_tree f (rb_root q), rb_leftmost := map_option f (rb_leftmost q)\<rparr>, rd')"
proof -
  note q = rq_okD [OF ok]
  let ?q = "q\<lparr>dl_nr_migratory := (if b then dl_nr_migratory q + 1 else dl_nr_migratory q - 1)\<rparr>"
  have c: "counted ?q (map f (nodes q))"
    using q(7) relabel_count(1) [OF q(2) p] by (simp add: counted_def f_def del: filter_map)
  have "rq_overloaded ?q \<longleftrightarrow> cpu \<in> dlo_mask rd" using load by simp
  from update_dl_migration_result [OF this]
  obtain rd' where u: "update_dl_migration cpu (?q, rd) = (?q\<lparr>rq_overloaded := load_of (map f (nodes q))\<rparr>, rd')"
      "load_set cpu (load_of (map f (nodes q))) rd rd'"
    unfolding load_of_counted [OF c] by blast
  let ?q' = "?q\<lparr>rq_overloaded := load_of (map f (nodes q))\<rparr>"
  let ?q2 = "?q'\<lparr>rb_root := map_tree f (rb_root q), rb_leftmost := map_option f (rb_leftmost q)\<rparr>"
  have n: "nodes ?q2 = map f (nodes q)" by (simp add: inorder_map)
  have "rq_ok ?q2" using q c unfolding rq_ok_def n by (cases "first (nodes q)") (simp_all add: f_def counted_def del: map_map)
  moreover have "map_option n_dl (first (nodes ?q2)) = cp_map (rd_cpudl rd) cpu" unfolding n using m by (simp add: f_def)
  ultimately have "rq_step_ok cpu (q, rd) (?q2, rd')"
    using u(2) cp by (auto simp: rq_step_ok_def load_set_def intro!: exI [of _ rd])
  then show ?thesis using u(1) by (intro exI [of _ ?q'] exI [of _ rd']) simp
qed

text \<open>The tree of pushable tasks.\<close>

definition push_pre :: "dl_node set \<Rightarrow> dl_node option \<Rightarrow> nat \<Rightarrow> bool \<Rightarrow> dl_node list \<Rightarrow> dl_node option \<Rightarrow> bool" where
  "push_pre Q cur t b ps l \<longleftrightarrow> sorted (map n_dl ps) \<and> distinct (map n_task ps) \<and> l = first ps \<and>
     (\<forall>n \<in> set ps. n \<in> Q \<and> n_migr (relabel t b n) \<and> \<not> is_curr cur n)"

lemma relabel_push:
  assumes "push_pre Q cur t b ps l" and "push_ok Q cur ps0 l0"
  shows "push_ok (relabel t b ` Q) (map_option (relabel t b) cur) (map (relabel t b) ps) (map_option (relabel t b) l)"
proof -
  have "x \<in> relabel t b ` Q" if x: "map_option (relabel t b) cur = Some x" "n_task x \<in> n_task ` relabel t b ` Q" for x
  proof -
    obtain y where y: "cur = Some y" "x = relabel t b y" using x(1) by (cases cur) auto
    then have "n_task y \<in> n_task ` Q" using x(2) by (simp add: image_image)
    then show ?thesis using assms(2) y by (simp add: push_ok_def)
  qed
  moreover have "\<forall>n \<in> set (map (relabel t b) ps). n \<in> relabel t b ` Q \<and> n_migr n \<and> \<not> is_curr (map_option (relabel t b) cur) n"
    using assms(1) by (simp add: push_pre_def)
  moreover have "sorted (map n_dl (map (relabel t b) ps))" "distinct (map n_task (map (relabel t b) ps))"
      "map_option (relabel t b) l = first (map (relabel t b) ps)"
    using assms(1) by (simp_all add: push_pre_def del: map_map)
  ultimately show ?thesis unfolding push_ok_def by blast
qed

lemma relabel_tasks:
  fixes p :: dl_node and b :: bool
  assumes "tasks_ok tp Q cur" and "cpu < tp_nr tp" and "p \<in> Q cpu" and "cpu \<in> new_mask"
  defines "f \<equiv> relabel (n_task p) b"
  shows "tasks_ok (tp\<lparr>tp_allowed := (tp_allowed tp)(n_task p := new_mask)\<rparr>) (Q(cpu := f ` Q cpu)) (cur(cpu := map_option f (cur cpu)))"
  unfolding tasks_ok_def
proof (intro allI impI ballI)
  let ?Q = "Q(cpu := f ` Q cpu)"
  have t: "n_task ` ?Q d = n_task ` Q d" for d by (simp add: f_def image_image)
  have c: "is_curr ((cur(cpu := map_option f (cur cpu))) d) n = is_curr (cur d) n" for d n by (simp add: f_def)
  fix d n assume d: "d < tp_nr (tp\<lparr>tp_allowed := (tp_allowed tp)(n_task p := new_mask)\<rparr>)" and "n \<in> ?Q d"
  then have "n_task n \<in> n_task ` Q d" using t [of d] by blast
  then obtain m where m: "m \<in> Q d" "n_task n = n_task m" by blast
  have "is_curr x n = is_curr x m" for x using m(2) by (simp add: is_curr_def split: option.splits)
  moreover have "n_task m = n_task p \<Longrightarrow> d = cpu" using assms(1-3) d m(1) by (fastforce simp: tasks_ok_def)
  ultimately show "d \<in> tp_allowed (tp\<lparr>tp_allowed := (tp_allowed tp)(n_task p := new_mask)\<rparr>) (n_task n) \<and>
      (\<forall>e < tp_nr (tp\<lparr>tp_allowed := (tp_allowed tp)(n_task p := new_mask)\<rparr>). e \<noteq> d \<longrightarrow>
        n_task n \<notin> n_task ` ?Q e \<and> \<not> is_curr ((cur(cpu := map_option f (cur cpu))) e) n)"
    unfolding t c using assms(1,4) d m by (auto simp: tasks_ok_def)
qed

text \<open>Before the task is relabelled: its processor's tree of pushable tasks is what it will be.\<close>

lemma set_cpus_allowed_push:
  assumes tp: "tp_ok tp" and inv: "bal_inv tp s" and cpu: "cpu < tp_nr tp" and p: "p \<in> queued (bl_sys s) cpu"
    and b: "n_migr p \<noteq> b"
  obtains t l where "(if task_current s cpu p then Returns s
      else if b then enqueue_pushable_dl_task tp cpu p s else Returns (dequeue_pushable_dl_task tp cpu p s)) = Returns (with_push cpu t l s)"
    and "push_pre (queued (bl_sys s) cpu) (bl_curr s cpu) (n_task p) b (inorder t) l"
proof -
  let ?Q = "queued (bl_sys s) cpu" and ?ps = "inorder (bl_push s cpu)"
  note ok = bal_invD [OF inv cpu]
  have ps: "sorted (map n_dl ?ps)" "distinct (map n_task ?ps)" "bl_left s cpu = first ?ps"
      "\<And>n. n \<in> set ?ps \<Longrightarrow> n \<in> ?Q \<and> n_migr n \<and> \<not> is_curr (bl_curr s cpu) n"
    using ok(3) by (auto simp: push_ok_def)
  consider (curr) "is_curr (bl_curr s cpu) p" | (add) "\<not> is_curr (bl_curr s cpu) p" b | (drop) "\<not> is_curr (bl_curr s cpu) p" "\<not> b" by blast
  then show thesis
  proof cases
    case curr
    have "n_task n \<noteq> n_task p" if "n \<in> set ?ps" for n using ps(4) [OF that] curr by (auto simp: is_curr_def split: option.splits)
    then have "push_pre ?Q (bl_curr s cpu) (n_task p) b ?ps (bl_left s cpu)" using ps by (simp add: push_pre_def)
    moreover have "with_push cpu (bl_push s cpu) (bl_left s cpu) s = s" by (simp add: with_push_def)
    ultimately show ?thesis using that [of "bl_push s cpu" "bl_left s cpu"] curr by (simp add: task_current_is_curr)
  next
    case add
    have "n_task n \<noteq> n_task p" if "n \<in> set ?ps" for n using queued_inj [OF inv cpu _ p] ps(4) [OF that] b add(2) by metis
    then have new: "n_task p \<notin> n_task ` set ?ps" by (metis imageE)
    with enqueue_pushable_result [OF tp ok(3,4) p] obtain t
      where t: "enqueue_pushable_dl_task tp cpu p s = Returns (with_push cpu t (first (inorder t)) s)" "inorder t = put_in p ?ps" by blast
    have "push_pre ?Q (bl_curr s cpu) (n_task p) b (inorder t) (first (inorder t))"
      unfolding push_pre_def t(2) using ps p add put_in_sorted [OF ps(1)] put_in_distinct [OF ps(2) new] by simp
    then show ?thesis using that t(1) add by (simp add: task_current_is_curr)
  next
    case drop
    obtain t where t: "dequeue_pushable_dl_task tp cpu p s = with_push cpu t (first (inorder t)) s"
        "inorder t = filter (\<lambda>n. n_task n \<noteq> n_task p) ?ps"
      using dequeue_pushable_result [OF tp ok(3)] by blast
    have "push_ok ?Q (bl_curr s cpu) (inorder t) (first (inorder t))" unfolding t(2) by (rule push_ok_drop [OF ok(3)])
    then have "push_pre ?Q (bl_curr s cpu) (n_task p) b (inorder t) (first (inorder t))" by (auto simp: push_ok_def push_pre_def t(2))
    then show ?thesis using that t(1) drop by (simp add: task_current_is_curr)
  qed
qed

lemma change_affinity_moves:
  assumes tp: "tp_ok tp" and inv: "bal_inv tp s" and cpu: "cpu < tp_nr tp" and p: "p \<in> queued (bl_sys s) cpu"
    and b: "n_migr p \<noteq> (card new_mask > 1)" and mask: "cpu \<in> new_mask"
  shows "\<exists>s'. change_affinity tp cpu p new_mask s = Returns s' \<and> bal_inv (tp\<lparr>tp_allowed := (tp_allowed tp)(n_task p := new_mask)\<rparr>) s' \<and>
    queued (bl_sys s') = (queued (bl_sys s))(cpu := relabel (n_task p) (card new_mask > 1) ` queued (bl_sys s) cpu)"
proof -
  define b where "b = (card new_mask > 1)"
  let ?Q = "queued (bl_sys s) cpu" and ?q = "bl_rq s cpu" and ?rd = "sys_rd (bl_sys s)" and ?f = "relabel (n_task p) b"
  have nb: "n_migr p \<noteq> b" using b by (simp add: b_def)
  obtain t l where t: "(if task_current s cpu p then Returns s
      else if b then enqueue_pushable_dl_task tp cpu p s else Returns (dequeue_pushable_dl_task tp cpu p s)) = Returns (with_push cpu t l s)"
      "push_pre ?Q (bl_curr s cpu) (n_task p) b (inorder t) l"
    by (rule set_cpus_allowed_push [OF tp inv cpu p nb])
  note ok = bal_invD [OF inv cpu]
  have sys: "sys_inv (tp_nr tp) (bl_sys s)" "cp_inv (rd_cpudl ?rd)" "cp_map (rd_cpudl ?rd) cpu = map_option n_dl (first (nodes ?q))"
      "rq_overloaded ?q \<longleftrightarrow> cpu \<in> dlo_mask ?rd" "length (sys_rqs (bl_sys s)) = tp_nr tp" "tasks_ok tp (queued (bl_sys s)) (bl_curr s)"
    using inv cpu by (auto simp: bal_inv_def sys_inv_def bl_rq_def)
  have pq: "p \<in> set (nodes ?q)" using p ok(2) by simp
  obtain q' rd' where q': "update_dl_migration cpu (?q\<lparr>dl_nr_migratory := (if b then dl_nr_migratory ?q + 1 else dl_nr_migratory ?q - 1)\<rparr>, ?rd) = (q', rd')"
      "rb_root q' = rb_root ?q" "rb_leftmost q' = rb_leftmost ?q"
      "rq_step_ok cpu (?q, ?rd) (q'\<lparr>rb_root := map_tree ?f (rb_root ?q), rb_leftmost := map_option ?f (rb_leftmost ?q)\<rparr>, rd')"
    using relabel_rq [OF ok(1) pq nb sys(2-4)] by blast
  let ?q2 = "q'\<lparr>rb_root := map_tree ?f (rb_root ?q), rb_leftmost := map_option ?f (rb_leftmost ?q)\<rparr>"
  have "dl_nr_migratory ?q \<noteq> 0" if "\<not> b"
    using rq_okD(7) [OF ok(1)] relabel_count(2) [OF rq_okD(2) [OF ok(1)] pq nb that] by (simp add: counted_def)
  moreover have "on_dl_rq (n_task p) ?q \<noteq> None" using pq by (auto simp: on_dl_rq_None)
  ultimately have "set_cpus_allowed_dl tp cpu p (card new_mask) s = Returns (sys_set_rq cpu (q', rd') (with_push cpu t l s))"
    using t(1) q'(1) nb by (auto simp: set_cpus_allowed_dl_def b_def Let_def split: if_splits outcome.splits)
  moreover define s' where "s' = set_nr_cpus_allowed cpu (n_task p) (card new_mask) (sys_set_rq cpu (q', rd') (with_push cpu t l s))"
  ultimately have run: "change_affinity tp cpu p new_mask s = Returns s'" by (simp add: change_affinity_def)
  have s': "bl_sys s' = \<lparr>sys_rqs = (sys_rqs (bl_sys s))[cpu := ?q2], sys_rd = rd'\<rparr>"
      "bl_curr s' = (bl_curr s)(cpu := map_option ?f (bl_curr s cpu))"
      "bl_push s' = (bl_push s)(cpu := map_tree ?f t)" "bl_left s' = (bl_left s)(cpu := map_option ?f l)"
    using cpu sys(5) q'(2,3) by (simp_all add: s'_def set_nr_cpus_allowed_def sys_set_rq_def Let_def bl_rq_def b_def)
  have Q': "queued (bl_sys s') = (queued (bl_sys s))(cpu := ?f ` ?Q)"
    using cpu sys(5) by (auto simp: s'(1) queued_def fun_eq_iff bl_rq_def tree.set_map)
  have "sys_inv (tp_nr tp) (bl_sys s')" unfolding s'(1) using sys_put_inv [OF sys(1) cpu] q'(4) by (simp add: bl_rq_def)
  moreover have "push_ok (?f ` ?Q) (map_option ?f (bl_curr s cpu)) (inorder (map_tree ?f t)) (map_option ?f l)"
    using relabel_push [OF t(2) ok(3)] by (simp add: inorder_map)
  moreover have "tasks_ok (tp\<lparr>tp_allowed := (tp_allowed tp)(n_task p := new_mask)\<rparr>) ((queued (bl_sys s))(cpu := ?f ` ?Q)) (bl_curr s')"
    unfolding s'(2) by (rule relabel_tasks [OF sys(6) cpu p mask])
  ultimately have "bal_inv (tp\<lparr>tp_allowed := (tp_allowed tp)(n_task p := new_mask)\<rparr>) s'"
    using inv by (auto simp: bal_inv_def Q' s'(2-4))
  then show ?thesis using run Q' unfolding b_def by blast
qed

lemma set_nr_cpus_allowed_same:
  assumes inv: "bal_inv tp s" and cpu: "cpu < tp_nr tp" and p: "p \<in> queued (bl_sys s) cpu" and b: "n_migr p = (weight > 1)"
  shows "set_nr_cpus_allowed cpu (n_task p) weight s = s" and "relabel (n_task p) (weight > 1) ` queued (bl_sys s) cpu = queued (bl_sys s) cpu"
    and "map_option (relabel (n_task p) (weight > 1)) (bl_curr s cpu) = bl_curr s cpu"
proof -
  let ?f = "relabel (n_task p) (weight > 1)" and ?q = "bl_rq s cpu"
  note ok = bal_invD [OF inv cpu]
  have id: "?f n = n" if "n \<in> queued (bl_sys s) cpu" for n
    using queued_inj [OF inv cpu that p] b by (auto simp: relabel_def)
  then show "?f ` queued (bl_sys s) cpu = queued (bl_sys s) cpu" by force
  have push: "n \<in> queued (bl_sys s) cpu" if "n \<in> set (inorder (bl_push s cpu))" for n using ok(3) that by (auto simp: push_ok_def)
  have t: "map_tree ?f (rb_root ?q) = rb_root ?q" "map_tree ?f (bl_push s cpu) = bl_push s cpu"
    using id ok(2) push by (auto intro!: tree.map_ident_strong)
  have l: "map_option ?f (rb_leftmost ?q) = rb_leftmost ?q" "map_option ?f (bl_left s cpu) = bl_left s cpu"
    using id ok(2,3) rq_okD(4) [OF ok(1)] first_Some [of "nodes ?q"] first_Some [of "inorder (bl_push s cpu)"] push
    by (auto simp: push_ok_def intro!: option.map_ident_strong)
  show c: "map_option ?f (bl_curr s cpu) = bl_curr s cpu"
  proof (cases "bl_curr s cpu")
    case (Some x)
    have "x \<in> queued (bl_sys s) cpu" if "n_task x = n_task p" using ok(3) Some p that by (force simp: push_ok_def)
    then show ?thesis using id [of x] Some by (cases "n_task x = n_task p") (auto simp: relabel_def)
  qed simp
  show "set_nr_cpus_allowed cpu (n_task p) weight s = s"
    using t l c by (simp add: set_nr_cpus_allowed_def Let_def sys_set_rq_def bl_rq_def)
qed



end
