(* ===== verification/Deadline_Throttle.thy ===== *)
theory Deadline_Throttle
  imports Deadline_Class Deadline_Server
begin

text \<open>
  The bandwidth server of \<open>Deadline_Server\<close> and the queues of \<open>Deadline_Balance\<close> and \<open>Deadline_Class\<close> put together, as the entries of
  \<^verbatim>\<open>dl_sched_class\<close> and the bandwidth timer do it (\<^verbatim>\<open>kernel/sched/deadline.c\<close> of
  \<^verbatim>\<open>sched-dl/patch-dl/sched-add-sched_dl.patch\<close>): a task that has used up its budget is taken off its queue
  until its timer puts it back with a new budget and a new deadline. No task inherits a deadline here.

  Shown: a throttled task is on no queue, queued tasks are ordered by the deadlines of their
  entities, the scheduler picks the earliest of them, and the timer brings a throttled task back
  with a budget. Also shown: the counter \<^verbatim>\<open>nr_running\<close> grows with every such round, and a timer that expires for
  a task that is queued again fails an assertion.
\<close>

section \<open>State and operations\<close>

text \<open>
  The entities by task, the queues, and for every processor the calls of \<^verbatim>\<open>inc_nr_running\<close> less those of
  \<^verbatim>\<open>dec_nr_running\<close>.
\<close>

record thr_state =
  thr_ent :: "nat \<Rightarrow> sched_dl_entity"
  thr_bal :: dl_bal
  thr_nr :: "nat \<Rightarrow> u32"

definition set_ent :: "nat \<Rightarrow> sched_dl_entity \<Rightarrow> thr_state \<Rightarrow> thr_state" where
  "set_ent t d s = s\<lparr>thr_ent := (thr_ent s)(t := d)\<rparr>"

definition set_bal :: "dl_bal \<Rightarrow> thr_state \<Rightarrow> thr_state" where
  "set_bal b s = s\<lparr>thr_bal := b\<rparr>"

definition inc_nr_running :: "nat \<Rightarrow> thr_state \<Rightarrow> thr_state" where
  "inc_nr_running cpu s = s\<lparr>thr_nr := (thr_nr s)(cpu := thr_nr s cpu + 1)\<rparr>"

definition dec_nr_running :: "nat \<Rightarrow> thr_state \<Rightarrow> thr_state" where
  "dec_nr_running cpu s = s\<lparr>thr_nr := (thr_nr s)(cpu := thr_nr s cpu - 1)\<rparr>"

text \<open>\<^verbatim>\<open>enqueue_task_dl\<close>: the entity gets its budget and deadline, then the task goes into the trees.\<close>

definition run_enqueue_task_dl :: "dl_topo \<Rightarrow> u64 \<Rightarrow> nat \<Rightarrow> dl_node \<Rightarrow> bool \<Rightarrow> thr_state \<Rightarrow> thr_state outcome option" where
  "run_enqueue_task_dl tp clock cpu p replenish s =
     (case enqueue_task_dl clock None (thr_ent s (n_task p)) replenish of
        None \<Rightarrow> None
      | Some Fault \<Rightarrow> Some Fault
      | Some (Returns d) \<Rightarrow>
          if dl_throttled (thr_ent s (n_task p)) then Some (Returns s)
          else (case bal_enqueue_task tp cpu (p\<lparr>n_dl := se_deadline d\<rparr>) (thr_bal s) of
                  Fault \<Rightarrow> Some Fault
                | Returns b \<Rightarrow> Some (Returns (inc_nr_running cpu (set_bal b (set_ent (n_task p) d s))))))"

definition is_leftmost :: "dl_node \<Rightarrow> dl_rq \<Rightarrow> bool" where
  "is_leftmost p q \<longleftrightarrow> (case rb_leftmost q of None \<Rightarrow> False | Some n \<Rightarrow> n_task n = n_task p)"

text \<open>\<^verbatim>\<open>update_curr_dl\<close> of a processor; the accounting of other subsystems is left out.\<close>

definition run_update_curr_dl :: "(int \<Rightarrow> int) \<Rightarrow> dl_topo \<Rightarrow> u64 \<Rightarrow> u64 \<Rightarrow> bool \<Rightarrow> nat \<Rightarrow> thr_state \<Rightarrow> thr_state outcome option" where
  "run_update_curr_dl to_us tp clock delta active cpu s =
     (case bl_curr (thr_bal s) cpu of
        None \<Rightarrow> Some (Returns s)
      | Some c \<Rightarrow>
          if on_dl_rq (n_task c) (bl_rq (thr_bal s) cpu) = None then Some (Returns s)
          else let e = thr_ent s (n_task c);
                   delta_exec = (if sint delta < 0 then 0 else delta);
                   (exceeded, d) = dl_runtime_exceeded clock (e\<lparr>se_runtime := se_runtime e - delta_exec\<rparr>);
                   s1 = set_ent (n_task c) d s in
            if \<not> exceeded then Some (Returns s1)
            else (case bal_dequeue_task tp cpu c (thr_bal s1) of
                    Fault \<Rightarrow> Some Fault
                  | Returns b \<Rightarrow>
                      (case (if start_dl_timer to_us clock active d
                             then Some (Returns (set_ent (n_task c) (d\<lparr>dl_throttled := True\<rparr>) (set_bal b s1)))
                             else run_enqueue_task_dl tp clock cpu c True (set_bal b s1)) of
                         None \<Rightarrow> None
                       | Some Fault \<Rightarrow> Some Fault
                       | Some (Returns s2) \<Rightarrow>
                           Some (Returns (if \<not> is_leftmost c (bl_rq (thr_bal s2) cpu)
                                          then set_bal (resched_task cpu (thr_bal s2)) s2 else s2)))))"

text \<open>\<^verbatim>\<open>dl_task_timer\<close> of a deadline task whose run queue is that of \<open>cpu\<close>; \<open>here\<close> is the processor it runs on.\<close>

definition run_dl_task_timer :: "dl_topo \<Rightarrow> nat \<Rightarrow> u64 \<Rightarrow> nat \<Rightarrow> dl_node \<Rightarrow> bool \<Rightarrow> thr_state \<Rightarrow> thr_state outcome option" where
  "run_dl_task_timer tp here clock cpu p on_rq s =
     (let d = thr_ent s (n_task p); s1 = set_ent (n_task p) (d\<lparr>dl_throttled := False\<rparr>) s in
      if dl_new d then Some (Returns s)
      else if \<not> on_rq then Some (Returns s1)
      else case run_enqueue_task_dl tp clock cpu p True s1 of
             None \<Rightarrow> None
           | Some Fault \<Rightarrow> Some Fault
           | Some (Returns s2) \<Rightarrow>
               let b = (case bl_curr (thr_bal s2) cpu of
                          Some cur \<Rightarrow> check_preempt_curr_dl tp cpu cur (p\<lparr>n_dl := se_deadline (thr_ent s2 (n_task p))\<rparr>) (thr_bal s2)
                        | None \<Rightarrow> resched_task cpu (thr_bal s2)) in
               if has_pushable_dl_tasks cpu b
               then (case push_dl_task tp here cpu b of Fault \<Rightarrow> Some Fault | Returns (r, b') \<Rightarrow> Some (Returns (set_bal b' s2)))
               else Some (Returns (set_bal b s2)))"

definition run_dequeue_task_dl :: "(int \<Rightarrow> int) \<Rightarrow> dl_topo \<Rightarrow> u64 \<Rightarrow> u64 \<Rightarrow> bool \<Rightarrow> nat \<Rightarrow> dl_node \<Rightarrow> thr_state \<Rightarrow> thr_state outcome option" where
  "run_dequeue_task_dl to_us tp clock delta active cpu p s =
     (case run_update_curr_dl to_us tp clock delta active cpu s of
        None \<Rightarrow> None
      | Some Fault \<Rightarrow> Some Fault
      | Some (Returns s1) \<Rightarrow>
          (case bal_dequeue_task tp cpu p (thr_bal s1) of
             Fault \<Rightarrow> Some Fault
           | Returns b \<Rightarrow> Some (Returns (dec_nr_running cpu (set_bal b s1)))))"

text \<open>\<^verbatim>\<open>put_prev_task_dl\<close>, with its charge, and \<^verbatim>\<open>pick_next_task_dl\<close> in turn.\<close>

definition run_schedule :: "(int \<Rightarrow> int) \<Rightarrow> dl_topo \<Rightarrow> u64 \<Rightarrow> u64 \<Rightarrow> bool \<Rightarrow> nat \<Rightarrow> thr_state \<Rightarrow> thr_state outcome option" where
  "run_schedule to_us tp clock delta active cpu s =
     (case run_update_curr_dl to_us tp clock delta active cpu s of
        None \<Rightarrow> None
      | Some Fault \<Rightarrow> Some Fault
      | Some (Returns s1) \<Rightarrow>
          (case bal_schedule tp cpu (thr_bal s1) of Fault \<Rightarrow> Some Fault | Returns b \<Rightarrow> Some (Returns (set_bal b s1))))"

definition run_yield_task_dl :: "(int \<Rightarrow> int) \<Rightarrow> dl_topo \<Rightarrow> u64 \<Rightarrow> u64 \<Rightarrow> bool \<Rightarrow> nat \<Rightarrow> thr_state \<Rightarrow> thr_state outcome option" where
  "run_yield_task_dl to_us tp clock delta active cpu s =
     (case bl_curr (thr_bal s) cpu of
        None \<Rightarrow> Some (Returns s)
      | Some c \<Rightarrow>
          let e = thr_ent s (n_task c) in
          run_update_curr_dl to_us tp clock delta active cpu
            (if 0 < sint (se_runtime e) then set_ent (n_task c) (e\<lparr>dl_new := True, se_runtime := 0\<rparr>) s else s))"

text \<open>\<^verbatim>\<open>start_hrtick_dl\<close>: the time after which the tick is to come, if it is started.\<close>

definition start_hrtick_dl :: "sched_dl_entity \<Rightarrow> u64 option" where
  "start_hrtick_dl d = (if sint (dl_runtime d - se_runtime d) > 10000 then Some (se_runtime d) else None)"

definition run_task_tick_dl ::
  "(int \<Rightarrow> int) \<Rightarrow> dl_topo \<Rightarrow> u64 \<Rightarrow> u64 \<Rightarrow> bool \<Rightarrow> nat \<Rightarrow> dl_node \<Rightarrow> bool \<Rightarrow> bool \<Rightarrow> thr_state \<Rightarrow> (thr_state \<times> u64 option) outcome option" where
  "run_task_tick_dl to_us tp clock delta active cpu p enabled from_hrtick s =
     (case run_update_curr_dl to_us tp clock delta active cpu s of
        None \<Rightarrow> None
      | Some Fault \<Rightarrow> Some Fault
      | Some (Returns s1) \<Rightarrow>
          let d = thr_ent s1 (n_task p) in
          Some (Returns (s1, if enabled \<and> from_hrtick \<and> 0 < sint (se_runtime d) then start_hrtick_dl d else None)))"

text \<open>The statistics \<^verbatim>\<open>dl_runtime_exceeded\<close> keeps.\<close>

record dl_stats =
  last_dmiss :: u64
  dmiss_max :: u64
  last_rorun :: u64
  rorun_max :: u64

definition runtime_exceeded_stats :: "u64 \<Rightarrow> sched_dl_entity \<Rightarrow> dl_stats \<Rightarrow> dl_stats" where
  "runtime_exceeded_stats clock dl_se st =
     (let dmiss = dl_time_before (se_deadline dl_se) clock; rorun = (sint (se_runtime dl_se) \<le> 0);
          damount = clock - se_deadline dl_se; ramount = - se_runtime dl_se;
          st = (if dmiss then st\<lparr>last_dmiss := damount, dmiss_max := max (dmiss_max st) damount\<rparr> else st) in
      if rorun then st\<lparr>last_rorun := ramount, rorun_max := max (rorun_max st) ramount\<rparr> else st)"

section \<open>Consistency\<close>

text \<open>
  The queues are consistent; a queued task is not throttled and its node has the deadline of its
  entity; every entity has a budget below \<open>2 ^ 63\<close>.
\<close>

definition in_step :: "dl_topo \<Rightarrow> (nat \<Rightarrow> sched_dl_entity) \<Rightarrow> dl_bal \<Rightarrow> bool" where
  "in_step tp ent b \<longleftrightarrow> (\<forall>n \<in> all_queued tp (queued (bl_sys b)). \<not> dl_throttled (ent (n_task n)) \<and> n_dl n = se_deadline (ent (n_task n)))"

definition thr_inv :: "dl_topo \<Rightarrow> thr_state \<Rightarrow> bool" where
  "thr_inv tp s \<longleftrightarrow> bal_inv tp (thr_bal s) \<and> in_step tp (thr_ent s) (thr_bal s) \<and> (\<forall>t. 0 < sint (dl_runtime (thr_ent s t)))"

lemma set_ent_simps [simp]:
  "thr_ent (set_ent t d s) = (thr_ent s)(t := d)" "thr_bal (set_ent t d s) = thr_bal s" "thr_nr (set_ent t d s) = thr_nr s"
  "thr_ent (set_bal b s) = thr_ent s" "thr_bal (set_bal b s) = b" "thr_nr (set_bal b s) = thr_nr s"
  "thr_ent (inc_nr_running cpu s) = thr_ent s" "thr_bal (inc_nr_running cpu s) = thr_bal s"
  "thr_ent (dec_nr_running cpu s) = thr_ent s" "thr_bal (dec_nr_running cpu s) = thr_bal s"
  "thr_nr (inc_nr_running cpu s) = (thr_nr s)(cpu := thr_nr s cpu + 1)"
  by (simp_all add: set_ent_def set_bal_def inc_nr_running_def dec_nr_running_def)

text \<open>What the functions on entities leave alone.\<close>

lemma exceeded_frame: "\<exists>y. snd (dl_runtime_exceeded clock d) = d\<lparr>se_runtime := y\<rparr>"
proof (cases "fst (dl_runtime_exceeded clock d) \<and> dl_time_before (se_deadline d) clock")
  case True
  then show ?thesis by (auto simp: dl_runtime_exceeded_def Let_def)
next
  case False
  then have "snd (dl_runtime_exceeded clock d) = d\<lparr>se_runtime := se_runtime d\<rparr>" by (auto simp: dl_runtime_exceeded_def Let_def)
  then show ?thesis by blast
qed

lemma enqueue_returns:
  assumes "0 < sint (dl_runtime d)"
  shows "\<exists>d'. enqueue_task_dl clock None d replenish = Some (Returns d') \<and> dl_runtime d' = dl_runtime d \<and>
    dl_throttled d' = dl_throttled d \<and> (replenish \<and> \<not> dl_new d \<and> \<not> dl_throttled d \<longrightarrow> 0 < sint (se_runtime d'))"
proof -
  have frame: "dl_runtime (reset_dl_entity c x d) = dl_runtime x" "dl_throttled (reset_dl_entity c x d) = dl_throttled x"
      "se_runtime (reset_dl_entity c x d) = dl_runtime d" for c x
    by (simp_all add: reset_dl_entity_def)
  have "dl_runtime d \<noteq> 0" using assms by auto
  let ?x = "if dl_deadline d = 0 then reset_dl_entity clock d d else d"
  obtain e where e: "replenish_loop d ?x = Some e" "0 < sint (se_runtime e)" using replenish_loop_result [OF assms, of _ ?x] by blast
  from replenish_loop_frame [OF e(1)] have "dl_runtime e = dl_runtime d" "dl_throttled e = dl_throttled d"
    by (auto simp: frame split: if_splits)
  then have "\<exists>d'. replenish_dl_entity clock d d = Some (Returns d') \<and> dl_runtime d' = dl_runtime d \<and> dl_throttled d' = dl_throttled d \<and>
      0 < sint (se_runtime d')"
    using e assms \<open>dl_runtime d \<noteq> 0\<close> by (simp add: replenish_dl_entity_def frame)
  then show ?thesis
    by (auto simp: enqueue_task_dl_def enqueue_dl_entity_def update_dl_entity_def setup_new_dl_entity_def frame)
qed

text \<open>The maxima bound what was seen last, and nothing is recorded unless the budget or the deadline was exceeded.\<close>

lemma stats_maxima:
  assumes "last_dmiss st \<le> dmiss_max st" and "last_rorun st \<le> rorun_max st"
  shows "last_dmiss (runtime_exceeded_stats clock d st) \<le> dmiss_max (runtime_exceeded_stats clock d st)"
    and "last_rorun (runtime_exceeded_stats clock d st) \<le> rorun_max (runtime_exceeded_stats clock d st)"
    and "\<not> fst (dl_runtime_exceeded clock d) \<Longrightarrow> runtime_exceeded_stats clock d st = st"
  using assms by (auto simp: runtime_exceeded_stats_def dl_runtime_exceeded_def Let_def split: if_splits)

text \<open>The deadline an operation on the entity gives is a proper one.\<close>

definition proper :: "sched_dl_entity outcome option \<Rightarrow> bool" where
  "proper r \<longleftrightarrow> (case r of Some (Returns d) \<Rightarrow> 0 < se_deadline d \<and> se_deadline d < 2 ^ 63 | _ \<Rightarrow> True)"

section \<open>Every operation keeps it\<close>

lemma in_step_free:
  assumes "in_step tp ent b" and "t \<notin> n_task ` all_queued tp (queued (bl_sys b))"
  shows "in_step tp (ent(t := d)) b"
  using assms by (auto simp: in_step_def image_iff)

lemma is_curr_deadline [simp]: "is_curr cur (p\<lparr>n_dl := x\<rparr>) = is_curr cur p"
  by (simp add: is_curr_def split: option.split)

lemma is_curr_name: "is_curr cur p \<longleftrightarrow> map_option n_task cur = Some (n_task p)"
  by (cases cur) (auto simp: is_curr_def)

lemma bal_enqueue_curr:
  assumes "bal_enqueue_task tp cpu p b = Returns b'"
  shows "map_option n_task (bl_curr b' c) = map_option n_task (bl_curr b c)"
  using assms
  by (auto simp: bal_enqueue_task_def bl_step_def enqueue_pushable_dl_task_def task_current_def Let_def
      split: outcome.splits if_splits option.splits prod.splits)

lemma run_enqueue_ok:
  assumes tp: "tp_ok tp" and inv: "thr_inv tp s" and cpu: "cpu \<in> tp_allowed tp (n_task p)"
    and free: "\<not> dl_throttled (thr_ent s (n_task p))" "nowhere_but tp cpu p (thr_bal s)"
    and fit: "proper (enqueue_task_dl clock None (thr_ent s (n_task p)) replenish)"
  shows "\<exists>d s'. enqueue_task_dl clock None (thr_ent s (n_task p)) replenish = Some (Returns d) \<and>
    run_enqueue_task_dl tp clock cpu p replenish s = Some (Returns s') \<and> thr_inv tp s' \<and> thr_ent s' = (thr_ent s)(n_task p := d) \<and>
    queued (bl_sys (thr_bal s')) = (queued (bl_sys (thr_bal s)))(cpu := insert (p\<lparr>n_dl := se_deadline d\<rparr>) (queued (bl_sys (thr_bal s)) cpu)) \<and>
    thr_nr s' = (thr_nr s)(cpu := thr_nr s cpu + 1) \<and>
    (\<forall>c. map_option n_task (bl_curr (thr_bal s') c) = map_option n_task (bl_curr (thr_bal s) c))"
proof -
  let ?e = "thr_ent s (n_task p)" and ?b = "thr_bal s"
  have b: "bal_inv tp ?b" "in_step tp (thr_ent s) ?b" "0 < sint (dl_runtime ?e)" using inv by (auto simp: thr_inv_def)
  have c: "cpu < tp_nr tp" using tp cpu by (auto simp: tp_ok_def)
  obtain d where d: "enqueue_task_dl clock None ?e replenish = Some (Returns d)" "dl_runtime d = dl_runtime ?e" "dl_throttled d = dl_throttled ?e"
    using enqueue_returns [OF b(3)] by blast
  let ?p = "p\<lparr>n_dl := se_deadline d\<rparr>"
  have out: "nowhere_but tp cpu ?p ?b" using free(2) by (simp add: nowhere_but_def)
  have "dl_ok ?p" using fit d(1) by (simp add: proper_def dl_ok_def)
  from bal_enqueue_task_ok [OF tp b(1) c this _ out] cpu
  obtain b' where b': "bal_enqueue_task tp cpu ?p ?b = Returns b'" "bal_inv tp b'"
      "queued (bl_sys b') = (queued (bl_sys ?b))(cpu := insert ?p (queued (bl_sys ?b) cpu))"
    by auto
  let ?s = "inc_nr_running cpu (set_bal b' (set_ent (n_task p) d s))"
  have run: "run_enqueue_task_dl tp clock cpu p replenish s = Some (Returns ?s)" using d(1) free(1) b'(1) by (simp add: run_enqueue_task_dl_def)
  have "n_task p \<notin> n_task ` all_queued tp (queued (bl_sys ?b))" using out by (auto simp: nowhere_but_def all_queued_def image_iff)
  from in_step_free [OF b(2) this, of d] have "in_step tp ((thr_ent s)(n_task p := d)) b'"
    using d(3) free(1) c by (auto simp: in_step_def b'(3) all_queued_def split: if_splits)
  then have "thr_inv tp ?s" using b' inv d(2) b(3) by (simp add: thr_inv_def)
  then show ?thesis using d(1) run b'(3) bal_enqueue_curr [OF b'(1)] by simp
qed

text \<open>A change of an entity that keeps deadline, budget and throttled bit.\<close>

lemma set_ent_inv:
  assumes "thr_inv tp s" and "se_deadline d = se_deadline (thr_ent s t)" and "dl_runtime d = dl_runtime (thr_ent s t)"
    and "dl_throttled d = dl_throttled (thr_ent s t)"
  shows "thr_inv tp (set_ent t d s)"
  using assms by (auto simp: thr_inv_def in_step_def)

text \<open>A task taken off its queue is on no queue.\<close>

lemma dequeued_free:
  assumes tp: "tp_ok tp" and inv: "thr_inv tp s" and cpu: "cpu < tp_nr tp" and p: "p \<in> queued (bl_sys (thr_bal s)) cpu"
  obtains b where "bal_dequeue_task tp cpu p (thr_bal s) = Returns b" and "thr_inv tp (set_bal b s)"
    and "queued (bl_sys b) = (queued (bl_sys (thr_bal s)))(cpu := {n \<in> queued (bl_sys (thr_bal s)) cpu. n_task n \<noteq> n_task p})"
    and "bl_curr b = bl_curr (thr_bal s)" and "n_task p \<notin> n_task ` all_queued tp (queued (bl_sys b))" and "nowhere_but tp cpu p b"
    and "cpu \<in> tp_allowed tp (n_task p)"
proof -
  let ?Q = "queued (bl_sys (thr_bal s))"
  have i: "bal_inv tp (thr_bal s)" using inv by (simp add: thr_inv_def)
  then have t: "tasks_ok tp ?Q (bl_curr (thr_bal s))" by (simp add: bal_inv_def)
  obtain b where b: "bal_dequeue_task tp cpu p (thr_bal s) = Returns b" "bal_inv tp b"
      "queued (bl_sys b) = ?Q(cpu := {n \<in> ?Q cpu. n_task n \<noteq> n_task p})" "bl_curr b = bl_curr (thr_bal s)"
    using bal_dequeue_task_ok [OF tp i cpu, of p] by blast
  have free: "n_task p \<notin> n_task ` queued (bl_sys b) c" if "c < tp_nr tp" for c
  proof (cases "c = cpu")
    case False
    then show ?thesis using t p cpu that by (simp add: b(3) tasks_ok_def)
  qed (auto simp: b(3))
  have "in_step tp (thr_ent s) b" using inv b(3) by (auto simp: thr_inv_def in_step_def all_queued_def split: if_splits)
  then have "thr_inv tp (set_bal b s)" using inv b(2) by (simp add: thr_inv_def)
  moreover have "nowhere_but tp cpu p b" using free t p cpu by (simp add: nowhere_but_def b(4) tasks_ok_def)
  moreover have "cpu \<in> tp_allowed tp (n_task p)" using t p cpu by (simp add: tasks_ok_def)
  ultimately show thesis using that [OF b(1) _ b(3,4)] free by (auto simp: all_queued_def)
qed

lemma resched_inv [simp]: "thr_inv tp (set_bal (resched_task cpu (thr_bal s)) s) = thr_inv tp s"
  by (simp add: thr_inv_def in_step_def)

lemma run_update_curr_ok:
  assumes tp: "tp_ok tp" and inv: "thr_inv tp s" and cpu: "cpu < tp_nr tp"
    and fit: "\<And>c. bl_curr (thr_bal s) cpu = Some c \<Longrightarrow> proper (update_curr_dl to_us clock delta active None (thr_ent s (n_task c)))"
  obtains s' where "run_update_curr_dl to_us tp clock delta active cpu s = Some (Returns s')" and "thr_inv tp s'"
    and "\<And>c. bl_curr (thr_bal s) cpu = Some c \<Longrightarrow> c \<in> queued (bl_sys (thr_bal s)) cpu \<Longrightarrow>
      update_curr_dl to_us clock delta active None (thr_ent s (n_task c)) = Some (Returns (thr_ent s' (n_task c)))"
    and "\<And>t. (\<forall>c. bl_curr (thr_bal s) cpu = Some c \<longrightarrow> c \<in> queued (bl_sys (thr_bal s)) cpu \<longrightarrow> n_task c \<noteq> t) \<Longrightarrow> thr_ent s' t = thr_ent s t"
    and "\<And>c. map_option n_task (bl_curr (thr_bal s') c) = map_option n_task (bl_curr (thr_bal s) c)"
    and "\<And>c. bl_curr (thr_bal s) cpu = Some c \<Longrightarrow> c \<in> queued (bl_sys (thr_bal s)) cpu \<Longrightarrow> dl_throttled (thr_ent s' (n_task c)) \<Longrightarrow>
      thr_nr s' = thr_nr s \<and> queued (bl_sys (thr_bal s')) =
        (queued (bl_sys (thr_bal s)))(cpu := {n \<in> queued (bl_sys (thr_bal s)) cpu. n_task n \<noteq> n_task c})"
proof (cases "\<exists>c. bl_curr (thr_bal s) cpu = Some c \<and> c \<in> queued (bl_sys (thr_bal s)) cpu")
  case False
  have i: "bal_inv tp (thr_bal s)" using inv by (simp add: thr_inv_def)
  have "on_dl_rq (n_task c) (bl_rq (thr_bal s) cpu) = None" if "bl_curr (thr_bal s) cpu = Some c" for c
  proof (rule ccontr)
    assume "on_dl_rq (n_task c) (bl_rq (thr_bal s) cpu) \<noteq> None"
    then have "n_task c \<in> n_task ` queued (bl_sys (thr_bal s)) cpu" unfolding bal_invD(2) [OF i cpu] by (simp add: on_dl_rq_None)
    then show False using bal_invD(3) [OF i cpu] that False by (auto simp: push_ok_def)
  qed
  then have "run_update_curr_dl to_us tp clock delta active cpu s = Some (Returns s)"
    by (auto simp: run_update_curr_dl_def split: option.splits)
  then show thesis using that inv False by blast
next
  case True
  then obtain c where c: "bl_curr (thr_bal s) cpu = Some c" "c \<in> queued (bl_sys (thr_bal s)) cpu" by blast
  let ?t = "n_task c" and ?e = "thr_ent s (n_task c)"
  have i: "bal_inv tp (thr_bal s)" using inv by (simp add: thr_inv_def)
  obtain m where on: "on_dl_rq ?t (bl_rq (thr_bal s) cpu) = Some m"
    using c(2) on_dl_rq_None [of ?t "bl_rq (thr_bal s) cpu"] unfolding bal_invD(2) [OF i cpu] by blast
  have nt: "\<not> dl_throttled ?e" using inv c(2) cpu by (auto simp: thr_inv_def in_step_def all_queued_def)
  define e1 where "e1 = ?e\<lparr>se_runtime := se_runtime ?e - (if sint delta < 0 then 0 else delta)\<rparr>"
  obtain x d where xd: "dl_runtime_exceeded clock e1 = (x, d)" by fastforce
  obtain y where "d = e1\<lparr>se_runtime := y\<rparr>" using exceeded_frame [of clock e1] xd by auto
  then have d: "se_deadline d = se_deadline ?e" "dl_runtime d = dl_runtime ?e" "dl_throttled d = dl_throttled ?e" by (simp_all add: e1_def)
  have up: "update_curr_dl to_us clock delta active None ?e =
      (if \<not> x then Some (Returns d) else if start_dl_timer to_us clock active d then Some (Returns (d\<lparr>dl_throttled := True\<rparr>))
       else enqueue_task_dl clock None d True)"
    using xd by (simp add: update_curr_dl_def e1_def)
  let ?s1 = "set_ent ?t d s"
  have i1: "thr_inv tp ?s1" using set_ent_inv [OF inv d] .
  have cq: "c \<in> queued (bl_sys (thr_bal ?s1)) cpu" using c(2) by simp
  obtain b where b: "bal_dequeue_task tp cpu c (thr_bal s) = Returns b" "thr_inv tp (set_bal b ?s1)" "bl_curr b = bl_curr (thr_bal s)"
      "?t \<notin> n_task ` all_queued tp (queued (bl_sys b))" "nowhere_but tp cpu c b" "cpu \<in> tp_allowed tp ?t"
      "queued (bl_sys b) = (queued (bl_sys (thr_bal s)))(cpu := {n \<in> queued (bl_sys (thr_bal s)) cpu. n_task n \<noteq> ?t})"
    using dequeued_free [OF tp i1 cpu cq] unfolding set_ent_simps by blast
  have run: "run_update_curr_dl to_us tp clock delta active cpu s = (if \<not> x then Some (Returns ?s1)
      else case (if start_dl_timer to_us clock active d then Some (Returns (set_ent ?t (d\<lparr>dl_throttled := True\<rparr>) (set_bal b ?s1)))
                 else run_enqueue_task_dl tp clock cpu c True (set_bal b ?s1)) of
        None \<Rightarrow> None | Some Fault \<Rightarrow> Some Fault
      | Some (Returns s2) \<Rightarrow> Some (Returns (if \<not> is_leftmost c (bl_rq (thr_bal s2) cpu) then set_bal (resched_task cpu (thr_bal s2)) s2 else s2)))"
    using c(1) on xd b(1) by (simp add: run_update_curr_dl_def e1_def)
  let ?fin = "\<lambda>s2. if \<not> is_leftmost c (bl_rq (thr_bal s2) cpu) then set_bal (resched_task cpu (thr_bal s2)) s2 else s2"
  have fin: "thr_inv tp (?fin s2) = thr_inv tp s2" "thr_ent (?fin s2) = thr_ent s2" "bl_curr (thr_bal (?fin s2)) = bl_curr (thr_bal s2)"
      "thr_nr (?fin s2) = thr_nr s2" "bl_sys (thr_bal (?fin s2)) = bl_sys (thr_bal s2)" for s2
    by simp_all
  consider "\<not> x" | "x" "start_dl_timer to_us clock active d" | "x" "\<not> start_dl_timer to_us clock active d" by blast
  then show thesis
  proof cases
    case 1
    then show thesis using that [of ?s1] run up i1 c d(3) nt by simp
  next
    case 2
    let ?s2 = "set_ent ?t (d\<lparr>dl_throttled := True\<rparr>) (set_bal b ?s1)"
    have "in_step tp ((thr_ent s)(?t := d\<lparr>dl_throttled := True\<rparr>)) b"
      using in_step_free [OF _ b(4), of "(thr_ent s)(?t := d)" "d\<lparr>dl_throttled := True\<rparr>"] b(2) by (simp add: thr_inv_def)
    then have "thr_inv tp ?s2" using b(2) by (auto simp: thr_inv_def split: if_splits)
    then show thesis using that [of "?fin ?s2"] run up 2 b(3,7) c unfolding fin by simp
  next
    case 3
    let ?s2 = "set_bal b ?s1"
    have e2: "thr_ent ?s2 ?t = d" "thr_bal ?s2 = b" by simp_all
    have "proper (enqueue_task_dl clock None d True)" using fit [OF c(1)] up 3 by simp
    then obtain d' s2 where s2: "enqueue_task_dl clock None d True = Some (Returns d')" "run_enqueue_task_dl tp clock cpu c True ?s2 = Some (Returns s2)"
        "thr_inv tp s2" "thr_ent s2 = (thr_ent ?s2)(?t := d')" "\<forall>c. map_option n_task (bl_curr (thr_bal s2) c) = map_option n_task (bl_curr b c)"
      using run_enqueue_ok [OF tp b(2,6), of clock True] b(5) d(3) nt unfolding e2 by blast
    have "\<not> dl_throttled d'" using enqueue_returns [of d clock True] s2(1) b(2) d(2,3) nt inv by (auto simp: thr_inv_def)
    then show thesis using that [of "?fin s2"] s2 run up 3 b(3) c unfolding fin by simp
  qed
qed

lemma run_timer_ok:
  assumes tp: "tp_ok tp" and inv: "thr_inv tp s" and cpu: "cpu \<in> tp_allowed tp (n_task p)"
    and thr: "on_rq \<Longrightarrow> dl_throttled (thr_ent s (n_task p))" and own: "\<And>c. c < tp_nr tp \<Longrightarrow> c \<noteq> cpu \<Longrightarrow> \<not> is_curr (bl_curr (thr_bal s) c) p"
    and fit: "proper (dl_task_timer clock on_rq None (thr_ent s (n_task p)))"
  obtains s' where "run_dl_task_timer tp here clock cpu p on_rq s = Some (Returns s')" and "thr_inv tp s'"
    and "dl_task_timer clock on_rq None (thr_ent s (n_task p)) = Some (Returns (thr_ent s' (n_task p)))"
    and "\<And>t. t \<noteq> n_task p \<Longrightarrow> thr_ent s' t = thr_ent s t"
    and "\<not> dl_new (thr_ent s (n_task p)) \<Longrightarrow> on_rq \<Longrightarrow>
      all_queued tp (queued (bl_sys (thr_bal s'))) =
        insert (p\<lparr>n_dl := se_deadline (thr_ent s' (n_task p))\<rparr>) (all_queued tp (queued (bl_sys (thr_bal s)))) \<and>
      thr_nr s' = (thr_nr s)(cpu := thr_nr s cpu + 1)"
proof -
  let ?e = "thr_ent s (n_task p)" and ?t = "n_task p"
  let ?d = "?e\<lparr>dl_throttled := False\<rparr>"
  let ?s1 = "set_ent ?t ?d s"
  have c: "cpu < tp_nr tp" using tp cpu by (auto simp: tp_ok_def)
  have i1: "thr_inv tp ?s1" using inv by (auto simp: thr_inv_def in_step_def)
  show thesis
  proof (cases "dl_new ?e \<or> \<not> on_rq")
    case True
    show thesis
      by (rule that [of "if dl_new ?e then s else ?s1"])
        (use True inv i1 in \<open>auto simp: run_dl_task_timer_def dl_task_timer_def\<close>)
  next
    case False
    have out: "nowhere_but tp cpu p (thr_bal ?s1)"
      using thr inv own False by (auto simp: nowhere_but_def thr_inv_def in_step_def all_queued_def)
    have up: "dl_task_timer clock on_rq None ?e = enqueue_task_dl clock None ?d True"
      using False by (simp add: dl_task_timer_def)
    have e1: "thr_ent ?s1 ?t = ?d" "thr_bal ?s1 = thr_bal s" "thr_nr ?s1 = thr_nr s" "(thr_ent ?s1)(?t := d) = (thr_ent s)(?t := d)" for d by simp_all
    have "\<not> dl_throttled ?d" by simp
    then obtain d s2 where s2: "enqueue_task_dl clock None ?d True = Some (Returns d)" "run_enqueue_task_dl tp clock cpu p True ?s1 = Some (Returns s2)"
        "thr_inv tp s2" "thr_ent s2 = (thr_ent s)(?t := d)"
        "queued (bl_sys (thr_bal s2)) = (queued (bl_sys (thr_bal s)))(cpu := insert (p\<lparr>n_dl := se_deadline d\<rparr>) (queued (bl_sys (thr_bal s)) cpu))"
        "thr_nr s2 = (thr_nr s)(cpu := thr_nr s cpu + 1)"
      using run_enqueue_ok [OF tp i1 cpu, of clock True] out fit unfolding e1 up by blast
    define b where "b = (case bl_curr (thr_bal s2) cpu of
        Some cur \<Rightarrow> check_preempt_curr_dl tp cpu cur (p\<lparr>n_dl := se_deadline (thr_ent s2 ?t)\<rparr>) (thr_bal s2) | None \<Rightarrow> resched_task cpu (thr_bal s2))"
    have b2: "bal_inv tp (thr_bal s2)" using s2(3) by (simp add: thr_inv_def)
    have kb: "keeps tp (thr_bal s2) b"
      using check_preempt_keeps [OF b2] keeps_resched [OF keeps_refl [OF b2]] by (auto simp: b_def split: option.split)
    then have ib: "bal_inv tp b" by (simp add: keeps_def)
    obtain r b1 where push: "push_dl_task tp here cpu b = Returns (r, b1)" "keeps tp b b1" using push_dl_task_keeps [OF tp ib c, of here] by blast
    define b' where "b' = (if has_pushable_dl_tasks cpu b then b1 else b)"
    have b': "keeps tp (thr_bal s2) b'" using kb keeps_trans [OF kb push(2)] by (simp add: b'_def)
    have run: "run_dl_task_timer tp here clock cpu p on_rq s = Some (Returns (set_bal b' s2))"
      using False s2(2) push(1) by (simp add: run_dl_task_timer_def b_def [symmetric] b'_def)
    have "thr_inv tp (set_bal b' s2)" using s2(3) b' by (simp add: thr_inv_def keeps_def in_step_def)
    moreover have "all_queued tp (queued (bl_sys b')) = insert (p\<lparr>n_dl := se_deadline d\<rparr>) (all_queued tp (queued (bl_sys (thr_bal s))))"
      using b' c by (auto simp: keeps_def s2(5) all_queued_def split: if_splits)
    ultimately show thesis using that [OF run] s2(1,4,6) up by simp
  qed
qed

section \<open>Any sequence of events\<close>

datatype thr_event =
    TickEvent u64 u64 bool nat dl_node bool bool | TimerEvent nat u64 nat dl_node bool | WakeEvent u64 nat dl_node
  | BlockEvent u64 u64 bool nat dl_node | ReschedEvent u64 u64 bool nat | YieldEvent u64 u64 bool nat

fun thr_step :: "(int \<Rightarrow> int) \<Rightarrow> dl_topo \<Rightarrow> thr_event \<Rightarrow> thr_state \<Rightarrow> thr_state outcome option" where
  "thr_step to_us tp (TickEvent clock delta active cpu p enabled from_hrtick) s =
     (case run_task_tick_dl to_us tp clock delta active cpu p enabled from_hrtick s of
        None \<Rightarrow> None | Some Fault \<Rightarrow> Some Fault | Some (Returns (s', tick)) \<Rightarrow> Some (Returns s'))"
| "thr_step to_us tp (TimerEvent here clock cpu p on_rq) s = run_dl_task_timer tp here clock cpu p on_rq s"
| "thr_step to_us tp (WakeEvent clock cpu p) s = run_enqueue_task_dl tp clock cpu p False s"
| "thr_step to_us tp (BlockEvent clock delta active cpu p) s = run_dequeue_task_dl to_us tp clock delta active cpu p s"
| "thr_step to_us tp (ReschedEvent clock delta active cpu) s = run_schedule to_us tp clock delta active cpu s"
| "thr_step to_us tp (YieldEvent clock delta active cpu) s = run_yield_task_dl to_us tp clock delta active cpu s"

text \<open>
  When an event may come: deadlines stay proper; a timer belongs to a task that was throttled when
  it is on a run queue, and a task runs on no processor but its own; a task that wakes up is on no queue.
\<close>

definition curr_fits :: "(sched_dl_entity \<Rightarrow> sched_dl_entity outcome option) \<Rightarrow> nat \<Rightarrow> thr_state \<Rightarrow> bool" where
  "curr_fits f cpu s \<longleftrightarrow> (case bl_curr (thr_bal s) cpu of None \<Rightarrow> True | Some c \<Rightarrow> proper (f (thr_ent s (n_task c))))"

fun thr_event_ok :: "(int \<Rightarrow> int) \<Rightarrow> dl_topo \<Rightarrow> thr_event \<Rightarrow> thr_state \<Rightarrow> bool" where
  "thr_event_ok to_us tp (TickEvent clock delta active cpu p enabled from_hrtick) s \<longleftrightarrow>
     cpu < tp_nr tp \<and> curr_fits (update_curr_dl to_us clock delta active None) cpu s"
| "thr_event_ok to_us tp (TimerEvent here clock cpu p on_rq) s \<longleftrightarrow> cpu \<in> tp_allowed tp (n_task p) \<and>
     (on_rq \<longrightarrow> dl_throttled (thr_ent s (n_task p))) \<and> (\<forall>c < tp_nr tp. c \<noteq> cpu \<longrightarrow> \<not> is_curr (bl_curr (thr_bal s) c) p) \<and>
     proper (dl_task_timer clock on_rq None (thr_ent s (n_task p)))"
| "thr_event_ok to_us tp (WakeEvent clock cpu p) s \<longleftrightarrow> cpu \<in> tp_allowed tp (n_task p) \<and>
     (dl_throttled (thr_ent s (n_task p)) \<or> nowhere_but tp cpu p (thr_bal s)) \<and>
     proper (enqueue_task_dl clock None (thr_ent s (n_task p)) False)"
| "thr_event_ok to_us tp (BlockEvent clock delta active cpu p) s \<longleftrightarrow>
     cpu < tp_nr tp \<and> curr_fits (update_curr_dl to_us clock delta active None) cpu s"
| "thr_event_ok to_us tp (ReschedEvent clock delta active cpu) s \<longleftrightarrow>
     cpu < tp_nr tp \<and> curr_fits (update_curr_dl to_us clock delta active None) cpu s"
| "thr_event_ok to_us tp (YieldEvent clock delta active cpu) s \<longleftrightarrow>
     cpu < tp_nr tp \<and> curr_fits (yield_task_dl to_us clock delta active None) cpu s"

inductive thr_reach :: "(int \<Rightarrow> int) \<Rightarrow> dl_topo \<Rightarrow> thr_state \<Rightarrow> bool" for to_us tp where
  start: "(\<And>t. 0 < sint (dl_runtime (ent t))) \<Longrightarrow> thr_reach to_us tp \<lparr>thr_ent = ent, thr_bal = bal_init (tp_nr tp), thr_nr = nr\<rparr>"
| step: "thr_reach to_us tp s \<Longrightarrow> thr_event_ok to_us tp e s \<Longrightarrow> thr_step to_us tp e s = Some (Returns s') \<Longrightarrow> thr_reach to_us tp s'"

lemma curr_fitsD: "curr_fits f cpu s \<Longrightarrow> bl_curr (thr_bal s) cpu = Some c \<Longrightarrow> proper (f (thr_ent s (n_task c)))"
  by (simp add: curr_fits_def)

lemma run_update_curr_inv:
  assumes "tp_ok tp" and "thr_inv tp s" and "cpu < tp_nr tp" and fit: "curr_fits (update_curr_dl to_us clock delta active None) cpu s"
  shows "\<exists>s'. run_update_curr_dl to_us tp clock delta active cpu s = Some (Returns s') \<and> thr_inv tp s'"
  by (rule run_update_curr_ok [OF assms(1-3) curr_fitsD [OF fit]]) (assumption | rule exI conjI)+

lemma run_dequeue_ok:
  assumes tp: "tp_ok tp" and inv: "thr_inv tp s" and cpu: "cpu < tp_nr tp" and fit: "curr_fits (update_curr_dl to_us clock delta active None) cpu s"
  shows "\<exists>s'. run_dequeue_task_dl to_us tp clock delta active cpu p s = Some (Returns s') \<and> thr_inv tp s'"
proof -
  obtain s1 where s1: "run_update_curr_dl to_us tp clock delta active cpu s = Some (Returns s1)" "thr_inv tp s1"
    using run_update_curr_inv [OF tp inv cpu fit] by blast
  then have "bal_inv tp (thr_bal s1)" by (simp add: thr_inv_def)
  from bal_dequeue_task_ok [OF tp this cpu, of p] obtain b where b: "bal_dequeue_task tp cpu p (thr_bal s1) = Returns b" "bal_inv tp b"
      "queued (bl_sys b) = (queued (bl_sys (thr_bal s1)))(cpu := {n \<in> queued (bl_sys (thr_bal s1)) cpu. n_task n \<noteq> n_task p})"
    by blast
  then have "thr_inv tp (dec_nr_running cpu (set_bal b s1))"
    using s1(2) by (auto simp: thr_inv_def in_step_def all_queued_def split: if_splits)
  then show ?thesis using s1(1) b(1) by (simp add: run_dequeue_task_dl_def)
qed

text \<open>The task that is picked.\<close>

definition picked_earliest :: "nat \<Rightarrow> thr_state \<Rightarrow> bool" where
  "picked_earliest cpu s \<longleftrightarrow> (case bl_curr (thr_bal s) cpu of
     None \<Rightarrow> queued (bl_sys (thr_bal s)) cpu = {}
   | Some p \<Rightarrow> p \<in> queued (bl_sys (thr_bal s)) cpu \<and> \<not> dl_throttled (thr_ent s (n_task p)) \<and>
       (\<forall>n \<in> queued (bl_sys (thr_bal s)) cpu. se_deadline (thr_ent s (n_task p)) \<le> se_deadline (thr_ent s (n_task n))))"

lemma run_schedule_ok:
  assumes tp: "tp_ok tp" and inv: "thr_inv tp s" and cpu: "cpu < tp_nr tp" and fit: "curr_fits (update_curr_dl to_us clock delta active None) cpu s"
  shows "\<exists>s'. run_schedule to_us tp clock delta active cpu s = Some (Returns s') \<and> thr_inv tp s' \<and> picked_earliest cpu s'"
proof -
  obtain s1 where s1: "run_update_curr_dl to_us tp clock delta active cpu s = Some (Returns s1)" "thr_inv tp s1"
    using run_update_curr_inv [OF tp inv cpu fit] by blast
  then have i: "bal_inv tp (thr_bal s1)" by (simp add: thr_inv_def)
  let ?ns = "nodes (bl_rq (thr_bal s1) cpu)"
  from bal_schedule_ok [OF tp i cpu] obtain b where b: "bal_schedule tp cpu (thr_bal s1) = Returns b" "bal_inv tp b" "bl_sys b = bl_sys (thr_bal s1)"
      "bl_curr b = (bl_curr (thr_bal s1))(cpu := first ?ns)"
    by blast
  have t: "thr_inv tp (set_bal b s1)" using s1(2) b(2,3) by (simp add: thr_inv_def in_step_def)
  have q: "queued (bl_sys b) cpu = set ?ns" using bal_invD(2) [OF i cpu] by (simp add: b(3))
  have step: "\<not> dl_throttled (thr_ent s1 (n_task n)) \<and> n_dl n = se_deadline (thr_ent s1 (n_task n))" if "n \<in> set ?ns" for n
    using t that q cpu by (auto simp: thr_inv_def in_step_def all_queued_def simp del: set_inorder)
  have "picked_earliest cpu (set_bal b s1)"
  proof (cases "first ?ns")
    case None
    then have "?ns = []" by (cases ?ns) (auto simp: first_def)
    then show ?thesis using None q b(4) by (simp add: picked_earliest_def del: set_inorder)
  next
    case (Some p)
    have "n_dl p \<le> n_dl n" if "n \<in> set ?ns" for n
      using first_earliest [OF rq_okD(1) [OF bal_invD(1) [OF i cpu]] Some that] .
    then show ?thesis using Some q b(4) step first_Some [OF Some] by (simp add: picked_earliest_def del: set_inorder)
  qed
  then show ?thesis using s1(1) b(1) t by (simp add: run_schedule_def)
qed

lemma yield_start:
  assumes inv: "thr_inv tp s" and fit: "curr_fits (yield_task_dl to_us clock delta active None) cpu s" and c: "bl_curr (thr_bal s) cpu = Some c"
  defines "e \<equiv> thr_ent s (n_task c)"
  defines "s0 \<equiv> if 0 < sint (se_runtime e) then set_ent (n_task c) (e\<lparr>dl_new := True, se_runtime := 0\<rparr>) s else s"
  shows "thr_inv tp s0" and "curr_fits (update_curr_dl to_us clock delta active None) cpu s0"
    and "run_yield_task_dl to_us tp clock delta active cpu s = run_update_curr_dl to_us tp clock delta active cpu s0"
proof -
  show "thr_inv tp s0" using inv set_ent_inv [OF inv, of "e\<lparr>dl_new := True, se_runtime := 0\<rparr>" "n_task c"] by (simp add: s0_def e_def)
  show "curr_fits (update_curr_dl to_us clock delta active None) cpu s0"
    using fit c by (simp add: s0_def e_def curr_fits_def yield_task_dl_def split: if_splits)
  show "run_yield_task_dl to_us tp clock delta active cpu s = run_update_curr_dl to_us tp clock delta active cpu s0"
    using c unfolding run_yield_task_dl_def Let_def s0_def e_def by simp
qed

lemma run_yield_ok:
  assumes tp: "tp_ok tp" and inv: "thr_inv tp s" and cpu: "cpu < tp_nr tp" and fit: "curr_fits (yield_task_dl to_us clock delta active None) cpu s"
  shows "\<exists>s'. run_yield_task_dl to_us tp clock delta active cpu s = Some (Returns s') \<and> thr_inv tp s'"
proof (cases "bl_curr (thr_bal s) cpu")
  case None
  then show ?thesis using inv by (simp add: run_yield_task_dl_def)
next
  case (Some c)
  then show ?thesis
    using run_update_curr_inv [OF tp yield_start(1) [OF inv fit Some] cpu yield_start(2) [OF inv fit Some]] by (simp add: yield_start(3) [OF inv fit Some])
qed

text \<open>What each event promises beyond the consistency.\<close>

definition thr_promise :: "dl_topo \<Rightarrow> thr_event \<Rightarrow> thr_state \<Rightarrow> thr_state \<Rightarrow> bool" where
  "thr_promise tp e s s' \<longleftrightarrow> (case e of
     ReschedEvent clock delta active cpu \<Rightarrow> picked_earliest cpu s'
   | TimerEvent here clock cpu p on_rq \<Rightarrow> on_rq \<and> \<not> dl_new (thr_ent s (n_task p)) \<longrightarrow>
       0 < sint (se_runtime (thr_ent s' (n_task p))) \<and> n_task p \<in> n_task ` all_queued tp (queued (bl_sys (thr_bal s')))
   | _ \<Rightarrow> True)"

lemma timer_gives_budget:
  assumes "0 < sint (dl_runtime d)" and "\<not> dl_new d" and "dl_task_timer clock True None d = Some (Returns d')"
  shows "0 < sint (se_runtime d')"
  using enqueue_returns [of "d\<lparr>dl_throttled := False\<rparr>" clock True] assms by (auto simp: dl_task_timer_def)

lemma thr_step_ok:
  assumes tp: "tp_ok tp" and inv: "thr_inv tp s" and e: "thr_event_ok to_us tp e s"
  shows "\<exists>s'. thr_step to_us tp e s = Some (Returns s') \<and> thr_inv tp s' \<and> thr_promise tp e s s'"
proof (cases e)
  case (TickEvent clock delta active cpu p enabled from_hrtick)
  then show ?thesis using run_update_curr_inv [OF tp inv, of cpu to_us clock delta active] e
    by (auto simp: run_task_tick_dl_def thr_promise_def Let_def)
next
  case (TimerEvent here clock cpu p on_rq)
  then have ok: "cpu \<in> tp_allowed tp (n_task p)" "on_rq \<Longrightarrow> dl_throttled (thr_ent s (n_task p))"
      "\<And>c. c < tp_nr tp \<Longrightarrow> c \<noteq> cpu \<Longrightarrow> \<not> is_curr (bl_curr (thr_bal s) c) p" "proper (dl_task_timer clock on_rq None (thr_ent s (n_task p)))"
    using e by auto
  have r: "0 < sint (dl_runtime (thr_ent s (n_task p)))" using inv by (simp add: thr_inv_def)
  show ?thesis
  proof (rule run_timer_ok [OF tp inv ok, of here])
    fix s' assume s': "run_dl_task_timer tp here clock cpu p on_rq s = Some (Returns s')" "thr_inv tp s'"
      "dl_task_timer clock on_rq None (thr_ent s (n_task p)) = Some (Returns (thr_ent s' (n_task p)))"
      and q: "\<not> dl_new (thr_ent s (n_task p)) \<Longrightarrow> on_rq \<Longrightarrow> all_queued tp (queued (bl_sys (thr_bal s'))) =
        insert (p\<lparr>n_dl := se_deadline (thr_ent s' (n_task p))\<rparr>) (all_queued tp (queued (bl_sys (thr_bal s)))) \<and>
        thr_nr s' = (thr_nr s)(cpu := thr_nr s cpu + 1)"
    have "thr_promise tp e s s'" using s'(3) q timer_gives_budget [OF r] by (auto simp: thr_promise_def TimerEvent)
    then show ?thesis using s'(1,2) by (simp add: TimerEvent)
  qed
next
  case (WakeEvent clock cpu p)
  show ?thesis
  proof (cases "dl_throttled (thr_ent s (n_task p))")
    case True
    then have "run_enqueue_task_dl tp clock cpu p False s = Some (Returns s)"
      by (simp add: run_enqueue_task_dl_def enqueue_task_dl_def)
    then show ?thesis using inv by (simp add: WakeEvent thr_promise_def)
  next
    case False
    then show ?thesis using run_enqueue_ok [OF tp inv, of cpu p clock False] e by (auto simp: WakeEvent thr_promise_def)
  qed
next
  case (BlockEvent clock delta active cpu p)
  then show ?thesis using run_dequeue_ok [OF tp inv, of cpu to_us clock delta active p] e by (simp add: thr_promise_def)
next
  case (ReschedEvent clock delta active cpu)
  then show ?thesis using run_schedule_ok [OF tp inv, of cpu to_us clock delta active] e by (simp add: thr_promise_def)
next
  case (YieldEvent clock delta active cpu)
  then show ?thesis using run_yield_ok [OF tp inv, of cpu to_us clock delta active] e by (simp add: thr_promise_def)
qed

lemma thr_reach_inv:
  assumes "tp_ok tp" and "thr_reach to_us tp s"
  shows "thr_inv tp s"
  using assms(2)
proof (induction rule: thr_reach.induct)
  case (start ent nr)
  have "all_queued tp (queued (bl_sys (bal_init (tp_nr tp)))) = {}" by (simp add: all_queued_def bal_init_def sys_init_inv(2))
  then show ?case using start bal_init_inv by (simp add: thr_inv_def in_step_def)
next
  case (step s e s')
  then show ?case using thr_step_ok [OF assms(1) step.IH step.hyps(2)] by auto
qed


text \<open>Two processors, and tasks with the parameters of the test program; the first wakes up.\<close>

definition test_entity :: sched_dl_entity where
  "test_entity = \<lparr>dl_runtime = 10000000, dl_deadline = 30000000, dl_period = 30000000, se_bw = 349525, se_runtime = 0,
     se_deadline = 0, se_flags = 0, dl_throttled = False, dl_new = True, dl_boosted = False\<rparr>"

definition test_start :: thr_state where
  "test_start = \<lparr>thr_ent = (\<lambda>_. test_entity), thr_bal = bal_init (tp_nr two_cpus), thr_nr = (\<lambda>_. 0)\<rparr>"

lemma test_awake:
  obtains s where "thr_reach to_us two_cpus s" and "queued (bl_sys (thr_bal s)) = (\<lambda>_. {})(0 := {some_task 2 31000000})" and "bl_curr (thr_bal s) 0 = None"
    and "thr_ent s 2 = test_entity\<lparr>se_deadline := 31000000, se_runtime := 10000000, dl_new := False\<rparr>"
proof -
  have r: "thr_reach to_us two_cpus test_start" unfolding test_start_def by (rule thr_reach.start) (simp add: test_entity_def)
  have e: "enqueue_task_dl 1000000 None test_entity False = Some (Returns (test_entity\<lparr>se_deadline := 31000000, se_runtime := 10000000, dl_new := False\<rparr>))"
    by code_simp
  have s: "thr_ent test_start 2 = test_entity" "thr_bal test_start = bal_init (tp_nr two_cpus)" by (simp_all add: test_start_def)
  have q: "queued (bl_sys (bal_init (tp_nr two_cpus))) = (\<lambda>_. {})" "bl_curr (bal_init (tp_nr two_cpus)) = (\<lambda>_. None)"
    by (simp_all add: bal_init_def sys_init_inv(2))
  have t: "n_task (some_task 2 0) = 2" "some_task 2 0\<lparr>n_dl := 31000000\<rparr> = some_task 2 31000000" by (simp_all add: some_task_def)
  have nt: "\<not> dl_throttled test_entity" by (simp add: test_entity_def)
  have ok: "thr_event_ok to_us two_cpus (WakeEvent 1000000 0 (some_task 2 0)) test_start"
    by (simp add: two_cpus_ok(3) t s e proper_def nowhere_but_def q is_curr_def)
  obtain s1 where s1: "run_enqueue_task_dl two_cpus 1000000 0 (some_task 2 0) False test_start = Some (Returns s1)"
      "queued (bl_sys (thr_bal s1)) = (\<lambda>_. {})(0 := {some_task 2 31000000})"
      "map_option n_task (bl_curr (thr_bal s1) 0) = None"
      "thr_ent s1 2 = test_entity\<lparr>se_deadline := 31000000, se_runtime := 10000000, dl_new := False\<rparr>"
    using run_enqueue_ok [OF two_cpus_ok(1) thr_reach_inv [OF two_cpus_ok(1) r], of 0 "some_task 2 0" 1000000 False] ok
      nt by (auto simp: t s e q)
  then show thesis by (intro that [of s1] thr_reach.step [OF r ok]) simp_all
qed


section \<open>Two faults\<close>

text \<open>
  A task that is throttled and comes back through its timer is counted again in \<^verbatim>\<open>nr_running\<close>: taking it
  off goes through \<^verbatim>\<open>__dequeue_task_dl\<close>, which does not count it out.
\<close>

lemma nr_running_grows:
  assumes tp: "tp_ok tp" and inv: "thr_inv tp s" and cpu: "cpu < tp_nr tp" and c: "bl_curr (thr_bal s) cpu = Some c" "c \<in> queued (bl_sys (thr_bal s)) cpu"
    and gone: "update_curr_dl to_us clock delta active None (thr_ent s (n_task c)) = Some (Returns d)" "dl_throttled d" "\<not> dl_new d" "proper (Some (Returns d))"
    and fit: "proper (dl_task_timer clock' True None d)"
  shows "\<exists>s1 s2. run_update_curr_dl to_us tp clock delta active cpu s = Some (Returns s1) \<and>
    run_dl_task_timer tp here clock' cpu c True s1 = Some (Returns s2) \<and> thr_nr s2 = (thr_nr s)(cpu := thr_nr s cpu + 1) \<and>
    n_task ` all_queued tp (queued (bl_sys (thr_bal s2))) = n_task ` all_queued tp (queued (bl_sys (thr_bal s)))"
proof (rule run_update_curr_ok [OF tp inv cpu, of to_us clock delta active])
  fix x assume "bl_curr (thr_bal s) cpu = Some x"
  then show "proper (update_curr_dl to_us clock delta active None (thr_ent s (n_task x)))" using gone(1,4) c(1) by simp
next
  fix s1
  assume s1: "run_update_curr_dl to_us tp clock delta active cpu s = Some (Returns s1)" "thr_inv tp s1"
    and up: "\<And>c. bl_curr (thr_bal s) cpu = Some c \<Longrightarrow> c \<in> queued (bl_sys (thr_bal s)) cpu \<Longrightarrow>
      update_curr_dl to_us clock delta active None (thr_ent s (n_task c)) = Some (Returns (thr_ent s1 (n_task c)))"
    and same: "\<And>c. map_option n_task (bl_curr (thr_bal s1) c) = map_option n_task (bl_curr (thr_bal s) c)"
    and off: "\<And>c. bl_curr (thr_bal s) cpu = Some c \<Longrightarrow> c \<in> queued (bl_sys (thr_bal s)) cpu \<Longrightarrow> dl_throttled (thr_ent s1 (n_task c)) \<Longrightarrow>
      thr_nr s1 = thr_nr s \<and> queued (bl_sys (thr_bal s1)) =
        (queued (bl_sys (thr_bal s)))(cpu := {n \<in> queued (bl_sys (thr_bal s)) cpu. n_task n \<noteq> n_task c})"
  have d: "thr_ent s1 (n_task c) = d" using up [OF c] gone(1) by simp
  have t: "tasks_ok tp (queued (bl_sys (thr_bal s))) (bl_curr (thr_bal s))" using inv by (simp add: thr_inv_def bal_inv_def)
  have own: "\<not> is_curr (bl_curr (thr_bal s1) k) c" if "k < tp_nr tp" "k \<noteq> cpu" for k
  proof -
    have "\<not> is_curr (bl_curr (thr_bal s) k) c" using t c(2) cpu that by (simp add: tasks_ok_def)
    then show ?thesis using same [of k] by (simp add: is_curr_name)
  qed
  have "cpu \<in> tp_allowed tp (n_task c)" using t c(2) cpu by (simp add: tasks_ok_def)
  then obtain s2 where s2: "run_dl_task_timer tp here clock' cpu c True s1 = Some (Returns s2)"
      "all_queued tp (queued (bl_sys (thr_bal s2))) = insert (c\<lparr>n_dl := se_deadline (thr_ent s2 (n_task c))\<rparr>) (all_queued tp (queued (bl_sys (thr_bal s1))))"
      "thr_nr s2 = (thr_nr s1)(cpu := thr_nr s1 cpu + 1)"
    using run_timer_ok [OF tp s1(2), of cpu c True clock' here] gone(2,3) own fit unfolding d by metis
  have "n_task ` all_queued tp (queued (bl_sys (thr_bal s2))) = n_task ` all_queued tp (queued (bl_sys (thr_bal s)))"
    using off [OF c] gone(2) c(2) cpu unfolding s2(2) by (auto simp: d all_queued_def image_iff split: if_splits)
  then show ?thesis using s1(1) s2(1,3) off [OF c] gone(2) d by auto
qed

text \<open>
  \<^verbatim>\<open>rt_mutex_setprio\<close> clears the throttled bit of a task it boosts and puts it back on its queue, but leaves the
  timer running; when that expires the task is queued already, and the assertion of \<^verbatim>\<open>enqueue_dl_entity\<close> fails.
\<close>

lemma timer_of_queued_task_faults:
  assumes tp: "tp_ok tp" and inv: "thr_inv tp s" and cpu: "cpu < tp_nr tp" and p: "n_task p \<in> n_task ` queued (bl_sys (thr_bal s)) cpu"
    and new: "\<not> dl_new (thr_ent s (n_task p))"
  shows "run_dl_task_timer tp here clock cpu p True s = Some Fault"
proof -
  let ?d = "thr_ent s (n_task p)\<lparr>dl_throttled := False\<rparr>"
  have i: "bal_inv tp (thr_bal s)" and r: "0 < sint (dl_runtime ?d)" using inv by (simp_all add: thr_inv_def)
  obtain d where d: "enqueue_task_dl clock None ?d True = Some (Returns d)" using enqueue_returns [OF r] by blast
  obtain m where "on_dl_rq (n_task p) (bl_rq (thr_bal s) cpu) = Some m"
    using p on_dl_rq_None [of "n_task p" "bl_rq (thr_bal s) cpu"] unfolding bal_invD(2) [OF i cpu] by blast
  then have "bal_enqueue_task tp cpu (p\<lparr>n_dl := se_deadline d\<rparr>) (thr_bal s) = Fault"
    by (simp add: bal_enqueue_task_def bl_step_def sys_put_def enqueue_entity_def bl_rq_def)
  then show ?thesis using new d by (simp add: run_dl_task_timer_def run_enqueue_task_dl_def)
qed

end
