(* ===== verification/Deadline_System.thy ===== *)
theory Deadline_System
  imports Deadline_Budget Deadline_Throttle
begin

text \<open>
  A task in the running system of \<open>Deadline_Throttle\<close>, on any processors and among any other tasks, seen from its
  entity: what happens to it is a sequence of the events of \<open>Deadline_Budget\<close>, so that the temporal isolation shown
  there holds in the system.
\<close>

section \<open>What a task sees\<close>

text \<open>The task is current and queued on a processor, so that it is charged there.\<close>

definition charged_here :: "nat \<Rightarrow> nat \<Rightarrow> thr_state \<Rightarrow> bool" where
  "charged_here t cpu s \<longleftrightarrow> (case bl_curr (thr_bal s) cpu of None \<Rightarrow> False | Some c \<Rightarrow> n_task c = t \<and> c \<in> queued (bl_sys (thr_bal s)) cpu)"

fun event_for :: "nat \<Rightarrow> thr_event \<Rightarrow> thr_state \<Rightarrow> budget_event option" where
  "event_for t (TickEvent clock delta active cpu p enabled from_hrtick) s = (if charged_here t cpu s then Some (Charged clock delta active) else None)"
| "event_for t (TimerEvent here clock cpu p on_rq) s = (if n_task p = t then Some (TimerFired clock on_rq) else None)"
| "event_for t (WakeEvent clock cpu p) s = (if n_task p = t then Some (WokenUp clock) else None)"
| "event_for t (BlockEvent clock delta active cpu p) s = (if charged_here t cpu s then Some (Charged clock delta active) else None)"
| "event_for t (ReschedEvent clock delta active cpu) s = (if charged_here t cpu s then Some (Charged clock delta active) else None)"
| "event_for t (YieldEvent clock delta active cpu) s = None"

text \<open>The task itself does not yield.\<close>

fun not_yielding :: "nat \<Rightarrow> thr_event \<Rightarrow> thr_state \<Rightarrow> bool" where
  "not_yielding t (YieldEvent clock delta active cpu) s \<longleftrightarrow> (case bl_curr (thr_bal s) cpu of None \<Rightarrow> True | Some c \<Rightarrow> n_task c \<noteq> t)"
| "not_yielding t _ s \<longleftrightarrow> True"

fun thr_run :: "(int \<Rightarrow> int) \<Rightarrow> dl_topo \<Rightarrow> thr_event list \<Rightarrow> thr_state \<Rightarrow> thr_state option" where
  "thr_run to_us tp [] s = Some s"
| "thr_run to_us tp (e # es) s = (case thr_step to_us tp e s of Some (Returns s1) \<Rightarrow> thr_run to_us tp es s1 | _ \<Rightarrow> None)"

fun thr_events_ok :: "(int \<Rightarrow> int) \<Rightarrow> dl_topo \<Rightarrow> nat \<Rightarrow> thr_event list \<Rightarrow> thr_state \<Rightarrow> bool" where
  "thr_events_ok to_us tp t [] s = True"
| "thr_events_ok to_us tp t (e # es) s = (thr_event_ok to_us tp e s \<and> not_yielding t e s \<and>
     (case thr_step to_us tp e s of Some (Returns s1) \<Rightarrow> thr_events_ok to_us tp t es s1 | _ \<Rightarrow> True))"

fun task_view :: "(int \<Rightarrow> int) \<Rightarrow> dl_topo \<Rightarrow> nat \<Rightarrow> thr_event list \<Rightarrow> thr_state \<Rightarrow> budget_event list" where
  "task_view to_us tp t [] s = []"
| "task_view to_us tp t (e # es) s = (case event_for t e s of None \<Rightarrow> [] | Some b \<Rightarrow> [b]) @
     (case thr_step to_us tp e s of Some (Returns s1) \<Rightarrow> task_view to_us tp t es s1 | _ \<Rightarrow> [])"

section \<open>One step\<close>

lemma charge_view:
  assumes tp: "tp_ok tp" and inv: "thr_inv tp s" and cpu: "cpu < tp_nr tp"
    and fit: "curr_fits (update_curr_dl to_us clock delta active None) cpu s"
    and run: "run_update_curr_dl to_us tp clock delta active cpu s = Some (Returns s')"
  shows "if charged_here t cpu s then budget_exec to_us (Charged clock delta active) (thr_ent s t) = Some (thr_ent s' t)
    else thr_ent s' t = thr_ent s t"
proof (rule run_update_curr_ok [OF tp inv cpu curr_fitsD [OF fit]])
  fix s1
  assume "run_update_curr_dl to_us tp clock delta active cpu s = Some (Returns s1)"
    and up: "\<And>c. bl_curr (thr_bal s) cpu = Some c \<Longrightarrow> c \<in> queued (bl_sys (thr_bal s)) cpu \<Longrightarrow>
      update_curr_dl to_us clock delta active None (thr_ent s (n_task c)) = Some (Returns (thr_ent s1 (n_task c)))"
    and other: "\<And>t. (\<forall>c. bl_curr (thr_bal s) cpu = Some c \<longrightarrow> c \<in> queued (bl_sys (thr_bal s)) cpu \<longrightarrow> n_task c \<noteq> t) \<Longrightarrow> thr_ent s1 t = thr_ent s t"
  then have [simp]: "s1 = s'" using run by simp
  show ?thesis
  proof (cases "charged_here t cpu s")
    case True
    then obtain c where "bl_curr (thr_bal s) cpu = Some c" "n_task c = t" "c \<in> queued (bl_sys (thr_bal s)) cpu"
      by (auto simp: charged_here_def split: option.splits)
    then show ?thesis using up True by (auto simp: budget_exec_def dl_returned_def)
  next
    case False
    then have "\<forall>c. bl_curr (thr_bal s) cpu = Some c \<longrightarrow> c \<in> queued (bl_sys (thr_bal s)) cpu \<longrightarrow> n_task c \<noteq> t"
      by (auto simp: charged_here_def)
    then show ?thesis using other [of t] False by simp
  qed
qed

lemma charging_events:
  "run_dequeue_task_dl to_us tp clock delta active cpu p s = Some (Returns s') \<Longrightarrow>
    \<exists>s1. run_update_curr_dl to_us tp clock delta active cpu s = Some (Returns s1) \<and> thr_ent s' = thr_ent s1"
  "run_schedule to_us tp clock delta active cpu s = Some (Returns s') \<Longrightarrow>
    \<exists>s1. run_update_curr_dl to_us tp clock delta active cpu s = Some (Returns s1) \<and> thr_ent s' = thr_ent s1"
  by (auto simp: run_dequeue_task_dl_def run_schedule_def split: option.splits outcome.splits)

lemma yield_view:
  assumes tp: "tp_ok tp" and inv: "thr_inv tp s" and cpu: "cpu < tp_nr tp"
    and fit: "curr_fits (yield_task_dl to_us clock delta active None) cpu s" and not: "not_yielding t (YieldEvent clock delta active cpu) s"
    and run: "run_yield_task_dl to_us tp clock delta active cpu s = Some (Returns s')"
  shows "thr_ent s' t = thr_ent s t"
proof (cases "bl_curr (thr_bal s) cpu")
  case None
  then show ?thesis using run by (simp add: run_yield_task_dl_def)
next
  case (Some c)
  let ?e = "thr_ent s (n_task c)"
  let ?s = "if 0 < sint (se_runtime ?e) then set_ent (n_task c) (?e\<lparr>dl_new := True, se_runtime := 0\<rparr>) s else s"
  note y = yield_start [OF inv fit Some]
  have n: "n_task c \<noteq> t" using not Some by simp
  have "\<not> charged_here t cpu ?s" using Some n by (simp add: charged_here_def)
  then have "thr_ent s' t = thr_ent ?s t" using charge_view [OF tp y(1) cpu y(2), of s' t] run unfolding y(3) by simp
  then show ?thesis using n by simp
qed

lemma step_view:
  assumes tp: "tp_ok tp" and inv: "thr_inv tp s" and ok: "thr_event_ok to_us tp e s" "not_yielding t e s"
    and run: "thr_step to_us tp e s = Some (Returns s')"
  shows "case event_for t e s of None \<Rightarrow> thr_ent s' t = thr_ent s t | Some b \<Rightarrow> budget_exec to_us b (thr_ent s t) = Some (thr_ent s' t)"
proof (cases e)
  case (TickEvent clock delta active cpu p enabled from_hrtick)
  then have "run_update_curr_dl to_us tp clock delta active cpu s = Some (Returns s')"
    using run by (auto simp: run_task_tick_dl_def Let_def split: option.splits outcome.splits)
  then show ?thesis using charge_view [OF tp inv, of cpu to_us clock delta active s' t] ok(1) TickEvent by (simp split: if_splits)
next
  case (TimerEvent here clock cpu p on_rq)
  then have k: "cpu \<in> tp_allowed tp (n_task p)" "on_rq \<Longrightarrow> dl_throttled (thr_ent s (n_task p))"
      "\<And>c. c < tp_nr tp \<Longrightarrow> c \<noteq> cpu \<Longrightarrow> \<not> is_curr (bl_curr (thr_bal s) c) p" "proper (dl_task_timer clock on_rq None (thr_ent s (n_task p)))"
    using ok by auto
  show ?thesis
  proof (rule run_timer_ok [OF tp inv k, of here])
    fix s1 assume s1: "run_dl_task_timer tp here clock cpu p on_rq s = Some (Returns s1)"
        "dl_task_timer clock on_rq None (thr_ent s (n_task p)) = Some (Returns (thr_ent s1 (n_task p)))"
        "\<And>t. t \<noteq> n_task p \<Longrightarrow> thr_ent s1 t = thr_ent s t"
    then have "s1 = s'" using run TimerEvent by simp
    then show ?thesis using s1(2,3) TimerEvent by (auto simp: budget_exec_def dl_returned_def)
  qed
next
  case (WakeEvent clock cpu p)
  show ?thesis
  proof (cases "dl_throttled (thr_ent s (n_task p))")
    case True
    then show ?thesis using run by (auto simp: WakeEvent run_enqueue_task_dl_def enqueue_task_dl_def budget_exec_def dl_returned_def)
  next
    case False
    then show ?thesis using run_enqueue_ok [OF tp inv, of cpu p clock False] ok run
      by (auto simp: WakeEvent budget_exec_def dl_returned_def)
  qed
next
  case (BlockEvent clock delta active cpu p)
  then obtain s1 where "run_update_curr_dl to_us tp clock delta active cpu s = Some (Returns s1)" "thr_ent s' = thr_ent s1"
    using run charging_events(1) [of to_us tp clock delta active cpu p s s'] by auto
  then show ?thesis using charge_view [OF tp inv, of cpu to_us clock delta active s1 t] ok(1) BlockEvent by (simp split: if_splits)
next
  case (ReschedEvent clock delta active cpu)
  then obtain s1 where "run_update_curr_dl to_us tp clock delta active cpu s = Some (Returns s1)" "thr_ent s' = thr_ent s1"
    using run charging_events(2) [of to_us tp clock delta active cpu s s'] by auto
  then show ?thesis using charge_view [OF tp inv, of cpu to_us clock delta active s1 t] ok(1) ReschedEvent by (simp split: if_splits)
next
  case (YieldEvent clock delta active cpu)
  then show ?thesis using yield_view [OF tp inv, of cpu to_us clock delta active t s'] ok run by simp
qed

section \<open>Isolation in the system\<close>

lemma run_view:
  assumes tp: "tp_ok tp" and "thr_inv tp s" and "thr_events_ok to_us tp t es s"
  shows "\<exists>s' u g. thr_run to_us tp es s = Some s' \<and> thr_inv tp s' \<and>
      pay_run (budget_exec to_us) event_time event_gift (task_view to_us tp t es s) (thr_ent s t) = Some (thr_ent s' t, u, g)"
  using assms(2,3)
proof (induction es arbitrary: s)
  case (Cons e es)
  then have ok: "thr_event_ok to_us tp e s" "not_yielding t e s" by simp_all
  obtain s1 where s1: "thr_step to_us tp e s = Some (Returns s1)" "thr_inv tp s1" using thr_step_ok [OF tp Cons.prems(1) ok(1)] by blast
  obtain s' u g where r: "thr_run to_us tp es s1 = Some s'" "thr_inv tp s'"
      "pay_run (budget_exec to_us) event_time event_gift (task_view to_us tp t es s1) (thr_ent s1 t) = Some (thr_ent s' t, u, g)"
    using Cons.IH [OF s1(2)] Cons.prems(2) s1(1) by auto
  show ?case using step_view [OF tp Cons.prems(1) ok s1(1)] r s1 by (cases "event_for t e s") auto
qed simp

lemma pay_run_used: "pay_run exec used allowance es s = Some (s', u, a) \<Longrightarrow> u = sum_list (map used es)"
  by (induction es arbitrary: s u a) (auto split: option.splits)


text \<open>The task that woke up on the first of two processors runs there; a tick after 4 ms charges it.\<close>

lemma test_running:
  obtains s where "thr_reach (\<lambda>x. x div 1000) two_cpus s" and "bl_curr (thr_bal s) 0 = Some (some_task 2 31000000)"
    and "some_task 2 31000000 \<in> queued (bl_sys (thr_bal s)) 0"
    and "thr_ent s 2 = test_entity\<lparr>se_deadline := 31000000, se_runtime := 10000000, dl_new := False\<rparr>"
proof -
  let ?f = "\<lambda>x :: int. x div 1000"
  obtain s where s: "thr_reach ?f two_cpus s" "queued (bl_sys (thr_bal s)) = (\<lambda>_. {})(0 := {some_task 2 31000000})" "bl_curr (thr_bal s) 0 = None"
      "thr_ent s 2 = test_entity\<lparr>se_deadline := 31000000, se_runtime := 10000000, dl_new := False\<rparr>"
    by (rule test_awake)
  let ?e = "ReschedEvent 1000000 0 True 0"
  have ok: "thr_event_ok ?f two_cpus ?e s" by (simp add: two_cpus_ok(2) curr_fits_def s(3))
  have i: "bal_inv two_cpus (thr_bal s)" using thr_reach_inv [OF two_cpus_ok(1) s(1)] by (simp add: thr_inv_def)
  have c: "(0::nat) < tp_nr two_cpus" by (simp add: two_cpus_ok(2))
  let ?ns = "nodes (bl_rq (thr_bal s) 0)"
  obtain b where b: "bal_schedule two_cpus 0 (thr_bal s) = Returns b" "bl_sys b = bl_sys (thr_bal s)" "bl_curr b = (bl_curr (thr_bal s))(0 := first ?ns)"
    using bal_schedule_ok [OF two_cpus_ok(1) i c] by blast
  have q: "set ?ns = {some_task 2 31000000}" using bal_invD(2) [OF i c] s(2) by (simp del: set_inorder)
  then have "first ?ns = Some (some_task 2 31000000)" by (cases ?ns) (auto simp: first_def simp del: set_inorder)
  moreover have "thr_step ?f two_cpus ?e s = Some (Returns (set_bal b s))" by (simp add: run_schedule_def run_update_curr_dl_def s(3) b(1))
  ultimately show thesis using that [of "set_bal b s"] thr_reach.step [OF s(1) ok] b s(2,4) by simp
qed


end
