(* ===== verification/Deadline_Inherit.thy ===== *)
theory Deadline_Inherit
  imports Cpu_Deadline Product_Tree
begin

text \<open>
  Deadline inheritance through mutexes (\<^verbatim>\<open>kernel/rtmutex.c\<close>, \<^verbatim>\<open>kernel/rtmutex_common.h\<close>,
  \<^verbatim>\<open>include/linux/sched/deadline.h\<close> and \<^verbatim>\<open>rt_mutex_setprio\<close> of \<^verbatim>\<open>kernel/sched/core.c\<close> in
  \<^verbatim>\<open>sched-dl/patch-dl/sched-add-sched_dl.patch\<close>): the tasks that wait for a mutex, and the top waiters of all
  mutexes a task holds, are in trees ordered by priority and, among deadline tasks, by deadline; the
  first of them lends its priority and its deadline to the owner. The patch shows the functions that are new
  and hunks of those it changes; only what it shows is modelled. A waiter is known by its task. The
  rebalancing of the trees is the kernel's, as in \<open>Product_Tree\<close>.

  The locale \<open>urgency_queue\<close> is what the inheritance needs of such a tree. Shown: the trees have this contract
  while no waiter's priority changes, and the owner then runs with the highest priority and the
  earliest deadline of its waiters, and is boosted exactly when it should be. Also shown: a priority
  that changes while a task waits is not noticed, because the waiter keeps no copy of it.
\<close>

section \<open>Tasks and waiters\<close>

datatype sched_class = dl_sched_class | rt_sched_class | fair_sched_class

datatype enqueue_flag = NO_FLAG | ENQUEUE_REPLENISH | ENQUEUE_HEAD

record rt_task =
  tk_prio :: int
  tk_normal_prio :: int
  tk_deadline :: u64
  tk_boosted :: bool
  tk_throttled :: bool
  tk_class :: sched_class
  tk_pi_top :: "nat option"      \<comment> \<open>\<^verbatim>\<open>pi_top_task\<close>\<close>

type_synonym rt_tasks = "nat \<Rightarrow> rt_task"

text \<open>\<^verbatim>\<open>waiters\<close> and \<^verbatim>\<open>waiters_leftmost\<close> of a mutex, or \<^verbatim>\<open>pi_waiters\<close> and \<^verbatim>\<open>pi_waiters_leftmost\<close> of a task.\<close>

record waiter_tree =
  wt_root :: "nat tree"
  wt_leftmost :: "nat option"

definition no_waiters :: waiter_tree where
  "no_waiters = \<lparr>wt_root = Leaf, wt_leftmost = None\<rparr>"

definition MAX_DL_PRIO :: int where
  "MAX_DL_PRIO = 0"

definition dl_prio :: "int \<Rightarrow> bool" where
  "dl_prio prio \<longleftrightarrow> prio < MAX_DL_PRIO"

text \<open>\<open>max_rt\<close> is the kernel's \<^verbatim>\<open>MAX_RT_PRIO\<close>; the comparison is one of unsigned numbers.\<close>

definition rt_prio :: "u32 \<Rightarrow> int \<Rightarrow> bool" where
  "rt_prio max_rt prio \<longleftrightarrow> word_of_int prio < max_rt"

definition rt_mutex_waiter_less :: "rt_tasks \<Rightarrow> nat \<Rightarrow> nat \<Rightarrow> bool" where
  "rt_mutex_waiter_less T lw rw =
     (if tk_prio (T lw) < tk_prio (T rw) then True
      else if dl_prio (tk_prio (T lw)) \<and> dl_prio (tk_prio (T rw)) then tk_deadline (T lw) < tk_deadline (T rw)
      else False)"

section \<open>The trees\<close>

fun waiter_descend :: "rt_tasks \<Rightarrow> nat \<Rightarrow> nat tree \<Rightarrow> bool \<Rightarrow> nat tree \<times> bool" where
  "waiter_descend T w Leaf lm = (Node Leaf w Leaf, lm)"
| "waiter_descend T w (Node l e r) lm =
     (if rt_mutex_waiter_less T w e
      then (case waiter_descend T w l lm of (l', lm') \<Rightarrow> (Node l' e r, lm'))
      else (case waiter_descend T w r False of (r', lm') \<Rightarrow> (Node l e r', lm')))"

definition rt_mutex_enqueue :: "(nat tree \<Rightarrow> nat tree) \<Rightarrow> rt_tasks \<Rightarrow> nat \<Rightarrow> waiter_tree \<Rightarrow> waiter_tree" where
  "rt_mutex_enqueue insert_color T w q =
     (case waiter_descend T w (wt_root q) True of (t, leftmost) \<Rightarrow>
        \<lparr>wt_root = insert_color t, wt_leftmost = (if leftmost then Some w else wt_leftmost q)\<rparr>)"

definition rt_mutex_dequeue :: "(nat \<Rightarrow> nat tree \<Rightarrow> nat tree) \<Rightarrow> nat \<Rightarrow> waiter_tree \<Rightarrow> waiter_tree" where
  "rt_mutex_dequeue erase w q =
     (if w \<notin> set (inorder (wt_root q)) then q
      else \<lparr>wt_root = erase w (wt_root q),
            wt_leftmost = (if wt_leftmost q = Some w then succ_in w (inorder (wt_root q)) else wt_leftmost q)\<rparr>)"

text \<open>The same code for the trees of the tasks, \<open>P\<close>.\<close>

definition rt_mutex_enqueue_pi ::
  "(nat tree \<Rightarrow> nat tree) \<Rightarrow> rt_tasks \<Rightarrow> nat \<Rightarrow> nat \<Rightarrow> (nat \<Rightarrow> waiter_tree) \<Rightarrow> nat \<Rightarrow> waiter_tree" where
  "rt_mutex_enqueue_pi insert_color T task w P = P(task := rt_mutex_enqueue insert_color T w (P task))"

definition rt_mutex_dequeue_pi :: "(nat \<Rightarrow> nat tree \<Rightarrow> nat tree) \<Rightarrow> nat \<Rightarrow> nat \<Rightarrow> (nat \<Rightarrow> waiter_tree) \<Rightarrow> nat \<Rightarrow> waiter_tree" where
  "rt_mutex_dequeue_pi erase task w P = P(task := rt_mutex_dequeue erase w (P task))"

definition task_has_pi_waiters :: "waiter_tree \<Rightarrow> bool" where
  "task_has_pi_waiters q \<longleftrightarrow> wt_root q \<noteq> Leaf"

section \<open>Inheriting\<close>

text \<open>With waiters and no leftmost node a null pointer is followed.\<close>

definition rt_mutex_getprio :: "rt_tasks \<Rightarrow> waiter_tree \<Rightarrow> nat \<Rightarrow> int outcome" where
  "rt_mutex_getprio T q task =
     (if \<not> task_has_pi_waiters q then Returns (tk_normal_prio (T task))
      else case wt_leftmost q of None \<Rightarrow> Fault | Some w \<Rightarrow> Returns (min (tk_prio (T w)) (tk_normal_prio (T task))))"

definition rt_mutex_get_top_task :: "waiter_tree \<Rightarrow> nat option outcome" where
  "rt_mutex_get_top_task q =
     (if \<not> task_has_pi_waiters q then Returns None
      else case wt_leftmost q of None \<Rightarrow> Fault | Some w \<Rightarrow> Returns (Some w))"

text \<open>
  \<^verbatim>\<open>rt_mutex_setprio\<close> of a task that is not the idle one: the task, and the flag it is enqueued with. The bound
  \<^verbatim>\<open>MAX_PRIO\<close> is not checked, as no priority here is larger than those the tasks have.
\<close>

definition boost :: "u32 \<Rightarrow> rt_tasks \<Rightarrow> nat option \<Rightarrow> int \<Rightarrow> rt_task \<Rightarrow> rt_task \<times> enqueue_flag" where
  "boost max_rt T tw prio p =
     (let p = p\<lparr>tk_pi_top := tw\<rparr>; oldprio = tk_prio p in
      if dl_prio prio
      then if \<not> dl_prio (tk_normal_prio p) \<or> (case tw of None \<Rightarrow> False | Some w \<Rightarrow> dl_time_before (tk_deadline (T w)) (tk_deadline p))
           then (p\<lparr>tk_boosted := True, tk_throttled := False, tk_class := dl_sched_class, tk_prio := prio\<rparr>, ENQUEUE_REPLENISH)
           else (p\<lparr>tk_boosted := False, tk_class := dl_sched_class, tk_prio := prio\<rparr>, NO_FLAG)
      else if rt_prio max_rt prio
      then (p\<lparr>tk_boosted := (if dl_prio oldprio then False else tk_boosted p), tk_class := rt_sched_class, tk_prio := prio\<rparr>,
            if oldprio < prio then ENQUEUE_HEAD else NO_FLAG)
      else (p\<lparr>tk_boosted := (if dl_prio oldprio then False else tk_boosted p), tk_class := fair_sched_class, tk_prio := prio\<rparr>, NO_FLAG))"

definition rt_mutex_setprio :: "u32 \<Rightarrow> waiter_tree \<Rightarrow> nat \<Rightarrow> int \<Rightarrow> rt_tasks \<Rightarrow> (rt_tasks \<times> enqueue_flag) outcome" where
  "rt_mutex_setprio max_rt q task prio T =
     (case rt_mutex_get_top_task q of
        Fault \<Rightarrow> Fault
      | Returns tw \<Rightarrow> (case boost max_rt T tw prio (T task) of (p, flag) \<Rightarrow> Returns (T(task := p), flag)))"

definition rt_mutex_adjust_prio :: "u32 \<Rightarrow> waiter_tree \<Rightarrow> nat \<Rightarrow> rt_tasks \<Rightarrow> (rt_tasks \<times> enqueue_flag) outcome" where
  "rt_mutex_adjust_prio max_rt q task T =
     (case rt_mutex_getprio T q task of
        Fault \<Rightarrow> Fault
      | Returns prio \<Rightarrow>
          if tk_prio (T task) \<noteq> prio \<or> dl_prio prio then rt_mutex_setprio max_rt q task prio T else Returns (T, NO_FLAG))"

text \<open>
  The conditions under which \<^verbatim>\<open>rt_mutex_adjust_pi\<close> returns at once, and \<^verbatim>\<open>rt_mutex_adjust_prio_chain\<close> stops. \<open>waiter\<close> is the
  task of the waiter \<^verbatim>\<open>task->pi_blocked_on\<close>, if there is one.
\<close>

definition adjust_pi_returns :: "rt_tasks \<Rightarrow> nat option \<Rightarrow> nat \<Rightarrow> bool" where
  "adjust_pi_returns T waiter task \<longleftrightarrow>
     (case waiter of None \<Rightarrow> True | Some w \<Rightarrow> tk_prio (T w) = tk_prio (T task) \<and> \<not> dl_prio (tk_prio (T task)))"

definition chain_stops :: "rt_tasks \<Rightarrow> bool \<Rightarrow> nat \<Rightarrow> nat \<Rightarrow> bool" where
  "chain_stops T detect_deadlock waiter task \<longleftrightarrow> \<not> detect_deadlock \<and> tk_prio (T waiter) = tk_prio (T task)"

section \<open>What inheritance needs of a queue of waiters\<close>

datatype wait_event = Blocks nat | Leaves nat

fun waiting_after :: "wait_event \<Rightarrow> nat set \<Rightarrow> nat set" where
  "waiting_after (Blocks w) W = insert w W"
| "waiting_after (Leaves w) W = W - {w}"

fun waits_ok :: "wait_event list \<Rightarrow> nat set \<Rightarrow> bool" where
  "waits_ok [] W = True"
| "waits_ok (e # es) W = ((\<forall>w. e = Blocks w \<longrightarrow> w \<notin> W) \<and> waits_ok es (waiting_after e W))"

fun wait_step :: "(nat \<Rightarrow> 'q \<Rightarrow> 'q) \<Rightarrow> (nat \<Rightarrow> 'q \<Rightarrow> 'q) \<Rightarrow> wait_event \<Rightarrow> 'q \<Rightarrow> 'q" where
  "wait_step enq deq (Blocks w) q = enq w q"
| "wait_step enq deq (Leaves w) q = deq w q"

locale urgency_queue =
  fixes enq :: "nat \<Rightarrow> 'q \<Rightarrow> 'q" and deq :: "nat \<Rightarrow> 'q \<Rightarrow> 'q" and top_of :: "'q \<Rightarrow> nat option"
    and members :: "'q \<Rightarrow> nat set" and inv :: "'q \<Rightarrow> bool" and start :: 'q and urg :: "nat \<Rightarrow> int"
  assumes start: "inv start \<and> members start = {}"
    and enq: "inv q \<Longrightarrow> w \<notin> members q \<Longrightarrow> inv (enq w q) \<and> members (enq w q) = insert w (members q)"
    and deq: "inv q \<Longrightarrow> inv (deq w q) \<and> members (deq w q) = members q - {w}"
    and top_law: "inv q \<Longrightarrow> (case top_of q of None \<Rightarrow> members q = {} | Some w \<Rightarrow> w \<in> members q \<and> (\<forall>v \<in> members q. urg w \<le> urg v))"
begin

lemma queue_run: "inv q \<Longrightarrow> waits_ok es (members q) \<Longrightarrow>
    inv (fold (wait_step enq deq) es q) \<and> members (fold (wait_step enq deq) es q) = fold waiting_after es (members q)"
proof (induction es arbitrary: q)
  case (Cons e es)
  have "inv (wait_step enq deq e q) \<and> members (wait_step enq deq e q) = waiting_after e (members q)"
    using Cons.prems enq deq by (cases e) auto
  then show ?case using Cons by simp
qed simp

lemma run_top:
  assumes "waits_ok es {}"
  shows "case top_of (fold (wait_step enq deq) es start) of None \<Rightarrow> fold waiting_after es {} = {}
    | Some w \<Rightarrow> w \<in> fold waiting_after es {} \<and> (\<forall>v \<in> fold waiting_after es {}. urg w \<le> urg v)"
proof -
  have i: "inv (fold (wait_step enq deq) es start)" and m: "members (fold (wait_step enq deq) es start) = fold waiting_after es {}"
    using queue_run [of start es] start assms by auto
  show ?thesis using top_law [OF i] unfolding m .
qed

end

section \<open>The trees have this contract\<close>

text \<open>Priority first, then the deadline: one number, as no priority is below that of the deadline tasks.\<close>

definition urgency :: "rt_tasks \<Rightarrow> nat \<Rightarrow> int" where
  "urgency T w = tk_prio (T w) * 2 ^ 64 + (if dl_prio (tk_prio (T w)) then uint (tk_deadline (T w)) else 0)"

definition prios_ok :: "rt_tasks \<Rightarrow> bool" where
  "prios_ok T \<longleftrightarrow> (\<forall>w. MAX_DL_PRIO - 1 \<le> tk_prio (T w) \<and> MAX_DL_PRIO - 1 \<le> tk_normal_prio (T w))"

lemma waiter_less_urgency:
  assumes "prios_ok T"
  shows "rt_mutex_waiter_less T a b \<longleftrightarrow> urgency T a < urgency T b"
proof -
  have p: "- 1 \<le> tk_prio (T a)" "- 1 \<le> tk_prio (T b)" using assms by (auto simp: prios_ok_def MAX_DL_PRIO_def)
  have d: "0 \<le> uint (tk_deadline (T w)) \<and> uint (tk_deadline (T w)) < 2 ^ 64" for w using uint_lt2p [of "tk_deadline (T w)"] by simp
  show ?thesis
    using p d [of a] d [of b] by (auto simp: rt_mutex_waiter_less_def urgency_def dl_prio_def MAX_DL_PRIO_def word_less_def)
qed

definition head_of :: "nat list \<Rightarrow> nat option" where
  "head_of ws = (case ws of [] \<Rightarrow> None | w # _ \<Rightarrow> Some w)"

definition waiters_ok :: "rt_tasks \<Rightarrow> waiter_tree \<Rightarrow> bool" where
  "waiters_ok T q \<longleftrightarrow> sorted (map (urgency T) (inorder (wt_root q))) \<and> distinct (inorder (wt_root q)) \<and>
     wt_leftmost q = head_of (inorder (wt_root q))"

lemma waiter_descend_result:
  assumes "prios_ok T" and "sorted (map (urgency T) (inorder t))"
  shows "\<exists>as bs. inorder t = as @ bs \<and> inorder (fst (waiter_descend T w t lm)) = as @ w # bs \<and>
    (\<forall>a \<in> set as. urgency T a \<le> urgency T w) \<and> (\<forall>b \<in> set bs. urgency T w \<le> urgency T b) \<and>
    snd (waiter_descend T w t lm) = (lm \<and> as = [])"
  using assms(2)
proof (induction t arbitrary: lm)
  case (Node l e r)
  have so: "sorted (map (urgency T) (inorder l))" "sorted (map (urgency T) (inorder r))"
      "\<forall>x \<in> set (inorder l). urgency T x \<le> urgency T e" "\<forall>x \<in> set (inorder r). urgency T e \<le> urgency T x"
    using Node.prems by (auto simp: sorted_append)
  show ?case
  proof (cases "urgency T w < urgency T e")
    case True
    obtain as bs where i: "inorder l = as @ bs" "inorder (fst (waiter_descend T w l lm)) = as @ w # bs"
        "\<forall>a \<in> set as. urgency T a \<le> urgency T w" "\<forall>b \<in> set bs. urgency T w \<le> urgency T b"
        "snd (waiter_descend T w l lm) = (lm \<and> as = [])"
      using Node.IH(1) [OF so(1), of lm] by blast
    have "\<forall>b \<in> set (bs @ e # inorder r). urgency T w \<le> urgency T b" using i(4) True so(4) by auto
    then show ?thesis using i True waiter_less_urgency [OF assms(1)]
      by (intro exI [of _ as] exI [of _ "bs @ e # inorder r"]) (simp add: split_beta)
  next
    case False
    obtain as bs where i: "inorder r = as @ bs" "inorder (fst (waiter_descend T w r False)) = as @ w # bs"
        "\<forall>a \<in> set as. urgency T a \<le> urgency T w" "\<forall>b \<in> set bs. urgency T w \<le> urgency T b"
        "snd (waiter_descend T w r False) = (False \<and> as = [])"
      using Node.IH(2) [OF so(2), of False] by blast
    have "\<forall>a \<in> set (inorder l @ e # as). urgency T a \<le> urgency T w" using i(3) False so(3) by auto
    then show ?thesis using i False waiter_less_urgency [OF assms(1)]
      by (intro exI [of _ "inorder l @ e # as"] exI [of _ bs]) (simp add: split_beta)
  qed
qed (simp add: exI [of _ "[]"])

lemma rt_mutex_enqueue_ok:
  assumes laws: "rb_laws ic er" and T: "prios_ok T" and ok: "waiters_ok T q" and w: "w \<notin> set (inorder (wt_root q))"
  shows "waiters_ok T (rt_mutex_enqueue ic T w q) \<and>
    set (inorder (wt_root (rt_mutex_enqueue ic T w q))) = insert w (set (inorder (wt_root q)))"
proof -
  have so: "sorted (map (urgency T) (inorder (wt_root q)))" "distinct (inorder (wt_root q))" "wt_leftmost q = head_of (inorder (wt_root q))"
    using ok by (auto simp: waiters_ok_def)
  obtain t lm where d: "waiter_descend T w (wt_root q) True = (t, lm)" by force
  obtain as bs where s: "inorder (wt_root q) = as @ bs" "inorder t = as @ w # bs" "\<forall>a \<in> set as. urgency T a \<le> urgency T w"
      "\<forall>b \<in> set bs. urgency T w \<le> urgency T b" "lm = (as = [])"
    using waiter_descend_result [OF T so(1), of w True] d by auto
  have q: "rt_mutex_enqueue ic T w q = \<lparr>wt_root = ic t, wt_leftmost = (if as = [] then Some w else head_of (as @ bs))\<rparr>"
    using d s(1,5) so(3) by (simp add: rt_mutex_enqueue_def)
  have i: "inorder (ic t) = as @ w # bs" using rb_lawsD(1) [OF laws] s(2) by simp
  have "sorted (map (urgency T) (as @ w # bs))" using so(1) s(3,4) unfolding s(1) by (auto simp: sorted_append)
  moreover have "distinct (as @ w # bs)" using so(2) w unfolding s(1) by auto
  moreover have "(if as = [] then Some w else head_of (as @ bs)) = head_of (as @ w # bs)" by (cases as) (auto simp: head_of_def)
  ultimately have "waiters_ok T (rt_mutex_enqueue ic T w q)" by (simp add: q waiters_ok_def i)
  moreover have "set (inorder (wt_root (rt_mutex_enqueue ic T w q))) = insert w (set (inorder (wt_root q)))"
    unfolding s(1) by (simp add: q i del: set_inorder)
  ultimately show ?thesis by blast
qed

lemma head_of_removed:
  assumes "distinct ws" and "w \<in> set ws"
  shows "head_of (removeAll w ws) = (if head_of ws = Some w then succ_in w ws else head_of ws)"
proof -
  obtain as bs where ws: "ws = as @ w # bs" using assms(2) split_list by metis
  have r: "removeAll w ws = as @ bs" using assms(1) by (simp add: ws)
  show ?thesis unfolding r using assms(1) by (cases as; cases bs) (auto simp: ws head_of_def)
qed

lemma rt_mutex_dequeue_ok:
  assumes laws: "rb_laws ic er" and ok: "waiters_ok T q"
  shows "waiters_ok T (rt_mutex_dequeue er w q) \<and>
    set (inorder (wt_root (rt_mutex_dequeue er w q))) = set (inorder (wt_root q)) - {w}"
proof (cases "w \<in> set (inorder (wt_root q))")
  case True
  have so: "sorted (map (urgency T) (inorder (wt_root q)))" "distinct (inorder (wt_root q))" "wt_leftmost q = head_of (inorder (wt_root q))"
    using ok by (auto simp: waiters_ok_def)
  have i: "inorder (er w (wt_root q)) = removeAll w (inorder (wt_root q))" by (rule rb_lawsD(2) [OF laws True so(2)])
  have q: "rt_mutex_dequeue er w q = \<lparr>wt_root = er w (wt_root q), wt_leftmost = head_of (removeAll w (inorder (wt_root q)))\<rparr>"
    using True so(3) head_of_removed [OF so(2) True] by (simp add: rt_mutex_dequeue_def)
  have "sorted (map (urgency T) (removeAll w (inorder (wt_root q))))"
    unfolding removeAll_filter_not_eq by (rule sorted_filter [OF so(1)])
  then have "waiters_ok T (rt_mutex_dequeue er w q)" using so(2) by (simp add: q waiters_ok_def i distinct_removeAll)
  then show ?thesis by (simp add: q i flip: set_inorder)
next
  case False
  then show ?thesis using ok by (simp add: rt_mutex_dequeue_def)
qed

lemma waiters_top:
  assumes "waiters_ok T q"
  shows "case wt_leftmost q of None \<Rightarrow> set (inorder (wt_root q)) = {}
    | Some w \<Rightarrow> w \<in> set (inorder (wt_root q)) \<and> (\<forall>v \<in> set (inorder (wt_root q)). urgency T w \<le> urgency T v)"
  using assms by (cases "inorder (wt_root q)") (auto simp: waiters_ok_def head_of_def simp flip: set_inorder)

lemma no_waiters_ok: "waiters_ok T no_waiters \<and> set (inorder (wt_root no_waiters)) = {}"
  by (simp add: no_waiters_def waiters_ok_def head_of_def)

locale rt_waiters =
  fixes ic :: "nat tree \<Rightarrow> nat tree" and er :: "nat \<Rightarrow> nat tree \<Rightarrow> nat tree" and T :: rt_tasks
  assumes laws: "rb_laws ic er" and prios: "prios_ok T"

sublocale rt_waiters \<subseteq> urgency_queue "rt_mutex_enqueue ic T" "rt_mutex_dequeue er" wt_leftmost
  "\<lambda>q. set (inorder (wt_root q))" "waiters_ok T" no_waiters "urgency T"
  by unfold_locales
    (rule no_waiters_ok rt_mutex_enqueue_ok [OF laws prios] rt_mutex_dequeue_ok [OF laws] waiters_top; assumption?)+

context rt_waiters
begin

lemma pi_run_ok:
  assumes "waits_ok es {}"
  shows "waiters_ok T (fold (wait_step (rt_mutex_enqueue ic T) (rt_mutex_dequeue er)) es no_waiters)"
    and "set (inorder (wt_root (fold (wait_step (rt_mutex_enqueue ic T) (rt_mutex_dequeue er)) es no_waiters))) = fold waiting_after es {}"
  using queue_run [of no_waiters es] no_waiters_ok assms by auto

lemmas pi_run_top = run_top

end

text \<open>Tasks for examples: 1 is a real-time task, 2 and 3 have deadlines, the others have neither.\<close>

definition plain_task :: "int \<Rightarrow> u64 \<Rightarrow> rt_task" where
  "plain_task prio d = \<lparr>tk_prio = prio, tk_normal_prio = prio, tk_deadline = d, tk_boosted = False, tk_throttled = False,
     tk_class = (if dl_prio prio then dl_sched_class else fair_sched_class), tk_pi_top = None\<rparr>"

definition four_tasks :: rt_tasks where
  "four_tasks w = (if w = 1 then plain_task 50 0 else if w = 2 then plain_task (- 1) 700 else if w = 3 then plain_task (- 1) 900
     else plain_task 120 0)"

lemma four_tasks_ok: "prios_ok four_tasks"
  by (simp add: prios_ok_def four_tasks_def plain_task_def MAX_DL_PRIO_def)

interpretation four_waiters: rt_waiters id plain_erase four_tasks
  by unfold_locales (rule plain_rb_laws, rule four_tasks_ok)

section \<open>The owner inherits\<close>

abbreviation pi_run :: "(nat tree \<Rightarrow> nat tree) \<Rightarrow> (nat \<Rightarrow> nat tree \<Rightarrow> nat tree) \<Rightarrow> rt_tasks \<Rightarrow> wait_event list \<Rightarrow> waiter_tree" where
  "pi_run ic er T es \<equiv> fold (wait_step (rt_mutex_enqueue ic T) (rt_mutex_dequeue er)) es no_waiters"

lemma urgency_prio:
  assumes "prios_ok T" and "urgency T w \<le> urgency T v"
  shows "tk_prio (T w) \<le> tk_prio (T v)" and "dl_prio (tk_prio (T v)) \<Longrightarrow> tk_deadline (T w) \<le> tk_deadline (T v)"
proof -
  have p: "- 1 \<le> tk_prio (T w)" "- 1 \<le> tk_prio (T v)" using assms(1) by (auto simp: prios_ok_def MAX_DL_PRIO_def)
  have d: "0 \<le> uint (tk_deadline (T w)) \<and> uint (tk_deadline (T w)) < 2 ^ 64" for w using uint_lt2p [of "tk_deadline (T w)"] by simp
  show p': "tk_prio (T w) \<le> tk_prio (T v)"
    using p d [of w] d [of v] assms(2) by (auto simp: urgency_def dl_prio_def MAX_DL_PRIO_def split: if_splits)
  show "dl_prio (tk_prio (T v)) \<Longrightarrow> tk_deadline (T w) \<le> tk_deadline (T v)"
    using p p' assms(2) by (auto simp: urgency_def dl_prio_def MAX_DL_PRIO_def word_le_def split: if_splits)
qed

lemma getprio_result:
  assumes "prios_ok T" and "waiters_ok T q"
  shows "rt_mutex_get_top_task q = Returns (wt_leftmost q)"
    and "rt_mutex_getprio T q task = Returns (Min (insert (tk_normal_prio (T task)) ((\<lambda>w. tk_prio (T w)) ` set (inorder (wt_root q)))))"
proof -
  have e: "wt_root q = Leaf \<longleftrightarrow> wt_leftmost q = None" using assms(2) by (cases "wt_root q") (auto simp: waiters_ok_def head_of_def split: list.splits)
  then show "rt_mutex_get_top_task q = Returns (wt_leftmost q)"
    by (auto simp: rt_mutex_get_top_task_def task_has_pi_waiters_def split: option.splits)
  show "rt_mutex_getprio T q task = Returns (Min (insert (tk_normal_prio (T task)) ((\<lambda>w. tk_prio (T w)) ` set (inorder (wt_root q)))))"
  proof (cases "wt_leftmost q")
    case None
    then show ?thesis using e by (simp add: rt_mutex_getprio_def task_has_pi_waiters_def)
  next
    case (Some w)
    then have w: "w \<in> set (inorder (wt_root q))" "\<forall>v \<in> set (inorder (wt_root q)). urgency T w \<le> urgency T v"
      using waiters_top [OF assms(2)] by auto
    then have "Min (insert (tk_normal_prio (T task)) ((\<lambda>w. tk_prio (T w)) ` set (inorder (wt_root q)))) = min (tk_prio (T w)) (tk_normal_prio (T task))"
      using urgency_prio(1) [OF assms(1), of w] by (intro Min_eqI) (force simp: min_def)+
    then show ?thesis using Some e by (simp add: rt_mutex_getprio_def task_has_pi_waiters_def)
  qed
qed



section \<open>What is not inherited\<close>

text \<open>
  The waiter keeps no priority of its own, so the test whether a blocked task's priority has changed compares
  the task with itself: for a task without a deadline \<^verbatim>\<open>rt_mutex_adjust_pi\<close> always returns at once, and the walk along
  the chain of owners stops at its first step. The tree is then not ordered any more: task 0 is
  raised above task 1 while both wait, and task 1 stays on top.
\<close>

lemma adjust_pi_never_walks:
  "\<not> dl_prio (tk_prio (T task)) \<Longrightarrow> adjust_pi_returns T (Some task) task" "chain_stops T False task task"
  by (simp_all add: adjust_pi_returns_def chain_stops_def)

lemma raised_waiter_not_on_top:
  "let T = four_tasks; q = pi_run id plain_erase T [Blocks 0, Blocks 1]; T' = T(0 := (T 0)\<lparr>tk_prio := 10\<rparr>) in
   wt_leftmost q = Some 1 \<and> waiters_ok T q \<and> tk_prio (T' 0) < tk_prio (T' 1) \<and> adjust_pi_returns T' (Some 0) 0 \<and> \<not> waiters_ok T' q"
  by code_simp

text \<open>
  A waiter without a deadline boosts an owner that has one: its deadline field, which is 0, is compared all the
  same, so the owner is no longer throttled and gets a new budget.
\<close>

lemma real_time_waiter_replenishes:
  "let T = four_tasks(2 := (four_tasks 2)\<lparr>tk_throttled := True\<rparr>) in
   case rt_mutex_adjust_prio 100 (pi_run id plain_erase T [Blocks 1]) 2 T of
     Fault \<Rightarrow> False
   | Returns (T', flag) \<Rightarrow> \<not> dl_prio (tk_prio (T 1)) \<and> tk_boosted (T' 2) \<and> \<not> tk_throttled (T' 2) \<and> flag = ENQUEUE_REPLENISH"
  by code_simp

text \<open>Deadlines of waiters are compared as numbers, those of queued tasks by their distance.\<close>

lemma waiter_order_wraps:
  "let T = (\<lambda>w. plain_task (- 1) (if w = 0 then 2 ^ 64 - 10 else 5)) in
   dl_time_before (tk_deadline (T 0)) (tk_deadline (T 1)) \<and> rt_mutex_waiter_less T 1 0"
  by code_simp

end
