(* ===== verification/Deadline_Syscalls.thy ===== *)
theory Deadline_Syscalls
  imports Deadline_Server
begin

text \<open>
  The system calls that \<^verbatim>\<open>sched-dl/patch-dl/sched-add-sched_dl.patch\<close> adds to \<^verbatim>\<open>kernel/sched/core.c\<close>:
  \<^verbatim>\<open>sched_setscheduler2\<close>, \<^verbatim>\<open>sched_setparam2\<close> and \<^verbatim>\<open>sched_getparam2\<close>. The structure that crosses the
  boundary is 128 bytes of memory, read and written field by field with the layout of
  \<open>C_Layout\<close>. The kernel's side is a parameter: finding a process, copying from and to the
  user, the security hook, and the part of \<^verbatim>\<open>sched_setscheduler2\<close> behind the system call, whose
  deadline part is \<open>setscheduler_dl\<close>. The local variable of a system call starts with whatever
  the kernel's stack held.
\<close>

section \<open>The structure in memory\<close>

abbreviation "prm_load x m \<equiv> c_load sched_param2_t 0 [Fld x] m"

definition param2_of_mem :: "bytes \<Rightarrow> sched_param2 option" where
  "param2_of_mem m =
     (case (prm_load ''sched_priority'' m, prm_load ''sched_flags'' m, prm_load ''sched_runtime'' m,
            prm_load ''sched_deadline'' m, prm_load ''sched_period'' m) of
        (Some a, Some b, Some c, Some d, Some e) \<Rightarrow>
          Some \<lparr>sched_priority = sint (ucast a :: u32), sched_flags = ucast b, sched_runtime = c,
                sched_deadline = d, sched_period = e\<rparr>
      | _ \<Rightarrow> None)"

text \<open>The assignments of \<^verbatim>\<open>__getparam_dl\<close>, in the order of the code.\<close>

definition getparam_dl_stores :: "int \<Rightarrow> sched_dl_entity \<Rightarrow> (designator list \<times> u64) list" where
  "getparam_dl_stores rt_priority dl_se =
     [([Fld ''sched_priority''], word_of_int rt_priority), ([Fld ''sched_runtime''], dl_runtime dl_se),
      ([Fld ''sched_deadline''], dl_deadline dl_se), ([Fld ''sched_period''], dl_period dl_se),
      ([Fld ''sched_flags''], ucast (se_flags dl_se))]"

section \<open>The system calls\<close>

record 'w sys_env =
  env_find :: "int \<Rightarrow> (dl_task \<times> int) option"        \<comment> \<open>\<^verbatim>\<open>find_process_by_pid\<close>: the task and its \<^verbatim>\<open>rt_priority\<close>\<close>
  env_copy_from :: "ptr \<Rightarrow> nat \<Rightarrow> bytes option"
  env_copy_to :: "ptr \<Rightarrow> bytes \<Rightarrow> bool"
  env_security :: "int \<Rightarrow> int"
  env_set :: "dl_task \<Rightarrow> int \<Rightarrow> sched_param2 \<Rightarrow> 'w \<Rightarrow> int \<times> 'w"    \<comment> \<open>\<^verbatim>\<open>sched_setscheduler2\<close> in the kernel\<close>

definition dl_policy :: "int \<Rightarrow> bool" where
  "dl_policy policy \<longleftrightarrow> policy = 6"

definition do_sched_setscheduler2 :: "'w sys_env \<Rightarrow> int \<Rightarrow> int \<Rightarrow> ptr \<Rightarrow> 'w \<Rightarrow> int \<times> 'w" where
  "do_sched_setscheduler2 env pid policy param2 w =
     (if param2 = NULL \<or> pid < 0 then (- EINVAL, w)
      else case env_copy_from env param2 (csize sched_param2_t) of
        None \<Rightarrow> (- EFAULT, w)
      | Some m \<Rightarrow>
          (case env_find env pid of
             None \<Rightarrow> (- ESRCH, w)
           | Some (p, _) \<Rightarrow>
               (case param2_of_mem m of
                  None \<Rightarrow> (- EFAULT, w)
                | Some lparam2 \<Rightarrow>
                    env_set env p policy
                      (if dl_policy policy then lparam2\<lparr>sched_priority := 0\<rparr> else lparam2) w)))"

definition sys_sched_setscheduler2 :: "'w sys_env \<Rightarrow> int \<Rightarrow> int \<Rightarrow> ptr \<Rightarrow> 'w \<Rightarrow> int \<times> 'w" where
  "sys_sched_setscheduler2 env pid policy param2 w =
     (if policy < 0 then (- EINVAL, w) else do_sched_setscheduler2 env pid policy param2 w)"

definition sys_sched_setparam2 :: "'w sys_env \<Rightarrow> int \<Rightarrow> ptr \<Rightarrow> 'w \<Rightarrow> int \<times> 'w" where
  "sys_sched_setparam2 env pid param2 w = do_sched_setscheduler2 env pid (- 1) param2 w"

text \<open>\<open>stack\<close> is what \<^verbatim>\<open>lp\<close> held before; the second component is what reached the user.\<close>

definition sys_sched_getparam2 :: "'w sys_env \<Rightarrow> bytes \<Rightarrow> int \<Rightarrow> ptr \<Rightarrow> int \<times> bytes option" where
  "sys_sched_getparam2 env stack pid param2 =
     (if param2 = NULL \<or> pid < 0 then (- EINVAL, None)
      else case env_find env pid of
        None \<Rightarrow> (- ESRCH, None)
      | Some (p, rt_priority) \<Rightarrow>
          let retval = env_security env pid in
          if retval \<noteq> 0 then (retval, None)
          else
            case (if is_dl p then c_stores sched_param2_t 0 (getparam_dl_stores rt_priority (se p)) stack
                  else c_store sched_param2_t 0 [Fld ''sched_priority''] (word_of_int rt_priority) stack) of
              None \<Rightarrow> (- EFAULT, None)
            | Some lp \<Rightarrow> if env_copy_to env param2 lp then (0, Some lp) else (- EFAULT, None))"

section \<open>Reading back\<close>

lemma param2_wf: "c_wf sched_param2_t"
  by (rule program_structs_wf) (simp add: program_structs_def)

lemma param2_of_mem_total: "length m = 128 \<Longrightarrow> \<exists>prm. param2_of_mem m = Some prm"
  by (simp add: param2_of_mem_def c_load_num)

lemma getparam_dl_mem:
  assumes "length stack = 128" "- (2 ^ 31) \<le> rt" "rt < 2 ^ 31"
  shows "\<exists>lp. c_stores sched_param2_t 0 (getparam_dl_stores rt dl_se) stack = Some lp \<and>
    param2_of_mem lp = Some (getparam_dl rt dl_se) \<and> length lp = 128 \<and> drop 32 lp = drop 32 stack"
proof -
  have "sint (ucast (take_bit 32 (word_of_int rt :: u64)) :: u32) = rt"
  proof -
    have "(ucast (take_bit 32 (word_of_int rt :: u64)) :: u32) = word_of_int rt"
      by (rule bit_eqI) (auto simp: bit_simps)
    then show ?thesis using assms by (simp add: sint_sbintrunc' signed_take_bit_int_eq_self)
  qed
  moreover have "(ucast (take_bit 32 (ucast f :: u64)) :: u32) = f" for f :: u32
    by (rule bit_eqI) (auto simp: bit_simps)
  moreover have "take_bit 64 x = x" for x :: u64 by (rule bit_eqI) (auto simp: bit_simps)
  moreover obtain lp where lp: "c_stores sched_param2_t 0 (getparam_dl_stores rt dl_se) stack = Some lp"
      "length lp = length stack"
      "\<forall>ds v off n. (ds, v) \<in> set (getparam_dl_stores rt dl_se) \<longrightarrow> c_path sched_param2_t ds = Some (off, CNum n) \<longrightarrow>
         c_load sched_param2_t 0 ds lp = Some (take_bit (8 * n) v)"
    using c_stores_load [OF param2_wf, of 0 stack "getparam_dl_stores rt dl_se"] assms
    by (auto simp: getparam_dl_stores_def)
  moreover have "drop 32 lp = drop 32 stack"
    using lp(1) assms(1) by (auto simp: getparam_dl_stores_def c_store_num mem_splice_def min_def)
  ultimately show ?thesis
    using assms(1) by (simp add: param2_of_mem_def getparam_dl_def getparam_dl_stores_def)
qed

section \<open>Properties\<close>

text \<open>
  C33. A deadline task whose parameters were set through \<^verbatim>\<open>sched_setscheduler2\<close> reads them back through
  \<^verbatim>\<open>sched_getparam2\<close>: when the structure in the user's memory passes the check and the admission,
  the structure that comes back holds the same flags, runtime and deadline, the period, which
  is the deadline where none was given, and the task's priority.
\<close>

theorem sched_param2_round_trip:
  fixes env :: "(dl_task \<times> dl_bw) sys_env"
  assumes set: "env_set env = (\<lambda>p policy prm w. case setscheduler_dl cpus enabled spans p (dl_policy policy) prm (snd w) of
      (r, p', b) \<Rightarrow> (r, p', b))"
    and find: "env_find env pid = Some (p, rt)" and user: "env_copy_from env param2 128 = Some m" "length m = 128"
    and ok: "sys_sched_setscheduler2 env pid 6 param2 w = (0, p', b)"
    and get: "env_find env' pid = Some (p', rt)" "env_security env' pid = 0" "env_copy_to env' dst = (\<lambda>lp. True)"
    and rt: "0 \<le> rt" "rt < 100" and dst: "dst \<noteq> NULL" and stack: "length stack = 128"
  shows "\<exists>prm lp. param2_of_mem m = Some prm \<and> sys_sched_getparam2 env' stack pid dst = (0, Some lp) \<and>
     param2_of_mem lp = Some (prm\<lparr>sched_priority := rt,
       sched_period := if sched_period prm = 0 then sched_deadline prm else sched_period prm\<rparr>)"
proof -
  obtain prm where prm: "param2_of_mem m = Some prm" using param2_of_mem_total [OF user(2)] by blast
  let ?prm = "prm\<lparr>sched_priority := 0\<rparr>"
  have pid: "\<not> pid < 0" "param2 \<noteq> NULL"
    using ok by (auto simp: sys_sched_setscheduler2_def do_sched_setscheduler2_def split: if_splits)
  then have "setscheduler_dl cpus enabled spans p True ?prm (snd w) = (0, p', b)"
    using ok set find user prm
    by (auto simp: sys_sched_setscheduler2_def do_sched_setscheduler2_def dl_policy_def split: prod.splits)
  then have p': "is_dl p'" "se p' = setparam_dl (se p) ?prm"
    by (auto simp: setscheduler_dl_def split: if_splits prod.splits)
  obtain lp where "c_stores sched_param2_t 0 (getparam_dl_stores rt (se p')) stack = Some lp"
      "param2_of_mem lp = Some (getparam_dl rt (se p'))"
    using getparam_dl_mem [OF stack, of rt "se p'"] rt by auto
  then show ?thesis
    using prm pid dst get p' by (auto simp: sys_sched_getparam2_def getparam_dl_def setparam_dl_def Let_def)
qed

definition demo_entity :: sched_dl_entity where
  "demo_entity = \<lparr>dl_runtime = 0, dl_deadline = 0, dl_period = 0, se_bw = 0, se_runtime = 0, se_deadline = 0,
     se_flags = 0, dl_throttled = False, dl_new = False, dl_boosted = False\<rparr>"

definition demo_prm_mem :: bytes where
  "demo_prm_mem = le32 0 @ le32 0 @ le64 10000000 @ le64 30000000 @ le64 40000000 @ replicate 96 0"

definition demo_sys :: "dl_task \<Rightarrow> (dl_task \<times> dl_bw) sys_env" where
  "demo_sys p = \<lparr>env_find = (\<lambda>pid. if pid = 42 then Some (p, 0) else None),
     env_copy_from = (\<lambda>a n. if a = 0x1000 \<and> n = 128 then Some demo_prm_mem else None),
     env_copy_to = (\<lambda>a lp. True), env_security = (\<lambda>pid. 0),
     env_set = (\<lambda>p policy prm w. case setscheduler_dl 2 True True p (dl_policy policy) prm (snd w) of
        (r, p', b) \<Rightarrow> (r, p', b))\<rparr>"

definition demo_prm :: sched_param2 where
  "demo_prm = \<lparr>sched_priority = 0, sched_flags = 0, sched_runtime = 10000000, sched_deadline = 30000000,
     sched_period = 40000000\<rparr>"

lemma demo_prm_mem_read: "param2_of_mem demo_prm_mem = Some demo_prm" "length demo_prm_mem = 128"
  by (simp_all add: param2_of_mem_def demo_prm_mem_def demo_prm_def c_load_num le32_def le64_def)

lemma demo_sys_set:
  "\<exists>p' b. sys_sched_setscheduler2 (demo_sys \<lparr>is_dl = False, se = demo_entity\<rparr>) 42 6 0x1000 (p0, \<lparr>dlb_bw = 400000, dlb_total = 0\<rparr>) =
     (0, p', b)"
  by (simp add: sys_sched_setscheduler2_def do_sched_setscheduler2_def dl_policy_def demo_sys_def demo_prm_mem_read
      setscheduler_dl_def checkparam_dl_def dl_overflow_def dl_overflow_bw_def to_ratio_def RUNTIME_INF_def
      DL_SCALE_def demo_prm_def demo_entity_def)

theorem sched_param2_round_trip_witness:
  "\<exists>p' b lp. sys_sched_setscheduler2 (demo_sys \<lparr>is_dl = False, se = demo_entity\<rparr>) 42 6 0x1000
       (\<lparr>is_dl = False, se = demo_entity\<rparr>, \<lparr>dlb_bw = 400000, dlb_total = 0\<rparr>) = (0, p', b) \<and>
     sys_sched_getparam2 (demo_sys p') (replicate 128 0xaa) 42 0x2000 = (0, Some lp) \<and>
     param2_of_mem lp = Some demo_prm"
proof -
  let ?env = "demo_sys \<lparr>is_dl = False, se = demo_entity\<rparr>"
  obtain p' b where set: "sys_sched_setscheduler2 ?env 42 6 0x1000
      (\<lparr>is_dl = False, se = demo_entity\<rparr>, \<lparr>dlb_bw = 400000, dlb_total = 0\<rparr>) = (0, p', b)"
    using demo_sys_set by blast
  have "\<exists>prm lp. param2_of_mem demo_prm_mem = Some prm \<and>
     sys_sched_getparam2 (demo_sys p') (replicate 128 0xaa) 42 0x2000 = (0, Some lp) \<and>
     param2_of_mem lp = Some (prm\<lparr>sched_priority := 0,
       sched_period := if sched_period prm = 0 then sched_deadline prm else sched_period prm\<rparr>)"
    by (rule sched_param2_round_trip [OF _ _ _ _ set]) (simp_all add: demo_sys_def demo_prm_mem_read)
  then show ?thesis using set by (auto simp: demo_prm_mem_read demo_prm_def)
qed

text \<open>
  \<^verbatim>\<open>sched_getparam2\<close> gives the user part of the kernel's stack: its local structure is not cleared,
  and the fields it assigns are the first 32 bytes for a deadline task and the first four for
  any other; the other bytes that it copies to the user are those the stack held before.
\<close>

lemma sched_getparam2_leaks_stack:
  assumes "env_find env pid = Some (p, rt)" "env_security env pid = 0" "env_copy_to env dst = (\<lambda>lp. True)"
    and "0 \<le> pid" "dst \<noteq> NULL" "length stack = csize sched_param2_t"
  shows "\<exists>lp. sys_sched_getparam2 env stack pid dst = (0, Some lp) \<and> length lp = 128 \<and>
     (let n = if is_dl p then 32 else 4 in drop n lp = drop n stack)"
proof (cases "is_dl p")
  case True
  obtain lp where "c_stores sched_param2_t 0 (getparam_dl_stores rt (se p)) stack = Some lp" "length lp = 128"
      "drop 32 lp = drop 32 stack"
    using assms(6) by (auto simp: getparam_dl_stores_def c_store_num mem_splice_def min_def)
  then show ?thesis using assms True by (simp add: sys_sched_getparam2_def)
next
  case False
  let ?lp = "mem_splice stack 0 (num_bytes 4 (word_of_int rt))"
  have "c_store sched_param2_t 0 [Fld ''sched_priority''] (word_of_int rt) stack = Some ?lp"
    using assms(6) by (simp add: c_store_num)
  moreover have "length ?lp = 128" "drop 4 ?lp = drop 4 stack" using assms(6) by (simp_all add: mem_splice_def)
  ultimately show ?thesis using assms False by (simp add: sys_sched_getparam2_def)
qed

lemma sched_getparam2_leaks_stack_witness:
  "\<exists>lp. sys_sched_getparam2 (demo_sys \<lparr>is_dl = False, se = demo_entity\<rparr>) (replicate 128 0xaa) 42 0x2000 = (0, Some lp) \<and>
     drop 4 lp = replicate 124 0xaa"
  using sched_getparam2_leaks_stack [of "demo_sys \<lparr>is_dl = False, se = demo_entity\<rparr>" 42
      "\<lparr>is_dl = False, se = demo_entity\<rparr>" 0 "0x2000" "replicate 128 0xaa"]
  by (auto simp: demo_sys_def)

text \<open>
  \<^verbatim>\<open>test-dl.c\<close> passes a \<^verbatim>\<open>struct sched_attr\<close> to system call 314, which a kernel with this patch takes for
  \<^verbatim>\<open>sched_setparam2\<close>: the kernel then reads the 80 bytes behind the structure too, takes its size
  for the priority and its policy for the flags, and finds no deadline.
\<close>

lemma sched_attr_as_param2:
  assumes "length rest = 80"
  shows "param2_of_mem (sched_attr_bytes run_deadline_attr @ rest) =
      Some \<lparr>sched_priority = 48, sched_flags = 6, sched_runtime = 0, sched_deadline = 0, sched_period = 10000000\<rparr>"
    and "\<not> checkparam_dl \<lparr>sched_priority = 48, sched_flags = 6, sched_runtime = 0, sched_deadline = 0,
      sched_period = 10000000\<rparr>"
  using assms
  by (simp_all add: param2_of_mem_def c_load_num sched_attr_bytes_def run_deadline_attr_def SCHED_DEADLINE_def le32_def
      le64_def checkparam_dl_def)

end
