(* ===== verification/Deadline_Policy.thy ===== *)
theory Deadline_Policy
  imports Deadline_Inherit Deadline_Syscalls
begin

text \<open>
  What the rest of the scheduler does with deadline tasks (the hunks of \<^verbatim>\<open>kernel/sched/core.c\<close> and
  \<^verbatim>\<open>kernel/fork.c\<close> in \<^verbatim>\<open>sched-dl/patch-dl/sched-add-sched_dl.patch\<close>): priorities and classes, fork, the calls a change of
  class makes, the timer of an entity, the affinity, the move of a task to another root domain, and
  the memory of a root domain. Lines between the hunks are parameters.

  Shown: a deadline task cannot fork a deadline task; the child of one that resets on fork keeps
  its bandwidth and is admitted without being counted; a moved task takes its bandwidth along; the class follows
  the policy; and two failures in setting up a root domain leave memory behind.
\<close>

section \<open>Policies, priorities and classes\<close>

record pol_task =
  pt_policy :: int
  pt_static_prio :: int
  pt_rt_priority :: int
  pt_normal_prio :: int
  pt_prio :: int
  pt_class :: sched_class
  pt_reset_on_fork :: bool
  pt_dl :: sched_dl_entity
  pt_pi_waiters :: waiter_tree
  pt_pi_top :: "nat option"

text \<open>
  The kernel's part: \<^verbatim>\<open>MAX_RT_PRIO\<close>, \<^verbatim>\<open>NICE_TO_PRIO\<close>, \<^verbatim>\<open>__normal_prio\<close>, \<^verbatim>\<open>rt_mutex_getprio\<close>, and the lines of \<^verbatim>\<open>sched_fork\<close> that
  the patch does not show.
\<close>

record pol_env =
  pe_max_rt :: u32
  pe_nice_to_prio :: "int \<Rightarrow> int"
  pe_normal_prio :: "pol_task \<Rightarrow> int"
  pe_getprio :: "pol_task \<Rightarrow> int"
  pe_fork_start :: "pol_task \<Rightarrow> pol_task"
  pe_reset_rest :: "pol_task \<Rightarrow> pol_task"

definition rt_policy :: "int \<Rightarrow> bool" where
  "rt_policy policy \<longleftrightarrow> policy = 1 \<or> policy = 2"

definition normal_prio :: "pol_env \<Rightarrow> pol_task \<Rightarrow> int" where
  "normal_prio env p =
     (if dl_policy (pt_policy p) then MAX_DL_PRIO - 1
      else if rt_policy (pt_policy p) then uint (pe_max_rt env) - 1 - pt_rt_priority p
      else pe_normal_prio env p)"

definition setscheduler_prio :: "pol_env \<Rightarrow> pol_task \<Rightarrow> pol_task" where
  "setscheduler_prio env p =
     (let p = p\<lparr>pt_normal_prio := normal_prio env p\<rparr>; p = p\<lparr>pt_prio := pe_getprio env p\<rparr> in
      p\<lparr>pt_class := (if dl_prio (pt_prio p) then dl_sched_class
                     else if rt_prio (pe_max_rt env) (pt_prio p) then rt_sched_class else fair_sched_class)\<rparr>)"

text \<open>
  The calls of \<^verbatim>\<open>check_class_changed\<close>; \<open>has_from\<close> says which classes have a \<^verbatim>\<open>switched_from\<close>, and \<open>changed\<close> is its first
  test, which the hunk does not show.
\<close>

datatype class_call = CallSwitchedFrom sched_class | CallSwitchedTo sched_class | CallPrioChanged sched_class int

definition check_class_changed :: "(sched_class \<Rightarrow> bool) \<Rightarrow> bool \<Rightarrow> sched_class \<Rightarrow> int \<Rightarrow> pol_task \<Rightarrow> class_call list" where
  "check_class_changed has_from changed prev_class oldprio p =
     (if changed
      then (if has_from prev_class then [CallSwitchedFrom prev_class] else []) @ [CallSwitchedTo (pt_class p)]
      else if oldprio \<noteq> pt_prio p \<or> dl_prio (pt_prio p) then [CallPrioChanged (pt_class p) oldprio]
      else [])"

text \<open>\<^verbatim>\<open>set_user_nice\<close> up to the test that the patch changes: whether it is done, and the task.\<close>

definition set_user_nice_fixed :: "pol_env \<Rightarrow> int \<Rightarrow> pol_task \<Rightarrow> bool \<times> pol_task" where
  "set_user_nice_fixed env nice p =
     (if dl_policy (pt_policy p) \<or> rt_policy (pt_policy p) then (True, p\<lparr>pt_static_prio := pe_nice_to_prio env nice\<rparr>)
      else (False, p))"

section \<open>Fork\<close>

text \<open>A new task has no waiters.\<close>

definition rt_mutex_init_task :: "pol_task \<Rightarrow> pol_task" where
  "rt_mutex_init_task p = p\<lparr>pt_pi_waiters := no_waiters, pt_pi_top := None\<rparr>"

text \<open>The hunk of \<^verbatim>\<open>__sched_fork\<close>.\<close>

definition sched_fork_entity :: "sched_dl_entity \<Rightarrow> sched_dl_entity" where
  "sched_fork_entity d = d\<lparr>dl_runtime := 0, se_runtime := 0, dl_deadline := 0, se_deadline := 0, dl_period := 0, se_flags := 0\<rparr>"

definition sched_fork :: "pol_env \<Rightarrow> pol_task \<Rightarrow> int \<times> pol_task" where
  "sched_fork env p =
     (let p = pe_fork_start env (p\<lparr>pt_dl := sched_fork_entity (pt_dl p)\<rparr>);
          p = (if pt_reset_on_fork p
               then (pe_reset_rest env
                 (if dl_policy (pt_policy p) \<or> rt_policy (pt_policy p)
                  then p\<lparr>pt_policy := 0, pt_static_prio := pe_nice_to_prio env 0, pt_rt_priority := 0\<rparr> else p))\<lparr>pt_reset_on_fork := False\<rparr>
               else p) in
      if dl_prio (pt_prio p) then (- EAGAIN, p)
      else if rt_prio (pe_max_rt env) (pt_prio p) then (0, p\<lparr>pt_class := rt_sched_class\<rparr>)
      else (0, p\<lparr>pt_class := fair_sched_class\<rparr>))"

text \<open>\<^verbatim>\<open>copy_process\<close> around the call: the error, or the child.\<close>

definition copy_process_sched :: "pol_env \<Rightarrow> pol_task \<Rightarrow> int + pol_task" where
  "copy_process_sched env p =
     (case sched_fork env p of (retval, child) \<Rightarrow> if retval \<noteq> 0 then Inl retval else Inr child)"

section \<open>The timer of an entity\<close>

record dl_hrtimer =
  tm_active :: bool
  tm_function :: bool      \<comment> \<open>the function is \<^verbatim>\<open>dl_task_timer\<close>\<close>

text \<open>\<open>cancel\<close> is the kernel's \<^verbatim>\<open>hrtimer_try_to_cancel\<close>, which fails while the callback runs.\<close>

definition sched_fork_timer :: dl_hrtimer where
  "sched_fork_timer = \<lparr>tm_active = False, tm_function = False\<rparr>"

definition init_dl_task_timer :: "(dl_hrtimer \<Rightarrow> dl_hrtimer) \<Rightarrow> dl_hrtimer \<Rightarrow> dl_hrtimer" where
  "init_dl_task_timer cancel t =
     (if tm_active t then cancel t else \<lparr>tm_active = False, tm_function = True\<rparr>)"

definition switched_from_timer :: "(dl_hrtimer \<Rightarrow> dl_hrtimer) \<Rightarrow> int \<Rightarrow> dl_hrtimer \<Rightarrow> dl_hrtimer" where
  "switched_from_timer cancel policy t =
     (if tm_active t \<and> \<not> dl_policy policy then cancel t else t)"

section \<open>Affinity and root domains\<close>

definition setaffinity_dl :: "bool \<Rightarrow> int \<Rightarrow> nat set \<Rightarrow> nat set \<Rightarrow> int" where
  "setaffinity_dl enabled policy in_mask span = (if dl_policy policy \<and> enabled \<and> in_mask \<noteq> span then - EBUSY else 0)"

text \<open>\<open>doms\<close> has the bandwidth of every root domain, \<open>src\<close> is that of the task and \<open>dst\<close> that of the new processor.\<close>

definition set_task_cpu_dl :: "bool \<Rightarrow> nat \<Rightarrow> nat \<Rightarrow> nat \<Rightarrow> u64 \<Rightarrow> (nat \<Rightarrow> dl_bw) \<Rightarrow> bool \<times> (nat \<Rightarrow> dl_bw)" where
  "set_task_cpu_dl enabled weight src dst tsk_bw doms =
     (if src = dst then (True, doms)
      else if enabled \<and> dlb_bw (doms dst) * of_nat weight < dlb_total (doms dst) + tsk_bw then (False, doms)
      else (True, doms(src := dl_clear (doms src) tsk_bw, dst := dl_add (doms dst) tsk_bw)))"

definition migrate_task_dl :: "bool \<Rightarrow> nat \<Rightarrow> int \<Rightarrow> nat \<Rightarrow> nat \<Rightarrow> u64 \<Rightarrow> (nat \<Rightarrow> dl_bw) \<Rightarrow> bool \<times> (nat \<Rightarrow> dl_bw)" where
  "migrate_task_dl enabled weight prio src dst tsk_bw doms =
     (if dl_prio prio then set_task_cpu_dl enabled weight src dst tsk_bw doms else (True, doms))"

text \<open>The memory of a root domain; the last is allocated in \<^verbatim>\<open>cpudl_init\<close>.\<close>

datatype rd_mem = RdSpan | RdOnline | RdDloMask | RdRtoMask | RdCpudl | RdCpupri

text \<open>\<^verbatim>\<open>init_rootdomain\<close>, with what is granted: whether it succeeds, and what is held when it returns.\<close>

definition init_rootdomain :: "(rd_mem \<Rightarrow> bool) \<Rightarrow> bool \<times> rd_mem set" where
  "init_rootdomain granted =
     (let free_span = (\<lambda>m. (False, m - {RdSpan})); free_online = (\<lambda>m. free_span (m - {RdOnline}));
          free_dlo_mask = (\<lambda>m. free_online (m - {RdDloMask})); free_rto_mask = (\<lambda>m. free_dlo_mask (m - {RdRtoMask})) in
      if \<not> granted RdSpan then (False, {})
      else if \<not> granted RdOnline then free_span {RdSpan}
      else if \<not> granted RdDloMask then free_online {RdSpan, RdOnline}
      else if \<not> granted RdRtoMask then free_dlo_mask {RdSpan, RdOnline, RdDloMask}
      else if \<not> granted RdCpudl then free_dlo_mask {RdSpan, RdOnline, RdDloMask, RdRtoMask}
      else if \<not> granted RdCpupri then free_rto_mask {RdSpan, RdOnline, RdDloMask, RdRtoMask, RdCpudl}
      else (True, {RdSpan, RdOnline, RdDloMask, RdRtoMask, RdCpudl, RdCpupri}))"

definition cpudl_cleanup :: "rd_mem set \<Rightarrow> rd_mem set" where
  "cpudl_cleanup m = m"

definition free_rootdomain :: "rd_mem set \<Rightarrow> rd_mem set" where
  "free_rootdomain m = cpudl_cleanup (m - {RdCpupri}) - {RdDloMask, RdRtoMask, RdOnline, RdSpan}"

section \<open>A deadline task has no deadline children\<close>

text \<open>
  What the lines of \<^verbatim>\<open>sched_fork\<close> outside the patch do: the child gets the normal priority of its parent, and a
  reset gives it the priority of its new policy; neither touches the entity.
\<close>

definition fork_lines :: "pol_env \<Rightarrow> bool" where
  "fork_lines env \<longleftrightarrow>
     (\<forall>p. pe_fork_start env p = p\<lparr>pt_prio := pt_normal_prio p\<rparr>) \<and>
     (\<forall>p. pt_dl (pe_reset_rest env p) = pt_dl p \<and> pt_policy (pe_reset_rest env p) = pt_policy p \<and>
          pt_prio (pe_reset_rest env p) = pe_normal_prio env p) \<and>
     (\<forall>p. 0 \<le> pe_normal_prio env p)"

lemma fork_of_deadline_task:
  assumes env: "fork_lines env" and dl: "dl_policy (pt_policy p)" "pt_normal_prio p = MAX_DL_PRIO - 1"
  shows "\<not> pt_reset_on_fork p \<Longrightarrow> copy_process_sched env p = Inl (- EAGAIN)"
    and "pt_reset_on_fork p \<Longrightarrow> \<exists>c. copy_process_sched env p = Inr c \<and> pt_class c \<noteq> dl_sched_class \<and> pt_policy c = 0 \<and>
      \<not> pt_reset_on_fork c \<and> pt_dl c = sched_fork_entity (pt_dl p)"
proof -
  have e: "pe_fork_start env q = q\<lparr>pt_prio := pt_normal_prio q\<rparr>" "pt_dl (pe_reset_rest env q) = pt_dl q"
      "pt_policy (pe_reset_rest env q) = pt_policy q" "pt_prio (pe_reset_rest env q) = pe_normal_prio env q" "0 \<le> pe_normal_prio env q" for q
    using env by (simp_all add: fork_lines_def)
  show "\<not> pt_reset_on_fork p \<Longrightarrow> copy_process_sched env p = Inl (- EAGAIN)"
    using dl by (simp add: copy_process_sched_def sched_fork_def e dl_prio_def)
  show "pt_reset_on_fork p \<Longrightarrow> \<exists>c. copy_process_sched env p = Inr c \<and> pt_class c \<noteq> dl_sched_class \<and> pt_policy c = 0 \<and>
      \<not> pt_reset_on_fork c \<and> pt_dl c = sched_fork_entity (pt_dl p)"
    using dl e(5) by (auto simp: copy_process_sched_def sched_fork_def e(1-4) dl_prio_def MAX_DL_PRIO_def Let_def not_less)
qed

text \<open>
  The child that was reset keeps the bandwidth of its parent in its entity. When it asks for the same
  parameters it becomes a deadline task whatever is allocated already, and is not counted.
\<close>

lemma reset_child_not_counted:
  assumes "checkparam_dl prm" and "sched_period prm \<noteq> 0" and "dlb_bw dl_b \<noteq> 0"
  shows "\<exists>t. setscheduler_dl cpus enabled True \<lparr>is_dl = False, se = sched_fork_entity (setparam_dl d prm)\<rparr> True prm dl_b = (0, t, dl_b) \<and> is_dl t"
  using assms by (simp add: setscheduler_dl_def dl_overflow_def sched_fork_entity_def setparam_dl_def Let_def)

section \<open>The class follows the policy\<close>

lemma class_follows_policy:
  assumes "\<And>q. pe_getprio env q = pt_normal_prio q" and "\<And>q. uint (pe_max_rt env) \<le> pe_normal_prio env q \<and> pe_normal_prio env q < 2 ^ 31"
    and "uint (pe_max_rt env) < 2 ^ 31" and "0 < pt_rt_priority p" and "pt_rt_priority p < uint (pe_max_rt env)"
  shows "pt_class (setscheduler_prio env p) =
    (if dl_policy (pt_policy p) then dl_sched_class else if rt_policy (pt_policy p) then rt_sched_class else fair_sched_class)"
proof -
  have w: "uint (word_of_int x :: u32) = x" if "0 \<le> x" "x < 2 ^ 32" for x
    using that by (simp add: uint_word_of_int_eq take_bit_int_eq_self)
  let ?m = "uint (pe_max_rt env)" and ?n = "pe_normal_prio env p"
  have "uint (word_of_int (?m - 1 - pt_rt_priority p) :: u32) = ?m - 1 - pt_rt_priority p" by (rule w) (use assms(3-5) in simp_all)
  moreover have "uint (word_of_int ?n :: u32) = ?n" 
    by (rule w) (use assms(2) [of p] order_trans [OF uint_ge_0 [of "pe_max_rt env"]] in auto)
  ultimately show ?thesis
    using assms(2) [of p] assms(4,5) uint_ge_0 [of "pe_max_rt env"]
    by (simp add: setscheduler_prio_def normal_prio_def assms(1) dl_prio_def MAX_DL_PRIO_def rt_prio_def word_less_def Let_def)
qed

section \<open>Timers\<close>

text \<open>A timer that may expire has its function, whatever is done to it.\<close>

definition timer_ok :: "dl_hrtimer \<Rightarrow> bool" where
  "timer_ok t \<longleftrightarrow> (tm_active t \<longrightarrow> tm_function t)"

lemma timers_keep_function:
  assumes cancel: "\<And>t. tm_function (cancel t) = tm_function t"
  shows "timer_ok sched_fork_timer"
    and "timer_ok t \<Longrightarrow> timer_ok (init_dl_task_timer cancel t) \<and> tm_function (init_dl_task_timer cancel t)"
    and "timer_ok t \<Longrightarrow> timer_ok (switched_from_timer cancel policy t)"
  by (auto simp: timer_ok_def sched_fork_timer_def init_dl_task_timer_def switched_from_timer_def cancel)

section \<open>Moving to another root domain\<close>

text \<open>
  The task takes its bandwidth along: what all domains have allocated together stays the same, and
  the new domain does not exceed its capacity; a refused move changes nothing.
\<close>

lemma migration_moves_bandwidth:
  assumes "set_task_cpu_dl True weight src dst tsk_bw doms = (ok, doms')" and "src \<noteq> dst"
    and "unat tsk_bw \<le> unat (dlb_total (doms src))" and "unat (dlb_total (doms dst)) + unat tsk_bw < 2 ^ 64"
    and "unat (dlb_bw (doms dst)) * weight < 2 ^ 64"
  shows "if ok then unat (dlb_total (doms' src)) + unat (dlb_total (doms' dst)) = unat (dlb_total (doms src)) + unat (dlb_total (doms dst)) \<and>
      unat (dlb_total (doms' dst)) \<le> unat (dlb_bw (doms' dst)) * weight \<and> (\<forall>d. d \<noteq> src \<longrightarrow> d \<noteq> dst \<longrightarrow> doms' d = doms d)
    else doms' = doms"
proof -
  have a: "unat (dlb_total (doms dst) + tsk_bw) = unat (dlb_total (doms dst)) + unat tsk_bw"
    using assms(4) by (subst unat_add_lem [THEN iffD1]) simp_all
  have b: "unat (dlb_total (doms src) - tsk_bw) = unat (dlb_total (doms src)) - unat tsk_bw"
    using assms(3) by (intro unat_sub) (simp add: word_le_nat_alt)
  have c: "unat (dlb_bw (doms dst) * of_nat weight) = unat (dlb_bw (doms dst)) * weight"
    using assms(5) by (simp add: unat_word_ariths unat_of_nat mod_mult_right_eq)
  show ?thesis
    using assms(1-3) a b c by (auto simp: set_task_cpu_dl_def dl_clear_def dl_add_def word_less_nat_alt not_less split: if_splits)
qed

section \<open>The memory of a root domain\<close>

text \<open>
  When \<^verbatim>\<open>cpudl_init\<close> fails the mask \<^verbatim>\<open>rto_mask\<close> is not freed, when \<^verbatim>\<open>cpupri_init\<close> fails the mask of the push heap is not, and
  the latter is not freed with a domain that was set up; all other failures leave nothing.
\<close>

lemma rootdomain_memory:
  "init_rootdomain granted =
    (if \<forall>m \<in> {RdSpan, RdOnline, RdDloMask, RdRtoMask, RdCpudl, RdCpupri}. granted m
     then (True, {RdSpan, RdOnline, RdDloMask, RdRtoMask, RdCpudl, RdCpupri})
     else (False, if \<forall>m \<in> {RdSpan, RdOnline, RdDloMask, RdRtoMask}. granted m
                     then (if granted RdCpudl then {RdCpudl} else {RdRtoMask}) else {}))"
  "free_rootdomain {RdSpan, RdOnline, RdDloMask, RdRtoMask, RdCpudl, RdCpupri} = {RdCpudl}"
  by (auto simp: init_rootdomain_def free_rootdomain_def cpudl_cleanup_def Let_def)

end
