(* ===== verification/Device_Files.thy ===== *)
theory Device_Files
  imports Wait_Event Small_Modules Mmap_Device Kobject_Attr
begin

text \<open>
  The tables through which the kernel reaches the handlers of the device labs: \<^verbatim>\<open>struct file_operations\<close> and
  \<^verbatim>\<open>struct miscdevice\<close> of \<^verbatim>\<open>char-device-labs/lab-misc.c\<close>, \<^verbatim>\<open>wait-event-labs/wait_event.c\<close>, \<^verbatim>\<open>poll-labs/poll.c\<close>,
  \<^verbatim>\<open>mmap-labs/mmap.c\<close> and \<^verbatim>\<open>mmap-root/mmap-root.c\<close>, the attribute of \<^verbatim>\<open>kobject-ueveng-lab/kobject-event.c\<close>, the probe of
  \<^verbatim>\<open>kprobe-labs/kprobe.c\<close>, and the open and release functions not modelled with their device. A table is a
  record with an entry for every handler, of the type the handler has; an entry that is not set is \<^term>\<open>None\<close>.

  Shown: a call with no entry is refused and changes nothing; a file of the misc device that is opened,
  read, written and closed through its table counts the openings and keeps its size; the three misc
  devices have the same name.
\<close>

section \<open>Tables\<close>

record ('op, 'rel, 'rd, 'wr, 'mm, 'po, 'io) file_operations =
  fo_open :: "'op option"
  fo_release :: "'rel option"
  fo_read :: "'rd option"
  fo_write :: "'wr option"
  fo_mmap :: "'mm option"
  fo_poll :: "'po option"
  fo_ioctl :: "'io option"

datatype minor = MISC_DYNAMIC_MINOR | Minor nat

record 'f miscdevice =
  md_minor :: minor
  md_name :: string
  md_fops :: 'f

definition MYDEV_NAME :: string where
  "MYDEV_NAME = ''mycdev''"

section \<open>lab-misc.c\<close>

definition mycdev_fops where
  "mycdev_fops = \<lparr>fo_open = Some mycdev_generic_open, fo_release = Some mycdev_generic_release, fo_read = Some mycdev_generic_read,
     fo_write = Some mycdev_generic_write, fo_mmap = None :: unit option, fo_poll = None :: unit option, fo_ioctl = None :: unit option\<rparr>"

definition my_misc_device where
  "my_misc_device = \<lparr>md_minor = MISC_DYNAMIC_MINOR, md_name = MYDEV_NAME, md_fops = mycdev_fops\<rparr>"

section \<open>wait\_event.c\<close>

text \<open>The handlers are steps of threads; opening counts as in \<^verbatim>\<open>lab-misc.c\<close>.\<close>

definition we_open :: "u32 \<Rightarrow> int \<times> u32" where
  "we_open counter = (0, counter + 1)"

definition we_release :: int where
  "we_release = 0"

definition we_fops where
  "we_fops = \<lparr>fo_open = Some we_open, fo_release = Some we_release, fo_read = Some read_step, fo_write = Some write_step,
     fo_mmap = None :: unit option, fo_poll = None :: unit option, fo_ioctl = None :: unit option\<rparr>"

definition we_misc_device where
  "we_misc_device = \<lparr>md_minor = MISC_DYNAMIC_MINOR, md_name = MYDEV_NAME, md_fops = we_fops\<rparr>"

section \<open>poll.c\<close>

definition poll_fops where
  "poll_fops = \<lparr>fo_open = Some kern_open, fo_release = Some kern_release, fo_read = None :: unit option, fo_write = None :: unit option,
     fo_mmap = None :: unit option, fo_poll = Some kern_poll, fo_ioctl = Some kern_unlocked_ioctl\<rparr>"

definition poll_misc_device where
  "poll_misc_device = \<lparr>md_minor = MISC_DYNAMIC_MINOR, md_name = MYDEV_NAME, md_fops = poll_fops\<rparr>"

section \<open>The mmap devices\<close>

definition demo_open :: int where
  "demo_open = 0"

definition demo_release :: int where
  "demo_release = 0"

definition demo_fops where
  "demo_fops = \<lparr>fo_open = Some demo_open, fo_release = Some demo_release, fo_read = None :: unit option, fo_write = None :: unit option,
     fo_mmap = Some demo_mmap, fo_poll = None :: unit option, fo_ioctl = None :: unit option\<rparr>"

definition cve_open :: int where
  "cve_open = 0"

definition cve_fops where
  "cve_fops = \<lparr>fo_open = Some cve_open, fo_release = Some dev_release, fo_read = None :: unit option, fo_write = None :: unit option,
     fo_mmap = Some simple_mmap, fo_poll = None :: unit option, fo_ioctl = None :: unit option\<rparr>"

section \<open>The attribute and the probe\<close>

record ('sh, 'st) attribute_file =
  at_name :: string
  at_mode :: nat                 \<comment> \<open>permission bits\<close>
  at_show :: "'sh option"
  at_store :: "'st option"

definition cld_att where
  "cld_att = \<lparr>at_name = ''jeff'', at_mode = 4 * 64 + 4 * 8 + 4 + 2 * 64, at_show = Some att_show, at_store = Some att_store\<rparr>"

text \<open>The probe's handler: the line it prints, of \<^verbatim>\<open>current->pid\<close> and \<^verbatim>\<open>current->comm\<close>, and its result.\<close>

definition handler_pre :: "int \<Rightarrow> string \<Rightarrow> int \<times> (int \<times> string)" where
  "handler_pre pid comm = (0, (pid, comm))"

section \<open>Calls through a table\<close>

text \<open>\<open>refuse\<close> is what the kernel answers when there is no entry.\<close>

definition through :: "'h option \<Rightarrow> ('h \<Rightarrow> 'r) \<Rightarrow> 'r \<Rightarrow> 'r" where
  "through entry call refuse = (case entry of None \<Rightarrow> refuse | Some h \<Rightarrow> call h)"

lemma through_simps [simp]: "through None call refuse = refuse" "through (Some h) call refuse = call h"
  by (simp_all add: through_def)

text \<open>A file of the misc device: its position, the count of openings and the buffer.\<close>

record misc_file =
  mf_pos :: u64
  mf_opened :: u32
  mf_ramdisk :: bytes

datatype file_call = FOpen | FRead nat | FWrite bytes | FClose

definition misc_call :: "(nat \<Rightarrow> nat) \<Rightarrow> file_call \<Rightarrow> misc_file \<Rightarrow> cdev_fault + int \<times> bytes \<times> misc_file" where
  "misc_call uncopied c s =
     (case c of
        FOpen \<Rightarrow> through (fo_open (md_fops my_misc_device))
          (\<lambda>h. case h (mf_opened s) of (r, k) \<Rightarrow> Inr (r, [], s\<lparr>mf_pos := 0, mf_opened := k\<rparr>)) (Inr (0, [], s\<lparr>mf_pos := 0\<rparr>))
      | FRead n \<Rightarrow> through (fo_read (md_fops my_misc_device))
          (\<lambda>h. case h uncopied (mf_ramdisk s) (of_nat n) (mf_pos s) of
             Inl e \<Rightarrow> Inl e | Inr (r, bs) \<Rightarrow> Inr (fr_ret r, bs, s\<lparr>mf_pos := fr_pos r\<rparr>)) (Inr (- EINVAL, [], s))
      | FWrite bs \<Rightarrow> through (fo_write (md_fops my_misc_device))
          (\<lambda>h. case h uncopied (mf_ramdisk s) bs (of_nat (length bs)) (mf_pos s) of
             Inl e \<Rightarrow> Inl e | Inr (r, m) \<Rightarrow> Inr (fr_ret r, [], s\<lparr>mf_pos := fr_pos r, mf_ramdisk := m\<rparr>)) (Inr (- EINVAL, [], s))
      | FClose \<Rightarrow> through (fo_release (md_fops my_misc_device)) (\<lambda>h. Inr (h, [], s)) (Inr (0, [], s)))"

fun misc_session :: "(nat \<Rightarrow> nat) \<Rightarrow> file_call list \<Rightarrow> misc_file \<Rightarrow> cdev_fault + misc_file" where
  "misc_session uncopied [] s = Inr s"
| "misc_session uncopied (c # cs) s =
     (case misc_call uncopied c s of Inl e \<Rightarrow> Inl e | Inr (r, bs, s') \<Rightarrow> misc_session uncopied cs s')"

section \<open>Sessions\<close>

lemmas table_simps = my_misc_device_def mycdev_fops_def we_misc_device_def we_fops_def poll_misc_device_def poll_fops_def
  demo_fops_def cve_fops_def

text \<open>Data and requests of less than 2 GiB, as the kernel limits them.\<close>

definition call_ok :: "file_call \<Rightarrow> bool" where
  "call_ok c = (case c of FRead n \<Rightarrow> n < 2 ^ 31 | FWrite bs \<Rightarrow> length bs < 2 ^ 31 | _ \<Rightarrow> True)"

definition file_ok :: "misc_file \<Rightarrow> bool" where
  "file_ok s \<longleftrightarrow> length (mf_ramdisk s) = 65536 \<and> unat (mf_pos s) \<le> 65536"

lemma unat_small: "n < 2 ^ 31 \<Longrightarrow> unat (of_nat n :: u64) = n"
  by (simp add: unat_of_nat)

lemma misc_call_ok:
  assumes "\<And>k. uncopied k \<le> k" and "file_ok s" and "call_ok c"
  shows "\<exists>r bs s'. misc_call uncopied c s = Inr (r, bs, s') \<and> 0 \<le> r \<and> file_ok s' \<and>
    mf_opened s' = mf_opened s + (if c = FOpen then 1 else 0)"
proof -
  have s: "length (mf_ramdisk s) = 65536" "unat (mf_pos s) \<le> 65536" using assms(2) by (auto simp: file_ok_def)
  show ?thesis
  proof (cases c)
    case (FRead n)
    then have n: "unat (of_nat n :: u64) < 2 ^ 31" using assms(3) by (simp add: call_ok_def unat_small)
    define k where "k = min (unat (of_nat n :: u64)) (65536 - unat (mf_pos s))"
    obtain r where r: "mycdev_generic_read uncopied (mf_ramdisk s) (of_nat n) (mf_pos s) =
        Inr (r, take (k - uncopied k) (drop (unat (mf_pos s)) (mf_ramdisk s)))"
        "fr_ret r = int (k - uncopied k)" "unat (fr_pos r) = unat (mf_pos s) + (k - uncopied k)"
      using read_in_range [OF s n k_def, of uncopied] assms(1) [of k] by blast
    have "k - uncopied k \<le> 65536 - unat (mf_pos s)" by (simp add: k_def)
    then have "unat (fr_pos r) \<le> 65536" using r(3) s(2) by linarith
    then show ?thesis using r(1,2) s(1) by (simp add: FRead misc_call_def table_simps file_ok_def)
  next
    case (FWrite bs)
    then have n: "unat (of_nat (length bs) :: u64) < 2 ^ 31" using assms(3) by (simp add: call_ok_def unat_small)
    define k where "k = min (unat (of_nat (length bs) :: u64)) (65536 - unat (mf_pos s))"
    define m where "m = (if k = 0 then mf_ramdisk s else mem_splice (mf_ramdisk s) (unat (mf_pos s)) (take (k - uncopied k) bs @ replicate (uncopied k) 0))"
    obtain r where r: "mycdev_generic_write uncopied (mf_ramdisk s) bs (of_nat (length bs)) (mf_pos s) = Inr (r, m)"
        "fr_ret r = int (k - uncopied k)" "unat (fr_pos r) = unat (mf_pos s) + (k - uncopied k)"
      using write_in_range [OF s n k_def, of uncopied bs] assms(1) [of k] unfolding m_def by blast
    have "unat (of_nat (length bs) :: u64) = length bs" using FWrite assms(3) by (intro unat_small) (simp add: call_ok_def)
    then have "k \<le> length bs" "k \<le> 65536 - unat (mf_pos s)" by (simp_all add: k_def)
    then have "length (take (k - uncopied k) bs @ replicate (uncopied k) 0) = k" "unat (fr_pos r) \<le> 65536"
      using assms(1) [of k] r(3) s(2) by simp_all
    moreover from this(1) have "length m = 65536" using s \<open>k \<le> 65536 - unat (mf_pos s)\<close> by (simp add: m_def)
    ultimately show ?thesis using r(1,2) by (simp add: FWrite misc_call_def table_simps file_ok_def)
  qed (use s in \<open>simp_all add: misc_call_def table_simps file_ok_def mycdev_generic_open_def mycdev_generic_release_def\<close>)
qed

text \<open>
  A session on the misc device through its table: whatever is opened, read, written and closed, in any order
  and however much the user copies leave out, no handler leaves the buffer, the position stays in the
  file, and the static counter has counted the openings.
\<close>

lemma misc_session_safe:
  assumes "\<And>k. uncopied k \<le> k" and "file_ok s" and "\<forall>c \<in> set cs. call_ok c"
  shows "\<exists>s'. misc_session uncopied cs s = Inr s' \<and> file_ok s' \<and>
    mf_opened s' = mf_opened s + of_nat (length (filter (\<lambda>c. c = FOpen) cs))"
  using assms(2,3)
proof (induction cs arbitrary: s)
  case (Cons c cs)
  obtain r bs s1 where s1: "misc_call uncopied c s = Inr (r, bs, s1)" "file_ok s1"
      "mf_opened s1 = mf_opened s + (if c = FOpen then 1 else 0)"
    using misc_call_ok [OF assms(1) Cons.prems(1), of c] Cons.prems(2) by auto
  with Cons.IH [OF s1(2)] Cons.prems(2) show ?case by auto
qed simp

text \<open>The devices that serve a page or a wait queue have nothing to read; all three misc devices have one name.\<close>

lemma tables:
  "fo_read (md_fops poll_misc_device) = None" "fo_write (md_fops poll_misc_device) = None"
  "fo_read demo_fops = None" "fo_write demo_fops = None" "fo_read cve_fops = None" "fo_write cve_fops = None"
  "md_name my_misc_device = MYDEV_NAME" "md_name we_misc_device = MYDEV_NAME" "md_name poll_misc_device = MYDEV_NAME"
  by (simp_all add: table_simps)

text \<open>The attribute can be written by its owner only, and read by everybody.\<close>

lemma cld_att_mode: "at_mode cld_att = 420"
  by (simp add: cld_att_def)

end
