(* ===== verification/Spec2Isabelle.thy ===== *)
theory Spec2Isabelle
  imports Sample_Blk Ramhd_Req Wait_Event Name_Hash Product_Tree Bottom_Half Sync_Counter Kvm_Main
    Small_Modules Memory_Scan Mmap_Device Kobject_Attr Vm_Area Module_Ring Deadline_Runqueue Timer_Labs
    Deadline_Sysctl Deadline_System Deadline_Policy Device_Files
begin

text \<open>
  \<^bold>\<open>Linux kernel labs: a verification library.\<close>

  The repository is a collection of small Linux kernel modules and of user programs that
  exercise them. Each directory of \<^verbatim>\<open>src/\<close> is one or more programs; they do not call each
  other, but they are built from the same few mechanisms (registration and removal of a
  module, a RAM buffer behind a device file, deferred work, a lock around a counter, a table
  searched by name), and the development follows these mechanisms: the contract of each is
  a locale, and the labs are its interpretations.

  \<^bold>\<open>Theories.\<close>

  \<^item> \<open>Kernel_Prelude\<close>: C integers at their widths and the implicit conversions between them,
    error numbers and error pointers, byte memory in which an access out of range is
    \<^term>\<open>None\<close>, decimal printing. \<open>C_Strings\<close>: \<^verbatim>\<open>strcmp\<close>, \<^verbatim>\<open>strncmp\<close>, \<^verbatim>\<open>strnlen\<close>. \<open>Pointer_Walk\<close>:
    loops that follow pointers through memory until they meet their end, which may fault or not
    return; paths and rings on which they do return. \<open>C_Layout\<close>: sizes, alignment and offsets of the
    structures that programs and kernel exchange as bytes, with typed loads and stores through
    designators such as \<^verbatim>\<open>tss->rsp[1]\<close>; shown for \<^verbatim>\<open>struct tss64\<close>, \<^verbatim>\<open>sched_attr\<close> and \<^verbatim>\<open>sched_param2\<close>: every
    field lies inside, and a store changes what is loaded through that designator only.
  \<^item> \<open>Module_Lifecycle\<close>: the kernel calls of init and exit functions over the multiset of
    resources a module holds. An init function maps the kernel's answers to a return value,
    the globals and the calls made; a call on something not held (a second free, a null
    pointer) is \<^term>\<open>None\<close>. Locales \<open>unloadable\<close> (unloading gives back everything) and
    \<open>loadable\<close> (a failed load has given back everything too).
  \<^item> \<open>Block_Layer\<close>: bio segments, gathering and scattering; locale \<open>segment_io\<close> (a driver that
    serves segments like a byte array). \<open>Sample_Blk\<close> models \<^verbatim>\<open>ramdisk-lab/sample_blk.c\<close>
    (\<^verbatim>\<open>sampleblk_request\<close>, \<^verbatim>\<open>sampleblk_handle_io\<close>, \<^verbatim>\<open>sampleblk_alloc\<close>, \<^verbatim>\<open>sampleblk_free\<close>, init and
    exit), \<open>Ramhd_Mkreq\<close> models \<^verbatim>\<open>ramhd_mkreq.c\<close>, \<open>Ramhd_Req\<close> models \<^verbatim>\<open>ramhd_req.c\<close>; what the latter repeats
    of the former has the suffix \<open>_q\<close> there and is shown to agree. Shown: the
    drivers refine a disk (a read returns what was last written, other sectors and the other
    disk keep their contents), every request is completed once and in order, what happens on
    every error path, which paths leak, and which requests leave the disk's memory.
  \<^item> \<open>Char_Device\<close>: \<^verbatim>\<open>char-device-labs/\<close> (read and write handlers with their \<^verbatim>\<open>int\<close> arithmetic,
    registration of the misc device and of the \<^verbatim>\<open>cdev\<close>, the two test programs); locale
    \<open>ram_file\<close>. \<open>Wait_Event\<close>: \<^verbatim>\<open>wait-event-labs/\<close> as a state machine of concurrent readers and
    writers. Shown: the device is a file; positions past the end overrun the buffer; no
    wake-up is lost and a write is handed to a sleeping reader, but a write can be forgotten
    when a reader clears the flag behind it. \<open>Device_Files\<close>: the tables of handlers of all device labs, and
    sessions on the misc device through its table, which never leave the buffer.
  \<^item> \<open>Lookup_Table\<close>: locales \<open>lookup_table\<close> and \<open>deletable_table\<close>. \<open>Name_Hash\<close>:
    \<^verbatim>\<open>data-struct-labs/hlist.c\<close>. \<open>Product_Tree\<close>: \<^verbatim>\<open>rbtree.c\<close>, with the kernel's \<^verbatim>\<open>rb_insert_color\<close>
    and \<^verbatim>\<open>rb_erase\<close> as parameters. Shown: both are maps from names; adding a name twice to the
    tree does not return; clearing the tree frees no node twice.
  \<^item> \<open>Bottom_Half\<close>: \<^verbatim>\<open>interrupt-labs/\<close>, four state machines; locale \<open>deferred_work\<close>. Shown: a
    bottom half runs at most once for an interrupt with a tasklet, a work item or an added
    thread; the threaded interrupt serves all pending events, and runs \<open>2 ^ 32\<close> turns when it
    is woken with none.
  \<^item> \<open>Sync_Counter\<close>: \<^verbatim>\<open>sync/\<close>, threads over a lock; locale \<open>exclusion\<close>, interpreted for the
    spinlock and mutex and for the reader-writer lock, and the modules around them. Shown: mutual exclusion and an exact
    counter for any number of threads; the completion orders its two threads.
  \<^item> \<open>Kvm_Guest\<close>: the guest that \<^verbatim>\<open>kvm-test-lab/kvm-test.c\<close> prepares; \<open>Kvm_Program\<close>: the calls
    \<^verbatim>\<open>test\<close> makes to run it, with the table of \<^verbatim>\<open>CPUID\<close> leaves it passes on, and \<^verbatim>\<open>kvm-test-2.c\<close>;
    \<open>Kvm_Main\<close>: \<^verbatim>\<open>main\<close> of the first program, which forks one worker after the other, as a step
    relation. Shown: all writes stay in the guest's memory, the
    page tables map the first 2 MiB one to one, which bits of a descriptor are lost, that the
    exception handlers are overwritten; the two threads of the second program prepare and run
    their guest in any order; the supervisor never has two workers.
  \<^item> \<open>Small_Modules\<close>: \<^verbatim>\<open>list.c\<close>, \<^verbatim>\<open>timer-labs/\<close>, \<^verbatim>\<open>notifier-module.c\<close>, \<^verbatim>\<open>mod_kmem_cache.c\<close>, \<^verbatim>\<open>poll.c\<close>,
    the loading of \<^verbatim>\<open>sched-lab/kthread_run.c\<close>, and \<^verbatim>\<open>kprobe.c\<close>. \<open>Mmap_Device\<close>: \<^verbatim>\<open>mmap-labs/\<close> (the module
    \<^verbatim>\<open>mmap.c\<close>, its test program \<^verbatim>\<open>main.c\<close>, \<^verbatim>\<open>rammap.c\<close>) and \<^verbatim>\<open>mmap-root/mmap-root.c\<close>. \<open>Kobject_Attr\<close>:
    \<^verbatim>\<open>kobject-event.c\<close>. \<open>Vm_Area\<close>: \<^verbatim>\<open>mm-lab/vm_area.c\<close>. \<open>Module_Ring\<close>: \<^verbatim>\<open>data-struct-labs/taints.c\<close>. Shown:
    program and module share the page, the attribute sends the events asked for, the two walks
    through kernel lists end and print each element once.
  \<^item> \<open>Memory_Scan\<close>: \<^verbatim>\<open>mmap-root/jeff-mmap.c\<close>, \<^verbatim>\<open>mmap-get-root.c\<close> and \<^verbatim>\<open>kmalloc.c\<close>, and \<^verbatim>\<open>memcheck\<close> of
    \<^verbatim>\<open>include/kernel_helper.h\<close>. Shown: the program finds the module's text and patches it, and
    nothing else.
  \<^item> \<open>Sched_Lab\<close>: the thread, the tasklet and the work item of \<^verbatim>\<open>sched-lab/\<close> as step relations;
    locale \<open>joined_worker\<close> (nothing of a module runs once its exit function has returned).
    \<open>Timer_Labs\<close>: the two timers of \<^verbatim>\<open>timer-labs/\<close> against the clock and the removal of their modules;
    \<^verbatim>\<open>hrtimer.c\<close> satisfies the locale, and \<^verbatim>\<open>timer.c\<close> is shown to be entered in freed code.
    \<open>Deadline_Test\<close>: \<^verbatim>\<open>sched-dl/patch-dl/test-dl.c\<close>, the two threads of the deadline test.
  \<^item> The deadline scheduler, which \<^verbatim>\<open>sched-dl/patch-dl/sched-add-sched_dl.patch\<close> adds to the kernel.
    \<open>Cpu_Deadline\<close>: the push heap \<^verbatim>\<open>cpudeadline.c\<close>; locale \<open>latest_map\<close> (a map from processors to
    deadlines with its latest entry on top). \<open>Deadline_Runqueue\<close>: the queues of \<^verbatim>\<open>deadline.c\<close>, which
    keep the push heap up to date. \<open>Deadline_Balance\<close>: the trees of pushable tasks, and pushing and pulling
    tasks between processors. \<open>Deadline_Class\<close>: the other entries of \<^verbatim>\<open>dl_sched_class\<close>, built on these
    (waking up, preempting, changing class, parameters or affinity, going off line).
    \<open>Deadline_Server\<close>: the check and admission of a task's parameters
    in \<^verbatim>\<open>core.c\<close> and the bandwidth server of \<^verbatim>\<open>deadline.c\<close>, with the parameters of \<^verbatim>\<open>test-dl.c\<close> as an
    example. \<open>Deadline_Budget\<close>: what the server promises over any sequence of charges, timer calls and wake-ups of a
    task; locale \<open>potential\<close>. \<open>Deadline_Throttle\<close>: the server and the queues put together, with the tick, the timer, yielding and
    the counter \<^verbatim>\<open>nr_running\<close>. \<open>Deadline_System\<close>: a task in that system, seen from its entity. \<open>Deadline_Policy\<close>: the hunks of \<^verbatim>\<open>core.c\<close> and \<^verbatim>\<open>fork.c\<close> that tell the rest of the scheduler about
    deadline tasks (priorities and classes, fork, affinity, root domains). \<open>Deadline_Syscalls\<close>: the three system calls over it, with their structure as bytes in user
    memory. \<open>Deadline_Sysctl\<close>: the system-wide settings and the handlers that change them. \<open>Deadline_Inherit\<close>: the trees of
    the tasks that wait for a mutex, and what its owner inherits; locale \<open>urgency_queue\<close>.
    Shown: the heap refines the map; the next task has the earliest deadline and the heap
    follows the queues; whatever wakes up, sleeps, is pushed or pulled, no task is lost, doubled or put
    where it may not run, pushing ends, and pulling never takes what its processor should run first;
    replenishing ends with a budget and a deadline that is not past; a task gets at most its share of
    the time up to its deadline, and two microseconds for a wake-up, alone and among any other tasks
    on any processors; a throttled task is on no queue until its timer puts it back; the
    bandwidth test is the inequality it stands for; admission stays within the capacity; parameters
    come back as they were set; the settings stay consistent and their shares exact; the owner of a
    mutex runs with the priority and deadline of its most urgent waiter. Also shown
    are parameters that make the replenishment loop run for ever, a period of 0 that escapes
    admission, that a task that yields is never replenished, that \<^verbatim>\<open>sched_getparam2\<close> copies kernel
    stack to the user, that a new setting is checked after the old value, that a task with a deadline before its
    period exceeds its share by sleeping often, that \<^verbatim>\<open>nr_running\<close> grows with every round of throttling, that the timer
    of a boosted task fails an assertion, and that the child of a deadline task is not counted.
  \<^item> This theory: the test programs of \<^verbatim>\<open>char-device-labs/\<close> run over the driver, and sequences
    of different modules.

  \<^bold>\<open>Conventions.\<close> State that the C code keeps in globals is a record passed along; error
  codes are the negative numbers of the code; undefined behaviour (an access outside a
  buffer, a null pointer) is an explicit failure value, never an arbitrary result. What the
  kernel answers (pointers, error codes, how many bytes a user copy left out, how a tree is
  rebalanced) is a parameter. Concurrency is a sequence of events, one per access to shared
  state; theorems quantify over all sequences. Loops are recursive functions on the data
  they walk; the only fuel is in \<open>clear_loop\<close>, where the size of the tree is enough because
  every turn erases a node (shown by \<open>clear_loop_frees\<close>). Loops that may not end (that of
  \<^verbatim>\<open>rb_tree_add\<close>, the walks of \<open>Pointer_Walk\<close>, the replenishment of a budget, \<^verbatim>\<open>push_dl_tasks\<close>) are partial functions
  whose \<^term>\<open>None\<close> means exactly that, and where they do return this is shown.

  \<^bold>\<open>Not modelled.\<close> Output of \<^verbatim>\<open>printk\<close> and \<^verbatim>\<open>printf\<close> except where it is the lab's result;
  delays except those of \<^verbatim>\<open>timer-labs/\<close>; the effect of ioctls on KVM; the guest's instructions; the function
  \<^verbatim>\<open>printg\<close> that \<^verbatim>\<open>main\<close> of \<^verbatim>\<open>kvm-test.c\<close> calls and that is defined nowhere, which is a parameter; generated
  files such as \<^verbatim>\<open>sample_blk.mod.c\<close>. Of the
  scheduler patches: the race in \<^verbatim>\<open>double_lock_balance\<close> (a queue's lock is taken not to be dropped), taking and
  releasing a mutex, of which the patch has parts only, the accounting of other subsystems, tracing and
  the printing of statistics; lines between the hunks of functions the patch changes are parameters;
  the numbered patches are the same code in parts.
\<close>

section \<open>The test programs over the misc device\<close>

text \<open>
  The system calls of the programs, served by the driver of \<^verbatim>\<open>lab-misc.c\<close>: a freshly opened
  device file is at position 0, and the handlers are reached through the table that was registered
  under the device's name. The state is the driver's buffer.
\<close>

definition dev_open :: "string \<Rightarrow> int" where
  "dev_open name = (if name = ''/dev/'' @ md_name my_misc_device then 3 else - 1)"

definition dev_write :: "int \<Rightarrow> bytes \<Rightarrow> bytes \<Rightarrow> int \<times> bytes" where
  "dev_write fd bs m =
     through (fo_write (md_fops my_misc_device))
       (\<lambda>h. case h (\<lambda>k. 0) m bs (of_nat (length bs)) 0 of Inl e \<Rightarrow> (- 1, m) | Inr (r, m') \<Rightarrow> (fr_ret r, m')) (- 1, m)"

definition dev_read :: "int \<Rightarrow> nat \<Rightarrow> bytes \<Rightarrow> int \<times> bytes \<times> bytes" where
  "dev_read fd n m =
     through (fo_read (md_fops my_misc_device))
       (\<lambda>h. case h (\<lambda>k. 0) m (of_nat n) 0 of Inl e \<Rightarrow> (- 1, [], m) | Inr (r, bs) \<Rightarrow> (fr_ret r, bs, m)) (- 1, [], m)"

section \<open>Modules in sequence\<close>

text \<open>The labs whose modules keep the contract of \<open>loadable\<close>, with what the kernel answers them.\<close>

datatype lab =
    LHlist hlist_answers
  | LTasklet irq_answers
  | LWork irq_answers
  | LThreaded irq_answers
  | LHighMem "ptr \<times> u32 list"
  | LHrtimer
  | LNotifier ptr
  | LSlab "ptr \<times> ptr"
  | LDemoMap mmap_answers
  | LCveMmap mmap_answers
  | LPoll int
  | LKthread ptr
  | LKmalloc ptr
  | LSpinlock "ptr \<times> ptr"
  | LAtomic "ptr \<times> ptr"
  | LRwLock sync_answers

definition lab_calls :: "lab \<Rightarrow> kcall list" where
  "lab_calls l = (case l of
      LHlist a \<Rightarrow> load_unload hlist_module_init hlist_module_exit a
    | LTasklet a \<Rightarrow> load_unload tasklet_init tasklet_exit a
    | LWork a \<Rightarrow> load_unload work_init work_exit a
    | LThreaded a \<Rightarrow> load_unload ti_init ti_exit a
    | LHighMem a \<Rightarrow> load_unload high_mem_init high_mem_exit a
    | LHrtimer \<Rightarrow> load_unload hrtimer_init hrtimer_exit ()
    | LNotifier a \<Rightarrow> load_unload hello_init hello_exit a
    | LSlab a \<Rightarrow> load_unload jslab_init jslab_exit a
    | LDemoMap a \<Rightarrow> load_unload demo_map_init demo_map_exit a
    | LCveMmap a \<Rightarrow> load_unload cve_mmap_init cve_mmap_exit a
    | LPoll r \<Rightarrow> load_unload poll_init poll_exit r
    | LKthread p \<Rightarrow> load_unload kthread_init kthread_exit p
    | LKmalloc p \<Rightarrow> load_unload init_kmalloc exit_kmalloc p
    | LSpinlock a \<Rightarrow> load_unload spinlock_init spinlock_exit a
    | LAtomic a \<Rightarrow> load_unload atomic_init atomic_exit a
    | LRwLock a \<Rightarrow> load_unload threads_init threads_exit a)"

text \<open>
  Where a module relies on the kernel: the slab's object is granted, and the registration
  functions answer with 0 or a negative number, and the threads are started.
\<close>

definition lab_ok :: "lab \<Rightarrow> bool" where
  "lab_ok l = (case l of
      LSlab a \<Rightarrow> snd a \<noteq> NULL
    | LDemoMap a \<Rightarrow> mmap_answers_ok a
    | LCveMmap a \<Rightarrow> mmap_answers_ok a
    | LKthread p \<Rightarrow> \<not> IS_ERR p
    | LSpinlock a \<Rightarrow> pair_granted a
    | LAtomic a \<Rightarrow> pair_granted a
    | LRwLock a \<Rightarrow> threads_granted a
    | _ \<Rightarrow> True)"

lemma lab_calls_balanced: "lab_ok l \<Longrightarrow> kexec {#} (lab_calls l) = Some {#}"
  using hlist_mod.load_attempts [where es = "[a]" for a] tasklet_mod.load_attempts [where es = "[a]" for a]
    work_mod.load_attempts [where es = "[a]" for a] ti_mod.load_attempts [where es = "[a]" for a]
    high_mem_mod.load_attempts [where es = "[a]" for a] hrtimer_mod.load_attempts [where es = "[a]" for a]
    notifier_mod.load_attempts [where es = "[a]" for a] jslab_mod.load_attempts [where es = "[a]" for a]
    demo_map_mod.load_attempts [where es = "[a]" for a] cve_mmap_mod.load_attempts [where es = "[a]" for a]
    poll_mod.load_attempts [where es = "[a]" for a] kthread_mod.load_attempts [where es = "[a]" for a]
    kmalloc_mod.load_attempts [where es = "[a]" for a] spinlock_mod.load_attempts [where es = "[a]" for a]
    atomic_mod.load_attempts [where es = "[a]" for a] threads_mod.load_attempts [where es = "[a]" for a]
  by (cases l) (simp_all add: lab_calls_def lab_ok_def)

section \<open>Properties that span components\<close>

text \<open>
  C11. The two test programs and the driver together: after \<^verbatim>\<open>lab_write\<close> has run on the device,
  \<^verbatim>\<open>lab_read\<close> prints exactly the text that was written, whatever was in the buffer before.
\<close>

theorem lab_programs_round_trip:
  assumes "length m = 65536" and "dev_filename argv = ''/dev/mycdev''" and "dev_filename argv' = ''/dev/mycdev''"
  shows "\<exists>m'. lab_write_main dev_open dev_write argv m = (0, m') \<and> length m' = 65536 \<and>
     lab_read_main dev_open dev_read argv' m' = Inr (0, bytes_of_string test_text, m')"
proof -
  let ?t = "bytes_of_string test_text"
  have l: "length ?t = 32" "length test_text = 32" by (simp_all add: test_text_def)
  have p: "plain ?t" by (simp add: test_text_def bytes_of_string_def byte_of_char_def)
  have t: "0 + length ?t \<le> 65536" "length ?t \<le> 2 ^ 31 - 1" by (simp_all add: l)
  from misc.write_then_read [OF assms(1) t] obtain m' where
    "misc_wr m 0 ?t = Some (m', length ?t)" and m': "length m' = 65536" and
    "misc_rd m' 0 (length ?t) = Some (?t, length ?t)"
    by auto
  then obtain r1 r2 where
    "mycdev_generic_write (\<lambda>k. 0) m ?t (of_nat (length ?t)) 0 = Inr (r1, m')" and
    r2: "mycdev_generic_read (\<lambda>k. 0) m' (of_nat (length ?t)) 0 = Inr (r2, ?t)"
    by (auto simp: misc_wr_def misc_rd_def split: sum.splits)
  moreover have "fr_ret r2 = 32"
    using read_in_range [of m' 0 "of_nat 32" 32 "\<lambda>k. 0"] r2 m' l(1) by auto
  ultimately show ?thesis
    using assms(2,3) m' l p
    by (simp add: lab_write_main_def lab_read_main_def dev_open_def dev_write_def dev_read_def table_simps MYDEV_NAME_def)
qed

theorem lab_programs_round_trip_witness:
  "\<exists>m'. lab_write_main dev_open dev_write [''lab_write''] (replicate 65536 0) = (0, m') \<and>
     lab_read_main dev_open dev_read [''lab_read'', ''/dev/mycdev''] m' = Inr (0, bytes_of_string test_text, m')"
proof -
  have "length (replicate 65536 (0 :: u8)) = 65536" by simp
  from lab_programs_round_trip [OF this, of "[''lab_write'']" "[''lab_read'', ''/dev/mycdev'']"]
  show ?thesis by (auto simp: dev_filename_def)
qed



end
